(* ===== verification/Prelude.thy ===== *)
theory Prelude
  imports Complex_Main "HOL-Library.AList" "HOL-Library.Product_Lexorder"
    "HOL-Library.List_Lexorder" "HOL-Library.Code_Target_Nat"
begin

text \<open>
  What every component shares: Python's half-open slices, the binary searches of the
  \<open>bisect\<close> module, \<open>dict.fromkeys\<close>, stable \<open>sorted\<close> with a key, and insertion-ordered
  dictionaries as association lists (\<open>AList.update\<close> overwrites in place or appends).
  Python's unbounded integers are \<open>int\<close>; offsets, lengths and ordinals that the code only
  ever builds from \<open>len\<close> and \<open>range\<close> are \<open>nat\<close>; floats are \<open>real\<close> (rounding is not
  modelled) except where finiteness is tested, see \<open>pyfloat\<close> in Contracts.
  The collection \<open>loop_simps\<close> gathers the unfolded loop equations that the component
  proofs use.
\<close>

named_theorems loop_simps
named_theorems frame_simps

section \<open>Slices\<close>

definition py_slice :: "nat \<Rightarrow> nat \<Rightarrow> 'a list \<Rightarrow> 'a list" where
  \<comment> \<open>\<open>xs[a:b]\<close> for non-negative bounds; both bounds are clamped to the length.\<close>
  "py_slice a b xs = take (b - a) (drop a xs)"

lemma length_py_slice [simp]: "length (py_slice a b xs) = min b (length xs) - a"
  by (auto simp: py_slice_def)

lemma py_slice_Nil [simp]: "py_slice a b [] = []"
  by (simp add: py_slice_def)

lemma py_slice_0 [simp]: "py_slice 0 b xs = take b xs"
  by (simp add: py_slice_def)

lemma py_slice_empty [simp]: "b \<le> a \<Longrightarrow> py_slice a b xs = []"
  by (simp add: py_slice_def)

lemma nth_py_slice [simp]: "i < b - a \<Longrightarrow> b \<le> length xs \<Longrightarrow> py_slice a b xs ! i = xs ! (a + i)"
  by (simp add: py_slice_def)

lemma py_slice_append:
  assumes "a \<le> b" and "b \<le> c"
  shows "py_slice a b xs @ py_slice b c xs = py_slice a c xs"
proof -
  have "c - a = (b - a) + (c - b)" and "drop (b - a) (drop a xs) = drop b xs"
    using assms by simp_all
  then show ?thesis by (simp only: py_slice_def take_add)
qed

lemma py_slice_slice:
  assumes "a + d \<le> b"
  shows "py_slice c d (py_slice a b xs) = py_slice (a + c) (a + d) xs"
proof -
  have "min (d - c) (b - a - c) = d - c" and "a + d - (a + c) = d - c"
    using assms by simp_all
  then show ?thesis by (simp add: py_slice_def drop_take add.commute)
qed

section \<open>Binary search\<close>

text \<open>\<open>bisect_right\<close> and \<open>bisect_left\<close> with the library's own midpoint loop.\<close>

function bisect_loop :: "(nat \<Rightarrow> bool) \<Rightarrow> nat list \<Rightarrow> nat \<Rightarrow> nat \<Rightarrow> nat" where
  "bisect_loop below xs lo hi =
     (if lo < hi then
        let mid = (lo + hi) div 2
        in if below (xs ! mid) then bisect_loop below xs (Suc mid) hi
           else bisect_loop below xs lo mid
      else lo)"
  by pat_completeness auto
termination
  by (relation "measure (\<lambda>(below, xs, lo, hi). hi - lo)") auto

declare bisect_loop.simps [simp del]

definition bisect_right :: "nat list \<Rightarrow> nat \<Rightarrow> nat" where
  "bisect_right xs x = bisect_loop (\<lambda>y. y \<le> x) xs 0 (length xs)"

definition bisect_left :: "nat list \<Rightarrow> nat \<Rightarrow> nat" where
  "bisect_left xs x = bisect_loop (\<lambda>y. y < x) xs 0 (length xs)"

lemma bisect_loop_split:
  assumes "\<And>i j. i \<le> j \<Longrightarrow> j < length xs \<Longrightarrow> below (xs ! j) \<Longrightarrow> below (xs ! i)"
    and "lo \<le> hi" and "hi \<le> length xs"
    and "\<And>i. i < lo \<Longrightarrow> below (xs ! i)"
    and "\<And>i. hi \<le> i \<Longrightarrow> i < length xs \<Longrightarrow> \<not> below (xs ! i)"
  shows "bisect_loop below xs lo hi \<le> length xs
    \<and> (\<forall>i < bisect_loop below xs lo hi. below (xs ! i))
    \<and> (\<forall>i. bisect_loop below xs lo hi \<le> i \<and> i < length xs \<longrightarrow> \<not> below (xs ! i))"
  using assms
proof (induction below xs lo hi rule: bisect_loop.induct)
  case (1 below xs lo hi)
  let ?mid = "(lo + hi) div 2"
  show ?case
  proof (cases "lo < hi")
    case False
    then have "bisect_loop below xs lo hi = lo" by (simp add: bisect_loop.simps)
    moreover from False "1.prems"(2) have "hi = lo" by simp
    ultimately show ?thesis using "1.prems"(3-5) by auto
  next
    case lt: True
    then have mid: "lo \<le> ?mid" "?mid < hi" "?mid < length xs"
      using "1.prems"(3) by auto
    show ?thesis
    proof (cases "below (xs ! ?mid)")
      case True
      have "\<And>i. i < Suc ?mid \<Longrightarrow> below (xs ! i)"
        using "1.prems"(1) True mid(3) by (meson less_Suc_eq_le)
      with "1.IH"(1) [OF lt refl True] "1.prems" mid lt True show ?thesis
        by (simp add: bisect_loop.simps [of below xs lo hi] Let_def)
    next
      case False
      have "\<And>i. ?mid \<le> i \<Longrightarrow> i < length xs \<Longrightarrow> \<not> below (xs ! i)"
        using "1.prems"(1) False by blast
      with "1.IH"(2) [OF lt refl False] "1.prems" mid lt False show ?thesis
        by (simp add: bisect_loop.simps [of below xs lo hi] Let_def)
    qed
  qed
qed

lemma length_filter_split:
  assumes "n \<le> length xs" and "\<forall>i < n. P (xs ! i)"
    and "\<forall>i. n \<le> i \<and> i < length xs \<longrightarrow> \<not> P (xs ! i)"
  shows "length (filter P xs) = n"
proof -
  have "filter P (take n xs) = take n xs"
    using assms(1,2) by (auto simp: filter_id_conv in_set_conv_nth)
  moreover have "filter P (drop n xs) = []"
    using assms(3) by (auto simp: filter_empty_conv in_set_conv_nth)
  ultimately have "filter P (take n xs @ drop n xs) = take n xs"
    by (simp only: filter_append append_Nil2)
  with assms(1) show ?thesis by simp
qed

lemma bisect_right_count:
  assumes "sorted xs"
  shows "bisect_right xs x = length (filter (\<lambda>y. y \<le> x) xs)"
proof -
  have mono: "\<And>i j. i \<le> j \<Longrightarrow> j < length xs \<Longrightarrow> xs ! j \<le> x \<Longrightarrow> xs ! i \<le> x"
    using assms by (meson le_less_trans le_trans sorted_nth_mono)
  have "bisect_right xs x \<le> length xs \<and> (\<forall>i < bisect_right xs x. xs ! i \<le> x)
    \<and> (\<forall>i. bisect_right xs x \<le> i \<and> i < length xs \<longrightarrow> \<not> xs ! i \<le> x)"
    unfolding bisect_right_def by (rule bisect_loop_split) (erule (2) mono | simp)+
  then show ?thesis by (intro length_filter_split [symmetric]) simp_all
qed

lemma bisect_left_count:
  assumes "sorted xs"
  shows "bisect_left xs x = length (filter (\<lambda>y. y < x) xs)"
proof -
  have mono: "\<And>i j. i \<le> j \<Longrightarrow> j < length xs \<Longrightarrow> xs ! j < x \<Longrightarrow> xs ! i < x"
    using assms by (meson le_less_trans le_trans sorted_nth_mono)
  have "bisect_left xs x \<le> length xs \<and> (\<forall>i < bisect_left xs x. xs ! i < x)
    \<and> (\<forall>i. bisect_left xs x \<le> i \<and> i < length xs \<longrightarrow> \<not> xs ! i < x)"
    unfolding bisect_left_def by (rule bisect_loop_split) (erule (2) mono | simp)+
  then show ?thesis by (intro length_filter_split [symmetric]) simp_all
qed

lemma set_concat_map: "x \<in> set xs \<Longrightarrow> set (f x) \<subseteq> set (concat (map f xs))"
  by auto

section \<open>Insertion order\<close>

text \<open>\<open>dict.fromkeys(xs)\<close>: the distinct elements in the order of their first occurrence.\<close>

fun fromkeys_loop :: "'a list \<Rightarrow> 'a list \<Rightarrow> 'a list" where
  "fromkeys_loop seen [] = seen"
| "fromkeys_loop seen (x # xs) =
     (if x \<in> set seen then fromkeys_loop seen xs else fromkeys_loop (seen @ [x]) xs)"

definition fromkeys :: "'a list \<Rightarrow> 'a list" where
  "fromkeys xs = fromkeys_loop [] xs"

lemma set_fromkeys_loop: "set (fromkeys_loop seen xs) = set seen \<union> set xs"
  by (induction seen xs rule: fromkeys_loop.induct) auto

lemma distinct_fromkeys_loop: "distinct seen \<Longrightarrow> distinct (fromkeys_loop seen xs)"
  by (induction seen xs rule: fromkeys_loop.induct) auto

lemma set_fromkeys [simp]: "set (fromkeys xs) = set xs"
  by (simp add: fromkeys_def set_fromkeys_loop)

lemma distinct_fromkeys [simp]: "distinct (fromkeys xs)"
  by (simp add: fromkeys_def distinct_fromkeys_loop)

lemma fromkeys_Nil_iff [simp]: "fromkeys xs = [] \<longleftrightarrow> xs = []"
  by (metis set_fromkeys set_empty)

lemma fromkeys_loop_distinct:
  "distinct (seen @ xs) \<Longrightarrow> fromkeys_loop seen xs = seen @ xs"
  by (induction seen xs rule: fromkeys_loop.induct) auto

lemma fromkeys_idem [simp]: "fromkeys (fromkeys xs) = fromkeys xs"
  using fromkeys_loop_distinct [of "[]" "fromkeys xs"]
  by (simp add: fromkeys_def distinct_fromkeys_loop)

text \<open>\<open>enumerate(xs, start)\<close>.\<close>

definition enumerate_from :: "nat \<Rightarrow> 'a list \<Rightarrow> (nat \<times> 'a) list" where
  "enumerate_from n xs = List.enumerate n xs"

end
