(* ===== verification/PyText.thy ===== *)
theory PyText
  imports Prelude
begin

text \<open>
  Python text: a \<open>str\<close> is a list of code points. White space and the general categories the
  chunker tests are the exact ranges of the Unicode 15.0 database of Python 3.12; the
  database's large mappings (case folding, NFKC, letters) stay parameters.
\<close>

type_synonym ustr = "nat list"

definition ascii :: "string \<Rightarrow> ustr" where
  "ascii s = map of_char s"

section \<open>White space\<close>

definition isspace :: "nat \<Rightarrow> bool" where
  "isspace c \<longleftrightarrow> (9 \<le> c \<and> c \<le> 13) \<or> (28 \<le> c \<and> c \<le> 32) \<or> c = 133 \<or> c = 160 \<or> c = 5760
     \<or> (8192 \<le> c \<and> c \<le> 8202) \<or> c = 8232 \<or> c = 8233 \<or> c = 8239 \<or> c = 8287 \<or> c = 12288"

definition strip :: "ustr \<Rightarrow> ustr" where
  "strip s = rev (dropWhile isspace (rev (dropWhile isspace s)))"

text \<open>Maximal runs of a character class, as \<open>re.finditer\<close> reports them for \<open>[class]+\<close>.\<close>

fun run_spans :: "(nat \<Rightarrow> bool) \<Rightarrow> nat \<Rightarrow> ustr \<Rightarrow> (nat \<times> nat) list" where
  "run_spans p i [] = []"
| "run_spans p i (c # cs) =
     (if p c then
        let n = length (takeWhile p cs)
        in (i, Suc (i + n)) # run_spans p (Suc (i + n)) (drop n cs)
      else run_spans p (Suc i) cs)"

definition word_spans :: "ustr \<Rightarrow> (nat \<times> nat) list" where
  \<comment> \<open>\<open>re.finditer(r"\S+", text)\<close>\<close>
  "word_spans t = run_spans (\<lambda>c. \<not> isspace c) 0 t"

definition find_runs :: "(nat \<Rightarrow> bool) \<Rightarrow> ustr \<Rightarrow> ustr list" where
  "find_runs p t = map (\<lambda>(a, b). py_slice a b t) (run_spans p 0 t)"

definition split_words :: "ustr \<Rightarrow> ustr list" where
  \<comment> \<open>\<open>str.split()\<close>\<close>
  "split_words t = find_runs (\<lambda>c. \<not> isspace c) t"

section \<open>Runs\<close>

definition shift :: "nat \<Rightarrow> nat \<times> nat \<Rightarrow> nat \<times> nat" where
  "shift k = (\<lambda>(a, b). (k + a, k + b))"

lemma shift_simp [simp]: "shift k (a, b) = (k + a, k + b)"
  by (simp add: shift_def)

lemma fst_shift [simp]: "fst (shift k x) = k + fst x"
  and snd_shift [simp]: "snd (shift k x) = k + snd x"
  by (cases x; simp)+

lemma run_spans_shift: "run_spans p (k + i) t = map (shift k) (run_spans p i t)"
  by (induction p i t rule: run_spans.induct) (auto simp: Let_def add.assoc)

lemma run_spans_append:
  assumes "xs = [] \<or> ys = [] \<or> \<not> p (last xs) \<or> \<not> p (hd ys)"
  shows "run_spans p i (xs @ ys) = run_spans p i xs @ run_spans p (i + length xs) ys"
  using assms
proof (induction p i xs rule: run_spans.induct)
  case (1 p i)
  then show ?case by simp
next
  case (2 p i c cs)
  show ?case
  proof (cases "p c")
    case False
    have "run_spans p (Suc i) (cs @ ys)
        = run_spans p (Suc i) cs @ run_spans p (Suc i + length cs) ys"
      using "2.IH"(2) [OF False] "2.prems" False by (cases cs) auto
    with False show ?thesis by simp
  next
    case True
    let ?n = "length (takeWhile p cs)"
    show ?thesis
    proof (cases "\<forall>x \<in> set cs. p x")
      case all: True
      then have cs: "takeWhile p cs = cs" by (simp add: takeWhile_eq_all_conv)
      have "ys = [] \<or> \<not> p (hd ys)" using "2.prems" True all by (cases cs) auto
      then have "takeWhile p (cs @ ys) = cs"
        using all cs by (cases ys) (auto simp: takeWhile_append)
      with True all show ?thesis
        by (simp add: Let_def takeWhile_eq_all_conv [THEN iffD2])
    next
      case ex: False
      then have tw: "takeWhile p (cs @ ys) = takeWhile p cs"
        by (meson takeWhile_append1)
      from ex have lt: "?n < length cs"
        by (metis length_takeWhile_le le_neq_implies_less takeWhile_eq_all_conv takeWhile_eq_take take_all)
      then have "drop ?n cs = [] \<or> ys = [] \<or> \<not> p (last (drop ?n cs)) \<or> \<not> p (hd ys)"
        using "2.prems" lt by (auto simp: last_drop split: if_splits)
      from "2.IH"(1) [OF True refl this] True tw lt show ?thesis by (simp add: Let_def)
    qed
  qed
qed

lemma run_spans_bounds:
  "(a, b) \<in> set (run_spans p i t) \<Longrightarrow> i \<le> a \<and> a < b \<and> b \<le> i + length t"
proof (induction p i t rule: run_spans.induct)
  case (2 p i c cs)
  have "length (takeWhile p cs) \<le> length cs" by (rule length_takeWhile_le)
  with 2 show ?case by (fastforce simp: Let_def split: if_splits)
qed simp

lemma run_spans_sorted: "sorted_wrt (\<lambda>x y. snd x \<le> fst y) (run_spans p i t)"
proof (induction p i t rule: run_spans.induct)
  case (2 p i c cs)
  then show ?case by (auto simp: Let_def dest: run_spans_bounds)
qed simp

section \<open>Decimal numbers\<close>

fun str_nat :: "nat \<Rightarrow> ustr" where
  \<comment> \<open>\<open>str(n)\<close>\<close>
  "str_nat n = (if n < 10 then [48 + n] else str_nat (n div 10) @ [48 + n mod 10])"

declare str_nat.simps [simp del]

definition str_int :: "int \<Rightarrow> ustr" where
  "str_int n = (if n < 0 then 45 # str_nat (nat (- n)) else str_nat (nat n))"

definition nat_of_digits :: "ustr \<Rightarrow> nat" where
  "nat_of_digits t = foldl (\<lambda>n c. 10 * n + (c - 48)) 0 t"

lemma nat_of_str [simp]: "nat_of_digits (str_nat n) = n"
proof (induction n rule: str_nat.induct)
  case (1 n)
  show ?case
  proof (cases "n < 10")
    case True
    then show ?thesis by (simp add: str_nat.simps [of n] nat_of_digits_def)
  next
    case False
    with 1 have "nat_of_digits (str_nat (n div 10)) = n div 10" by simp
    with False show ?thesis
      by (simp add: str_nat.simps [of n] nat_of_digits_def)
  qed
qed

lemma str_nat_inj [simp]: "str_nat m = str_nat n \<longleftrightarrow> m = n"
  by (metis nat_of_str)

lemma str_nat_digits: "list_all (\<lambda>c. 48 \<le> c \<and> c \<le> 57) (str_nat n)"
proof (induction n rule: str_nat.induct)
  case (1 n)
  then show ?case by (subst str_nat.simps) auto
qed

lemma str_nat_nonempty [simp]: "str_nat n \<noteq> []"
  by (subst str_nat.simps) simp

end
