(* ===== verification/Contracts.thy ===== *)
theory Contracts
  imports PyText "HOL-Library.Word"
begin

text \<open>
  The data of \<open>packages/contracts\<close>: pages, chunks, entities and documents, stored
  documents and search hits, queue events, identities, token accounting and generations,
  with the validations their constructors run. Fields carry a short prefix because record
  fields are global names. Identifiers that are only compared (labels, languages, models)
  are \<open>string\<close>; text whose characters are inspected is \<open>ustr\<close>. A UUID is the number it
  denotes: the order of the canonical hexadecimal spelling is the order of the numbers.
\<close>

type_synonym bytes = "8 word list"
type_synonym uuid = nat
type_synonym timestamp = int \<comment> \<open>microseconds\<close>

section \<open>Token usage\<close>

record token_usage =
  tu_input :: int
  tu_output :: int
  tu_cached :: int
  tu_request_id :: "ustr option"

definition no_usage :: token_usage where
  \<comment> \<open>\<open>TokenUsage()\<close>\<close>
  "no_usage = \<lparr>tu_input = 0, tu_output = 0, tu_cached = 0, tu_request_id = None\<rparr>"

definition usage_total :: "token_usage \<Rightarrow> int" where
  "usage_total u = tu_input u + tu_output u"

section \<open>Exceptions\<close>

text \<open>
  One constructor per exception class the code raises or catches. A class hierarchy is a
  predicate, so that an \<open>except\<close> clause is a test on the value.
\<close>

datatype exn =
    ValueError string
  | TypeError
  | KeyError
  | IndexError
  | AttributeError
  | LookupError string
  | RuntimeError string
  | OverflowError
  | OSError
  | TimeoutError
  | ValidationError
  | UnsupportedMediaType
  | QuestionTooLong
  | BudgetExceeded
  | ProviderFailure string "token_usage option"
  | StorageUnavailable
  | MissingObject
  | OperationalError
  | InterfaceError
  | PoolTimeout
  | OtherSQLAlchemyError
  | RedisError
  | ResponseError ustr
  | ClientError string
  | BotoCoreError
  | HTTPException nat string
  | MultipartParseError
  | RequestValidationError
  | HTTPStatusError nat
  | TimeoutException
  | TransportError
  | InvalidToken
  | PyJWTError
  | BackendUnavailable
  | UploadTooLarge
  | ClientDisconnect
  | OtherException string

type_synonym 'a result = "exn + 'a"

definition is_value_error :: "exn \<Rightarrow> bool" where
  "is_value_error e \<longleftrightarrow> (case e of ValueError _ \<Rightarrow> True | ValidationError \<Rightarrow> True
     | UnsupportedMediaType \<Rightarrow> True | QuestionTooLong \<Rightarrow> True | BudgetExceeded \<Rightarrow> True
     | ProviderFailure _ _ \<Rightarrow> True | _ \<Rightarrow> False)"

definition is_lookup_error :: "exn \<Rightarrow> bool" where
  "is_lookup_error e \<longleftrightarrow> (case e of LookupError _ \<Rightarrow> True | KeyError \<Rightarrow> True
     | IndexError \<Rightarrow> True | _ \<Rightarrow> False)"

definition is_os_error :: "exn \<Rightarrow> bool" where
  "is_os_error e \<longleftrightarrow> e = OSError \<or> e = TimeoutError"

definition is_runtime_error :: "exn \<Rightarrow> bool" where
  "is_runtime_error e \<longleftrightarrow> (case e of RuntimeError _ \<Rightarrow> True | _ \<Rightarrow> False)"

definition is_sqlalchemy_error :: "exn \<Rightarrow> bool" where
  "is_sqlalchemy_error e \<longleftrightarrow>
     e \<in> {OperationalError, InterfaceError, PoolTimeout, OtherSQLAlchemyError}"

definition is_redis_error :: "exn \<Rightarrow> bool" where
  "is_redis_error e \<longleftrightarrow> (case e of RedisError \<Rightarrow> True | ResponseError _ \<Rightarrow> True | _ \<Rightarrow> False)"

definition is_httpx_error :: "exn \<Rightarrow> bool" where
  \<comment> \<open>\<open>httpx.HTTPError\<close>: a status raised by \<open>raise_for_status\<close>, a timeout, a transport error.\<close>
  "is_httpx_error e \<longleftrightarrow> (case e of HTTPStatusError _ \<Rightarrow> True | TimeoutException \<Rightarrow> True
     | TransportError \<Rightarrow> True | _ \<Rightarrow> False)"

lemmas exn_classes = is_value_error_def is_lookup_error_def is_os_error_def
  is_runtime_error_def is_sqlalchemy_error_def is_redis_error_def is_httpx_error_def

section \<open>Floats that may be infinite or not a number\<close>

datatype pyfloat = Finite real | PosInf | NegInf | NaN

definition isfinite :: "pyfloat \<Rightarrow> bool" where
  "isfinite x \<longleftrightarrow> (case x of Finite _ \<Rightarrow> True | _ \<Rightarrow> False)"

definition truthy :: "pyfloat \<Rightarrow> bool" where
  \<comment> \<open>\<open>bool(x)\<close>: only zero is false.\<close>
  "truthy x \<longleftrightarrow> x \<noteq> Finite 0"

definition fin_val :: "pyfloat \<Rightarrow> real" where
  "fin_val x = (case x of Finite r \<Rightarrow> r | _ \<Rightarrow> 0)"

section \<open>Character patterns\<close>

definition is_alnum_ascii :: "nat \<Rightarrow> bool" where
  "is_alnum_ascii c \<longleftrightarrow> (48 \<le> c \<and> c \<le> 57) \<or> (65 \<le> c \<and> c \<le> 90) \<or> (97 \<le> c \<and> c \<le> 122)"

definition tenant_char :: "nat \<Rightarrow> bool" where
  \<comment> \<open>\<open>[A-Za-z0-9._-]\<close>\<close>
  "tenant_char c \<longleftrightarrow> is_alnum_ascii c \<or> c = 46 \<or> c = 95 \<or> c = 45"

definition valid_tenant :: "ustr \<Rightarrow> bool" where
  "valid_tenant t \<longleftrightarrow> 1 \<le> length t \<and> length t \<le> 64 \<and> list_all tenant_char t"

definition valid_sha256 :: "ustr \<Rightarrow> bool" where
  "valid_sha256 s \<longleftrightarrow> length s = 64
     \<and> list_all (\<lambda>c. (48 \<le> c \<and> c \<le> 57) \<or> (97 \<le> c \<and> c \<le> 102)) s"

section \<open>Extracted pages\<close>

datatype media_type = PDF | PNG | JPEG | TIFF

datatype page_source = TextLayer | OCR

record page =
  pg_number :: nat
  pg_text :: ustr
  pg_source :: page_source
  pg_language :: string
  pg_confidence :: real

definition char_count :: "page \<Rightarrow> nat" where
  "char_count p = length (pg_text p)"

definition pipeline_version :: string where
  "pipeline_version = ''6''"

record extracted_document =
  xd_version :: string
  xd_sha256 :: ustr
  xd_media_type :: media_type
  xd_pages :: "page list"

definition page_count :: "('a) extracted_document_scheme \<Rightarrow> nat" where
  "page_count d = length (xd_pages d)"

section \<open>Structured documents\<close>

record language_guess =
  lg_language :: string
  lg_confidence :: real

record chunk =
  ck_text :: ustr
  ck_language :: string
  ck_page :: nat
  ck_ord :: nat
  ck_start :: nat
  ck_end :: nat
  ck_tokens :: int
  ck_embedding :: "pyfloat list option"

record entity =
  en_text :: ustr
  en_label :: string
  en_page :: nat
  en_start :: nat
  en_end :: nat
  en_count :: nat

record document = extracted_document +
  dc_chunks :: "chunk list"
  dc_entities :: "entity list"
  dc_embed_model :: "string option"
  dc_embed_dimension :: "nat option"

text \<open>The majority language by characters: a \<open>Counter\<close> is an insertion-ordered dictionary.\<close>

fun vote_pages :: "(string \<times> nat) list \<Rightarrow> page list \<Rightarrow> (string \<times> nat) list" where
  "vote_pages votes [] = votes"
| "vote_pages votes (p # ps) =
     vote_pages
       (AList.update (pg_language p)
          ((case map_of votes (pg_language p) of None \<Rightarrow> 0 | Some n \<Rightarrow> n) + char_count p) votes)
       ps"

definition document_language :: "('a) extracted_document_scheme \<Rightarrow> string" where
  "document_language d =
     (let votes = vote_pages [] (xd_pages d); total = sum_list (map snd votes)
      in case find (\<lambda>(code, n). real n > real total / 2) votes of
           None \<Rightarrow> ''und'' | Some (code, n) \<Rightarrow> code)"

section \<open>Stored documents\<close>

text \<open>
  \<open>StoredDocument\<close>: the columns of a \<open>documents\<close> row, and the chunks and entities that only
  some reads fill in. The status is text with a closed set of values.
\<close>

record doc_row =
  sd_id :: uuid
  sd_tenant :: ustr
  sd_filename :: ustr
  sd_sha256 :: ustr
  sd_media_type :: string
  sd_page_count :: "nat option"
  sd_language :: "string option"
  sd_status :: string
  sd_version :: "string option"
  sd_embed_model :: "string option"
  sd_size :: "nat option"
  sd_key :: "ustr option"
  sd_error :: "ustr option"
  sd_created :: timestamp
  sd_processed :: "timestamp option"

record stored_document = doc_row +
  sd_chunks :: "chunk list"
  sd_entities :: "entity list"

definition document_status :: "string \<Rightarrow> bool" where
  "document_status st \<longleftrightarrow> st \<in> {''uploaded'', ''processing'', ''processed'', ''failed''}"

definition mime :: "media_type \<Rightarrow> string" where
  "mime m = (case m of PDF \<Rightarrow> ''application/pdf'' | PNG \<Rightarrow> ''image/png''
     | JPEG \<Rightarrow> ''image/jpeg'' | TIFF \<Rightarrow> ''image/tiff'')"

record query_filter =
  qf_documents :: "uuid list option"
  qf_language :: "string option"

record search_hit =
  sh_document :: uuid
  sh_chunk :: chunk
  sh_score :: real

definition validate_vector :: "pyfloat list \<Rightarrow> nat \<Rightarrow> unit result" where
  "validate_vector v dimension =
     (if length v \<noteq> dimension \<or> \<not> list_all isfinite v \<or> \<not> list_ex truthy v
      then Inl (ValueError ''Expected a finite nonzero vector matching the dimension'')
      else Inr ())"

definition chunk_vector :: "chunk \<Rightarrow> pyfloat list" where
  \<comment> \<open>\<open>chunk.embedding or []\<close>\<close>
  "chunk_vector c = (case ck_embedding c of None \<Rightarrow> [] | Some v \<Rightarrow> v)"

fun validate_chunks :: "chunk list \<Rightarrow> nat \<Rightarrow> unit result" where
  "validate_chunks [] dimension = Inr ()"
| "validate_chunks (c # cs) dimension =
     (case validate_vector (chunk_vector c) dimension of
        Inl e \<Rightarrow> Inl e | Inr _ \<Rightarrow> validate_chunks cs dimension)"

definition prepare_document ::
  "uuid \<Rightarrow> timestamp \<Rightarrow> ustr \<Rightarrow> ustr \<Rightarrow> document \<Rightarrow> stored_document result" where
  \<comment> \<open>\<open>new\<close> is \<open>uuid4()\<close> and \<open>now\<close> is \<open>datetime.now(UTC)\<close>.\<close>
  "prepare_document new now tenant filename d =
     (if strip tenant = [] \<or> dc_embed_model d \<in> {None, Some []}
        \<or> dc_embed_dimension d \<in> {None, Some 0}
      then Inl (ValueError ''A tenant and an embedded document are required'')
      else
        (case validate_chunks (dc_chunks d)
             (case dc_embed_dimension d of None \<Rightarrow> 0 | Some n \<Rightarrow> n) of
           Inl e \<Rightarrow> Inl e
         | Inr _ \<Rightarrow> Inr
             \<lparr>sd_id = new, sd_tenant = tenant, sd_filename = filename, sd_sha256 = xd_sha256 d,
              sd_media_type = mime (xd_media_type d), sd_page_count = Some (page_count d),
              sd_language = Some (document_language d), sd_status = ''processed'',
              sd_version = Some (xd_version d), sd_embed_model = dc_embed_model d,
              sd_size = None, sd_key = None, sd_error = None, sd_created = now,
              sd_processed = Some now, sd_chunks = dc_chunks d, sd_entities = dc_entities d\<rparr>))"

lemma validate_chunks_ok:
  "validate_chunks cs n = Inr () \<longleftrightarrow> list_all (\<lambda>c. validate_vector (chunk_vector c) n = Inr ()) cs"
  by (induction cs) (auto simp: split: sum.splits)

section \<open>Upload events\<close>

record document_uploaded =
  ev_id :: uuid
  ev_type :: ustr
  ev_tenant :: ustr
  ev_document :: uuid
  ev_sha256 :: ustr
  ev_key :: ustr
  ev_media_type :: string
  ev_size :: nat
  ev_occurred :: timestamp
  ev_traceparent :: "ustr option"

definition valid_event :: "document_uploaded \<Rightarrow> bool" where
  \<comment> \<open>the patterns and the literal of \<open>DocumentUploaded\<close>\<close>
  "valid_event e \<longleftrightarrow> ev_type e = ascii ''document.uploaded'' \<and> valid_tenant (ev_tenant e)
     \<and> valid_sha256 (ev_sha256 e)"

definition mime_values :: "string list" where
  "mime_values = map mime [PDF, PNG, JPEG, TIFF]"

definition object_key :: "ustr \<Rightarrow> ustr \<Rightarrow> ustr" where
  "object_key tenant sha = tenant @ ascii ''/'' @ sha"

definition valid_worker_event :: "document_uploaded \<Rightarrow> bool" where
  \<comment> \<open>\<open>WorkerEvent\<close>: a supported media type, and the key names the owner and the digest\<close>
  "valid_worker_event e \<longleftrightarrow> valid_event e \<and> ev_media_type e \<in> set mime_values
     \<and> ev_key e = object_key (ev_tenant e) (ev_sha256 e)"

end
