(* ===== verification/Settings.thy ===== *)
theory Settings
  imports Contracts
begin

text \<open>
  The validated configuration of the four services: one record per settings class with the
  bounds its fields declare and the model validators as a predicate, and the defaults.
  Paths and secrets are opaque strings. A settings object that exists satisfies its
  predicate, so the predicates are the hypotheses the component lemmas use.
\<close>

section \<open>The shared embedding profile\<close>

record embedding_settings =
  embed_model :: string
  embed_batch :: int
  embed_threads :: int
  embed_onnx_repo :: string
  embed_revision :: string
  tokenizer_revision :: string
  model_cache :: string

definition minilm :: string where
  "minilm = ''sentence-transformers/paraphrase-multilingual-MiniLM-L12-v2''"

definition minilm_onnx :: string where
  "minilm_onnx = ''Qdrant/paraphrase-multilingual-MiniLM-L12-v2-onnx-Q''"

definition embed_dim :: "('a) embedding_settings_scheme \<Rightarrow> nat" where
  "embed_dim s = 384"

definition valid_embedding :: "('a) embedding_settings_scheme \<Rightarrow> bool" where
  "valid_embedding s \<longleftrightarrow> embed_model s = minilm \<and> 0 < embed_batch s
     \<and> 1 \<le> embed_threads s \<and> embed_threads s \<le> 16 \<and> embed_onnx_repo s = minilm_onnx"

section \<open>Worker\<close>

record worker_settings = embedding_settings +
  ocr_min_chars :: nat
  ocr_dpi :: nat
  ocr_langs :: string
  tesseract_cmd :: string
  languages :: string
  lang_sample_chars :: nat
  lang_min_confidence :: real
  ner_max_chars :: nat
  ner_models :: "(string \<times> string) list"
  chunk_tokens :: nat
  chunk_overlap :: nat
  database_url :: string
  migration_database_url :: string
  redis_url :: string
  worker_group :: string
  worker_block_ms :: nat
  worker_batch :: nat
  worker_reclaim_seconds :: real
  worker_claim_min_idle_ms :: nat
  worker_heartbeat_seconds :: nat
  worker_max_attempts :: nat
  s3_endpoint :: string
  s3_region :: string
  s3_bucket :: string
  s3_access_key :: string
  s3_secret_key :: string
  s3_use_ssl :: bool

definition no_space :: "string \<Rightarrow> bool" where
  \<comment> \<open>\<open>^\S+$\<close> in the validator's regular expressions: the White_Space property\<close>
  "no_space s \<longleftrightarrow>
     list_all (\<lambda>c. of_char c \<notin> {9 .. 13 :: nat} \<union> {32, 133, 160}) s"

definition valid_worker :: "('a) worker_settings_scheme \<Rightarrow> bool" where
  "valid_worker s \<longleftrightarrow> valid_embedding s \<and> 0 < ocr_dpi s \<and> 0 < lang_sample_chars s
     \<and> 0 \<le> lang_min_confidence s \<and> lang_min_confidence s \<le> 1
     \<and> 0 < chunk_tokens s \<and> chunk_tokens s \<le> 126
     \<and> 1 \<le> length (worker_group s) \<and> no_space (worker_group s)
     \<and> 0 < worker_block_ms s \<and> worker_block_ms s \<le> 10000
     \<and> 0 < worker_batch s \<and> worker_batch s \<le> 100 \<and> 0 < worker_reclaim_seconds s
     \<and> 0 < worker_claim_min_idle_ms s
     \<and> 15 \<le> worker_heartbeat_seconds s \<and> worker_heartbeat_seconds s \<le> 3600
     \<and> 0 < worker_max_attempts s
     \<and> \<not> chunk_tokens s \<le> chunk_overlap s"

definition default_worker :: worker_settings where
  "default_worker = \<lparr>embed_model = minilm, embed_batch = 32, embed_threads = 2,
     embed_onnx_repo = minilm_onnx,
     embed_revision = ''faf4aa4225822f3bc6376869cb1164e8e3feedd0'',
     tokenizer_revision = ''e8f8c211226b894fcb81acc59f3b34ba3efd5f42'',
     model_cache = ''~/.cache/doc-insight/models'',
     ocr_min_chars = 20, ocr_dpi = 200, ocr_langs = ''eng+hrv'', tesseract_cmd = ''tesseract'',
     languages = ''en,hr,de'', lang_sample_chars = 4000, lang_min_confidence = 1 / 2,
     ner_max_chars = 100000,
     ner_models = [(''en'', ''en_core_web_sm''), (''hr'', ''hr_core_news_sm'')],
     chunk_tokens = 120, chunk_overlap = 24,
     database_url = ''postgresql+psycopg://di_app@localhost:5432/di'',
     migration_database_url = ''postgresql+psycopg://di@localhost:5432/di'',
     redis_url = ''redis://127.0.0.1:6379/0'', worker_group = ''worker'',
     worker_block_ms = 1000, worker_batch = 1, worker_reclaim_seconds = 30,
     worker_claim_min_idle_ms = 300000, worker_heartbeat_seconds = 30,
     worker_max_attempts = 5, s3_endpoint = ''http://127.0.0.1:9000'',
     s3_region = ''us-east-1'', s3_bucket = ''documents'', s3_access_key = [],
     s3_secret_key = [], s3_use_ssl = False\<rparr>"

lemma valid_default_worker: "valid_worker default_worker"
  by (simp add: valid_worker_def valid_embedding_def default_worker_def no_space_def)

section \<open>Query\<close>

record query_settings = embedding_settings +
  query_database_url :: string
  openai_model :: string
  openai_api_key :: string
  openai_api_key_file :: "string option"
  llm_max_output_tokens :: int
  llm_concurrency :: nat
  llm_daily_tokens :: int
  llm_timeout_seconds :: real
  llm_breaker_failures :: nat
  llm_breaker_seconds :: real
  abstain_threshold :: real
  rrf_k :: nat
  query_top_k_max :: nat

definition valid_query :: "('a) query_settings_scheme \<Rightarrow> bool" where
  "valid_query s \<longleftrightarrow> valid_embedding s \<and> 1 \<le> length (openai_model s)
     \<and> 64 \<le> llm_max_output_tokens s \<and> llm_max_output_tokens s \<le> 4096
     \<and> 1 \<le> llm_concurrency s \<and> llm_concurrency s \<le> 32 \<and> 0 \<le> llm_daily_tokens s
     \<and> 0 < llm_timeout_seconds s \<and> 1 \<le> llm_breaker_failures s \<and> 0 < llm_breaker_seconds s
     \<and> 0 \<le> abstain_threshold s \<and> abstain_threshold s \<le> 1
     \<and> 1 \<le> rrf_k s \<and> 1 \<le> query_top_k_max s \<and> query_top_k_max s \<le> 20"

definition default_query :: query_settings where
  "default_query = \<lparr>embed_model = minilm, embed_batch = 32, embed_threads = 2,
     embed_onnx_repo = minilm_onnx,
     embed_revision = ''faf4aa4225822f3bc6376869cb1164e8e3feedd0'',
     tokenizer_revision = ''e8f8c211226b894fcb81acc59f3b34ba3efd5f42'',
     model_cache = ''~/.cache/doc-insight/models'',
     query_database_url = ''postgresql+psycopg://di_app@localhost:5432/di'',
     openai_model = ''gpt-4.1-mini-2025-04-14'', openai_api_key = [],
     openai_api_key_file = None, llm_max_output_tokens = 700, llm_concurrency = 4,
     llm_daily_tokens = 250000, llm_timeout_seconds = 10, llm_breaker_failures = 3,
     llm_breaker_seconds = 30, abstain_threshold = 3 / 5, rrf_k = 60, query_top_k_max = 20\<rparr>"

lemma valid_default_query: "valid_query default_query"
  by (simp add: valid_query_def valid_embedding_def default_query_def)

definition api_key :: "('a) query_settings_scheme \<Rightarrow> (string \<Rightarrow> string) \<Rightarrow> string" where
  \<comment> \<open>\<open>read\<close> is the stripped text of the mounted secret.\<close>
  "api_key s read =
     (case openai_api_key_file s of
        Some f \<Rightarrow> (if read f \<noteq> [] then read f else openai_api_key s)
      | None \<Rightarrow> openai_api_key s)"

section \<open>Gateway\<close>

record gateway_settings =
  jwks_url :: string
  jwt_issuer :: string
  jwt_audience :: string
  jwt_leeway_seconds :: real
  jwks_cache_seconds :: real
  jwks_refresh_seconds :: real
  dev_jwks_path :: "string option"
  gw_redis_url :: string
  redis_timeout_seconds :: real
  rate_limit_rps :: real
  rate_limit_burst :: nat
  rate_limit_fail_open :: bool
  max_upload_bytes :: nat
  max_upstream_response_bytes :: nat
  ingest_url :: string
  query_url :: string
  upstream_timeout_seconds :: real
  cors_origins :: string
  gateway_host :: string
  gateway_port :: nat
  tenants :: ustr

text \<open>\<open>value.split(",")\<close>: the pieces between separators, at least one.\<close>

fun split_on :: "nat \<Rightarrow> ustr \<Rightarrow> ustr list" where
  "split_on sep [] = [[]]"
| "split_on sep (c # cs) =
     (if c = sep then [] # split_on sep cs
      else (case split_on sep cs of [] \<Rightarrow> [[c]] | w # ws \<Rightarrow> (c # w) # ws))"

definition comma :: nat where
  "comma = 44"

definition provisioned_tenants :: "ustr \<Rightarrow> bool" where
  "provisioned_tenants v \<longleftrightarrow> v = [] \<or> list_all valid_tenant (split_on comma v)"

record http_url =
  hu_host :: ustr
  hu_path :: ustr
  hu_query :: "ustr option"
  hu_fragment :: "ustr option"
  hu_username :: "ustr option"

definition some_text :: "ustr option \<Rightarrow> bool" where
  \<comment> \<open>an optional string that is truthy\<close>
  "some_text v \<longleftrightarrow> (case v of None \<Rightarrow> False | Some t \<Rightarrow> t \<noteq> [])"

definition explicit_origin :: "http_url \<Rightarrow> bool" where
  "explicit_origin u \<longleftrightarrow> \<not> (hu_path u \<noteq> ascii ''/'' \<or> some_text (hu_query u) \<or> some_text (hu_fragment u)
     \<or> some_text (hu_username u)) \<and> hu_host u \<noteq> ascii ''*''"

definition explicit_origins :: "(ustr \<Rightarrow> http_url result) \<Rightarrow> ustr \<Rightarrow> bool" where
  \<comment> \<open>\<open>parse\<close> is \<open>HttpUrl\<close>\<close>
  "explicit_origins parse v \<longleftrightarrow>
     list_all (\<lambda>t. case parse (strip t) of Inl _ \<Rightarrow> False | Inr u \<Rightarrow> explicit_origin u)
       (filter (\<lambda>t. t \<noteq> []) (split_on comma v))"

definition optional_path :: "string option \<Rightarrow> string option" where
  "optional_path v = (if v = Some [] then None else v)"

definition valid_gateway :: "('a) gateway_settings_scheme \<Rightarrow> bool" where
  "valid_gateway s \<longleftrightarrow> 1 \<le> length (jwt_issuer s) \<and> 1 \<le> length (jwt_audience s)
     \<and> 0 \<le> jwt_leeway_seconds s \<and> 0 < jwks_cache_seconds s \<and> 0 < jwks_refresh_seconds s
     \<and> 0 < redis_timeout_seconds s \<and> 0 < rate_limit_rps s \<and> 1 \<le> rate_limit_burst s
     \<and> 1 \<le> max_upload_bytes s \<and> 1 \<le> max_upstream_response_bytes s
     \<and> 0 < upstream_timeout_seconds s \<and> 1 \<le> gateway_port s \<and> gateway_port s \<le> 65535
     \<and> provisioned_tenants (tenants s)
     \<and> \<not> jwks_cache_seconds s < jwks_refresh_seconds s"

definition default_gateway :: gateway_settings where
  "default_gateway = \<lparr>jwks_url = ''http://127.0.0.1:8000/.well-known/jwks.json'',
     jwt_issuer = ''doc-insight-dev'', jwt_audience = ''doc-insight'',
     jwt_leeway_seconds = 30, jwks_cache_seconds = 300, jwks_refresh_seconds = 5,
     dev_jwks_path = None, gw_redis_url = ''redis://127.0.0.1:6379/0'',
     redis_timeout_seconds = 2, rate_limit_rps = 5, rate_limit_burst = 10,
     rate_limit_fail_open = False, max_upload_bytes = 50 * 1024 * 1024,
     max_upstream_response_bytes = 16 * 1024 * 1024, ingest_url = ''http://127.0.0.1:8001'',
     query_url = ''http://127.0.0.1:8002'', upstream_timeout_seconds = 30,
     cors_origins = [], gateway_host = ''127.0.0.1'', gateway_port = 8000, tenants = []\<rparr>"

lemma valid_default_gateway: "valid_gateway default_gateway"
  by (simp add: valid_gateway_def default_gateway_def provisioned_tenants_def)

section \<open>Ingest\<close>

record ingest_settings =
  in_database_url :: string
  in_s3_endpoint :: string
  in_s3_region :: string
  in_s3_bucket :: string
  in_s3_access_key :: string
  in_s3_secret_key :: string
  in_s3_use_ssl :: bool
  in_redis_url :: string
  in_max_upload_bytes :: nat
  relay_poll_seconds :: real
  relay_batch :: nat
  http_host :: string
  http_port :: nat

definition valid_ingest :: "('a) ingest_settings_scheme \<Rightarrow> bool" where
  "valid_ingest s \<longleftrightarrow> 0 < in_max_upload_bytes s \<and> 0 < relay_poll_seconds s
     \<and> 1 \<le> relay_batch s \<and> relay_batch s \<le> 10000 \<and> 1 \<le> length (http_host s)
     \<and> 1 \<le> http_port s \<and> http_port s \<le> 65535"

end
