(* ===== verification/Chunker.thy ===== *)
theory Chunker
  imports Settings
begin

text \<open>
  \<open>structure.py\<close> and \<open>_chunk_reference.py\<close>: cutting a page into overlapping windows of
  whole words. The tokenizer is a parameter \<open>enc\<close> that returns half-open offsets. The
  optimised chunker counts the tokens of a window by two binary searches over the offsets
  of the page's single tokenization and falls back to the reference chunker, which
  re-tokenizes every candidate window, when the page has characters that make the offsets
  unsafe. Both have the same window loops, driven by a counting function; a failing index
  of the source is the value \<open>Inl IndexError\<close>.
\<close>

type_synonym tokenizer = "ustr \<Rightarrow> (nat \<times> nat) list"

section \<open>Pages whose offsets cannot be trusted\<close>

text \<open>The general categories Cc, Cf, Cs, Co, Zl and Zp of Unicode 15.0.\<close>

definition separator_ranges :: "(nat \<times> nat) list" where
  "separator_ranges = [(0, 31), (127, 159), (173, 173), (1536, 1541), (1564, 1564),
     (1757, 1757), (1807, 1807), (2192, 2193), (2274, 2274), (6158, 6158), (8203, 8207),
     (8232, 8238), (8288, 8292), (8294, 8303), (55296, 63743), (65279, 65279),
     (65529, 65531), (69821, 69821), (69837, 69837), (78896, 78911), (113824, 113827),
     (119155, 119162), (917505, 917505), (917536, 917631), (983040, 1048573),
     (1048576, 1114109)]"

definition requires_reference :: "ustr \<Rightarrow> bool" where
  "requires_reference t \<longleftrightarrow>
     list_ex (\<lambda>c. c \<notin> {9, 10, 13} \<and> list_ex (\<lambda>(a, b). a \<le> c \<and> c \<le> b) separator_ranges) t"

section \<open>Counting tokens of a range\<close>

record page_tokens =
  pt_text :: ustr
  pt_tokenizer :: tokenizer
  pt_starts :: "nat list"
  pt_ends :: "nat list"
  pt_ordered :: bool

fun pairwise_le :: "nat list \<Rightarrow> bool" where
  "pairwise_le (a # b # xs) \<longleftrightarrow> a \<le> b \<and> pairwise_le (b # xs)"
| "pairwise_le _ \<longleftrightarrow> True"

definition page_tokens_init :: "ustr \<Rightarrow> tokenizer \<Rightarrow> page_tokens" where
  "page_tokens_init t enc =
     (let offsets = enc t; starts = map fst offsets; ends = map snd offsets
      in \<lparr>pt_text = t, pt_tokenizer = enc, pt_starts = starts, pt_ends = ends,
          pt_ordered = (pairwise_le starts \<and> pairwise_le ends)\<rparr>)"

definition char_at :: "ustr \<Rightarrow> nat \<Rightarrow> nat result" where
  "char_at t i = (if i < length t then Inr (t ! i) else Inl IndexError)"

definition token_count :: "page_tokens \<Rightarrow> nat \<Rightarrow> nat \<Rightarrow> int result" where
  "token_count pt s e =
     (let t = pt_text pt;
          isolated = Inr (int (length (pt_tokenizer pt (py_slice s e t))));
          searched = Inr (int (bisect_right (pt_ends pt) e) - int (bisect_left (pt_starts pt) s));
          at_end = (if e < length t \<and> \<not> isspace (t ! e) then isolated else searched)
      in if 0 < s
         then (case char_at t (s - 1) of
                 Inl x \<Rightarrow> Inl x
               | Inr c \<Rightarrow> (if \<not> isspace c then isolated else at_end))
         else at_end)"

definition reference_count :: "ustr \<Rightarrow> tokenizer \<Rightarrow> nat \<Rightarrow> nat \<Rightarrow> int result" where
  \<comment> \<open>\<open>len(tokenizer.encode(page.text[start:end]))\<close>\<close>
  "reference_count t enc s e = Inr (int (length (enc (py_slice s e t))))"

section \<open>Units: whole words, or pieces of an oversized word\<close>

function split_last ::
  "ustr \<Rightarrow> tokenizer \<Rightarrow> nat \<Rightarrow> (nat \<times> nat) list \<Rightarrow> nat \<Rightarrow> nat \<Rightarrow> nat" where
  "split_last w enc cap offsets first stop =
     (if stop < length offsets
        \<and> \<not> cap < length (enc (py_slice (fst (offsets ! first)) (snd (offsets ! stop)) w))
      then split_last w enc cap offsets first (Suc stop)
      else stop)"
  by pat_completeness auto
termination
  by (relation "measure (\<lambda>(w, enc, cap, offsets, first, stop). length offsets - stop)") auto

declare split_last.simps [simp del]

lemma split_last_ge: "stop \<le> split_last w enc cap offsets first stop"
proof (induction w enc cap offsets first stop rule: split_last.induct)
  case (1 w enc cap offsets first stop)
  then show ?case by (subst split_last.simps) force
qed

function split_pieces ::
  "ustr \<Rightarrow> tokenizer \<Rightarrow> nat \<Rightarrow> (nat \<times> nat) list \<Rightarrow> nat \<Rightarrow> nat \<Rightarrow> (nat \<times> nat) list" where
  "split_pieces w enc cap offsets base first =
     (if first < length offsets then
        let stop = split_last w enc cap offsets first (Suc first)
        in (base + fst (offsets ! first), base + snd (offsets ! (stop - 1)))
             # split_pieces w enc cap offsets base stop
      else [])"
  by pat_completeness auto
termination
proof (relation "measure (\<lambda>(w, enc, cap, offsets, base, first). length offsets - first)")
  fix w enc cap and offsets :: "(nat \<times> nat) list" and base first stop :: nat
  assume "first < length offsets" and "stop = split_last w enc cap offsets first (Suc first)"
  then show "((w, enc, cap, offsets, base, stop), w, enc, cap, offsets, base, first)
    \<in> measure (\<lambda>(w, enc, cap, offsets, base, first). length offsets - first)"
    using split_last_ge [of "Suc first" w enc cap offsets first] by auto
qed simp

declare split_pieces.simps [simp del]

definition split_word :: "ustr \<Rightarrow> nat \<Rightarrow> tokenizer \<Rightarrow> nat \<Rightarrow> (nat \<times> nat) list" where
  "split_word w base enc cap = split_pieces w enc cap (enc w) base 0"

fun units_loop ::
  "ustr \<Rightarrow> page_tokens \<Rightarrow> nat \<Rightarrow> (nat \<times> nat) list \<Rightarrow> ((nat \<times> nat) list) result" where
  "units_loop t pt cap [] = Inr []"
| "units_loop t pt cap ((a, b) # ws) =
     (let w = py_slice a b t;
          fits = (if length w \<le> cap then Inr True
                  else (case token_count pt a b of
                          Inl x \<Rightarrow> Inl x | Inr n \<Rightarrow> Inr (n \<le> int cap)))
      in case fits of
           Inl x \<Rightarrow> Inl x
         | Inr ok \<Rightarrow>
             (case units_loop t pt cap ws of
                Inl x \<Rightarrow> Inl x
              | Inr us \<Rightarrow>
                  Inr ((if ok then [(a, b)] else split_word w a (pt_tokenizer pt) cap) @ us)))"

definition units :: "ustr \<Rightarrow> page_tokens \<Rightarrow> nat \<Rightarrow> ((nat \<times> nat) list) result" where
  "units t pt cap = units_loop t pt cap (word_spans t)"

fun reference_units_loop ::
  "ustr \<Rightarrow> tokenizer \<Rightarrow> nat \<Rightarrow> (nat \<times> nat) list \<Rightarrow> (nat \<times> nat) list" where
  "reference_units_loop t enc cap [] = []"
| "reference_units_loop t enc cap ((a, b) # ws) =
     (let w = py_slice a b t; offsets = (if cap < length w then enc w else [])
      in (if length offsets \<le> cap then [(a, b)] else split_pieces w enc cap offsets a 0)
         @ reference_units_loop t enc cap ws)"

definition reference_units :: "ustr \<Rightarrow> tokenizer \<Rightarrow> nat \<Rightarrow> (nat \<times> nat) list" where
  "reference_units t enc cap = reference_units_loop t enc cap (word_spans t)"

section \<open>Windows\<close>

text \<open>\<open>cnt s e\<close> is the number of tokens of the text between two offsets.\<close>

function grow_window ::
  "(nat \<times> nat) list \<Rightarrow> (nat \<Rightarrow> nat \<Rightarrow> int result) \<Rightarrow> nat \<Rightarrow> nat \<Rightarrow> nat \<Rightarrow> int \<Rightarrow> (nat \<times> int) result" where
  "grow_window us cnt start cap stop n =
     (if stop < length us then
        (case cnt start (snd (us ! stop)) of
           Inl x \<Rightarrow> Inl x
         | Inr k \<Rightarrow>
             (if k > int cap then Inr (stop, n)
              else grow_window us cnt start cap (Suc stop) k))
      else Inr (stop, n))"
  by pat_completeness auto
termination
  by (relation "measure (\<lambda>(us, cnt, start, cap, stop, n). length us - stop)") auto

function overlap_start ::
  "(nat \<times> nat) list \<Rightarrow> (nat \<Rightarrow> nat \<Rightarrow> int result) \<Rightarrow> nat \<Rightarrow> nat \<Rightarrow> nat \<Rightarrow> nat \<Rightarrow> nat result" where
  "overlap_start us cnt first end budget next_first =
     (if next_first > first + 1 then
        (case cnt (fst (us ! (next_first - 1))) end of
           Inl x \<Rightarrow> Inl x
         | Inr k \<Rightarrow>
             (if k > int budget then Inr next_first
              else overlap_start us cnt first end budget (next_first - 1)))
      else Inr next_first)"
  by pat_completeness auto
termination
  by (relation "measure (\<lambda>(us, cnt, first, end, budget, next_first). next_first)") auto

declare grow_window.simps [simp del] overlap_start.simps [simp del]

lemma overlap_start_bounds:
  "overlap_start us cnt first end budget next_first = Inr n \<Longrightarrow> first < next_first
   \<Longrightarrow> first < n \<and> n \<le> next_first"
proof (induction us cnt first "end" budget next_first rule: overlap_start.induct)
  case (1 us cnt first "end" budget next_first)
  show ?case
  proof (cases "next_first > first + 1")
    case True
    with 1 show ?thesis
      by (simp add: overlap_start.simps [of _ _ _ _ _ next_first]
          split: sum.splits if_splits) fastforce
  next
    case False
    with "1.prems" show ?thesis by (simp add: overlap_start.simps [of _ _ _ _ _ next_first])
  qed
qed

lemma grow_window_ge:
  "grow_window us cnt start cap stop n = Inr (l, k) \<Longrightarrow> stop \<le> l"
proof (induction us cnt start cap stop n rule: grow_window.induct)
  case (1 us cnt start cap stop n)
  show ?case
  proof (cases "stop < length us")
    case True
    with 1 show ?thesis
      by (simp add: grow_window.simps [of _ _ _ _ stop] split: sum.splits if_splits)
  next
    case False
    with "1.prems" show ?thesis by (simp add: grow_window.simps [of _ _ _ _ stop])
  qed
qed

definition make_chunk ::
  "page \<Rightarrow> nat \<Rightarrow> nat \<Rightarrow> nat \<Rightarrow> int \<Rightarrow> chunk" where
  "make_chunk p ordinal start end n =
     \<lparr>ck_text = py_slice start end (pg_text p), ck_language = pg_language p,
      ck_page = pg_number p, ck_ord = ordinal, ck_start = start, ck_end = end,
      ck_tokens = n, ck_embedding = None\<rparr>"

definition too_small :: exn where
  "too_small = ValueError ''chunk_tokens too small''"

definition add_chunk :: "page \<Rightarrow> nat \<Rightarrow> nat \<Rightarrow> nat \<Rightarrow> int \<Rightarrow> chunk list \<Rightarrow> chunk list" where
  "add_chunk p start_ord start end n chunks =
     (if chunks = [] \<or> end > ck_end (last chunks)
      then chunks @ [make_chunk p (start_ord + length chunks) start end n] else chunks)"

text \<open>
  The \<open>while first < len(units)\<close> loop of both chunkers, with the counting function as an
  argument; the chunks emitted so far are the last argument.
\<close>

function chunk_windows ::
  "page \<Rightarrow> (nat \<times> nat) list \<Rightarrow> (nat \<Rightarrow> nat \<Rightarrow> int result) \<Rightarrow> nat \<Rightarrow> nat \<Rightarrow> nat \<Rightarrow> nat
   \<Rightarrow> chunk list \<Rightarrow> (chunk list) result" where
  "chunk_windows p us cnt cap overlap start_ord first chunks =
     (if first < length us then
        (case grow_window us cnt (fst (us ! first)) cap first 0 of
           Inl x \<Rightarrow> Inl x
         | Inr (stop, n) \<Rightarrow>
             (if stop = first then Inl too_small
              else
                let end = snd (us ! (stop - 1));
                    chunks' = add_chunk p start_ord (fst (us ! first)) end n chunks
                in if stop = length us then Inr chunks'
                   else (case overlap_start us cnt first end overlap stop of
                           Inl x \<Rightarrow> Inl x
                         | Inr next_first \<Rightarrow>
                             chunk_windows p us cnt cap overlap start_ord next_first chunks')))
      else Inr chunks)"
  by pat_completeness auto
termination
proof (relation "measure (\<lambda>(p, us, cnt, cap, overlap, start_ord, first, chunks).
    length us - first)", goal_cases)
  case (2 p us cnt cap overlap start_ord first chunks x stop n e chunks' m)
  have "first < stop"
    using grow_window_ge [of us cnt _ cap first 0 stop n] 2 by fastforce
  from overlap_start_bounds [OF _ this] 2 show ?case by fastforce
qed simp

declare chunk_windows.simps [simp del]

definition reference_chunk_page ::
  "page \<Rightarrow> tokenizer \<Rightarrow> ('a) worker_settings_scheme \<Rightarrow> nat \<Rightarrow> (chunk list) result" where
  "reference_chunk_page p enc s start_ord =
     chunk_windows p (reference_units (pg_text p) enc (chunk_tokens s))
       (reference_count (pg_text p) enc) (chunk_tokens s) (chunk_overlap s) start_ord 0 []"

definition chunk_page ::
  "page \<Rightarrow> tokenizer \<Rightarrow> ('a) worker_settings_scheme \<Rightarrow> nat \<Rightarrow> (chunk list) result" where
  "chunk_page p enc s start_ord =
     (if requires_reference (pg_text p) then reference_chunk_page p enc s start_ord
      else
        let pt = page_tokens_init (pg_text p) enc
        in if \<not> pt_ordered pt then reference_chunk_page p enc s start_ord
           else (case units (pg_text p) pt (chunk_tokens s) of
                   Inl x \<Rightarrow> Inl x
                 | Inr us \<Rightarrow>
                     chunk_windows p us (token_count pt) (chunk_tokens s) (chunk_overlap s)
                       start_ord 0 []))"

section \<open>What one window is\<close>

lemma grow_window_spec:
  assumes "grow_window us cnt start cap stop n = Inr (l, k)"
  shows "(l = stop \<longrightarrow> k = n)
    \<and> (stop < l \<longrightarrow> cnt start (snd (us ! (l - 1))) = Inr k \<and> k \<le> int cap)
    \<and> (stop \<le> length us \<longrightarrow> l \<le> length us)
    \<and> (l < length us \<longrightarrow> (\<exists>j. cnt start (snd (us ! l)) = Inr j \<and> int cap < j))"
  using assms
proof (induction us cnt start cap stop n rule: grow_window.induct)
  case (1 us cnt start cap stop n)
  show ?case
  proof (cases "stop < length us")
    case False
    with "1.prems" show ?thesis by (simp add: grow_window.simps [of _ _ _ _ stop])
  next
    case True
    then obtain j where j: "cnt start (snd (us ! stop)) = Inr j"
      using "1.prems" by (auto simp: grow_window.simps [of _ _ _ _ stop] split: sum.splits)
    show ?thesis
    proof (cases "int cap < j")
      case big: True
      with "1.prems" True j show ?thesis by (simp add: grow_window.simps [of _ _ _ _ stop])
    next
      case False
      have step: "grow_window us cnt start cap (Suc stop) j = Inr (l, k)"
        using "1.prems" True j False by (simp add: grow_window.simps [of _ _ _ _ stop])
      have "Suc stop \<le> l" using step by (rule grow_window_ge)
      with "1.IH" [OF True j False step] False j True show ?thesis
        by (cases "l = Suc stop") auto
    qed
  qed
qed

definition chunk_ok ::
  "page \<Rightarrow> nat \<Rightarrow> (nat \<Rightarrow> nat \<Rightarrow> int result) \<Rightarrow> chunk \<Rightarrow> bool" where
  "chunk_ok p cap cnt c \<longleftrightarrow>
     ck_text c = py_slice (ck_start c) (ck_end c) (pg_text p) \<and> ck_page c = pg_number p
     \<and> ck_language c = pg_language p \<and> ck_embedding c = None
     \<and> cnt (ck_start c) (ck_end c) = Inr (ck_tokens c) \<and> ck_tokens c \<le> int cap"

definition chunks_ok ::
  "page \<Rightarrow> nat \<Rightarrow> (nat \<Rightarrow> nat \<Rightarrow> int result) \<Rightarrow> nat \<Rightarrow> chunk list \<Rightarrow> bool" where
  "chunks_ok p cap cnt start_ord cs \<longleftrightarrow> list_all (chunk_ok p cap cnt) cs
     \<and> map ck_ord cs = [start_ord ..< start_ord + length cs]
     \<and> sorted_wrt (<) (map ck_end cs)"

lemma add_chunk_ok:
  assumes "chunks_ok p cap cnt start_ord cs" and "cnt a b = Inr n" and "n \<le> int cap"
  shows "chunks_ok p cap cnt start_ord (add_chunk p start_ord a b n cs)"
proof (cases "cs = [] \<or> b > ck_end (last cs)")
  case False
  with assms(1) show ?thesis by (simp add: add_chunk_def)
next
  case True
  have "\<forall>x \<in> set (map ck_end cs). x \<le> ck_end (last cs)" if "cs \<noteq> []"
    using assms(1) that
    by (cases cs rule: rev_cases) (auto simp: chunks_ok_def sorted_wrt_append less_imp_le)
  then have "\<forall>x \<in> set cs. ck_end x < b" using True by (cases cs) force+
  with assms True show ?thesis
    by (auto simp: add_chunk_def make_chunk_def chunks_ok_def chunk_ok_def sorted_wrt_append)
qed

lemma chunk_windows_cases [consumes 1, case_names done_ stop_ step_]:
  assumes "chunk_windows p us cnt cap overlap start_ord first chunks = Inr cs"
  obtains "length us \<le> first" "cs = chunks"
  | n where "first < length us"
      "grow_window us cnt (fst (us ! first)) cap first 0 = Inr (length us, n)"
      "cs = add_chunk p start_ord (fst (us ! first)) (snd (us ! (length us - 1))) n chunks"
  | stop n next_first where "first < length us" "first < stop" "stop < length us"
      "grow_window us cnt (fst (us ! first)) cap first 0 = Inr (stop, n)"
      "overlap_start us cnt first (snd (us ! (stop - 1))) overlap stop = Inr next_first"
      "first < next_first" "next_first \<le> stop"
      "chunk_windows p us cnt cap overlap start_ord next_first
         (add_chunk p start_ord (fst (us ! first)) (snd (us ! (stop - 1))) n chunks) = Inr cs"
proof (cases "first < length us")
  case False
  with assms that(1) show ?thesis
    by (simp add: chunk_windows.simps [of _ _ _ _ _ _ first])
next
  case True
  then obtain stop n where
    g: "grow_window us cnt (fst (us ! first)) cap first 0 = Inr (stop, n)"
    and ne: "stop \<noteq> first"
    using assms by (auto simp: chunk_windows.simps [of _ _ _ _ _ _ first]
        split: sum.splits if_splits)
  have lt: "first < stop" using grow_window_ge [OF g] ne by simp
  have le: "stop \<le> length us" using grow_window_spec [OF g] True by simp
  show ?thesis
  proof (cases "stop = length us")
    case eq: True
    with assms True g ne that(2) show ?thesis
      by (simp add: chunk_windows.simps [of _ _ _ _ _ _ first] Let_def)
  next
    case False
    with assms True g ne obtain m where
      o: "overlap_start us cnt first (snd (us ! (stop - 1))) overlap stop = Inr m"
      and r: "chunk_windows p us cnt cap overlap start_ord m
         (add_chunk p start_ord (fst (us ! first)) (snd (us ! (stop - 1))) n chunks) = Inr cs"
      by (auto simp: chunk_windows.simps [of _ _ _ _ _ _ first] Let_def split: sum.splits)
    from overlap_start_bounds [OF o lt] False le lt True g o r show ?thesis
      by (intro that(3)) auto
  qed
qed

lemma chunk_windows_ok:
  assumes "chunk_windows p us cnt cap overlap start_ord first chunks = Inr cs"
    and "chunks_ok p cap cnt start_ord chunks"
  shows "chunks_ok p cap cnt start_ord cs"
  using assms
proof (induction "length us - first" arbitrary: first chunks rule: less_induct)
  case less
  from less.prems(1) show ?case
  proof (cases rule: chunk_windows_cases)
    case done_
    with less.prems(2) show ?thesis by simp
  next
    case (stop_ n)
    from grow_window_spec [OF stop_(2)] stop_(1)
    have "cnt (fst (us ! first)) (snd (us ! (length us - 1))) = Inr n" "n \<le> int cap" by auto
    with less.prems(2) stop_(3) show ?thesis by (simp add: add_chunk_ok)
  next
    case (step_ stop n m)
    from grow_window_spec [OF step_(4)] step_(2)
    have "cnt (fst (us ! first)) (snd (us ! (stop - 1))) = Inr n" "n \<le> int cap" by auto
    with less.prems(2)
    have "chunks_ok p cap cnt start_ord
      (add_chunk p start_ord (fst (us ! first)) (snd (us ! (stop - 1))) n chunks)"
      by (intro add_chunk_ok)
    with step_(1,6,8) show ?thesis by (intro less.hyps [of m]) auto
  qed
qed

end
