(* ===== verification/ChunkerLaws.thy ===== *)
theory ChunkerLaws
  imports Chunker
begin

text \<open>
  What the chunker guarantees. The tokenizer's contract is a pair of locales; under it the
  binary searches count exactly the tokens of a window, so the optimised chunker returns
  what the reference chunker returns, every word that fits and every token of the others
  lies in a chunk, and no window fails. Without any contract each chunk is an exact slice
  of the page within the token budget, and the ordinals and end offsets increase.
\<close>

section \<open>The tokenizer's contract\<close>

text \<open>
  What the chunker relies on: offsets point inside the text, cover at least one character
  and come in order; and text is cut at white space before anything else, so tokenizing
  two pieces that meet at white space is tokenizing them apart.
\<close>

locale offset_tokenizer =
  fixes enc :: tokenizer
  assumes inside: "(a, b) \<in> set (enc t) \<Longrightarrow> a < b \<and> b \<le> length t"
    and starts_sorted: "sorted (map fst (enc t))"
    and ends_sorted: "sorted (map snd (enc t))"
begin

lemma inside_nth: "i < length (enc t) \<Longrightarrow>
    fst (enc t ! i) < snd (enc t ! i) \<and> snd (enc t ! i) \<le> length t"
  using inside [of "fst (enc t ! i)" "snd (enc t ! i)" t] by simp

lemma start_mono: "i \<le> j \<Longrightarrow> j < length (enc t) \<Longrightarrow> fst (enc t ! i) \<le> fst (enc t ! j)"
  using sorted_nth_mono [OF starts_sorted, of i j t] by simp

lemma end_mono: "i \<le> j \<Longrightarrow> j < length (enc t) \<Longrightarrow> snd (enc t ! i) \<le> snd (enc t ! j)"
  using sorted_nth_mono [OF ends_sorted, of i j t] by simp

end

locale word_tokenizer = offset_tokenizer +
  assumes boundary: "xs = [] \<or> ys = [] \<or> isspace (last xs) \<or> isspace (hd ys) \<Longrightarrow>
      enc (xs @ ys) = enc xs @ map (shift (length xs)) (enc ys)"
begin

lemma three_parts:
  assumes "s \<le> e" and "e \<le> length t"
    and "s = 0 \<or> isspace (t ! (s - 1))" and "e = length t \<or> isspace (t ! e)"
  shows "enc t = enc (take s t) @ map (shift s) (enc (py_slice s e t))
    @ map (shift e) (enc (drop e t))"
proof -
  have rest: "drop s t = py_slice s e t @ drop e t"
    using assms(1,2) append_take_drop_id [of "e - s" "drop s t"] by (simp add: py_slice_def)
  have len: "length (take s t) = s" "length (py_slice s e t) = e - s"
    using assms(1,2) by simp_all
  have "take s t = [] \<or> drop s t = [] \<or> isspace (last (take s t)) \<or> isspace (hd (drop s t))"
    using assms(1-3) by (cases "s = 0") (auto simp: last_conv_nth min_def)
  then have one: "enc t = enc (take s t) @ map (shift s) (enc (drop s t))"
    using boundary [of "take s t" "drop s t"] len by (simp only: append_take_drop_id)
  have "drop e t = [] \<or> isspace (hd (drop e t))"
    using assms(2,4) by (cases "e = length t") (simp_all add: hd_drop_conv_nth)
  then have "enc (drop s t) = enc (py_slice s e t)
      @ map (shift (length (py_slice s e t))) (enc (drop e t))"
    using boundary [of "py_slice s e t" "drop e t"] rest by metis
  then show ?thesis using one assms(1) by (simp only: len) (simp add: shift_def case_prod_unfold)
qed

lemma searched_count:
  assumes "s \<le> e" and "e \<le> length t"
    and "s = 0 \<or> isspace (t ! (s - 1))" and "e = length t \<or> isspace (t ! e)"
  shows "int (bisect_right (map snd (enc t)) e) - int (bisect_left (map fst (enc t)) s)
    = int (length (enc (py_slice s e t)))"
proof -
  let ?A = "enc (take s t)" and ?M = "map (shift s) (enc (py_slice s e t))"
    and ?B = "map (shift e) (enc (drop e t))"
  have A: "snd x \<le> e" "fst x < s" if "x \<in> set ?A" for x
    using inside [of "fst x" "snd x" "take s t"] that assms(1,2) by auto
  have M: "snd x \<le> e" "\<not> fst x < s" if "x \<in> set ?M" for x
    using inside that assms(1,2) by fastforce+
  have B: "\<not> snd x \<le> e" "\<not> fst x < s" if "x \<in> set ?B" for x
    using inside that assms(1) by fastforce+
  have "bisect_right (map snd (enc t)) e = length (filter (\<lambda>x. snd x \<le> e) (enc t))"
    by (simp add: bisect_right_count ends_sorted filter_map comp_def)
  also have "\<dots> = length (filter (\<lambda>x. snd x \<le> e) (?A @ ?M @ ?B))"
    by (simp only: three_parts [OF assms])
  also have "\<dots> = length ?A + length ?M"
    using A(1) M(1) B(1) by (simp only: filter_append filter_True filter_False) simp
  finally have r: "bisect_right (map snd (enc t)) e = length ?A + length ?M" .
  have "bisect_left (map fst (enc t)) s = length (filter (\<lambda>x. fst x < s) (enc t))"
    by (simp add: bisect_left_count starts_sorted filter_map comp_def)
  also have "\<dots> = length (filter (\<lambda>x. fst x < s) (?A @ ?M @ ?B))"
    by (simp only: three_parts [OF assms])
  also have "\<dots> = length ?A"
    using A(2) M(2) B(2) by (simp only: filter_append filter_True filter_False) simp
  finally show ?thesis using r by simp
qed

lemma count_is_reference:
  assumes "s \<le> e" and "e \<le> length t"
  shows "token_count (page_tokens_init t enc) s e = reference_count t enc s e"
proof -
  have eq: "s = 0 \<or> isspace (t ! (s - 1)) \<Longrightarrow> e = length t \<or> isspace (t ! e) \<Longrightarrow>
      int (bisect_right (map snd (enc t)) e) - int (bisect_left (map fst (enc t)) s)
      = int (length (enc (py_slice s e t)))"
    using searched_count [OF assms] .
  have "char_at t (s - 1) = Inr (t ! (s - 1))" if "0 < s"
    using assms that by (simp add: char_at_def)
  with eq assms(2) show ?thesis
    by (auto simp: token_count_def reference_count_def page_tokens_init_def Let_def)
qed

end

section \<open>Units\<close>

definition units_ok :: "ustr \<Rightarrow> (nat \<times> nat) list \<Rightarrow> bool" where
  "units_ok t us \<longleftrightarrow> (\<forall>u \<in> set us. fst u < snd u \<and> snd u \<le> length t)
     \<and> sorted (map fst us) \<and> sorted (map snd us)"

text \<open>The pieces of a word cover every token of its tokenization, in order.\<close>

lemma split_last_le:
  "stop \<le> length offsets \<Longrightarrow> split_last w enc cap offsets first stop \<le> length offsets"
proof (induction w enc cap offsets first stop rule: split_last.induct)
  case (1 w enc cap offsets first stop)
  then show ?case by (subst split_last.simps) auto
qed

text \<open>Both unit loops keep some words and cut the others; which ones is the argument \<open>ok\<close>.\<close>

definition cut_words ::
  "ustr \<Rightarrow> tokenizer \<Rightarrow> nat \<Rightarrow> (nat \<times> nat \<Rightarrow> bool) \<Rightarrow> (nat \<times> nat) list \<Rightarrow> (nat \<times> nat) list" where
  "cut_words t enc cap ok ws =
     concat (map (\<lambda>(a, b). if ok (a, b) then [(a, b)]
       else split_word (py_slice a b t) a enc cap) ws)"

lemma word_spans_sane:
  "\<forall>(a, b) \<in> set (word_spans t). a < b \<and> b \<le> length t"
  "sorted_wrt (\<lambda>x y. snd x \<le> fst y) (word_spans t)"
  using run_spans_bounds [of _ _ "\<lambda>c. \<not> isspace c" 0 t]
    run_spans_sorted [of "\<lambda>c. \<not> isspace c" 0 t]
  unfolding word_spans_def by auto

context offset_tokenizer
begin

lemma split_pieces_spec:
  assumes "us = split_pieces w enc cap (enc w) base first"
  shows "(\<forall>u \<in> set us. base + fst (enc w ! first) \<le> fst u
        \<and> base + snd (enc w ! first) \<le> snd u \<and> fst u < snd u \<and> snd u \<le> base + length w)
      \<and> sorted (map fst us) \<and> sorted (map snd us)
      \<and> (\<forall>i. first \<le> i \<and> i < length (enc w) \<longrightarrow>
           (\<exists>u \<in> set us. fst u \<le> base + fst (enc w ! i) \<and> base + snd (enc w ! i) \<le> snd u))"
  using assms
proof (induction "length (enc w) - first" arbitrary: first us rule: less_induct)
  case less
  show ?case
  proof (cases "first < length (enc w)")
    case False
    with less.prems show ?thesis by (simp add: split_pieces.simps [of _ _ _ _ _ first])
  next
    case True
    define stop where "stop = split_last w enc cap (enc w) first (Suc first)"
    define vs where "vs = split_pieces w enc cap (enc w) base stop"
    let ?u = "(base + fst (enc w ! first), base + snd (enc w ! (stop - 1)))"
    have us: "us = ?u # vs"
      using less.prems True
      by (simp add: split_pieces.simps [of _ _ _ _ _ first] stop_def vs_def Let_def)
    have stop: "first < stop" "stop \<le> length (enc w)"
      using split_last_ge [of "Suc first" w enc cap "enc w" first]
        split_last_le [of "Suc first" "enc w" w enc cap first] True
      by (auto simp: stop_def)
    have IH: "(\<forall>u \<in> set vs. base + fst (enc w ! stop) \<le> fst u
        \<and> base + snd (enc w ! stop) \<le> snd u \<and> fst u < snd u \<and> snd u \<le> base + length w)
      \<and> sorted (map fst vs) \<and> sorted (map snd vs)
      \<and> (\<forall>i. stop \<le> i \<and> i < length (enc w) \<longrightarrow>
           (\<exists>u \<in> set vs. fst u \<le> base + fst (enc w ! i) \<and> base + snd (enc w ! i) \<le> snd u))"
      using True stop by (intro less.hyps vs_def) simp
    have empty: "vs = []" if "\<not> stop < length (enc w)"
      using that by (simp add: vs_def split_pieces.simps [of _ _ _ _ _ stop])
    have i: "first \<le> stop - 1" "stop - 1 < length (enc w)" using stop by auto
    have u: "fst (enc w ! first) < snd (enc w ! (stop - 1))"
      "snd (enc w ! first) \<le> snd (enc w ! (stop - 1))" "snd (enc w ! (stop - 1)) \<le> length w"
      using end_mono [OF i] inside_nth [OF True] inside_nth [OF i(2)] by auto
    have later: "fst ?u \<le> fst v \<and> snd ?u \<le> snd v \<and> base + snd (enc w ! first) \<le> snd v"
      if "v \<in> set vs" for v
    proof -
      have lt: "stop < length (enc w)" using that empty by fastforce
      from start_mono [of first stop w] end_mono [of "stop - 1" stop w]
        end_mono [of first stop w] lt stop(1) IH that
      show ?thesis by fastforce
    qed
    have cover: "\<exists>v \<in> set us. fst v \<le> base + fst (enc w ! i) \<and> base + snd (enc w ! i) \<le> snd v"
      if "first \<le> i" "i < length (enc w)" for i
    proof (cases "stop \<le> i")
      case True
      with IH that us show ?thesis by auto
    next
      case False
      with that stop start_mono [of first i w] end_mono [of i "stop - 1" w] us
      show ?thesis by auto
    qed
    show ?thesis using IH u later cover us by auto
  qed
qed

lemma cut_words_spec:
  assumes "\<forall>(a, b) \<in> set ws. a < b \<and> b \<le> length t"
    and "sorted_wrt (\<lambda>x y. snd x \<le> fst y) ws"
  shows "(\<forall>u \<in> set (cut_words t enc cap ok ws).
        \<exists>(a, b) \<in> set ws. a \<le> fst u \<and> fst u < snd u \<and> snd u \<le> b)
      \<and> sorted (map fst (cut_words t enc cap ok ws))
      \<and> sorted (map snd (cut_words t enc cap ok ws))"
  using assms
proof (induction ws)
  case Nil
  show ?case by (simp add: cut_words_def)
next
  case (Cons w ws)
  obtain a b where w: "w = (a, b)" by (cases w)
  let ?w = "py_slice a b t" and ?vs = "cut_words t enc cap ok ws"
  let ?us = "if ok (a, b) then [(a, b)] else split_word ?w a enc cap"
  have ab: "a < b" "b \<le> length t" using Cons.prems(1) w by auto
  have IH: "\<forall>u \<in> set ?vs. \<exists>(c, d) \<in> set ws. c \<le> fst u \<and> fst u < snd u \<and> snd u \<le> d"
    "sorted (map fst ?vs)" "sorted (map snd ?vs)"
    using Cons by auto
  have "a + length ?w = b" using ab by simp
  then have us: "\<forall>u \<in> set ?us. a \<le> fst u \<and> fst u < snd u \<and> snd u \<le> b"
    "sorted (map fst ?us)" "sorted (map snd ?us)"
    using split_pieces_spec [OF refl, of ?w cap a 0] ab
    by (auto simp: split_word_def dest: add_leD1)
  have "b \<le> fst v \<and> b \<le> snd v" if "v \<in> set ?vs" for v
    using IH(1) that Cons.prems(2) w by fastforce
  moreover have "cut_words t enc cap ok (w # ws) = ?us @ ?vs"
    using w by (simp add: cut_words_def)
  ultimately show ?case using us IH w by (fastforce simp: sorted_append)
qed

lemma cut_words_ok: "units_ok t (cut_words t enc cap ok (word_spans t))"
  using cut_words_spec [OF word_spans_sane, of t cap ok] word_spans_sane(1) [of t]
  unfolding units_ok_def by fastforce

lemma cut_words_cover:
  assumes "(a, b) \<in> set (word_spans t)"
  shows "(ok (a, b) \<longrightarrow> (a, b) \<in> set (cut_words t enc cap ok (word_spans t)))
    \<and> (\<forall>(c, d) \<in> set (enc (py_slice a b t)).
         \<exists>u \<in> set (cut_words t enc cap ok (word_spans t)). fst u \<le> a + c \<and> a + d \<le> snd u)"
proof -
  let ?w = "py_slice a b t" and ?vs = "cut_words t enc cap ok (word_spans t)"
  have sub: "set (if ok (a, b) then [(a, b)] else split_word ?w a enc cap) \<subseteq> set ?vs"
    using set_concat_map [OF assms, of "\<lambda>(a, b). if ok (a, b) then [(a, b)]
        else split_word (py_slice a b t) a enc cap"] by (simp only: cut_words_def prod.case)
  have "\<exists>u \<in> set ?vs. fst u \<le> a + c \<and> a + d \<le> snd u" if cd: "(c, d) \<in> set (enc ?w)" for c d
  proof (cases "ok (a, b)")
    case True
    have "a + d \<le> b" using inside [OF cd] word_spans_sane(1) [of t] assms by auto
    with sub True show ?thesis by (intro bexI [of _ "(a, b)"]) auto
  next
    case False
    from cd obtain i where "i < length (enc ?w)" "enc ?w ! i = (c, d)"
      by (auto simp: in_set_conv_nth)
    with split_pieces_spec [OF refl, of ?w cap a 0] obtain u where
      "u \<in> set (split_word ?w a enc cap)" "fst u \<le> a + c" "a + d \<le> snd u"
      by (auto simp: split_word_def)
    with sub False show ?thesis by auto
  qed
  with sub show ?thesis by (auto split: if_splits)
qed

end

lemma reference_units_cut:
  "reference_units t enc cap = cut_words t enc cap
     (\<lambda>(a, b). length (py_slice a b t) \<le> cap \<or> length (enc (py_slice a b t)) \<le> cap) (word_spans t)"
proof -
  have "reference_units_loop t enc cap ws = cut_words t enc cap
     (\<lambda>(a, b). length (py_slice a b t) \<le> cap \<or> length (enc (py_slice a b t)) \<le> cap) ws" for ws
  proof (induction ws)
    case (Cons w ws)
    obtain a b where "w = (a, b)" by (cases w)
    with Cons show ?case by (auto simp: cut_words_def split_word_def Let_def)
  qed (simp add: cut_words_def)
  then show ?thesis by (simp add: reference_units_def)
qed

definition unit_fits :: "ustr \<Rightarrow> page_tokens \<Rightarrow> nat \<Rightarrow> nat \<times> nat \<Rightarrow> bool" where
  "unit_fits t pt cap = (\<lambda>(a, b). length (py_slice a b t) \<le> cap
     \<or> (\<exists>n. token_count pt a b = Inr n \<and> n \<le> int cap))"

lemma units_cut:
  assumes "units t pt cap = Inr us"
  shows "us = cut_words t (pt_tokenizer pt) cap (unit_fits t pt cap) (word_spans t)"
proof -
  have "us = cut_words t (pt_tokenizer pt) cap (unit_fits t pt cap) ws"
    if "units_loop t pt cap ws = Inr us" for ws
    using that
  proof (induction ws arbitrary: us)
    case Nil
    then show ?case by (simp add: cut_words_def)
  next
    case (Cons w ws)
    obtain a b where "w = (a, b)" by (cases w)
    with Cons show ?case
      by (auto simp: cut_words_def unit_fits_def Let_def split: sum.splits if_splits)
  qed
  with assms show ?thesis by (simp add: units_def)
qed

section \<open>Every unit is in a chunk\<close>

definition covered :: "chunk list \<Rightarrow> nat \<Rightarrow> nat \<Rightarrow> bool" where
  "covered cs a b \<longleftrightarrow> (\<exists>c \<in> set cs. ck_start c \<le> a \<and> b \<le> ck_end c)"

lemma covered_narrow: "covered cs a b \<Longrightarrow> a \<le> c \<Longrightarrow> d \<le> b \<Longrightarrow> covered cs c d"
  by (force simp: covered_def)

lemma add_chunk_covers:
  fixes p :: page and so :: nat and n :: int
  assumes us: "units_ok t us" and "first < stop" and "stop \<le> length us"
    and before: "\<forall>i < first. covered cs (fst (us ! i)) (snd (us ! i))"
    and start: "cs = [] \<or> (\<forall>i. first \<le> i \<and> i < length us \<longrightarrow> ck_start (last cs) \<le> fst (us ! i))"
  defines "cs' \<equiv> add_chunk p so (fst (us ! first)) (snd (us ! (stop - 1))) n cs"
  shows "(\<forall>i < stop. covered cs' (fst (us ! i)) (snd (us ! i)))
    \<and> (\<forall>i. first \<le> i \<and> i < length us \<longrightarrow> ck_start (last cs') \<le> fst (us ! i))"
proof -
  have starts: "fst (us ! i) \<le> fst (us ! j)" if "i \<le> j" "j < length us" for i j
    using sorted_nth_mono [of "map fst us" i j] us that by (simp add: units_ok_def)
  have ends: "snd (us ! i) \<le> snd (us ! j)" if "i \<le> j" "j < length us" for i j
    using sorted_nth_mono [of "map snd us" i j] us that by (simp add: units_ok_def)
  let ?new = "cs = [] \<or> snd (us ! (stop - 1)) > ck_end (last cs)"
  let ?c = "last cs'"
  have sub: "set cs \<subseteq> set cs'" by (auto simp: cs'_def add_chunk_def)
  have c: "?c \<in> set cs' \<and> snd (us ! (stop - 1)) \<le> ck_end ?c
      \<and> (\<forall>i. first \<le> i \<and> i < length us \<longrightarrow> ck_start ?c \<le> fst (us ! i))"
  proof (cases ?new)
    case True
    then show ?thesis using starts by (auto simp: cs'_def add_chunk_def make_chunk_def)
  next
    case False
    then show ?thesis using start by (auto simp: cs'_def add_chunk_def)
  qed
  have "covered cs' (fst (us ! i)) (snd (us ! i))" if "i < stop" for i
  proof (cases "i < first")
    case True
    with before sub show ?thesis by (auto simp: covered_def)
  next
    case False
    have "snd (us ! i) \<le> snd (us ! (stop - 1))"
      using that assms(3) by (intro ends) auto
    with False that assms(3) c show ?thesis
      unfolding covered_def by (intro bexI [of _ ?c]) auto
  qed
  with c show ?thesis by simp
qed

lemma chunk_windows_cover:
  assumes "chunk_windows p us cnt cap overlap start_ord first cs = Inr cs'"
    and "units_ok t us"
    and "\<forall>i < first. i < length us \<longrightarrow> covered cs (fst (us ! i)) (snd (us ! i))"
    and "cs = [] \<or> (\<forall>i. first \<le> i \<and> i < length us \<longrightarrow> ck_start (last cs) \<le> fst (us ! i))"
  shows "\<forall>u \<in> set us. covered cs' (fst u) (snd u)"
  using assms
proof (induction "length us - first" arbitrary: first cs rule: less_induct)
  case less
  from less.prems(1) show ?case
  proof (cases rule: chunk_windows_cases)
    case done_
    with less.prems(3) show ?thesis by (metis in_set_conv_nth less_le_trans)
  next
    case (stop_ n)
    have "\<forall>i < first. covered cs (fst (us ! i)) (snd (us ! i))" using less.prems(3) stop_(1) by simp
    from add_chunk_covers [OF less.prems(2) stop_(1) order.refl this less.prems(4)] stop_(3)
    show ?thesis by (metis in_set_conv_nth)
  next
    case (step_ stop n m)
    have "\<forall>i < first. covered cs (fst (us ! i)) (snd (us ! i))" using less.prems(3) step_(1) by simp
    from add_chunk_covers [OF less.prems(2) step_(2) less_imp_le [OF step_(3)] this less.prems(4)]
      step_(1,6,7,8)
    show ?thesis by (intro less.hyps [OF _ step_(8) less.prems(2)]) auto
  qed
qed

section \<open>Two counting functions that agree give the same windows\<close>

lemma grow_window_cong:
  "\<forall>j. stop \<le> j \<and> j < length us \<longrightarrow> f start (snd (us ! j)) = g start (snd (us ! j)) \<Longrightarrow>
   grow_window us f start cap stop n = grow_window us g start cap stop n"
proof (induction us f start cap stop n rule: grow_window.induct)
  case (1 us f start cap stop n)
  then show ?case
    by (simp add: grow_window.simps [of us f start cap stop] grow_window.simps [of us g start cap stop]
        split: sum.splits)
qed

lemma overlap_start_cong:
  "\<forall>i < next_first. f (fst (us ! i)) end = g (fst (us ! i)) end \<Longrightarrow>
   overlap_start us f first end budget next_first = overlap_start us g first end budget next_first"
proof (induction us f first "end" budget next_first rule: overlap_start.induct)
  case (1 us f first "end" budget next_first)
  then show ?case
    by (simp add: overlap_start.simps [of us f first "end" budget next_first]
        overlap_start.simps [of us g first "end" budget next_first] split: sum.splits)
qed

lemma chunk_windows_cong:
  assumes "\<forall>i j. i \<le> j \<and> j < length us \<longrightarrow>
      f (fst (us ! i)) (snd (us ! j)) = g (fst (us ! i)) (snd (us ! j))"
  shows "chunk_windows p us f cap overlap start_ord first cs
    = chunk_windows p us g cap overlap start_ord first cs"
proof (induction "length us - first" arbitrary: first cs rule: less_induct)
  case less
  show ?case
  proof (cases "first < length us")
    case False
    then show ?thesis by (simp add: chunk_windows.simps [of _ _ _ _ _ _ first])
  next
    case True
    have g: "grow_window us f (fst (us ! first)) cap first 0
        = grow_window us g (fst (us ! first)) cap first 0"
      using assms by (intro grow_window_cong) simp
    have o: "overlap_start us f first (snd (us ! (stop - 1))) overlap stop
        = overlap_start us g first (snd (us ! (stop - 1))) overlap stop"
      if "grow_window us g (fst (us ! first)) cap first 0 = Inr (stop, n)" for stop n
    proof (intro overlap_start_cong allI impI)
      fix i
      assume "i < stop"
      moreover have "stop \<le> length us" using grow_window_spec [OF that] True by simp
      ultimately have "i \<le> stop - 1 \<and> stop - 1 < length us" by arith
      then show "f (fst (us ! i)) (snd (us ! (stop - 1))) = g (fst (us ! i)) (snd (us ! (stop - 1)))"
        using assms by blast
    qed
    have lt: "first < m" if "grow_window us g (fst (us ! first)) cap first 0 = Inr (stop, n)"
      "stop \<noteq> first" "overlap_start us g first (snd (us ! (stop - 1))) overlap stop = Inr m"
      for stop n m
      using overlap_start_bounds [OF that(3)] grow_window_ge [OF that(1)] that(2) by simp
    have ih: "chunk_windows p us f cap overlap start_ord m xs
        = chunk_windows p us g cap overlap start_ord m xs" if "first < m" for m xs
      using that True by (intro less.hyps) simp
    show ?thesis
      using True g o lt ih
      by (auto simp: chunk_windows.simps [of _ _ _ _ _ _ first] Let_def split: sum.splits)
  qed
qed

section \<open>No window fails when single units fit\<close>

lemma grow_window_total:
  assumes "\<forall>j. stop \<le> j \<and> j < length us \<longrightarrow> (\<exists>k. cnt start (snd (us ! j)) = Inr k)"
  shows "\<exists>l k. grow_window us cnt start cap stop n = Inr (l, k)"
  using assms
proof (induction us cnt start cap stop n rule: grow_window.induct)
  case (1 us cnt start cap stop n)
  then show ?case
    by (auto simp: grow_window.simps [of us cnt start cap stop] split: sum.splits)
qed

lemma overlap_start_total:
  assumes "\<forall>i < next_first. \<exists>k. cnt (fst (us ! i)) end = Inr k"
  shows "\<exists>m. overlap_start us cnt first end budget next_first = Inr m"
  using assms
proof (induction us cnt first "end" budget next_first rule: overlap_start.induct)
  case (1 us cnt first "end" budget next_first)
  show ?case
  proof (cases "next_first > first + 1")
    case True
    then obtain k where "cnt (fst (us ! (next_first - 1))) end = Inr k"
      using "1.prems" by fastforce
    with 1 True show ?thesis
      by (simp add: overlap_start.simps [of us cnt first "end" budget next_first])
  next
    case False
    then show ?thesis
      by (simp add: overlap_start.simps [of us cnt first "end" budget next_first])
  qed
qed

lemma chunk_windows_total:
  assumes ok: "\<forall>i j. i \<le> j \<and> j < length us \<longrightarrow>
      (\<exists>k. cnt (fst (us ! i)) (snd (us ! j)) = Inr k \<and> (i = j \<longrightarrow> k \<le> int cap))"
  shows "\<exists>cs'. chunk_windows p us cnt cap overlap start_ord first cs = Inr cs'"
proof (induction "length us - first" arbitrary: first cs rule: less_induct)
  case less
  show ?case
  proof (cases "first < length us")
    case False
    then show ?thesis by (simp add: chunk_windows.simps [of _ _ _ _ _ _ first])
  next
    case True
    have "\<exists>l k. grow_window us cnt (fst (us ! first)) cap first 0 = Inr (l, k)"
      using ok by (intro grow_window_total) blast
    then obtain stop n where
      g: "grow_window us cnt (fst (us ! first)) cap first 0 = Inr (stop, n)" by blast
    have ne: "stop \<noteq> first"
    proof
      assume "stop = first"
      with grow_window_spec [OF g] True ok show False by fastforce
    qed
    have lt: "first < stop" using grow_window_ge [OF g] ne by simp
    have le: "stop \<le> length us" using grow_window_spec [OF g] True by simp
    have "\<exists>m. overlap_start us cnt first (snd (us ! (stop - 1))) overlap stop = Inr m"
    proof (intro overlap_start_total allI impI)
      fix i
      assume "i < stop"
      with le have "i \<le> stop - 1 \<and> stop - 1 < length us" by arith
      with ok show "\<exists>k. cnt (fst (us ! i)) (snd (us ! (stop - 1))) = Inr k" by blast
    qed
    then obtain m where
      o: "overlap_start us cnt first (snd (us ! (stop - 1))) overlap stop = Inr m" by blast
    have "first < m" using overlap_start_bounds [OF o lt] by simp
    then have "\<exists>cs'. chunk_windows p us cnt cap overlap start_ord m xs = Inr cs'" for xs
      using True by (intro less.hyps) simp
    with True g ne o show ?thesis
      by (simp add: chunk_windows.simps [of _ _ _ _ _ _ first] Let_def)
  qed
qed

lemma split_last_piece:
  "split_last w enc cap offsets first stop = l \<Longrightarrow>
   l = stop \<or> length (enc (py_slice (fst (offsets ! first)) (snd (offsets ! (l - 1))) w)) \<le> cap"
proof (induction w enc cap offsets first stop rule: split_last.induct)
  case (1 w enc cap offsets first stop)
  show ?case
  proof (cases "stop < length offsets
      \<and> \<not> cap < length (enc (py_slice (fst (offsets ! first)) (snd (offsets ! stop)) w))")
    case True
    then have "split_last w enc cap offsets first (Suc stop) = l"
      using "1.prems" by (simp add: split_last.simps [of _ _ _ _ _ stop])
    from "1.IH" [OF True this] True show ?thesis by auto
  next
    case False
    with "1.prems" show ?thesis by (auto simp: split_last.simps [of _ _ _ _ _ stop])
  qed
qed

definition small_tokens :: "tokenizer \<Rightarrow> nat \<Rightarrow> bool" where
  \<comment> \<open>at most one token per character, and a single token is a small text again\<close>
  "small_tokens enc cap \<longleftrightarrow> (\<forall>w. length (enc w) \<le> length w)
     \<and> (\<forall>w a b. (a, b) \<in> set (enc w) \<longrightarrow> length (enc (py_slice a b w)) \<le> cap)"

context offset_tokenizer
begin

lemma split_pieces_small:
  assumes "small_tokens enc cap" and "u \<in> set (split_pieces w enc cap (enc w) base first)"
  shows "\<exists>a b. u = (base + a, base + b) \<and> b \<le> length w \<and> length (enc (py_slice a b w)) \<le> cap"
  using assms(2)
proof (induction "length (enc w) - first" arbitrary: first rule: less_induct)
  case less
  have lt: "first < length (enc w)"
    using less.prems by (rule contrapos_pp) (simp add: split_pieces.simps [of _ _ _ _ _ first])
  define stop where "stop = split_last w enc cap (enc w) first (Suc first)"
  have stop: "first < stop" "stop \<le> length (enc w)"
    using split_last_ge [of "Suc first" w enc cap "enc w" first]
      split_last_le [of "Suc first" "enc w" w enc cap first] lt
    by (auto simp: stop_def)
  have i: "stop - 1 < length (enc w)" using stop by auto
  have "length (enc (py_slice (fst (enc w ! first)) (snd (enc w ! (stop - 1))) w)) \<le> cap"
  proof (cases "stop = Suc first")
    case True
    have "(fst (enc w ! first), snd (enc w ! first)) \<in> set (enc w)" using lt by simp
    then show ?thesis using assms(1) True unfolding small_tokens_def by simp
  next
    case False
    then show ?thesis using split_last_piece [OF stop_def [symmetric]] by simp
  qed
  moreover have "snd (enc w ! (stop - 1)) \<le> length w" using inside_nth [OF i] by simp
  moreover have "u = (base + fst (enc w ! first), base + snd (enc w ! (stop - 1)))
      \<or> u \<in> set (split_pieces w enc cap (enc w) base stop)"
    using less.prems lt by (auto simp: split_pieces.simps [of _ _ _ _ _ first] stop_def Let_def)
  ultimately show ?case using less.hyps [of stop] lt stop by fastforce
qed

lemma reference_units_small:
  assumes "small_tokens enc cap" and "u \<in> set (reference_units t enc cap)"
  shows "length (enc (py_slice (fst u) (snd u) t)) \<le> cap"
proof -
  from assms(2) obtain a b where ab: "(a, b) \<in> set (word_spans t)"
    and u: "u \<in> set (if length (py_slice a b t) \<le> cap \<or> length (enc (py_slice a b t)) \<le> cap
      then [(a, b)] else split_word (py_slice a b t) a enc cap)"
    by (auto simp: reference_units_cut cut_words_def)
  have len: "length (enc w) \<le> length w" for w
    using assms(1) by (simp add: small_tokens_def)
  have b: "a < b" "b \<le> length t" using word_spans_sane(1) [of t] ab by auto
  show ?thesis
  proof (cases "length (py_slice a b t) \<le> cap \<or> length (enc (py_slice a b t)) \<le> cap")
    case True
    with u len [of "py_slice a b t"] show ?thesis by auto
  next
    case False
    with u have "u \<in> set (split_pieces (py_slice a b t) enc cap (enc (py_slice a b t)) a 0)"
      by (simp add: split_word_def)
    from split_pieces_small [OF assms(1) this] obtain c d where
      "u = (a + c, a + d)" "d \<le> length (py_slice a b t)"
      "length (enc (py_slice c d (py_slice a b t))) \<le> cap" by blast
    with b show ?thesis by (simp add: py_slice_slice)
  qed
qed

lemma reference_total:
  assumes "small_tokens enc (chunk_tokens s)"
  shows "\<exists>cs. reference_chunk_page p enc s start_ord = Inr cs"
  unfolding reference_chunk_page_def
  using reference_units_small [OF assms, of _ "pg_text p"]
  by (intro chunk_windows_total) (auto simp: reference_count_def)

end

context word_tokenizer
begin

lemma units_are_reference: "units t (page_tokens_init t enc) cap = Inr (reference_units t enc cap)"
proof -
  have tok: "pt_tokenizer (page_tokens_init t enc) = enc"
    by (simp add: page_tokens_init_def Let_def)
  have "units_loop t (page_tokens_init t enc) cap ws = Inr (reference_units_loop t enc cap ws)"
    if "\<forall>(a, b) \<in> set ws. a < b \<and> b \<le> length t" for ws
    using that
  proof (induction ws)
    case Nil
    show ?case by simp
  next
    case (Cons w ws)
    obtain a b where w: "w = (a, b)" by (cases w)
    with Cons.prems have "token_count (page_tokens_init t enc) a b
        = Inr (int (length (enc (py_slice a b t))))"
      by (simp add: count_is_reference reference_count_def)
    with Cons w tok show ?case by (auto simp: Let_def split_word_def)
  qed
  then show ?thesis
    using word_spans_sane(1) [of t] by (simp add: units_def reference_units_def)
qed

lemma windows_are_reference:
  "chunk_windows p (reference_units (pg_text p) enc cap)
      (token_count (page_tokens_init (pg_text p) enc)) cap overlap start_ord first cs
   = chunk_windows p (reference_units (pg_text p) enc cap)
      (reference_count (pg_text p) enc) cap overlap start_ord first cs"
proof (intro chunk_windows_cong allI impI)
  let ?us = "reference_units (pg_text p) enc cap"
  fix i j
  assume ij: "i \<le> j \<and> j < length ?us"
  have ok: "units_ok (pg_text p) ?us" by (simp add: reference_units_cut cut_words_ok)
  have "fst (?us ! i) \<le> fst (?us ! j)"
    using sorted_nth_mono [of "map fst ?us" i j] ok ij by (simp add: units_ok_def)
  moreover have "fst (?us ! j) < snd (?us ! j) \<and> snd (?us ! j) \<le> length (pg_text p)"
    using ok ij by (simp add: units_ok_def)
  ultimately show "token_count (page_tokens_init (pg_text p) enc) (fst (?us ! i)) (snd (?us ! j))
      = reference_count (pg_text p) enc (fst (?us ! i)) (snd (?us ! j))"
    by (intro count_is_reference) auto
qed

lemma equivalent: "chunk_page p enc s start_ord = reference_chunk_page p enc s start_ord"
  by (simp add: chunk_page_def reference_chunk_page_def Let_def units_are_reference
      windows_are_reference)

end

section \<open>Tokenizers of the repository\<close>

definition hf_encode :: "tokenizer \<Rightarrow> tokenizer" where
  \<comment> \<open>\<open>raw\<close> is the offsets list of the tokenizers package; empty offsets are dropped.\<close>
  "hf_encode raw t = filter (\<lambda>(start, end). start < end) (raw t)"

lemma hf_offset_tokenizer:
  assumes "\<forall>t. \<forall>(a, b) \<in> set (raw t). b \<le> length t"
    and "\<forall>t. sorted (map fst (raw t)) \<and> sorted (map snd (raw t))"
  shows "offset_tokenizer (hf_encode raw)"
proof
  fix a b t
  assume "(a, b) \<in> set (hf_encode raw t)"
  with assms(1) show "a < b \<and> b \<le> length t" by (auto simp: hf_encode_def)
next
  fix t
  show "sorted (map fst (hf_encode raw t))" "sorted (map snd (hf_encode raw t))"
    using assms(2) by (simp_all add: hf_encode_def sorted_filter)
qed

definition fake_encode :: tokenizer where
  "fake_encode t = word_spans t"

lemma fake_sorted:
  assumes "sorted_wrt (\<lambda>x y. snd x \<le> fst y) us" and "\<forall>(a, b) \<in> set us. a < (b :: nat)"
  shows "sorted (map fst us) \<and> sorted (map snd us)"
  using assms by (induction us) fastforce+

interpretation fake: word_tokenizer fake_encode
proof
  fix a b t
  assume "(a, b) \<in> set (fake_encode t)"
  then show "a < b \<and> b \<le> length t"
    using word_spans_sane(1) [of t] by (auto simp: fake_encode_def)
next
  fix t
  show "sorted (map fst (fake_encode t))" "sorted (map snd (fake_encode t))"
    using fake_sorted [of "word_spans t"] word_spans_sane [of t] by (auto simp: fake_encode_def)
next
  fix xs ys
  assume "xs = [] \<or> ys = [] \<or> isspace (last xs) \<or> isspace (hd ys)"
  then show "fake_encode (xs @ ys) = fake_encode xs @ map (shift (length xs)) (fake_encode ys)"
    using run_spans_append [of xs ys "\<lambda>c. \<not> isspace c" 0]
      run_spans_shift [of "\<lambda>c. \<not> isspace c" "length xs" 0 ys]
    by (auto simp: fake_encode_def word_spans_def)
qed

lemma fake_length: "length (fake_encode t) \<le> length t"
proof -
  have "length (run_spans p i t) \<le> length t" for p i
  proof (induction p i t rule: run_spans.induct)
    case (2 p i c cs)
    have "length (drop (length (takeWhile p cs)) cs) \<le> length cs" by simp
    with 2 show ?case by (cases "p c") (auto simp: Let_def intro: le_trans)
  qed simp
  then show ?thesis by (simp add: fake_encode_def word_spans_def)
qed

lemma run_spans_all: "t \<noteq> [] \<Longrightarrow> list_all p t \<Longrightarrow> run_spans p i t = [(i, i + length t)]"
  by (cases t) (auto simp: Let_def list_all_iff takeWhile_eq_all_conv [THEN iffD2])

lemma run_spans_inside:
  "(a, b) \<in> set (run_spans p i t) \<Longrightarrow> list_all p (py_slice (a - i) (b - i) t)"
proof (induction p i t rule: run_spans.induct)
  case (2 p i c cs)
  let ?n = "length (takeWhile p cs)"
  show ?case
  proof (cases "p c")
    case False
    with 2 have "list_all p (py_slice (a - Suc i) (b - Suc i) cs)" and "Suc i \<le> a"
      using run_spans_bounds [of a b p "Suc i" cs] by auto
    moreover have "py_slice (a - i) (b - i) (c # cs) = py_slice (a - Suc i) (b - Suc i) cs"
      using \<open>Suc i \<le> a\<close> by (auto simp: py_slice_def drop_Cons' Suc_diff_le)
    ultimately show ?thesis by simp
  next
    case True
    have "list_all p (take ?n cs)"
      by (metis list_all_iff set_takeWhileD takeWhile_eq_take)
    moreover have "list_all p (py_slice (a - i) (b - i) (c # cs))"
      if ab: "(a, b) \<in> set (run_spans p (Suc (i + ?n)) (drop ?n cs))"
    proof -
      have "Suc (i + ?n) \<le> a" using run_spans_bounds [OF ab] by simp
      then have "py_slice (a - i) (b - i) (c # cs)
          = py_slice (a - Suc (i + ?n)) (b - Suc (i + ?n)) (drop ?n cs)"
        by (auto simp: py_slice_def drop_Cons' Suc_diff_le)
      with "2.IH"(1) [OF True refl ab] show ?thesis by simp
    qed
    ultimately show ?thesis using 2(3) True by (auto simp: Let_def py_slice_def)
  qed
qed simp

lemma fake_small: "0 < cap \<Longrightarrow> small_tokens fake_encode cap"
proof -
  assume cap: "0 < cap"
  have "length (fake_encode (py_slice a b w)) \<le> cap" if "(a, b) \<in> set (fake_encode w)" for w a b
  proof -
    have "list_all (\<lambda>c. \<not> isspace c) (py_slice a b w)"
      using that run_spans_inside [of a b "\<lambda>c. \<not> isspace c" 0 w]
      by (simp add: fake_encode_def word_spans_def)
    moreover have "py_slice a b w \<noteq> []"
      using fake.inside [OF that] by (auto simp: py_slice_def)
    ultimately show ?thesis
      using run_spans_all [of "py_slice a b w" "\<lambda>c. \<not> isspace c" 0] cap
      by (simp add: fake_encode_def word_spans_def)
  qed
  then show ?thesis using fake_length by (auto simp: small_tokens_def)
qed

section \<open>Properties\<close>

definition demo_page :: "string \<Rightarrow> page" where
  "demo_page t = \<lparr>pg_number = 1, pg_text = ascii t, pg_source = TextLayer,
     pg_language = ''en'', pg_confidence = 1\<rparr>"

definition demo_settings :: worker_settings where
  "demo_settings = default_worker\<lparr>chunk_tokens := 2, chunk_overlap := 1\<rparr>"

lemma demo_windows:
  "chunk_page (demo_page ''aa bb cc dd'') fake_encode demo_settings 7
   = Inr [make_chunk (demo_page ''aa bb cc dd'') 7 0 5 2, make_chunk (demo_page ''aa bb cc dd'') 8 3 8 2,
       make_chunk (demo_page ''aa bb cc dd'') 9 6 11 2]"
  by code_simp

text \<open>
  C5: with any tokenizer at all, what the chunker returns for a page is a sequence of exact
  slices of that page: each carries the page's number and language, the slice between its
  offsets, at most \<open>chunk_tokens\<close> tokens and no embedding yet; ordinals count up from
  \<open>start_ord\<close> without a gap and end offsets strictly increase, so no chunk repeats another.
\<close>

theorem chunk_page_well_formed:
  assumes "chunk_page p enc s start_ord = Inr cs"
  shows "list_all (\<lambda>c. ck_text c = py_slice (ck_start c) (ck_end c) (pg_text p)
        \<and> ck_page c = pg_number p \<and> ck_language c = pg_language p \<and> ck_embedding c = None
        \<and> ck_tokens c \<le> int (chunk_tokens s)) cs
    \<and> map ck_ord cs = [start_ord ..< start_ord + length cs]
    \<and> sorted_wrt (<) (map ck_end cs)"
proof -
  obtain us cnt where "chunk_windows p us cnt (chunk_tokens s) (chunk_overlap s) start_ord 0 [] = Inr cs"
    using assms by (auto simp: chunk_page_def reference_chunk_page_def Let_def
        split: if_splits sum.splits)
  from chunk_windows_ok [OF this] show ?thesis
    by (auto simp: chunks_ok_def chunk_ok_def list_all_iff)
qed

lemma chunk_page_well_formed_witness:
  "sorted_wrt (<) (map ck_end [make_chunk (demo_page ''aa bb cc dd'') 7 0 5 2,
      make_chunk (demo_page ''aa bb cc dd'') 8 3 8 2,
      make_chunk (demo_page ''aa bb cc dd'') 9 6 11 2])"
  using chunk_page_well_formed [OF demo_windows] by blast

lemma chunk_page_units:
  assumes "offset_tokenizer enc" and "chunk_page p enc s start_ord = Inr cs"
  obtains ok cnt where
    "chunk_windows p (cut_words (pg_text p) enc (chunk_tokens s) ok (word_spans (pg_text p)))
       cnt (chunk_tokens s) (chunk_overlap s) start_ord 0 [] = Inr cs"
    "\<And>a b. length (py_slice a b (pg_text p)) \<le> chunk_tokens s \<Longrightarrow> ok (a, b)"
proof -
  have tok: "pt_tokenizer (page_tokens_init t enc) = enc" for t
    by (simp add: page_tokens_init_def Let_def)
  consider "reference_chunk_page p enc s start_ord = Inr cs"
    | us where "units (pg_text p) (page_tokens_init (pg_text p) enc) (chunk_tokens s) = Inr us"
        "chunk_windows p us (token_count (page_tokens_init (pg_text p) enc)) (chunk_tokens s)
          (chunk_overlap s) start_ord 0 [] = Inr cs"
    using assms(2) by (auto simp: chunk_page_def Let_def split: if_splits sum.splits)
  then show thesis
  proof cases
    case 1
    then show thesis
      by (intro that [of "\<lambda>(a, b). length (py_slice a b (pg_text p)) \<le> chunk_tokens s
          \<or> length (enc (py_slice a b (pg_text p))) \<le> chunk_tokens s" "reference_count (pg_text p) enc"])
        (simp_all add: reference_chunk_page_def reference_units_cut)
  next
    case 2
    with units_cut [OF 2(1)] tok show thesis
      by (intro that [of "unit_fits (pg_text p) (page_tokens_init (pg_text p) enc) (chunk_tokens s)"
          "token_count (page_tokens_init (pg_text p) enc)"]) (auto simp: unit_fits_def)
  qed
qed

text \<open>
  C16: with a tokenizer whose offsets lie inside the text in order, no text is lost. Every
  word of at most \<open>chunk_tokens\<close> characters lies inside one chunk, and so does every token
  of every longer word.
\<close>

theorem chunk_page_covers:
  assumes "offset_tokenizer enc" and "chunk_page p enc s start_ord = Inr cs"
    and "(a, b) \<in> set (word_spans (pg_text p))"
  shows "(b - a \<le> chunk_tokens s \<longrightarrow> covered cs a b)
    \<and> (\<forall>(c, d) \<in> set (enc (py_slice a b (pg_text p))). covered cs (a + c) (a + d))"
proof -
  from assms(1,2) obtain ok cnt where
    w: "chunk_windows p (cut_words (pg_text p) enc (chunk_tokens s) ok (word_spans (pg_text p)))
       cnt (chunk_tokens s) (chunk_overlap s) start_ord 0 [] = Inr cs"
    and ok: "\<And>a b. length (py_slice a b (pg_text p)) \<le> chunk_tokens s \<Longrightarrow> ok (a, b)"
    using chunk_page_units by blast
  note cover = offset_tokenizer.cut_words_cover [OF assms(1,3), of ok "chunk_tokens s"]
  from chunk_windows_cover [OF w offset_tokenizer.cut_words_ok [OF assms(1)]]
  have all: "\<forall>u \<in> set (cut_words (pg_text p) enc (chunk_tokens s) ok (word_spans (pg_text p))).
      covered cs (fst u) (snd u)" by simp
  have "b \<le> length (pg_text p)" using word_spans_sane(1) [of "pg_text p"] assms(3) by auto
  then have "ok (a, b)" if "b - a \<le> chunk_tokens s" using ok [of a b] that by simp
  with cover all show ?thesis by (fastforce intro: covered_narrow)
qed

lemma chunk_page_covers_witness:
  "covered [make_chunk (demo_page ''aa bb cc dd'') 7 0 5 2,
      make_chunk (demo_page ''aa bb cc dd'') 8 3 8 2,
      make_chunk (demo_page ''aa bb cc dd'') 9 6 11 2] 9 11"
proof -
  have "(9, 11) \<in> set (word_spans (pg_text (demo_page ''aa bb cc dd'')))"
    "(11 :: nat) - 9 \<le> chunk_tokens demo_settings" by code_simp+
  with chunk_page_covers [OF fake.offset_tokenizer_axioms demo_windows] show ?thesis by blast
qed





end
