(* ===== verification/Effects.thy ===== *)
theory Effects
  imports Contracts
begin

text \<open>
  Effects. A call that reads or changes state and may raise is a function from the state to
  a result and the new state. \<open>bindE\<close> sequences calls, \<open>tryE\<close> is \<open>try/except\<close> (the handler
  re-raises what its clauses do not catch), \<open>finallyE\<close> is \<open>try/finally\<close>, and
  \<open>transaction\<close> is \<open>with engine.begin()\<close>: what a failing body wrote is rolled back.
\<close>

type_synonym ('s, 'a) proc = "'s \<Rightarrow> 'a result \<times> 's"

definition returnE :: "'a \<Rightarrow> ('s, 'a) proc" where
  "returnE a s = (Inr a, s)"

definition raiseE :: "exn \<Rightarrow> ('s, 'a) proc" where
  "raiseE e s = (Inl e, s)"

definition bindE :: "('s, 'a) proc \<Rightarrow> ('a \<Rightarrow> ('s, 'b) proc) \<Rightarrow> ('s, 'b) proc" where
  "bindE m f s = (case m s of (Inl e, s') \<Rightarrow> (Inl e, s') | (Inr a, s') \<Rightarrow> f a s')"

definition thenE :: "('s, 'a) proc \<Rightarrow> ('s, 'b) proc \<Rightarrow> ('s, 'b) proc" where
  "thenE m n = bindE m (\<lambda>_. n)"

definition tryE :: "('s, 'a) proc \<Rightarrow> (exn \<Rightarrow> ('s, 'a) proc) \<Rightarrow> ('s, 'a) proc" where
  "tryE m h s = (case m s of (Inl e, s') \<Rightarrow> h e s' | (Inr a, s') \<Rightarrow> (Inr a, s'))"

definition finallyE :: "('s, 'a) proc \<Rightarrow> ('s \<Rightarrow> 's) \<Rightarrow> ('s, 'a) proc" where
  "finallyE m f s = (case m s of (r, s') \<Rightarrow> (r, f s'))"

definition readE :: "('s \<Rightarrow> 'a) \<Rightarrow> ('s, 'a) proc" where
  "readE f s = (Inr (f s), s)"

definition writeE :: "('s \<Rightarrow> 's) \<Rightarrow> ('s, unit) proc" where
  "writeE f s = (Inr (), f s)"

definition liftE :: "'a result \<Rightarrow> ('s, 'a) proc" where
  "liftE r s = (r, s)"

definition guardE :: "bool \<Rightarrow> exn \<Rightarrow> ('s, unit) proc" where
  \<comment> \<open>\<open>if not b: raise e\<close>\<close>
  "guardE b e s = (if b then (Inr (), s) else (Inl e, s))"

fun forE :: "('b \<Rightarrow> ('s, unit) proc) \<Rightarrow> 'b list \<Rightarrow> ('s, unit) proc" where
  "forE f [] = returnE ()"
| "forE f (x # xs) = thenE (f x) (forE f xs)"

definition transaction :: "('s, 'a) proc \<Rightarrow> ('s, 'a) proc" where
  "transaction m s = (case m s of (Inl e, s') \<Rightarrow> (Inl e, s) | (Inr a, s') \<Rightarrow> (Inr a, s'))"

lemmas effect_defs = returnE_def raiseE_def bindE_def thenE_def tryE_def finallyE_def
  readE_def writeE_def liftE_def guardE_def transaction_def

lemma bindE_Inr:
  "bindE m f s = (Inr b, t) \<longleftrightarrow> (\<exists>a s'. m s = (Inr a, s') \<and> f a s' = (Inr b, t))"
  by (auto simp: bindE_def split: prod.splits sum.splits)

lemma bindE_Inl:
  "bindE m f s = (Inl e, t) \<longleftrightarrow>
     m s = (Inl e, t) \<or> (\<exists>a s'. m s = (Inr a, s') \<and> f a s' = (Inl e, t))"
  by (auto simp: bindE_def split: prod.splits sum.splits)

lemma bindE_cong: "m s = m' s \<Longrightarrow> (\<And>a s'. f a s' = f' a s') \<Longrightarrow> bindE m f s = bindE m' f' s"
  by (auto simp: bindE_def split: prod.splits sum.splits)

lemma transaction_Inl: "transaction m s = (Inl e, t) \<Longrightarrow> t = s"
  by (auto simp: transaction_def split: prod.splits sum.splits)

lemma transaction_Inr: "transaction m s = (Inr a, t) \<longleftrightarrow> m s = (Inr a, t)"
  by (auto simp: transaction_def split: prod.splits sum.splits)

lemmas effect_simps = returnE_def raiseE_def readE_def writeE_def liftE_def guardE_def
  thenE_def bindE_Inr bindE_Inl transaction_Inr

text \<open>A property of the state that every call keeps is kept by what is built from them.\<close>

definition keeps :: "('s \<Rightarrow> bool) \<Rightarrow> ('s, 'a) proc \<Rightarrow> bool" where
  "keeps P m \<longleftrightarrow> (\<forall>s. P s \<longrightarrow> P (snd (m s)))"

named_theorems keeps_intros

lemma keeps_return [keeps_intros]: "keeps P (returnE a)"
  and keeps_raise [keeps_intros]: "keeps P (raiseE e)"
  and keeps_read [keeps_intros]: "keeps P (readE f)"
  and keeps_lift [keeps_intros]: "keeps P (liftE r)"
  and keeps_guard [keeps_intros]: "keeps P (guardE b e)"
  by (simp_all add: keeps_def returnE_def raiseE_def readE_def liftE_def guardE_def)

lemma keeps_write: "(\<And>s. P s \<Longrightarrow> P (f s)) \<Longrightarrow> keeps P (writeE f)"
  by (simp add: keeps_def writeE_def)

lemma keeps_bind [keeps_intros]:
  "keeps P m \<Longrightarrow> (\<And>a. keeps P (f a)) \<Longrightarrow> keeps P (bindE m f)"
  by (force simp: keeps_def bindE_def split: prod.splits sum.splits)

lemma keeps_then [keeps_intros]: "keeps P m \<Longrightarrow> keeps P n \<Longrightarrow> keeps P (thenE m n)"
  by (simp add: thenE_def keeps_bind)

lemma keeps_try [keeps_intros]:
  "keeps P m \<Longrightarrow> (\<And>e. keeps P (h e)) \<Longrightarrow> keeps P (tryE m h)"
  by (force simp: keeps_def tryE_def split: prod.splits sum.splits)

lemma keeps_transaction [keeps_intros]: "keeps P m \<Longrightarrow> keeps P (transaction m)"
  by (force simp: keeps_def transaction_def split: prod.splits sum.splits)

lemma keeps_for [keeps_intros]: "(\<And>x. keeps P (f x)) \<Longrightarrow> keeps P (forE f xs)"
  by (induction xs) (auto intro: keeps_intros)

lemma keepsD: "keeps P m \<Longrightarrow> m s = (r, t) \<Longrightarrow> P s \<Longrightarrow> P t"
  by (force simp: keeps_def)

text \<open>
  \<open>leaves P m Q s\<close>: from \<open>s\<close> the call ends in a state that satisfies \<open>P\<close>, and when it returns
  a value, the value satisfies \<open>Q\<close> there.
\<close>

definition leaves :: "('s \<Rightarrow> bool) \<Rightarrow> ('s, 'a) proc \<Rightarrow> ('a \<Rightarrow> 's \<Rightarrow> bool) \<Rightarrow> 's \<Rightarrow> bool" where
  "leaves P m Q s \<longleftrightarrow> (case m s of (Inl e, t) \<Rightarrow> P t | (Inr a, t) \<Rightarrow> P t \<and> Q a t)"

lemma leaves_bind:
  "leaves P m Q s \<Longrightarrow> (\<And>a t. P t \<Longrightarrow> Q a t \<Longrightarrow> leaves P (f a) R t) \<Longrightarrow> leaves P (bindE m f) R s"
  by (force simp: leaves_def bindE_def split: prod.splits sum.splits)

lemma leaves_then:
  "leaves P m Q s \<Longrightarrow> (\<And>a t. P t \<Longrightarrow> Q a t \<Longrightarrow> leaves P n R t) \<Longrightarrow> leaves P (thenE m n) R s"
  by (simp add: thenE_def leaves_bind)

lemma leaves_return: "P s \<Longrightarrow> Q a s \<Longrightarrow> leaves P (returnE a) Q s"
  by (simp add: leaves_def returnE_def)

lemma leaves_read: "P s \<Longrightarrow> Q (f s) s \<Longrightarrow> leaves P (readE f) Q s"
  by (simp add: leaves_def readE_def)

lemma leaves_write: "P (g s) \<Longrightarrow> Q () (g s) \<Longrightarrow> leaves P (writeE g) Q s"
  by (simp add: leaves_def writeE_def)

lemma leaves_weaken:
  "leaves P m Q s \<Longrightarrow> (\<And>a t. P t \<Longrightarrow> Q a t \<Longrightarrow> R a t) \<Longrightarrow> leaves P m R s"
  by (force simp: leaves_def split: prod.splits sum.splits)

lemma leavesD: "leaves P m Q s \<Longrightarrow> m s = (r, t) \<Longrightarrow> P t"
  by (auto simp: leaves_def split: sum.splits)

end
