(* ===== verification/Storage.thy ===== *)
theory Storage
  imports Effects
begin

text \<open>
  The document store: \<open>repository.py\<close>, \<open>uploads.py\<close> and \<open>query_repository.py\<close> over the tables
  the migrations create. A table is the list of its rows in insertion order; a statement is
  what its SQL text says, with the row-level policy of migration 0002 applied to every row it
  reads or writes and with the unique keys of migration 0001. A transaction that raises
  leaves the tables as they were. Identifiers from \<open>uuid4()\<close> and clock readings are arguments;
  \<open>uuid5\<close>, pgvector's distance and the full-text operators are parameters.
\<close>

section \<open>Tables\<close>

record 'a child_row =
  cd_id :: uuid
  cd_document :: uuid
  cd_tenant :: ustr
  cd_item :: 'a

record outbox_row =
  ob_id :: uuid
  ob_tenant :: ustr
  ob_aggregate :: uuid
  ob_type :: ustr
  ob_payload :: document_uploaded
  ob_created :: timestamp
  ob_published :: "timestamp option"

record db =
  db_docs :: "doc_row list"
  db_chunks :: "chunk child_row list"
  db_entities :: "entity child_row list"
  db_outbox :: "outbox_row list"

definition empty_db :: db where
  "empty_db = \<lparr>db_docs = [], db_chunks = [], db_entities = [], db_outbox = []\<rparr>"

section \<open>Sessions and row-level security\<close>

record session =
  se_db :: db
  se_tenant :: "ustr option"

definition rls :: "ustr option \<Rightarrow> ustr \<Rightarrow> bool" where
  \<comment> \<open>\<open>tenant_id = NULLIF(current_setting('app.tenant_id', true), '')\<close>\<close>
  "rls setting row_tenant \<longleftrightarrow>
     (case setting of None \<Rightarrow> False | Some t \<Rightarrow> t \<noteq> [] \<and> row_tenant = t)"

definition set_tenant :: "ustr \<Rightarrow> (session, unit) proc" where
  "set_tenant t = writeE (\<lambda>s. s\<lparr>se_tenant := Some t\<rparr>)"

definition engine_begin :: "(session, 'a) proc \<Rightarrow> (db, 'a) proc" where
  \<comment> \<open>\<open>with self.engine.begin() as connection\<close>: commit, or roll back and re-raise\<close>
  "engine_begin body d =
     (case body \<lparr>se_db = d, se_tenant = None\<rparr> of
        (Inl e, s) \<Rightarrow> (Inl e, d) | (Inr a, s) \<Rightarrow> (Inr a, se_db s))"

section \<open>Statements\<close>

definition integrity_error :: exn where
  \<comment> \<open>a unique key or a policy refuses the statement\<close>
  "integrity_error = OtherSQLAlchemyError"

fun one_or_none :: "'a list \<Rightarrow> ('a option) result" where
  "one_or_none [] = Inr None"
| "one_or_none [x] = Inr (Some x)"
| "one_or_none _ = Inl OtherSQLAlchemyError"

definition select_docs :: "(doc_row \<Rightarrow> bool) \<Rightarrow> (session, doc_row list) proc" where
  "select_docs p = readE (\<lambda>s.
     filter (\<lambda>r. rls (se_tenant s) (sd_tenant r) \<and> p r) (db_docs (se_db s)))"

definition put_docs :: "doc_row list \<Rightarrow> session \<Rightarrow> session" where
  "put_docs rows s = s\<lparr>se_db := se_db s\<lparr>db_docs := rows\<rparr>\<rparr>"

definition same_key :: "doc_row \<Rightarrow> doc_row \<Rightarrow> bool" where
  \<comment> \<open>the unique key \<open>(tenant_id, sha256)\<close>\<close>
  "same_key r r' \<longleftrightarrow> sd_tenant r = sd_tenant r' \<and> sd_sha256 r = sd_sha256 r'"

definition add_doc :: "doc_row \<Rightarrow> (session, doc_row) proc" where
  "add_doc row s =
     (if rls (se_tenant s) (sd_tenant row) \<and> document_status (sd_status row)
        \<and> sd_id row \<notin> set (map sd_id (db_docs (se_db s)))
      then (Inr row, put_docs (db_docs (se_db s) @ [row]) s)
      else (Inl integrity_error, s))"

definition insert_or_nothing :: "doc_row \<Rightarrow> (session, doc_row option) proc" where
  \<comment> \<open>\<open>INSERT ... ON CONFLICT (tenant_id, sha256) DO NOTHING RETURNING\<close>\<close>
  "insert_or_nothing row s =
     (if rls (se_tenant s) (sd_tenant row) \<and> list_ex (same_key row) (db_docs (se_db s))
      then (Inr None, s)
      else bindE (add_doc row) (\<lambda>r. returnE (Some r)) s)"

definition update_docs ::
  "(doc_row \<Rightarrow> bool) \<Rightarrow> (doc_row \<Rightarrow> doc_row) \<Rightarrow> (session, doc_row list) proc" where
  \<comment> \<open>\<open>UPDATE ... WHERE p RETURNING\<close>\<close>
  "update_docs p f s =
     (let hit = (\<lambda>r. rls (se_tenant s) (sd_tenant r) \<and> p r); rows = db_docs (se_db s)
      in (Inr (map f (filter hit rows)), put_docs (map (\<lambda>r. if hit r then f r else r) rows) s))"

definition insert_or_update ::
  "doc_row \<Rightarrow> (doc_row \<Rightarrow> doc_row) \<Rightarrow> (session, doc_row list) proc" where
  \<comment> \<open>\<open>INSERT ... ON CONFLICT (tenant_id, sha256) DO UPDATE SET ... RETURNING\<close>\<close>
  "insert_or_update row f s =
     (if rls (se_tenant s) (sd_tenant row) \<and> list_ex (same_key row) (db_docs (se_db s))
      then update_docs (same_key row) f s
      else bindE (add_doc row) (\<lambda>r. returnE [r]) s)"

definition child_name :: "string \<Rightarrow> nat \<Rightarrow> ustr" where
  \<comment> \<open>\<open>f"{table.name}:{index}"\<close>\<close>
  "child_name table i = ascii table @ ascii '':'' @ str_nat i"

definition child_rows ::
  "(uuid \<Rightarrow> ustr \<Rightarrow> uuid) \<Rightarrow> string \<Rightarrow> ustr \<Rightarrow> uuid \<Rightarrow> 'a list \<Rightarrow> 'a child_row list" where
  "child_rows uuid5 table tenant doc items =
     map (\<lambda>(i, x). \<lparr>cd_id = uuid5 doc (child_name table i), cd_document = doc,
          cd_tenant = tenant, cd_item = x\<rparr>) (enumerate_from 0 items)"

definition replace_rows ::
  "(uuid \<Rightarrow> ustr \<Rightarrow> uuid) \<Rightarrow> string \<Rightarrow> ustr option \<Rightarrow> ustr \<Rightarrow> uuid \<Rightarrow> 'a list
   \<Rightarrow> 'a child_row list \<Rightarrow> ('a child_row list) result" where
  \<comment> \<open>delete the document's rows of one table, then insert the new ones\<close>
  "replace_rows uuid5 table setting tenant doc items rows =
     (let kept = filter (\<lambda>r. \<not> (rls setting (cd_tenant r) \<and> cd_tenant r = tenant
            \<and> cd_document r = doc)) rows;
          new = child_rows uuid5 table tenant doc items
      in if items = [] then Inr kept
         else if rls setting tenant \<and> distinct (map cd_id new)
           \<and> set (map cd_id new) \<inter> set (map cd_id kept) = {}
         then Inr (kept @ new)
         else Inl integrity_error)"

definition replace ::
  "nat \<Rightarrow> (uuid \<Rightarrow> ustr \<Rightarrow> uuid) \<Rightarrow> ustr \<Rightarrow> uuid \<Rightarrow> chunk list \<Rightarrow> entity list
   \<Rightarrow> (session, unit) proc" where
  "replace dimension uuid5 tenant doc chunks entities =
     thenE (liftE (validate_chunks chunks dimension))
      (bindE (readE id) (\<lambda>s.
        bindE (liftE (replace_rows uuid5 ''chunks'' (se_tenant s) tenant doc chunks
            (db_chunks (se_db s)))) (\<lambda>cs.
        bindE (liftE (replace_rows uuid5 ''entities'' (se_tenant s) tenant doc entities
            (db_entities (se_db s)))) (\<lambda>es.
        writeE (\<lambda>s. s\<lparr>se_db := se_db s\<lparr>db_chunks := cs, db_entities := es\<rparr>\<rparr>)))))"

section \<open>Uploads\<close>

definition list_documents :: "ustr \<Rightarrow> int \<Rightarrow> int \<Rightarrow> (db, doc_row list) proc" where
  "list_documents tenant limit offset =
     (if \<not> (1 \<le> limit \<and> limit \<le> 100) \<or> offset < 0
      then raiseE (ValueError ''Invalid pagination'')
      else engine_begin
        (thenE (set_tenant tenant)
          (bindE (select_docs (\<lambda>r. sd_tenant r = tenant)) (\<lambda>rows.
            returnE (take (nat limit) (drop (nat offset)
              (sort_key (\<lambda>r. (- sd_created r, sd_id r)) rows)))))))"

definition find_by_sha256 :: "ustr \<Rightarrow> ustr \<Rightarrow> (db, doc_row option) proc" where
  "find_by_sha256 tenant sha =
     engine_begin
       (thenE (set_tenant tenant)
         (bindE (select_docs (\<lambda>r. sd_tenant r = tenant \<and> sd_sha256 r = sha)) (\<lambda>rows.
           liftE (one_or_none rows))))"

definition uploaded_event ::
  "uuid \<Rightarrow> ustr option \<Rightarrow> doc_row \<Rightarrow> document_uploaded" where
  "uploaded_event event_id trace record =
     \<lparr>ev_id = event_id, ev_type = ascii ''document.uploaded'', ev_tenant = sd_tenant record,
      ev_document = sd_id record, ev_sha256 = sd_sha256 record,
      ev_key = (case sd_key record of None \<Rightarrow> [] | Some k \<Rightarrow> k),
      ev_media_type = sd_media_type record,
      ev_size = (case sd_size record of None \<Rightarrow> 0 | Some n \<Rightarrow> n),
      ev_occurred = sd_created record, ev_traceparent = trace\<rparr>"

definition enqueue :: "uuid \<Rightarrow> ustr option \<Rightarrow> doc_row \<Rightarrow> (session, unit) proc" where
  \<comment> \<open>\<open>event_id\<close> is \<open>uuid4()\<close>, \<open>trace\<close> is \<open>inject({}).get("traceparent")\<close>\<close>
  "enqueue event_id trace record s =
     (let event = uploaded_event event_id trace record
      in if \<not> valid_event event then (Inl ValidationError, s)
         else if \<not> rls (se_tenant s) (sd_tenant record)
           \<or> event_id \<in> set (map ob_id (db_outbox (se_db s))) then (Inl integrity_error, s)
         else (Inr (), s\<lparr>se_db := se_db s\<lparr>db_outbox := db_outbox (se_db s) @
           [\<lparr>ob_id = event_id, ob_tenant = sd_tenant record, ob_aggregate = sd_id record,
             ob_type = ev_type event, ob_payload = event, ob_created = ev_occurred event,
             ob_published = None\<rparr>]\<rparr>\<rparr>))"

definition register_row :: "uuid \<Rightarrow> ustr option \<Rightarrow> doc_row \<Rightarrow> (db, doc_row) proc" where
  \<comment> \<open>\<open>_register\<close>\<close>
  "register_row event_id trace record =
     engine_begin
       (thenE (set_tenant (sd_tenant record))
         (bindE (insert_or_nothing record) (\<lambda>row.
           (case row of
              None \<Rightarrow>
                bindE (select_docs (same_key record)) (\<lambda>rows.
                  bindE (liftE (one_or_none rows)) (\<lambda>found.
                    (case found of
                       None \<Rightarrow> raiseE OtherSQLAlchemyError
                     | Some r \<Rightarrow> returnE r)))
            | Some r \<Rightarrow> thenE (enqueue event_id trace record) (returnE r)))))"

definition register_upload ::
  "uuid \<Rightarrow> uuid \<Rightarrow> timestamp \<Rightarrow> ustr option \<Rightarrow> ustr \<Rightarrow> ustr \<Rightarrow> ustr \<Rightarrow> string \<Rightarrow> nat \<Rightarrow> ustr
   \<Rightarrow> (db, doc_row) proc" where
  "register_upload new event_id now trace tenant filename sha media size_bytes key =
     register_row event_id trace
       \<lparr>sd_id = new, sd_tenant = tenant, sd_filename = filename, sd_sha256 = sha,
        sd_media_type = media, sd_page_count = None, sd_language = None,
        sd_status = ''uploaded'', sd_version = None, sd_embed_model = None,
        sd_size = Some size_bytes, sd_key = Some key, sd_error = None, sd_created = now,
        sd_processed = None\<rparr>"

definition not_found :: exn where
  "not_found = LookupError ''Document not found for tenant''"

definition mark_status ::
  "ustr \<Rightarrow> uuid \<Rightarrow> string \<Rightarrow> ustr option \<Rightarrow> (db, unit) proc" where
  "mark_status tenant doc status error =
     (if \<not> document_status status then raiseE (ValueError ''Invalid document status'')
      else engine_begin
        (thenE (set_tenant tenant)
          (bindE (update_docs (\<lambda>r. sd_tenant r = tenant \<and> sd_id r = doc)
              (\<lambda>r. r\<lparr>sd_status := status,
                   sd_error := (if status = ''failed'' then error else None)\<rparr>)) (\<lambda>rows.
            bindE (liftE (one_or_none rows)) (\<lambda>found.
              guardE (found \<noteq> None) not_found)))))"

section \<open>Processed documents\<close>

definition upsert_row :: "('a) doc_row_scheme \<Rightarrow> timestamp \<Rightarrow> doc_row" where
  \<comment> \<open>the \<open>VALUES\<close> of the insert: \<open>size_bytes\<close> and \<open>object_key\<close> are left out\<close>
  "upsert_row record clk =
     (doc_row.truncate record)\<lparr>sd_size := None, sd_key := None, sd_processed := Some clk\<rparr>"

definition upsert_set :: "('a) doc_row_scheme \<Rightarrow> timestamp \<Rightarrow> doc_row \<Rightarrow> doc_row" where
  \<comment> \<open>the \<open>SET\<close> of the conflict update: identity and creation time are kept\<close>
  "upsert_set record clk r =
     r\<lparr>sd_filename := sd_filename record, sd_media_type := sd_media_type record,
       sd_page_count := sd_page_count record, sd_language := sd_language record,
       sd_status := sd_status record, sd_version := sd_version record,
       sd_embed_model := sd_embed_model record, sd_error := sd_error record,
       sd_processed := Some clk\<rparr>"

definition with_children :: "doc_row \<Rightarrow> chunk list \<Rightarrow> entity list \<Rightarrow> stored_document" where
  "with_children r cs es = doc_row.extend r (stored_document.fields cs es)"

definition upsert_document ::
  "nat \<Rightarrow> (uuid \<Rightarrow> ustr \<Rightarrow> uuid) \<Rightarrow> uuid \<Rightarrow> timestamp \<Rightarrow> timestamp \<Rightarrow> ustr \<Rightarrow> ustr \<Rightarrow> document
   \<Rightarrow> (db, stored_document) proc" where
  \<comment> \<open>\<open>now\<close> is Python's clock, \<open>clk\<close> is \<open>clock_timestamp()\<close> of the server.\<close>
  "upsert_document dimension uuid5 new now clk tenant filename document =
     bindE (liftE (prepare_document new now tenant filename document)) (\<lambda>record.
       engine_begin
         (thenE (set_tenant tenant)
           (bindE (insert_or_update (upsert_row record clk) (upsert_set record clk)) (\<lambda>rows.
             (case rows of
                [r] \<Rightarrow>
                  thenE (replace dimension uuid5 tenant (sd_id r) (sd_chunks record)
                      (sd_entities record))
                    (returnE (with_children r (sd_chunks record) (sd_entities record)))
              | _ \<Rightarrow> raiseE OtherSQLAlchemyError)))))"

definition replace_chunks_and_entities ::
  "nat \<Rightarrow> (uuid \<Rightarrow> ustr \<Rightarrow> uuid) \<Rightarrow> ustr \<Rightarrow> uuid \<Rightarrow> chunk list \<Rightarrow> entity list \<Rightarrow> (db, unit) proc" where
  "replace_chunks_and_entities dimension uuid5 tenant doc chunks entities =
     engine_begin
       (thenE (set_tenant tenant)
         (bindE (select_docs (\<lambda>r. sd_tenant r = tenant \<and> sd_id r = doc)) (\<lambda>rows.
           bindE (liftE (one_or_none rows)) (\<lambda>owner.
             thenE (guardE (owner \<noteq> None) not_found)
               (replace dimension uuid5 tenant doc chunks entities)))))"

section \<open>Reads on a snapshot\<close>

definition snapshot :: "ustr \<Rightarrow> (session, 'a) proc \<Rightarrow> (db, 'a) proc" where
  \<comment> \<open>repeatable read: the reader sees one state of the tables and changes nothing\<close>
  "snapshot tenant reader d =
     (fst (thenE (set_tenant tenant) reader \<lparr>se_db = d, se_tenant = None\<rparr>), d)"

definition filter_allows :: "query_filter option \<Rightarrow> chunk child_row \<Rightarrow> bool" where
  "filter_allows flt r \<longleftrightarrow>
     (case flt of None \<Rightarrow> True
      | Some f \<Rightarrow>
          (case qf_documents f of None \<Rightarrow> True | Some ids \<Rightarrow> cd_document r \<in> set ids)
          \<and> (case qf_language f of None \<Rightarrow> True | Some l \<Rightarrow> ck_language (cd_item r) = l))"

definition read_hits ::
  "(chunk child_row \<Rightarrow> bool) \<Rightarrow> (chunk child_row \<Rightarrow> real) \<Rightarrow> (chunk child_row \<Rightarrow> real) \<Rightarrow> ustr
   \<Rightarrow> int \<Rightarrow> query_filter option \<Rightarrow> (session, search_hit list) proc" where
  \<comment> \<open>\<open>_read\<close>: the statement's own condition, order and score, then the shared clauses\<close>
  "read_hits cond order score tenant k flt =
     (if k < 1 then raiseE (ValueError ''k must be positive'')
      else readE (\<lambda>s.
        map (\<lambda>r. \<lparr>sh_document = cd_document r, sh_chunk = cd_item r, sh_score = score r\<rparr>)
          (take (nat k)
            (sort_key (\<lambda>r. (order r, cd_document r, ck_ord (cd_item r)))
              (filter (\<lambda>r. rls (se_tenant s) (cd_tenant r) \<and> cond r \<and> cd_tenant r = tenant
                 \<and> filter_allows flt r) (db_chunks (se_db s)))))))"

definition document_names :: "ustr \<Rightarrow> (session, (uuid \<times> ustr) list) proc" where
  "document_names tenant =
     bindE (select_docs (\<lambda>r. sd_tenant r = tenant)) (\<lambda>rows.
       returnE (map (\<lambda>r. (sd_id r, sd_filename r)) rows))"

definition reader_nearest_chunks ::
  "nat \<Rightarrow> (pyfloat list \<Rightarrow> pyfloat list \<Rightarrow> real) \<Rightarrow> ustr \<Rightarrow> pyfloat list \<Rightarrow> int
   \<Rightarrow> query_filter option \<Rightarrow> (session, search_hit list) proc" where
  \<comment> \<open>\<open>distance\<close> is pgvector's cosine distance\<close>
  "reader_nearest_chunks dimension distance tenant vector k flt =
     thenE (liftE (validate_vector vector dimension))
       (read_hits (\<lambda>r. True) (\<lambda>r. distance (chunk_vector (cd_item r)) vector)
         (\<lambda>r. 1 - distance (chunk_vector (cd_item r)) vector) tenant k flt)"

definition reader_search_text ::
  "(ustr \<Rightarrow> ustr \<Rightarrow> bool) \<Rightarrow> (ustr \<Rightarrow> ustr \<Rightarrow> real) \<Rightarrow> ustr \<Rightarrow> ustr \<Rightarrow> int
   \<Rightarrow> query_filter option \<Rightarrow> (session, search_hit list) proc" where
  \<comment> \<open>\<open>matches\<close> is \<open>to_tsvector @@ websearch_to_tsquery\<close>, \<open>rank\<close> is \<open>ts_rank_cd\<close>\<close>
  "reader_search_text matches rank tenant query k flt =
     read_hits (\<lambda>r. matches (ck_text (cd_item r)) query)
       (\<lambda>r. - rank (ck_text (cd_item r)) query) (\<lambda>r. rank (ck_text (cd_item r)) query)
       tenant k flt"

definition document_children :: "db \<Rightarrow> ustr option \<Rightarrow> ustr \<Rightarrow> uuid \<Rightarrow> chunk list \<times> entity list" where
  "document_children d setting tenant doc =
     (map cd_item (sort_key (\<lambda>r. (ck_page (cd_item r), ck_ord (cd_item r)))
        (filter (\<lambda>r. rls setting (cd_tenant r) \<and> cd_tenant r = tenant \<and> cd_document r = doc)
          (db_chunks d))),
      map cd_item (sort_key (\<lambda>r. (en_page (cd_item r), en_start (cd_item r)))
        (filter (\<lambda>r. rls setting (cd_tenant r) \<and> cd_tenant r = tenant \<and> cd_document r = doc)
          (db_entities d))))"

definition reader_get_document ::
  "ustr \<Rightarrow> uuid \<Rightarrow> (session, stored_document option) proc" where
  "reader_get_document tenant doc =
     bindE (select_docs (\<lambda>r. sd_tenant r = tenant \<and> sd_id r = doc)) (\<lambda>rows.
       bindE (liftE (one_or_none rows)) (\<lambda>found.
         (case found of
            None \<Rightarrow> returnE None
          | Some r \<Rightarrow>
              bindE (readE (\<lambda>s. document_children (se_db s) (se_tenant s) tenant doc)) (\<lambda>(cs, es).
                returnE (Some (with_children r cs es))))))"

definition get_document :: "ustr \<Rightarrow> uuid \<Rightarrow> (db, stored_document option) proc" where
  "get_document tenant doc = snapshot tenant (reader_get_document tenant doc)"

definition nearest_chunks ::
  "nat \<Rightarrow> (pyfloat list \<Rightarrow> pyfloat list \<Rightarrow> real) \<Rightarrow> ustr \<Rightarrow> pyfloat list \<Rightarrow> int
   \<Rightarrow> query_filter option \<Rightarrow> (db, search_hit list) proc" where
  "nearest_chunks dimension distance tenant vector k flt =
     snapshot tenant (reader_nearest_chunks dimension distance tenant vector k flt)"

definition search_text ::
  "(ustr \<Rightarrow> ustr \<Rightarrow> bool) \<Rightarrow> (ustr \<Rightarrow> ustr \<Rightarrow> real) \<Rightarrow> ustr \<Rightarrow> ustr \<Rightarrow> int
   \<Rightarrow> query_filter option \<Rightarrow> (db, search_hit list) proc" where
  "search_text matches rank tenant query k flt =
     snapshot tenant (reader_search_text matches rank tenant query k flt)"

end
