(* ===== verification/StorageLaws.thy ===== *)
theory StorageLaws
  imports Storage
begin

text \<open>
  What the store promises: every operation keeps the keys, the ownership of derived rows and
  the events of the outbox consistent, changes only rows of the tenant it is called for, and
  returns nothing that depends on another tenant's rows.
\<close>

section \<open>Transactions of one tenant\<close>

abbreviation in_tenant :: "ustr \<Rightarrow> db \<Rightarrow> session" where
  "in_tenant t d \<equiv> \<lparr>se_db = d, se_tenant = Some t\<rparr>"

lemma begin_tenant:
  "engine_begin (thenE (set_tenant t) body) d =
     (case body (in_tenant t d) of (Inl e, s) \<Rightarrow> (Inl e, d) | (Inr a, s) \<Rightarrow> (Inr a, se_db s))"
  by (simp add: engine_begin_def thenE_def bindE_def set_tenant_def writeE_def)

lemma snapshot_tenant: "snapshot t reader d = (fst (reader (in_tenant t d)), d)"
  by (simp add: snapshot_def thenE_def bindE_def set_tenant_def writeE_def)

lemma rls_Some [simp]: "rls (Some t) u \<longleftrightarrow> t \<noteq> [] \<and> u = t"
  by (simp add: rls_def)

lemma select_docs_in [simp]:
  "select_docs p (in_tenant t d) =
     (Inr (filter (\<lambda>r. t \<noteq> [] \<and> sd_tenant r = t \<and> p r) (db_docs d)), in_tenant t d)"
  by (simp add: select_docs_def readE_def)

section \<open>Consistency of the tables\<close>

definition ident where
  "ident r = (sd_id r, sd_tenant r, sd_sha256 r, sd_size r, sd_key r, sd_created r)"

definition owners :: "doc_row list \<Rightarrow> (uuid \<times> ustr) set" where
  "owners docs = (\<lambda>r. (sd_id r, sd_tenant r)) ` set docs"

definition children_ok ::
  "(uuid \<Rightarrow> ustr \<Rightarrow> uuid) \<Rightarrow> string \<Rightarrow> doc_row list \<Rightarrow> 'a child_row list \<Rightarrow> bool" where
  "children_ok uuid5 table docs rows \<longleftrightarrow> distinct (map cd_id rows)
     \<and> (\<forall>r \<in> set rows. (cd_document r, cd_tenant r) \<in> owners docs
          \<and> (\<exists>i. cd_id r = uuid5 (cd_document r) (child_name table i)))"

definition docs_ok :: "doc_row list \<Rightarrow> bool" where
  "docs_ok docs \<longleftrightarrow> distinct (map sd_id docs)
     \<and> distinct (map (\<lambda>r. (sd_tenant r, sd_sha256 r)) docs)
     \<and> (\<forall>r \<in> set docs. document_status (sd_status r) \<and> sd_tenant r \<noteq> [])"

definition event_of :: "doc_row \<Rightarrow> document_uploaded \<Rightarrow> bool" where
  "event_of r e \<longleftrightarrow> ev_document e = sd_id r \<and> ev_tenant e = sd_tenant r
     \<and> ev_sha256 e = sd_sha256 r \<and> Some (ev_key e) = sd_key r \<and> Some (ev_size e) = sd_size r
     \<and> ev_occurred e = sd_created r"

definition outbox_ok :: "doc_row list \<Rightarrow> outbox_row list \<Rightarrow> bool" where
  "outbox_ok docs out \<longleftrightarrow> distinct (map ob_id out) \<and> distinct (map ob_aggregate out)
     \<and> (\<forall>q \<in> set out. valid_event (ob_payload q)
          \<and> ob_id q = ev_id (ob_payload q) \<and> ob_tenant q = ev_tenant (ob_payload q)
          \<and> ob_aggregate q = ev_document (ob_payload q)
          \<and> (\<exists>r \<in> set docs. event_of r (ob_payload q)))"

definition db_ok :: "nat \<Rightarrow> (uuid \<Rightarrow> ustr \<Rightarrow> uuid) \<Rightarrow> db \<Rightarrow> bool" where
  "db_ok dimension uuid5 d \<longleftrightarrow> docs_ok (db_docs d)
     \<and> children_ok uuid5 ''chunks'' (db_docs d) (db_chunks d)
     \<and> children_ok uuid5 ''entities'' (db_docs d) (db_entities d)
     \<and> (\<forall>r \<in> set (db_chunks d). validate_vector (chunk_vector (cd_item r)) dimension = Inr ())
     \<and> outbox_ok (db_docs d) (db_outbox d)"

lemma empty_db_ok: "db_ok dimension uuid5 empty_db"
  by (simp add: db_ok_def docs_ok_def children_ok_def outbox_ok_def empty_db_def)

text \<open>Rewriting rows without touching their identity.\<close>

lemma map_ident:
  assumes "\<And>r. ident (f r) = ident r"
  shows "map ident (map (\<lambda>r. if p r then f r else r) docs) = map ident docs"
  using assms by (induction docs) auto

lemma ident_docs_eq:
  assumes "map ident docs' = map ident docs"
  shows "map sd_id docs' = map sd_id docs"
    "map (\<lambda>r. (sd_tenant r, sd_sha256 r)) docs' = map (\<lambda>r. (sd_tenant r, sd_sha256 r)) docs"
    "owners docs' = owners docs"
    "(\<exists>r \<in> set docs'. event_of r e) \<longleftrightarrow> (\<exists>r \<in> set docs. event_of r e)"
    "sd_tenant ` set docs' = sd_tenant ` set docs"
proof -
  have m: "map (g \<circ> ident) docs' = map (g \<circ> ident) docs" for g :: "_ \<Rightarrow> 'b"
    using assms by (metis list.map_comp)
  have i: "g ` ident ` set docs' = g ` ident ` set docs" for g :: "_ \<Rightarrow> 'b"
    using assms by (metis list.set_map)
  show "map sd_id docs' = map sd_id docs"
    using assms by (induction docs' docs rule: list_induct2') (auto simp: ident_def)
  show "map (\<lambda>r. (sd_tenant r, sd_sha256 r)) docs' = map (\<lambda>r. (sd_tenant r, sd_sha256 r)) docs"
    using assms by (induction docs' docs rule: list_induct2') (auto simp: ident_def)
  show "owners docs' = owners docs"
    using i [of "\<lambda>(a, b, c). (a, b)"] by (simp add: owners_def ident_def image_image)
  show "sd_tenant ` set docs' = sd_tenant ` set docs"
    using i [of "\<lambda>(a, b, c). b"] by (simp add: ident_def image_image)
  show "(\<exists>r \<in> set docs'. event_of r e) \<longleftrightarrow> (\<exists>r \<in> set docs. event_of r e)"
  proof -
    have "event_of r e = event_of r' e" if "ident r = ident r'" for r r' :: doc_row
      using that by (simp add: ident_def event_of_def)
    moreover have "ident ` set docs' = ident ` set docs" using assms by (metis list.set_map)
    ultimately show ?thesis by (metis (no_types, opaque_lifting) image_iff)
  qed
qed

lemma children_ok_mono:
  "children_ok uuid5 table docs rows \<Longrightarrow> owners docs \<subseteq> owners docs'
   \<Longrightarrow> children_ok uuid5 table docs' rows"
  by (auto simp: children_ok_def)

lemma db_ok_docs:
  assumes ok: "db_ok dimension uuid5 d" and eq: "map ident docs = map ident (db_docs d)"
    and st: "\<forall>r \<in> set docs. document_status (sd_status r)"
  shows "db_ok dimension uuid5 (d\<lparr>db_docs := docs\<rparr>)"
proof -
  note same = ident_docs_eq [OF eq]
  have "sd_tenant r \<noteq> []" if "r \<in> set docs" for r
  proof -
    have "sd_tenant r \<in> sd_tenant ` set (db_docs d)" using that same(5) by blast
    with ok show ?thesis by (auto simp: db_ok_def docs_ok_def)
  qed
  with ok st same(1,2) have "docs_ok docs" by (simp add: db_ok_def docs_ok_def)
  moreover have "outbox_ok docs (db_outbox d)"
    using ok same(4) by (simp add: db_ok_def outbox_ok_def)
  moreover have "children_ok uuid5 ''chunks'' docs (db_chunks d)"
    "children_ok uuid5 ''entities'' docs (db_entities d)"
    using ok same(3) by (simp_all add: db_ok_def children_ok_def)
  ultimately show ?thesis using ok by (simp add: db_ok_def)
qed

lemma owners_mono: "set docs \<subseteq> set docs' \<Longrightarrow> owners docs \<subseteq> owners docs'"
  by (auto simp: owners_def)

lemma db_ok_add:
  assumes "db_ok dimension uuid5 d" and "sd_id row \<notin> set (map sd_id (db_docs d))"
    and "\<not> list_ex (same_key row) (db_docs d)" and "document_status (sd_status row)"
    and "sd_tenant row \<noteq> []"
  shows "db_ok dimension uuid5 (d\<lparr>db_docs := db_docs d @ [row]\<rparr>)"
proof -
  have "owners (db_docs d) \<subseteq> owners (db_docs d @ [row])" by (rule owners_mono) auto
  then have "children_ok uuid5 ''chunks'' (db_docs d @ [row]) (db_chunks d)"
    "children_ok uuid5 ''entities'' (db_docs d @ [row]) (db_entities d)"
    using assms(1) by (auto simp: db_ok_def elim: children_ok_mono)
  moreover have "docs_ok (db_docs d @ [row])"
    using assms by (auto simp: db_ok_def docs_ok_def list_ex_iff same_key_def)
  moreover have "outbox_ok (db_docs d @ [row]) (db_outbox d)"
    using assms(1) by (auto simp: db_ok_def outbox_ok_def)
  ultimately show ?thesis using assms(1) by (simp add: db_ok_def)
qed

lemma child_rows_member:
  "r \<in> set (child_rows uuid5 table tenant doc items) \<Longrightarrow>
     cd_document r = doc \<and> cd_tenant r = tenant \<and> cd_item r \<in> set items
     \<and> (\<exists>i. cd_id r = uuid5 doc (child_name table i))"
  by (auto simp: child_rows_def enumerate_from_def in_set_enumerate_eq)

lemma child_rows_items [simp]: "map cd_item (child_rows uuid5 table tenant doc items) = items"
  by (simp add: child_rows_def enumerate_from_def comp_def case_prod_unfold)

definition other_rows :: "ustr option \<Rightarrow> ustr \<Rightarrow> uuid \<Rightarrow> 'a child_row list \<Rightarrow> 'a child_row list" where
  "other_rows setting tenant doc rows =
     filter (\<lambda>r. \<not> (rls setting (cd_tenant r) \<and> cd_tenant r = tenant
       \<and> cd_document r = doc)) rows"

lemma replace_rows_spec:
  assumes "replace_rows uuid5 table setting tenant doc items rows = Inr rows'"
  shows "rows' = other_rows setting tenant doc rows @ child_rows uuid5 table tenant doc items"
    and "distinct (map cd_id rows) \<Longrightarrow> distinct (map cd_id rows')"
proof -
  let ?kept = "other_rows setting tenant doc rows" and ?new = "child_rows uuid5 table tenant doc items"
  have empty: "?new = []" if "items = []"
    using that by (simp add: child_rows_def enumerate_from_def)
  with assms show eq: "rows' = ?kept @ ?new"
    by (auto simp: replace_rows_def Let_def other_rows_def split: if_splits)
  have "distinct (map cd_id ?new) \<and> set (map cd_id ?new) \<inter> set (map cd_id ?kept) = {}"
    using assms empty by (auto simp: replace_rows_def Let_def other_rows_def split: if_splits)
  moreover have "distinct (map cd_id ?kept)" if "distinct (map cd_id rows)"
    using that by (simp add: other_rows_def distinct_map_filter)
  ultimately show "distinct (map cd_id rows')" if "distinct (map cd_id rows)"
    using that by (simp only: eq map_append distinct_append Int_commute)
qed

lemma replace_rows_ok:
  assumes "replace_rows uuid5 table setting tenant doc items rows = Inr rows'"
    and ok: "children_ok uuid5 table docs rows" and owner: "(doc, tenant) \<in> owners docs"
  shows "children_ok uuid5 table docs rows'
    \<and> (\<forall>r \<in> set rows'. r \<in> set rows \<or> cd_item r \<in> set items)"
proof -
  note spec = replace_rows_spec [OF assms(1)]
  have "r \<in> set rows \<or> r \<in> set (child_rows uuid5 table tenant doc items)" if "r \<in> set rows'" for r
    using that spec(1) by (auto simp: other_rows_def)
  with child_rows_member [of _ uuid5 table tenant doc items] have "(r \<in> set rows \<or> cd_item r \<in> set items)
      \<and> (cd_document r, cd_tenant r) \<in> owners docs
      \<and> (\<exists>i. cd_id r = uuid5 (cd_document r) (child_name table i))" if "r \<in> set rows'" for r
    using that ok owner unfolding children_ok_def by metis
  with spec(2) ok show ?thesis by (simp add: children_ok_def)
qed

section \<open>What each operation does\<close>

lemma filter_unique:
  "distinct (map f xs) \<Longrightarrow> x \<in> set xs \<Longrightarrow> filter (\<lambda>y. f y = f x) xs = [x]"
  by (induction xs) (auto simp: filter_empty_conv image_iff)

lemma select_key:
  assumes "docs_ok docs" and "list_ex (same_key row) docs"
  obtains r where "r \<in> set docs" "same_key row r" "filter (same_key row) docs = [r]"
proof -
  from assms(2) obtain r where r: "r \<in> set docs" "same_key row r" by (auto simp: list_ex_iff)
  then have "same_key row = (\<lambda>y. (sd_tenant y, sd_sha256 y) = (sd_tenant r, sd_sha256 r))"
    by (auto simp: same_key_def fun_eq_iff)
  moreover have "filter (\<lambda>y. (sd_tenant y, sd_sha256 y) = (sd_tenant r, sd_sha256 r)) docs = [r]"
    using assms(1) r(1) by (intro filter_unique) (auto simp: docs_ok_def)
  ultimately show ?thesis using r that by simp
qed

lemma select_id:
  assumes "docs_ok docs"
  shows "filter (\<lambda>r. sd_tenant r = t \<and> sd_id r = i) docs = [] \<and> (i, t) \<notin> owners docs
    \<or> (\<exists>r \<in> set docs. sd_tenant r = t \<and> sd_id r = i
         \<and> filter (\<lambda>r. sd_tenant r = t \<and> sd_id r = i) docs = [r])"
proof (cases "(i, t) \<in> owners docs")
  case False
  then show ?thesis by (auto simp: owners_def filter_empty_conv)
next
  case True
  then obtain r where r: "r \<in> set docs" "sd_id r = i" "sd_tenant r = t" by (auto simp: owners_def)
  have "filter (\<lambda>y. sd_id y = sd_id r) docs = [r]"
    using assms r(1) by (intro filter_unique) (auto simp: docs_ok_def)
  moreover have "filter (\<lambda>y. sd_tenant y = t \<and> sd_id y = i) docs
      = filter (\<lambda>y. sd_tenant y = t) (filter (\<lambda>y. sd_id y = sd_id r) docs)"
    using r(2) by (auto intro: filter_cong)
  ultimately show ?thesis using r by auto
qed

definition outbox_entry :: "uuid \<Rightarrow> ustr option \<Rightarrow> doc_row \<Rightarrow> outbox_row" where
  "outbox_entry event_id trace record =
     \<lparr>ob_id = event_id, ob_tenant = sd_tenant record, ob_aggregate = sd_id record,
      ob_type = ascii ''document.uploaded'', ob_payload = uploaded_event event_id trace record,
      ob_created = sd_created record, ob_published = None\<rparr>"

lemma register_row_eq:
  "register_row event_id trace record d =
     (if sd_tenant record = [] then (Inl integrity_error, d)
      else if list_ex (same_key record) (db_docs d)
      then ((case one_or_none (filter (same_key record) (db_docs d)) of
               Inl e \<Rightarrow> Inl e | Inr None \<Rightarrow> Inl OtherSQLAlchemyError | Inr (Some r) \<Rightarrow> Inr r), d)
      else if \<not> document_status (sd_status record) \<or> sd_id record \<in> set (map sd_id (db_docs d))
      then (Inl integrity_error, d)
      else if \<not> valid_event (uploaded_event event_id trace record) then (Inl ValidationError, d)
      else if event_id \<in> set (map ob_id (db_outbox d)) then (Inl integrity_error, d)
      else (Inr record, d\<lparr>db_docs := db_docs d @ [record],
              db_outbox := db_outbox d @ [outbox_entry event_id trace record]\<rparr>))"
proof -
  have "(\<lambda>r. sd_tenant r = sd_tenant record \<and> same_key record r) = same_key record"
    by (auto simp: same_key_def fun_eq_iff)
  note same = this
  consider "sd_tenant record = []" | "sd_tenant record \<noteq> []" "list_ex (same_key record) (db_docs d)"
    | "sd_tenant record \<noteq> []" "\<not> list_ex (same_key record) (db_docs d)" by blast
  then show ?thesis
  proof cases
    case 1
    then show ?thesis unfolding register_row_def begin_tenant
      by (simp add: insert_or_nothing_def add_doc_def bindE_def)
  next
    case 2
    then show ?thesis unfolding register_row_def begin_tenant
      by (simp add: insert_or_nothing_def bindE_def same raiseE_def returnE_def liftE_def
          split: sum.split option.split)
  next
    case 3
    then show ?thesis unfolding register_row_def begin_tenant
      by (simp add: insert_or_nothing_def add_doc_def bindE_def thenE_def returnE_def
          enqueue_def Let_def put_docs_def outbox_entry_def)
        (simp add: uploaded_event_def)
  qed
qed

lemma mark_status_eq:
  assumes "docs_ok (db_docs d)"
  shows "mark_status tenant doc status error d =
     (if \<not> document_status status then (Inl (ValueError ''Invalid document status''), d)
      else if (doc, tenant) \<in> owners (db_docs d)
      then (Inr (), d\<lparr>db_docs := map (\<lambda>r. if sd_tenant r = tenant \<and> sd_id r = doc
              then r\<lparr>sd_status := status,
                     sd_error := (if status = ''failed'' then error else None)\<rparr>
              else r) (db_docs d)\<rparr>)
      else (Inl not_found, d))"
proof (cases "document_status status")
  case False
  then show ?thesis by (simp add: mark_status_def raiseE_def)
next
  case True
  have ne: "tenant \<noteq> []" if "(doc, tenant) \<in> owners (db_docs d)"
    using assms that by (auto simp: docs_ok_def owners_def)
  from select_id [OF assms, of tenant doc] consider
    "filter (\<lambda>r. sd_tenant r = tenant \<and> sd_id r = doc) (db_docs d) = []"
      "(doc, tenant) \<notin> owners (db_docs d)"
    | r where "(doc, tenant) \<in> owners (db_docs d)"
      "filter (\<lambda>r. sd_tenant r = tenant \<and> sd_id r = doc) (db_docs d) = [r]"
    by (auto simp: owners_def)
  then show ?thesis
  proof cases
    case 1
    then have "filter (\<lambda>r. tenant \<noteq> [] \<and> sd_tenant r = tenant \<and> sd_tenant r = tenant
        \<and> sd_id r = doc) (db_docs d) = []" by (auto simp: filter_empty_conv)
    with True 1(2) show ?thesis
      unfolding mark_status_def begin_tenant
      by (simp add: update_docs_def bindE_def liftE_def guardE_def Let_def begin_tenant)
  next
    case 2
    with True ne show ?thesis
      unfolding mark_status_def begin_tenant
      by (simp add: update_docs_def bindE_def liftE_def guardE_def Let_def begin_tenant
          put_docs_def)
  qed
qed

lemma replace_eq:
  "replace dimension uuid5 tenant doc chunks entities (in_tenant tenant d) =
     (case validate_chunks chunks dimension of
        Inl e \<Rightarrow> (Inl e, in_tenant tenant d)
      | Inr _ \<Rightarrow>
         (case replace_rows uuid5 ''chunks'' (Some tenant) tenant doc chunks (db_chunks d) of
            Inl e \<Rightarrow> (Inl e, in_tenant tenant d)
          | Inr cs \<Rightarrow>
             (case replace_rows uuid5 ''entities'' (Some tenant) tenant doc entities
                 (db_entities d) of
                Inl e \<Rightarrow> (Inl e, in_tenant tenant d)
              | Inr es \<Rightarrow> (Inr (), in_tenant tenant (d\<lparr>db_chunks := cs, db_entities := es\<rparr>)))))"
  by (simp add: replace_def thenE_def bindE_def liftE_def readE_def writeE_def split: sum.split)

lemma insert_or_update_in:
  assumes "docs_ok (db_docs d)" and "sd_tenant row = tenant" and "document_status (sd_status row)"
  shows "insert_or_update row f (in_tenant tenant d) =
     (if tenant = [] then (Inl integrity_error, in_tenant tenant d)
      else if list_ex (same_key row) (db_docs d)
      then (Inr [f (hd (filter (same_key row) (db_docs d)))],
            in_tenant tenant (d\<lparr>db_docs :=
              map (\<lambda>r. if same_key row r then f r else r) (db_docs d)\<rparr>))
      else if sd_id row \<in> set (map sd_id (db_docs d)) then (Inl integrity_error, in_tenant tenant d)
      else (Inr [row], in_tenant tenant (d\<lparr>db_docs := db_docs d @ [row]\<rparr>)))"
proof (cases "tenant \<noteq> [] \<and> list_ex (same_key row) (db_docs d)")
  case False
  with assms(2,3) show ?thesis
    by (auto simp: insert_or_update_def add_doc_def bindE_def returnE_def put_docs_def)
next
  case True
  then obtain r where r: "filter (same_key row) (db_docs d) = [r]"
    using assms(1) by (auto elim: select_key)
  have vis: "(\<lambda>r. tenant \<noteq> [] \<and> sd_tenant r = tenant \<and> same_key row r) = same_key row"
    using True assms(2) by (auto simp: same_key_def fun_eq_iff)
  with True assms(2) r show ?thesis
    by (simp add: insert_or_update_def update_docs_def Let_def put_docs_def)
qed

lemma upsert_row_fields [simp]:
  "sd_tenant (upsert_row record clk) = sd_tenant record"
  "sd_id (upsert_row record clk) = sd_id record"
  "sd_sha256 (upsert_row record clk) = sd_sha256 record"
  "sd_status (upsert_row record clk) = sd_status record"
  by (simp_all add: upsert_row_def doc_row.truncate_def)

lemma upsert_set_fields [simp]:
  "sd_tenant (upsert_set record clk r) = sd_tenant r" "sd_id (upsert_set record clk r) = sd_id r"
  "sd_sha256 (upsert_set record clk r) = sd_sha256 r"
  "sd_status (upsert_set record clk r) = sd_status record"
  "ident (upsert_set record clk r) = ident r"
  by (simp_all add: upsert_set_def ident_def)

lemma prepare_fields:
  assumes "prepare_document new now tenant filename document = Inr record"
  shows "sd_tenant record = tenant" "sd_id record = new" "sd_status record = ''processed''"
    "sd_sha256 record = xd_sha256 document" "sd_chunks record = dc_chunks document"
    "sd_entities record = dc_entities document" "sd_version record = Some (xd_version document)"
    "sd_embed_model record = dc_embed_model document"
    "sd_page_count record = Some (page_count document)" "sd_error record = None"
    "sd_filename record = filename"
  using assms by (auto simp: prepare_document_def split: if_splits sum.splits)

text \<open>A successful upsert: which row holds the document, and what the tables are then.\<close>

lemma upsert_cases:
  assumes run: "upsert_document dimension uuid5 new now clk tenant filename document d = (Inr sd, d')"
    and ok: "docs_ok (db_docs d)"
  obtains rc r docs cs es where
    "prepare_document new now tenant filename document = Inr rc" "tenant \<noteq> []"
    "validate_chunks (sd_chunks rc) dimension = Inr ()"
    "replace_rows uuid5 ''chunks'' (Some tenant) tenant (sd_id r) (sd_chunks rc)
       (db_chunks d) = Inr cs"
    "replace_rows uuid5 ''entities'' (Some tenant) tenant (sd_id r) (sd_entities rc)
       (db_entities d) = Inr es"
    "d' = d\<lparr>db_docs := docs, db_chunks := cs, db_entities := es\<rparr>"
    "sd = with_children r (sd_chunks rc) (sd_entities rc)"
    "r \<in> set docs" "sd_tenant r = tenant" "sd_sha256 r = xd_sha256 document"
    "(\<not> list_ex (same_key r) (db_docs d) \<and> r = upsert_row rc clk \<and> new \<notin> set (map sd_id (db_docs d))
        \<and> docs = db_docs d @ [r])
     \<or> (\<exists>r0 \<in> set (db_docs d). same_key r r0 \<and> r = upsert_set rc clk r0
        \<and> docs = map (\<lambda>x. if same_key r x then upsert_set rc clk x else x) (db_docs d))"
proof -
  from run obtain rc where
    rc: "prepare_document new now tenant filename document = Inr rc"
    by (cases "prepare_document new now tenant filename document")
      (auto simp: upsert_document_def bindE_def liftE_def)
  note fields = prepare_fields [OF rc]
  let ?row = "upsert_row rc clk" and ?set = "upsert_set rc clk"
  have st: "document_status (sd_status ?row)" by (simp add: fields document_status_def)
  have ten: "sd_tenant ?row = tenant" by (simp add: fields)
  note ins = insert_or_update_in [OF ok ten st, of ?set]
  have rest: "P" if "insert_or_update ?row ?set (in_tenant tenant d)
        = (Inr [r], in_tenant tenant (d\<lparr>db_docs := docs\<rparr>))"
      and "\<And>cs es. validate_chunks (sd_chunks rc) dimension = Inr () \<Longrightarrow>
        replace_rows uuid5 ''chunks'' (Some tenant) tenant (sd_id r) (sd_chunks rc)
          (db_chunks d) = Inr cs \<Longrightarrow>
        replace_rows uuid5 ''entities'' (Some tenant) tenant (sd_id r) (sd_entities rc)
          (db_entities d) = Inr es \<Longrightarrow>
        d' = d\<lparr>db_docs := docs, db_chunks := cs, db_entities := es\<rparr> \<Longrightarrow>
        sd = with_children r (sd_chunks rc) (sd_entities rc) \<Longrightarrow> P" for r docs P
    using run that unfolding upsert_document_def begin_tenant
    by (auto simp: bindE_def liftE_def rc begin_tenant thenE_def replace_eq returnE_def
        split: sum.splits)
  show thesis
  proof (cases "list_ex (same_key ?row) (db_docs d)")
    case True
    then obtain r0 where r0: "r0 \<in> set (db_docs d)" "same_key ?row r0"
      "filter (same_key ?row) (db_docs d) = [r0]"
      using ok by (auto elim: select_key)
    have ne: "tenant \<noteq> []" using ok r0 fields(1) by (auto simp: docs_ok_def same_key_def)
    have key: "same_key ?row = same_key (?set r0)"
      using r0(2) by (auto simp: same_key_def fun_eq_iff)
    from True ne r0 ins have "insert_or_update ?row ?set (in_tenant tenant d) = (Inr [?set r0],
        in_tenant tenant (d\<lparr>db_docs := map (\<lambda>r. if same_key ?row r then ?set r else r) (db_docs d)\<rparr>))"
      by simp
    from this show thesis
    proof (rule rest, goal_cases)
      case (1 cs es)
      have "sd_tenant r0 = tenant" "sd_sha256 r0 = xd_sha256 document"
        using r0(2) fields by (simp_all add: same_key_def)
      with 1 rc ne r0 fields key show thesis
        by (intro that [of rc "?set r0"]) (auto simp: same_key_def image_iff intro!: bexI [of _ r0])
    qed
  next
    case False
    have ne: "tenant \<noteq> []" and new: "new \<notin> set (map sd_id (db_docs d))"
      using run ins False fields unfolding upsert_document_def begin_tenant
      by (auto simp: bindE_def liftE_def rc begin_tenant split: if_splits)
    with False ins fields have "insert_or_update ?row ?set (in_tenant tenant d)
        = (Inr [?row], in_tenant tenant (d\<lparr>db_docs := db_docs d @ [?row]\<rparr>))" by simp
    from this show thesis
    proof (rule rest, goal_cases)
      case (1 cs es)
      with rc ne new fields False show thesis
        by (intro that [of rc ?row]) auto
    qed
  qed
qed

section \<open>Every operation keeps the tables consistent\<close>

lemma db_ok_docsD: "db_ok dimension uuid5 d \<Longrightarrow> docs_ok (db_docs d)"
  by (simp add: db_ok_def)

lemma register_keeps:
  assumes ok: "db_ok dimension uuid5 d"
    and run: "register_row event_id trace rc d = (res, d')"
    and rec: "sd_key rc = Some k" "sd_size rc = Some n"
  shows "db_ok dimension uuid5 d'"
proof (cases "d' = d")
  case True
  with ok show ?thesis by simp
next
  case False
  let ?e = "uploaded_event event_id trace rc"
  have new: "sd_tenant rc \<noteq> []" "\<not> list_ex (same_key rc) (db_docs d)"
    "document_status (sd_status rc)" "sd_id rc \<notin> set (map sd_id (db_docs d))" "valid_event ?e"
    "event_id \<notin> set (map ob_id (db_outbox d))"
    and d': "d' = d\<lparr>db_docs := db_docs d @ [rc],
        db_outbox := db_outbox d @ [outbox_entry event_id trace rc]\<rparr>"
    using run False by (auto simp: register_row_eq split: if_splits)
  have base: "db_ok dimension uuid5 (d\<lparr>db_docs := db_docs d @ [rc]\<rparr>)"
    using ok new by (intro db_ok_add) auto
  have ev: "event_of rc ?e" using rec by (simp add: event_of_def uploaded_event_def)
  have "ob_aggregate q \<in> set (map sd_id (db_docs d))" if "q \<in> set (db_outbox d)" for q
    using ok that by (fastforce simp: db_ok_def outbox_ok_def event_of_def)
  with new(4) have old: "sd_id rc \<notin> set (map ob_aggregate (db_outbox d))" by auto
  have "outbox_ok (db_docs d @ [rc]) (db_outbox d @ [outbox_entry event_id trace rc])"
    using base new(5,6) ev old unfolding db_ok_def outbox_ok_def
    by (simp add: outbox_entry_def uploaded_event_def)
  with base d' show ?thesis by (simp add: db_ok_def)
qed

lemma mark_status_keeps:
  assumes ok: "db_ok dimension uuid5 d"
    and run: "mark_status tenant doc status error d = (res, d')"
  shows "db_ok dimension uuid5 d'"
proof (cases "d' = d")
  case True
  with ok show ?thesis by simp
next
  case False
  let ?f = "\<lambda>r. r\<lparr>sd_status := status, sd_error := (if status = ''failed'' then error else None)\<rparr>"
  let ?docs = "map (\<lambda>r. if sd_tenant r = tenant \<and> sd_id r = doc then ?f r else r) (db_docs d)"
  have d': "d' = d\<lparr>db_docs := ?docs\<rparr>" and st: "document_status status"
    using run False by (auto simp: mark_status_eq [OF db_ok_docsD [OF ok]] split: if_splits)
  have "map ident ?docs = map ident (db_docs d)" by (simp add: ident_def)
  moreover have "\<forall>r \<in> set ?docs. document_status (sd_status r)"
    using ok st by (auto simp: db_ok_def docs_ok_def)
  ultimately show ?thesis using db_ok_docs [OF ok] d' by simp
qed

lemma replaced_ok:
  assumes ok: "db_ok dimension uuid5 d" and owner: "(doc, tenant) \<in> owners (db_docs d)"
    and cs: "replace_rows uuid5 ''chunks'' (Some tenant) tenant doc chunks (db_chunks d) = Inr cs"
    and es: "replace_rows uuid5 ''entities'' (Some tenant) tenant doc ents (db_entities d) = Inr es"
    and vec: "validate_chunks chunks dimension = Inr ()"
  shows "db_ok dimension uuid5 (d\<lparr>db_chunks := cs, db_entities := es\<rparr>)"
proof -
  have "children_ok uuid5 ''chunks'' (db_docs d) cs
      \<and> (\<forall>r \<in> set cs. r \<in> set (db_chunks d) \<or> cd_item r \<in> set chunks)"
    using ok owner by (intro replace_rows_ok [OF cs]) (simp_all add: db_ok_def)
  moreover have "children_ok uuid5 ''entities'' (db_docs d) es"
    using ok owner replace_rows_ok [OF es, of "db_docs d"] by (simp add: db_ok_def)
  ultimately show ?thesis using ok vec
    by (auto simp: db_ok_def validate_chunks_ok list_all_iff)
qed

lemma upsert_keeps:
  assumes ok: "db_ok dimension uuid5 d"
    and run: "upsert_document dimension uuid5 new now clk tenant filename document d = (Inr sd, d')"
  shows "db_ok dimension uuid5 d'"
  using run db_ok_docsD [OF ok]
proof (cases rule: upsert_cases)
  case (1 rc r docs cs es)
  note fields = prepare_fields [OF 1(1)]
  have st: "document_status ''processed''" by (simp add: document_status_def)
  have docs: "db_ok dimension uuid5 (d\<lparr>db_docs := docs\<rparr>)"
    using 1(11)
  proof
    assume a: "\<not> list_ex (same_key r) (db_docs d) \<and> r = upsert_row rc clk
      \<and> new \<notin> set (map sd_id (db_docs d)) \<and> docs = db_docs d @ [r]"
    with ok 1(2,9) fields st show ?thesis by (auto intro!: db_ok_add)
  next
    assume "\<exists>r0 \<in> set (db_docs d). same_key r r0 \<and> r = upsert_set rc clk r0
      \<and> docs = map (\<lambda>x. if same_key r x then upsert_set rc clk x else x) (db_docs d)"
    then have docs: "docs = map (\<lambda>x. if same_key r x then upsert_set rc clk x else x) (db_docs d)"
      by blast
    then have "map ident docs = map ident (db_docs d)" by (simp add: map_ident)
    moreover have "\<forall>x \<in> set docs. document_status (sd_status x)"
      using docs ok st fields by (auto simp: db_ok_def docs_ok_def)
    ultimately show ?thesis by (rule db_ok_docs [OF ok])
  qed
  have "(sd_id r, tenant) \<in> owners docs" using 1(8,9) by (auto simp: owners_def)
  with replaced_ok [OF docs, of "sd_id r" tenant "sd_chunks rc" cs "sd_entities rc" es] 1(3-6)
  show ?thesis by simp
qed

lemma upsert_error: "upsert_document dimension uuid5 new now clk tenant filename document d = (Inl e, d') \<Longrightarrow> d' = d"
  by (auto simp: upsert_document_def bindE_def liftE_def engine_begin_def split: sum.splits prod.splits)

lemma replace_children_eq:
  assumes "docs_ok (db_docs d)"
  shows "replace_chunks_and_entities dimension uuid5 tenant doc chunks ents d =
    (if (doc, tenant) \<notin> owners (db_docs d) then (Inl not_found, d)
     else case replace dimension uuid5 tenant doc chunks ents (in_tenant tenant d) of
        (Inl e, s) \<Rightarrow> (Inl e, d) | (Inr a, s) \<Rightarrow> (Inr a, se_db s))"
proof -
  have ne: "tenant \<noteq> []" if "(doc, tenant) \<in> owners (db_docs d)"
    using assms that by (auto simp: docs_ok_def owners_def)
  from select_id [OF assms, of tenant doc] consider
    "filter (\<lambda>r. sd_tenant r = tenant \<and> sd_id r = doc) (db_docs d) = []"
      "(doc, tenant) \<notin> owners (db_docs d)"
    | r where "(doc, tenant) \<in> owners (db_docs d)"
      "filter (\<lambda>r. sd_tenant r = tenant \<and> sd_id r = doc) (db_docs d) = [r]"
    by (auto simp: owners_def)
  then show ?thesis
  proof cases
    case 1
    then have "filter (\<lambda>r. tenant \<noteq> [] \<and> sd_tenant r = tenant \<and> sd_id r = doc) (db_docs d) = []"
      by (auto simp: filter_empty_conv)
    with 1(2) show ?thesis unfolding replace_chunks_and_entities_def begin_tenant
      by (simp add: bindE_def liftE_def guardE_def thenE_def begin_tenant)
  next
    case 2
    with ne show ?thesis unfolding replace_chunks_and_entities_def begin_tenant
      by (simp add: bindE_def liftE_def guardE_def thenE_def begin_tenant)
  qed
qed

lemma replace_children_keeps:
  assumes ok: "db_ok dimension uuid5 d"
    and run: "replace_chunks_and_entities dimension uuid5 tenant doc chunks ents d = (res, d')"
  shows "db_ok dimension uuid5 d'"
proof (cases "d' = d")
  case True
  with ok show ?thesis by simp
next
  case False
  with run obtain cs es where "(doc, tenant) \<in> owners (db_docs d)"
    "validate_chunks chunks dimension = Inr ()"
    "replace_rows uuid5 ''chunks'' (Some tenant) tenant doc chunks (db_chunks d) = Inr cs"
    "replace_rows uuid5 ''entities'' (Some tenant) tenant doc ents (db_entities d) = Inr es"
    "d' = d\<lparr>db_chunks := cs, db_entities := es\<rparr>"
    by (auto simp: replace_children_eq [OF db_ok_docsD [OF ok]] replace_eq
        split: if_splits sum.splits)
  with replaced_ok [OF ok] show ?thesis by blast
qed

section \<open>The repository as one interface\<close>

text \<open>
  The methods of \<open>DocumentRepository\<close> as a type of calls, so that a history of a database is a
  list of calls. The values of \<open>uuid4()\<close> and of the clocks are part of a call.
\<close>

record repository =
  rp_dimension :: nat
  rp_uuid5 :: "uuid \<Rightarrow> ustr \<Rightarrow> uuid"
  rp_distance :: "pyfloat list \<Rightarrow> pyfloat list \<Rightarrow> real"
  rp_matches :: "ustr \<Rightarrow> ustr \<Rightarrow> bool"
  rp_rank :: "ustr \<Rightarrow> ustr \<Rightarrow> real"

datatype repo_call =
    ListDocuments int int
  | FindBySha256 ustr
  | RegisterUpload uuid uuid timestamp "ustr option" ustr ustr string nat ustr
  | MarkStatus uuid string "ustr option"
  | UpsertDocument uuid timestamp timestamp ustr document
  | ReplaceChildren uuid "chunk list" "entity list"
  | GetDocument uuid
  | NearestChunks "pyfloat list" int "query_filter option"
  | SearchText ustr int "query_filter option"

datatype repo_reply =
    Rows "doc_row list"
  | Row "doc_row option"
  | Stored "stored_document option"
  | Done
  | Hits "search_hit list"

definition replyE :: "('a \<Rightarrow> repo_reply) \<Rightarrow> (db, 'a) proc \<Rightarrow> (db, repo_reply) proc" where
  "replyE f m = bindE m (\<lambda>a. returnE (f a))"

fun repo_run :: "repository \<Rightarrow> ustr \<Rightarrow> repo_call \<Rightarrow> (db, repo_reply) proc" where
  "repo_run rp t (ListDocuments limit offset) = replyE Rows (list_documents t limit offset)"
| "repo_run rp t (FindBySha256 sha) = replyE Row (find_by_sha256 t sha)"
| "repo_run rp t (RegisterUpload new event_id now trace filename sha media n key) =
     replyE (\<lambda>r. Row (Some r)) (register_upload new event_id now trace t filename sha media n key)"
| "repo_run rp t (MarkStatus doc status error) =
     replyE (\<lambda>_. Done) (mark_status t doc status error)"
| "repo_run rp t (UpsertDocument new now clk filename document) =
     replyE (\<lambda>r. Stored (Some r))
       (upsert_document (rp_dimension rp) (rp_uuid5 rp) new now clk t filename document)"
| "repo_run rp t (ReplaceChildren doc chunks ents) =
     replyE (\<lambda>_. Done)
       (replace_chunks_and_entities (rp_dimension rp) (rp_uuid5 rp) t doc chunks ents)"
| "repo_run rp t (GetDocument doc) = replyE Stored (get_document t doc)"
| "repo_run rp t (NearestChunks vector k flt) =
     replyE Hits (nearest_chunks (rp_dimension rp) (rp_distance rp) t vector k flt)"
| "repo_run rp t (SearchText query k flt) =
     replyE Hits (search_text (rp_matches rp) (rp_rank rp) t query k flt)"

definition repo_state :: "repository \<Rightarrow> (ustr \<times> repo_call) list \<Rightarrow> db \<Rightarrow> db" where
  "repo_state rp calls d = foldl (\<lambda>d (t, c). snd (repo_run rp t c d)) d calls"

lemma replyE_snd [simp]: "snd (replyE f m d) = snd (m d)"
  by (auto simp: replyE_def bindE_def returnE_def split: prod.splits sum.splits)

lemma replyE_fst: "fst (replyE f m d) = map_sum id f (fst (m d))"
  by (auto simp: replyE_def bindE_def returnE_def split: prod.splits sum.splits)

lemma engine_begin_read:
  assumes "\<And>s. snd (m s) = s"
  shows "snd (engine_begin (thenE (set_tenant t) m) d) = d"
  using assms [of "in_tenant t d"]
  by (auto simp: begin_tenant split: prod.splits sum.splits)

lemma select_docs_pure: "snd (select_docs p s) = s"
  by (simp add: select_docs_def readE_def)

lemma bindE_pure: "(\<And>s. snd (m s) = s) \<Longrightarrow> (\<And>a s. snd (f a s) = s) \<Longrightarrow> snd (bindE m f s) = s"
  by (auto simp: bindE_def split: prod.splits sum.splits) (metis snd_conv)+

lemma reads_pure [simp]:
  "snd (list_documents t limit offset d) = d" "snd (find_by_sha256 t sha d) = d"
  "snd (snapshot t reader d) = d"
proof -
  show "snd (list_documents t limit offset d) = d"
    by (auto simp: list_documents_def raiseE_def returnE_def
        intro!: engine_begin_read bindE_pure select_docs_pure)
  show "snd (find_by_sha256 t sha d) = d"
    by (auto simp: find_by_sha256_def liftE_def
        intro!: engine_begin_read bindE_pure select_docs_pure)
  show "snd (snapshot t reader d) = d" by (simp add: snapshot_def)
qed

lemma repo_run_keeps:
  assumes "db_ok (rp_dimension rp) (rp_uuid5 rp) d"
  shows "db_ok (rp_dimension rp) (rp_uuid5 rp) (snd (repo_run rp t c d))"
proof (cases c)
  case (RegisterUpload new event_id now trace filename sha media n key)
  with assms show ?thesis
    by (cases "register_upload new event_id now trace t filename sha media n key d")
      (auto simp: register_upload_def dest: register_keeps)
next
  case (MarkStatus doc status error)
  with assms show ?thesis
    by (cases "mark_status t doc status error d") (auto dest: mark_status_keeps)
next
  case (UpsertDocument new now clk filename document)
  let ?r = "upsert_document (rp_dimension rp) (rp_uuid5 rp) new now clk t filename document d"
  obtain x d' where r: "?r = (x, d')" by (cases ?r)
  with assms UpsertDocument show ?thesis
    by (cases x) (auto dest: upsert_keeps upsert_error)
next
  case (ReplaceChildren doc chunks ents)
  with assms show ?thesis
    by (cases "replace_chunks_and_entities (rp_dimension rp) (rp_uuid5 rp) t doc chunks ents d")
      (auto dest: replace_children_keeps)
qed (use assms in \<open>simp_all add: get_document_def nearest_chunks_def search_text_def\<close>)

lemma repo_state_ok:
  assumes "db_ok (rp_dimension rp) (rp_uuid5 rp) d"
  shows "db_ok (rp_dimension rp) (rp_uuid5 rp) (repo_state rp calls d)"
  using assms by (induction calls arbitrary: d) (auto simp: repo_state_def repo_run_keeps)

section \<open>Tenants\<close>

definition tenant_view :: "ustr \<Rightarrow> db \<Rightarrow> db" where
  "tenant_view t d =
     \<lparr>db_docs = filter (\<lambda>r. sd_tenant r = t) (db_docs d),
      db_chunks = filter (\<lambda>r. cd_tenant r = t) (db_chunks d),
      db_entities = filter (\<lambda>r. cd_tenant r = t) (db_entities d),
      db_outbox = filter (\<lambda>r. ob_tenant r = t) (db_outbox d)\<rparr>"

lemma filter_map_other:
  assumes "\<And>r. p r \<Longrightarrow> \<not> q r" and "\<And>r. p r \<Longrightarrow> \<not> q (f r)"
  shows "filter q (map (\<lambda>r. if p r then f r else r) xs) = filter q xs"
  using assms by (induction xs) auto

lemma replace_rows_other:
  assumes "replace_rows uuid5 table (Some tenant) tenant doc items rows = Inr rows'"
    and "t \<noteq> tenant"
  shows "filter (\<lambda>r. cd_tenant r = t) rows' = filter (\<lambda>r. cd_tenant r = t) rows"
proof -
  have "filter (\<lambda>r. cd_tenant r = t) (child_rows uuid5 table tenant doc items) = []"
    using assms(2) by (auto simp: filter_empty_conv dest: child_rows_member)
  moreover have "filter (\<lambda>r. cd_tenant r = t) (other_rows (Some tenant) tenant doc rows)
      = filter (\<lambda>r. cd_tenant r = t) rows"
    using assms(2) by (auto simp: other_rows_def intro: filter_cong)
  ultimately show ?thesis by (simp add: replace_rows_spec(1) [OF assms(1)])
qed

lemma repo_run_other:
  assumes ok: "docs_ok (db_docs d)" and "t \<noteq> tenant"
  shows "tenant_view t (snd (repo_run rp tenant c d)) = tenant_view t d"
proof (cases c)
  case (RegisterUpload new event_id now trace filename sha media n key)
  with assms(2) show ?thesis
    by (auto simp: register_upload_def register_row_eq tenant_view_def outbox_entry_def)
next
  case (MarkStatus doc status error)
  with assms(2) show ?thesis
    by (auto simp: mark_status_eq [OF ok] tenant_view_def intro!: filter_map_other)
next
  case (UpsertDocument new now clk filename document)
  let ?r = "upsert_document (rp_dimension rp) (rp_uuid5 rp) new now clk tenant filename document d"
  obtain x d' where r: "?r = (x, d')" by (cases ?r)
  show ?thesis
  proof (cases x)
    case (Inl e)
    with r UpsertDocument show ?thesis by (auto dest: upsert_error)
  next
    case (Inr sd)
    from r [unfolded Inr] ok have "tenant_view t d' = tenant_view t d"
    proof (cases rule: upsert_cases)
      case (1 rc r docs cs es)
      have "filter (\<lambda>r. sd_tenant r = t) docs = filter (\<lambda>r. sd_tenant r = t) (db_docs d)"
        using 1(9,11) assms(2) by (auto simp: same_key_def intro!: filter_map_other)
      with 1 assms(2) show ?thesis by (simp add: tenant_view_def replace_rows_other)
    qed
    with r UpsertDocument show ?thesis by simp
  qed
next
  case (ReplaceChildren doc chunks ents)
  with assms(2) show ?thesis
    by (auto simp: replace_children_eq [OF ok] replace_eq tenant_view_def
        dest!: replace_rows_other split: sum.splits)
qed (simp_all add: get_document_def nearest_chunks_def search_text_def)

text \<open>Two sessions of one tenant that see the same rows answer alike.\<close>

definition agree :: "ustr \<Rightarrow> session \<Rightarrow> session \<Rightarrow> bool" where
  "agree t s1 s2 \<longleftrightarrow> se_tenant s1 = Some t \<and> se_tenant s2 = Some t
     \<and> tenant_view t (se_db s1) = tenant_view t (se_db s2)"

definition same_at :: "ustr \<Rightarrow> (session, 'a) proc \<Rightarrow> session \<Rightarrow> session \<Rightarrow> bool" where
  "same_at t m s1 s2 \<longleftrightarrow> fst (m s1) = fst (m s2) \<and> agree t (snd (m s1)) (snd (m s2))"

lemma same_bind:
  assumes "same_at t m s1 s2"
    and "\<And>a s1' s2'. m s1 = (Inr a, s1') \<Longrightarrow> m s2 = (Inr a, s2') \<Longrightarrow> agree t s1' s2'
      \<Longrightarrow> same_at t (f a) s1' s2'"
  shows "same_at t (bindE m f) s1 s2"
  using assms(1) assms(2)
  by (cases "m s1"; cases "m s2") (auto simp: same_at_def bindE_def split: sum.splits)

lemma same_then:
  assumes "same_at t m s1 s2"
    and "\<And>a s1' s2'. m s1 = (Inr a, s1') \<Longrightarrow> m s2 = (Inr a, s2') \<Longrightarrow> agree t s1' s2'
      \<Longrightarrow> same_at t n s1' s2'"
  shows "same_at t (thenE m n) s1 s2"
  using assms unfolding thenE_def by (rule same_bind)

lemma same_pure:
  assumes "agree t s1 s2"
  shows "same_at t (returnE a) s1 s2" "same_at t (raiseE e) s1 s2" "same_at t (liftE r) s1 s2"
    "same_at t (guardE b e) s1 s2"
  using assms by (simp_all add: same_at_def returnE_def raiseE_def liftE_def guardE_def)

lemma filter_visible:
  assumes "filter (\<lambda>r. h r = t) xs = filter (\<lambda>r. h r = t) ys"
  shows "filter (\<lambda>r. rls (Some t) (h r) \<and> v r) xs = filter (\<lambda>r. rls (Some t) (h r) \<and> v r) ys"
proof -
  have "filter (\<lambda>r. rls (Some t) (h r) \<and> v r) zs
      = filter (\<lambda>r. t \<noteq> [] \<and> v r) (filter (\<lambda>r. h r = t) zs)" for zs
    by (induction zs) auto
  with assms show ?thesis by (simp only:)
qed

lemma agree_rows:
  assumes "agree t s1 s2"
  shows "filter (\<lambda>r. rls (se_tenant s1) (sd_tenant r) \<and> p r) (db_docs (se_db s1))
      = filter (\<lambda>r. rls (se_tenant s2) (sd_tenant r) \<and> p r) (db_docs (se_db s2))"
    and "filter (\<lambda>r. rls (se_tenant s1) (cd_tenant r) \<and> q r) (db_chunks (se_db s1))
      = filter (\<lambda>r. rls (se_tenant s2) (cd_tenant r) \<and> q r) (db_chunks (se_db s2))"
    and "filter (\<lambda>r. rls (se_tenant s1) (cd_tenant r) \<and> u r) (db_entities (se_db s1))
      = filter (\<lambda>r. rls (se_tenant s2) (cd_tenant r) \<and> u r) (db_entities (se_db s2))"
proof -
  have view: "se_tenant s1 = Some t" "se_tenant s2 = Some t"
    "filter (\<lambda>r. sd_tenant r = t) (db_docs (se_db s1)) = filter (\<lambda>r. sd_tenant r = t) (db_docs (se_db s2))"
    "filter (\<lambda>r. cd_tenant r = t) (db_chunks (se_db s1)) = filter (\<lambda>r. cd_tenant r = t) (db_chunks (se_db s2))"
    "filter (\<lambda>r. cd_tenant r = t) (db_entities (se_db s1)) = filter (\<lambda>r. cd_tenant r = t) (db_entities (se_db s2))"
    using assms by (simp_all add: agree_def tenant_view_def)
  show "filter (\<lambda>r. rls (se_tenant s1) (sd_tenant r) \<and> p r) (db_docs (se_db s1))
      = filter (\<lambda>r. rls (se_tenant s2) (sd_tenant r) \<and> p r) (db_docs (se_db s2))"
    unfolding view(1,2) by (rule filter_visible [OF view(3)])
  show "filter (\<lambda>r. rls (se_tenant s1) (cd_tenant r) \<and> q r) (db_chunks (se_db s1))
      = filter (\<lambda>r. rls (se_tenant s2) (cd_tenant r) \<and> q r) (db_chunks (se_db s2))"
    unfolding view(1,2) by (rule filter_visible [OF view(4)])
  show "filter (\<lambda>r. rls (se_tenant s1) (cd_tenant r) \<and> u r) (db_entities (se_db s1))
      = filter (\<lambda>r. rls (se_tenant s2) (cd_tenant r) \<and> u r) (db_entities (se_db s2))"
    unfolding view(1,2) by (rule filter_visible [OF view(5)])
qed

lemma same_select: "agree t s1 s2 \<Longrightarrow> same_at t (select_docs p) s1 s2"
  using agree_rows(1) [of t s1 s2 p] by (simp add: same_at_def select_docs_def readE_def)

lemma same_hits: "agree t s1 s2 \<Longrightarrow> same_at t (read_hits cond order score tenant k flt) s1 s2"
  unfolding same_at_def read_hits_def readE_def raiseE_def
  using agree_rows(2) [of t s1 s2 "\<lambda>r. cond r \<and> cd_tenant r = tenant \<and> filter_allows flt r"] by simp

lemma same_children:
  "agree t s1 s2 \<Longrightarrow>
   same_at t (readE (\<lambda>s. document_children (se_db s) (se_tenant s) tenant doc)) s1 s2"
  using agree_rows(2,3) [of t s1 s2 "\<lambda>r. cd_tenant r = tenant \<and> cd_document r = doc"]
  by (simp add: same_at_def readE_def document_children_def)

lemmas same_intros = same_bind same_then same_pure same_select same_hits same_children

definition apart :: "(uuid \<Rightarrow> ustr \<Rightarrow> uuid) \<Rightarrow> ustr \<Rightarrow> uuid \<Rightarrow> db \<Rightarrow> bool" where
  \<comment> \<open>no other tenant's derived row has an identifier made from document \<open>i\<close>\<close>
  "apart uuid5 t i d \<longleftrightarrow>
     (\<forall>name. (\<forall>r \<in> set (db_chunks d). cd_tenant r \<noteq> t \<longrightarrow> cd_id r \<noteq> uuid5 i name)
           \<and> (\<forall>r \<in> set (db_entities d). cd_tenant r \<noteq> t \<longrightarrow> cd_id r \<noteq> uuid5 i name))"

definition injective_uuid5 :: "(uuid \<Rightarrow> ustr \<Rightarrow> uuid) \<Rightarrow> bool" where
  "injective_uuid5 uuid5 \<longleftrightarrow> (\<forall>i n j m. uuid5 i n = uuid5 j m \<longrightarrow> i = j \<and> n = m)"

lemma db_ok_apart:
  assumes ok: "db_ok dimension uuid5 d" and inj: "injective_uuid5 uuid5"
    and own: "\<forall>r \<in> set (db_docs d). sd_id r = i \<longrightarrow> sd_tenant r = t"
  shows "apart uuid5 t i d"
proof -
  have "cd_id r \<noteq> uuid5 i name"
    if r: "r \<in> set rows" "cd_tenant r \<noteq> t" and c: "children_ok uuid5 table (db_docs d) rows"
    for r name table and rows :: "'x child_row list"
  proof
    assume "cd_id r = uuid5 i name"
    with r c inj have "(i, cd_tenant r) \<in> owners (db_docs d)"
      unfolding children_ok_def injective_uuid5_def by metis
    with own r(2) show False by (auto simp: owners_def)
  qed
  note other = this
  have "children_ok uuid5 ''chunks'' (db_docs d) (db_chunks d)"
    "children_ok uuid5 ''entities'' (db_docs d) (db_entities d)"
    using ok by (simp_all add: db_ok_def)
  from other [OF _ _ this(1)] other [OF _ _ this(2)] show ?thesis
    by (simp add: apart_def)
qed

lemma same_replace_rows:
  assumes view: "filter (\<lambda>r. cd_tenant r = t) rows1 = filter (\<lambda>r. cd_tenant r = t) rows2"
    and free: "\<forall>name. \<forall>r \<in> set rows1 \<union> set rows2. cd_tenant r \<noteq> t \<longrightarrow> cd_id r \<noteq> uuid5 i name"
  shows "map_sum id (filter (\<lambda>r. cd_tenant r = t)) (replace_rows uuid5 table (Some t) t i items rows1)
    = map_sum id (filter (\<lambda>r. cd_tenant r = t)) (replace_rows uuid5 table (Some t) t i items rows2)"
proof -
  let ?new = "child_rows uuid5 table t i items"
  let ?own = "filter (\<lambda>r. cd_document r \<noteq> i) (filter (\<lambda>r. cd_tenant r = t) rows1)"
  define kept where "kept rows = filter (\<lambda>r. \<not> (rls (Some t) (cd_tenant r) \<and> cd_tenant r = t
      \<and> cd_document r = i)) rows" for rows :: "'a child_row list"
  have own: "filter (\<lambda>r. cd_tenant r = t) (kept rows)
      = filter (\<lambda>r. t = [] \<or> cd_document r \<noteq> i) (filter (\<lambda>r. cd_tenant r = t) rows)" for rows
    by (auto simp: kept_def intro: filter_cong)
  have ids: "set (map cd_id ?new) \<inter> set (map cd_id (kept rows)) = {} \<longleftrightarrow>
      set (map cd_id ?new) \<inter> set (map cd_id (filter (\<lambda>r. cd_tenant r = t) (kept rows))) = {}"
    if rows: "set rows \<subseteq> set rows1 \<union> set rows2" for rows
  proof -
    let ?N = "set (map cd_id ?new)" and ?K = "set (map cd_id (kept rows))"
      and ?O = "set (map cd_id (filter (\<lambda>r. cd_tenant r = t) (kept rows)))"
    have "x \<in> ?O" if n: "x \<in> ?N" "x \<in> ?K" for x
    proof -
      from n(2) obtain r where r: "r \<in> set (kept rows)" "x = cd_id r" by auto
      obtain name where "x = uuid5 i name"
        using n(1) child_rows_member [of _ uuid5 table t i items] by auto
      moreover have "r \<in> set rows1 \<union> set rows2" using r(1) rows by (auto simp: kept_def)
      ultimately have "cd_tenant r = t" using free r(2) by metis
      with r show ?thesis by simp
    qed
    moreover have "?O \<subseteq> ?K" by auto
    ultimately show ?thesis by blast
  qed
  have same: "filter (\<lambda>r. cd_tenant r = t) (kept rows1) = filter (\<lambda>r. cd_tenant r = t) (kept rows2)"
    by (simp only: own view)
  with ids [of rows1] ids [of rows2] show ?thesis
    unfolding replace_rows_def Let_def kept_def [symmetric] by auto
qed

lemma same_replace:
  assumes "agree t s1 s2" and "apart uuid5 t i (se_db s1)" and "apart uuid5 t i (se_db s2)"
  shows "same_at t (replace dimension uuid5 t i chunks ents) s1 s2"
proof -
  obtain d1 d2 where s: "s1 = in_tenant t d1" "s2 = in_tenant t d2"
    using assms(1) by (cases s1; cases s2) (auto simp: agree_def)
  have view: "tenant_view t d1 = tenant_view t d2" using assms(1) s by (simp add: agree_def)
  have cs: "map_sum id (filter (\<lambda>r. cd_tenant r = t))
        (replace_rows uuid5 ''chunks'' (Some t) t i chunks (db_chunks d1))
      = map_sum id (filter (\<lambda>r. cd_tenant r = t))
        (replace_rows uuid5 ''chunks'' (Some t) t i chunks (db_chunks d2))"
    using view assms(2,3) s by (intro same_replace_rows) (auto simp: tenant_view_def apart_def)
  have es: "map_sum id (filter (\<lambda>r. cd_tenant r = t))
        (replace_rows uuid5 ''entities'' (Some t) t i ents (db_entities d1))
      = map_sum id (filter (\<lambda>r. cd_tenant r = t))
        (replace_rows uuid5 ''entities'' (Some t) t i ents (db_entities d2))"
    using view assms(2,3) s by (intro same_replace_rows) (auto simp: tenant_view_def apart_def)
  show ?thesis
    using cs es view unfolding s
    by (auto simp: same_at_def replace_eq agree_def tenant_view_def map_sum_def split: sum.splits)
qed

lemma same_ids:
  assumes "tenant_view t d1 = tenant_view t d2"
    and "\<forall>r \<in> set (db_docs d1) \<union> set (db_docs d2). sd_tenant r \<noteq> t \<longrightarrow> sd_id r \<noteq> i"
  shows "i \<in> set (map sd_id (db_docs d1)) \<longleftrightarrow> i \<in> set (map sd_id (db_docs d2))"
proof -
  have "i \<in> set (map sd_id (db_docs d))
      \<longleftrightarrow> i \<in> set (map sd_id (filter (\<lambda>r. sd_tenant r = t) (db_docs d)))"
    if "\<forall>r \<in> set (db_docs d). sd_tenant r \<noteq> t \<longrightarrow> sd_id r \<noteq> i" for d
    using that by auto
  moreover have "filter (\<lambda>r. sd_tenant r = t) (db_docs d1) = filter (\<lambda>r. sd_tenant r = t) (db_docs d2)"
    using assms(1) by (simp add: tenant_view_def)
  ultimately show ?thesis using assms(2) by (metis UnCI)
qed

lemma same_event_ids:
  assumes "tenant_view t d1 = tenant_view t d2"
    and "\<forall>q \<in> set (db_outbox d1) \<union> set (db_outbox d2). ob_tenant q \<noteq> t \<longrightarrow> ob_id q \<noteq> i"
  shows "i \<in> set (map ob_id (db_outbox d1)) \<longleftrightarrow> i \<in> set (map ob_id (db_outbox d2))"
proof -
  have "i \<in> set (map ob_id (db_outbox d))
      \<longleftrightarrow> i \<in> set (map ob_id (filter (\<lambda>q. ob_tenant q = t) (db_outbox d)))"
    if "\<forall>q \<in> set (db_outbox d). ob_tenant q \<noteq> t \<longrightarrow> ob_id q \<noteq> i" for d
    using that by auto
  moreover have "filter (\<lambda>q. ob_tenant q = t) (db_outbox d1) = filter (\<lambda>q. ob_tenant q = t) (db_outbox d2)"
    using assms(1) by (simp add: tenant_view_def)
  ultimately show ?thesis using assms(2) by (metis UnCI)
qed

lemma same_keys:
  assumes "tenant_view t d1 = tenant_view t d2" and "sd_tenant row = t"
  shows "filter (same_key row) (db_docs d1) = filter (same_key row) (db_docs d2)"
    and "list_ex (same_key row) (db_docs d1) \<longleftrightarrow> list_ex (same_key row) (db_docs d2)"
proof -
  have k: "filter (same_key row) xs = filter (same_key row) (filter (\<lambda>r. sd_tenant r = t) xs)" for xs
    using assms(2) by (induction xs) (auto simp: same_key_def)
  with assms(1) show eq: "filter (same_key row) (db_docs d1) = filter (same_key row) (db_docs d2)"
    by (metis tenant_view_def db.select_convs(1))
  have "list_ex (same_key row) xs \<longleftrightarrow> filter (same_key row) xs \<noteq> []" for xs
    by (induction xs) auto
  with eq show "list_ex (same_key row) (db_docs d1) \<longleftrightarrow> list_ex (same_key row) (db_docs d2)"
    by simp
qed

fun fresh_call :: "ustr \<Rightarrow> repo_call \<Rightarrow> db \<Rightarrow> bool" where
  \<comment> \<open>no other tenant has the identifiers \<open>uuid4()\<close> gave this call\<close>
  "fresh_call t (RegisterUpload new event_id now trace filename sha media n key) d \<longleftrightarrow>
     (\<forall>r \<in> set (db_docs d). sd_tenant r \<noteq> t \<longrightarrow> sd_id r \<noteq> new)
     \<and> (\<forall>q \<in> set (db_outbox d). ob_tenant q \<noteq> t \<longrightarrow> ob_id q \<noteq> event_id)"
| "fresh_call t (UpsertDocument new now clk filename document) d \<longleftrightarrow>
     (\<forall>r \<in> set (db_docs d). sd_tenant r \<noteq> t \<longrightarrow> sd_id r \<noteq> new)"
| "fresh_call t c d \<longleftrightarrow> True"

lemma same_begin:
  assumes "same_at t m (in_tenant t d1) (in_tenant t d2)"
    and "tenant_view t d1 = tenant_view t d2"
  shows "fst (engine_begin (thenE (set_tenant t) m) d1) = fst (engine_begin (thenE (set_tenant t) m) d2)
    \<and> tenant_view t (snd (engine_begin (thenE (set_tenant t) m) d1))
      = tenant_view t (snd (engine_begin (thenE (set_tenant t) m) d2))"
  using assms
  by (auto simp: begin_tenant same_at_def agree_def split: prod.splits sum.splits)

lemma register_same:
  assumes view: "tenant_view t d1 = tenant_view t d2" and t: "sd_tenant rc = t"
    and docs: "\<forall>r \<in> set (db_docs d1) \<union> set (db_docs d2). sd_tenant r \<noteq> t \<longrightarrow> sd_id r \<noteq> sd_id rc"
    and out: "\<forall>q \<in> set (db_outbox d1) \<union> set (db_outbox d2). ob_tenant q \<noteq> t \<longrightarrow> ob_id q \<noteq> event_id"
  shows "fst (register_row event_id trace rc d1) = fst (register_row event_id trace rc d2)
    \<and> tenant_view t (snd (register_row event_id trace rc d1))
      = tenant_view t (snd (register_row event_id trace rc d2))"
proof -
  have "tenant_view t (d1\<lparr>db_docs := db_docs d1 @ [rc],
        db_outbox := db_outbox d1 @ [outbox_entry event_id trace rc]\<rparr>)
      = tenant_view t (d2\<lparr>db_docs := db_docs d2 @ [rc],
        db_outbox := db_outbox d2 @ [outbox_entry event_id trace rc]\<rparr>)"
    using view by (simp add: tenant_view_def)
  with same_keys [OF view t] same_ids [OF view docs] same_event_ids [OF view out] view t
  show ?thesis by (simp only: register_row_eq) (auto simp del: set_map)
qed

lemma owners_same:
  assumes "tenant_view t d1 = tenant_view t d2"
  shows "(i, t) \<in> owners (db_docs d1) \<longleftrightarrow> (i, t) \<in> owners (db_docs d2)"
proof -
  have "(i, t) \<in> owners xs \<longleftrightarrow> (i, t) \<in> owners (filter (\<lambda>r. sd_tenant r = t) xs)" for xs
    by (auto simp: owners_def)
  with assms show ?thesis by (metis tenant_view_def db.select_convs(1))
qed

lemma filter_map_own:
  assumes "\<And>r. p r \<Longrightarrow> q r \<and> q (f r)"
  shows "filter q (map (\<lambda>r. if p r then f r else r) xs) = map (\<lambda>r. if p r then f r else r) (filter q xs)"
  using assms by (induction xs) auto

lemma update_view:
  assumes "tenant_view t d1 = tenant_view t d2" and "\<And>r. p r \<Longrightarrow> sd_tenant r = t \<and> sd_tenant (f r) = t"
  shows "tenant_view t (d1\<lparr>db_docs := map (\<lambda>r. if p r then f r else r) (db_docs d1)\<rparr>)
    = tenant_view t (d2\<lparr>db_docs := map (\<lambda>r. if p r then f r else r) (db_docs d2)\<rparr>)"
  using assms filter_map_own [of p "\<lambda>r. sd_tenant r = t" f] by (simp add: tenant_view_def)

lemma mark_same:
  assumes view: "tenant_view t d1 = tenant_view t d2"
    and ok: "docs_ok (db_docs d1)" "docs_ok (db_docs d2)"
  shows "fst (mark_status t doc status error d1) = fst (mark_status t doc status error d2)
    \<and> tenant_view t (snd (mark_status t doc status error d1))
      = tenant_view t (snd (mark_status t doc status error d2))"
  using owners_same [OF view, of doc] view
  by (auto simp: mark_status_eq ok intro!: update_view)

lemma insert_or_update_same:
  assumes view: "tenant_view t d1 = tenant_view t d2"
    and ok: "docs_ok (db_docs d1)" "docs_ok (db_docs d2)" and row: "sd_tenant row = t"
    and f: "\<And>r. sd_tenant (f r) = sd_tenant r" and st: "document_status (sd_status row)"
    and docs: "\<forall>r \<in> set (db_docs d1) \<union> set (db_docs d2). sd_tenant r \<noteq> t \<longrightarrow> sd_id r \<noteq> sd_id row"
  shows "same_at t (insert_or_update row f) (in_tenant t d1) (in_tenant t d2)"
proof -
  have "tenant_view t (d1\<lparr>db_docs := map (\<lambda>r. if same_key row r then f r else r) (db_docs d1)\<rparr>)
      = tenant_view t (d2\<lparr>db_docs := map (\<lambda>r. if same_key row r then f r else r) (db_docs d2)\<rparr>)"
    using view row f by (intro update_view) (auto simp: same_key_def)
  moreover have "tenant_view t (d1\<lparr>db_docs := db_docs d1 @ [row]\<rparr>)
      = tenant_view t (d2\<lparr>db_docs := db_docs d2 @ [row]\<rparr>)"
    using view by (simp add: tenant_view_def)
  ultimately show ?thesis
    using same_keys [OF view row] same_ids [OF view docs] view
    unfolding same_at_def agree_def insert_or_update_in [OF ok(1) row st]
      insert_or_update_in [OF ok(2) row st]
    by (auto simp del: set_map)
qed

lemma upsert_same:
  assumes view: "tenant_view t d1 = tenant_view t d2"
    and ok: "db_ok dimension uuid5 d1" "db_ok dimension uuid5 d2" and inj: "injective_uuid5 uuid5"
    and docs: "\<forall>r \<in> set (db_docs d1) \<union> set (db_docs d2). sd_tenant r \<noteq> t \<longrightarrow> sd_id r \<noteq> new"
  shows "fst (upsert_document dimension uuid5 new now clk t filename document d1)
      = fst (upsert_document dimension uuid5 new now clk t filename document d2)
    \<and> tenant_view t (snd (upsert_document dimension uuid5 new now clk t filename document d1))
      = tenant_view t (snd (upsert_document dimension uuid5 new now clk t filename document d2))"
proof (cases "prepare_document new now t filename document")
  case (Inl e)
  with view show ?thesis by (simp add: upsert_document_def bindE_def liftE_def)
next
  case (Inr rc)
  note fields = prepare_fields [OF Inr]
  note dok = db_ok_docsD [OF ok(1)] db_ok_docsD [OF ok(2)]
  let ?ins = "insert_or_update (upsert_row rc clk) (upsert_set rc clk)"
  have row: "sd_tenant (upsert_row rc clk) = t" and st: "document_status (sd_status (upsert_row rc clk))"
    and id: "sd_id (upsert_row rc clk) = new"
    by (simp_all add: fields document_status_def)
  have ins: "same_at t ?ins (in_tenant t d1) (in_tenant t d2)"
    using docs by (intro insert_or_update_same [OF view dok row _ st]) (auto simp: fields)
  have free: "apart uuid5 t (sd_id r) (se_db s)"
    if run: "?ins (in_tenant t d) = (Inr [r], s)" and d: "d = d1 \<or> d = d2" for d r s
  proof -
    have dd: "docs_ok (db_docs d)" "db_ok dimension uuid5 d" using d dok ok by auto
    have own: "\<forall>x \<in> set (db_docs d). sd_id x = sd_id r \<longrightarrow> sd_tenant x = t"
      and ch: "db_chunks (se_db s) = db_chunks d" "db_entities (se_db s) = db_entities d"
    proof -
      show "db_chunks (se_db s) = db_chunks d" "db_entities (se_db s) = db_entities d"
        using run by (auto simp: insert_or_update_in [OF dd(1) row st] split: if_splits)
      show "\<forall>x \<in> set (db_docs d). sd_id x = sd_id r \<longrightarrow> sd_tenant x = t"
      proof (cases "list_ex (same_key (upsert_row rc clk)) (db_docs d)")
        case True
        then obtain r0 where r0: "r0 \<in> set (db_docs d)" "same_key (upsert_row rc clk) r0"
          "filter (same_key (upsert_row rc clk)) (db_docs d) = [r0]"
          using dd(1) by (auto elim: select_key)
        have "sd_id r = sd_id r0"
          using run True r0 by (auto simp: insert_or_update_in [OF dd(1) row st] split: if_splits)
        moreover have "x = r0" if "x \<in> set (db_docs d)" "sd_id x = sd_id r0" for x
          using that r0(1) dd(1) by (auto simp: docs_ok_def distinct_map dest: inj_onD)
        ultimately show ?thesis using r0(2) row by (auto simp: same_key_def)
      next
        case False
        then show ?thesis
          using run docs d id by (auto simp: insert_or_update_in [OF dd(1) row st] split: if_splits)
      qed
    qed
    from db_ok_apart [OF dd(2) inj own] ch show ?thesis by (simp add: apart_def)
  qed
  have "same_at t (bindE ?ins (\<lambda>rows. case rows of
        [r] \<Rightarrow> thenE (replace dimension uuid5 t (sd_id r) (sd_chunks rc) (sd_entities rc))
              (returnE (with_children r (sd_chunks rc) (sd_entities rc)))
      | _ \<Rightarrow> raiseE OtherSQLAlchemyError)) (in_tenant t d1) (in_tenant t d2)"
  proof (intro same_bind [OF ins], goal_cases)
    case (1 rows s1 s2)
    show ?case
    proof (cases "\<exists>r. rows = [r]")
      case True
      then obtain r where r: "rows = [r]" by blast
      with 1 free have "apart uuid5 t (sd_id r) (se_db s1)" "apart uuid5 t (sd_id r) (se_db s2)"
        by blast+
      with 1(3) r show ?thesis by (auto intro!: same_then same_replace same_pure)
    next
      case False
      with 1(3) show ?thesis by (auto split: list.split intro: same_pure)
    qed
  qed
  from same_begin [OF this view] Inr show ?thesis
    by (simp add: upsert_document_def bindE_def [of "liftE _"] liftE_def)
qed

lemma replace_children_same:
  assumes view: "tenant_view t d1 = tenant_view t d2"
    and ok: "db_ok dimension uuid5 d1" "db_ok dimension uuid5 d2" and inj: "injective_uuid5 uuid5"
  shows "fst (replace_chunks_and_entities dimension uuid5 t doc chunks ents d1)
      = fst (replace_chunks_and_entities dimension uuid5 t doc chunks ents d2)
    \<and> tenant_view t (snd (replace_chunks_and_entities dimension uuid5 t doc chunks ents d1))
      = tenant_view t (snd (replace_chunks_and_entities dimension uuid5 t doc chunks ents d2))"
proof (cases "(doc, t) \<in> owners (db_docs d1)")
  case False
  with owners_same [OF view] view show ?thesis
    by (simp add: replace_children_eq db_ok_docsD [OF ok(1)] db_ok_docsD [OF ok(2)])
next
  case True
  with owners_same [OF view] have o2: "(doc, t) \<in> owners (db_docs d2)" by blast
  have "\<forall>r \<in> set (db_docs d). sd_id r = doc \<longrightarrow> sd_tenant r = t"
    if "docs_ok (db_docs d)" "(doc, t) \<in> owners (db_docs d)" for d
    using that by (auto simp: docs_ok_def owners_def distinct_map dest: inj_onD)
  with True o2 ok inj have "apart uuid5 t doc d1" "apart uuid5 t doc d2"
    by (auto intro!: db_ok_apart db_ok_docsD)
  with view have "same_at t (replace dimension uuid5 t doc chunks ents) (in_tenant t d1) (in_tenant t d2)"
    by (intro same_replace) (simp_all add: agree_def)
  with True o2 view show ?thesis
    by (auto simp: replace_children_eq db_ok_docsD [OF ok(1)] db_ok_docsD [OF ok(2)] same_at_def
        agree_def split: prod.splits sum.splits)
qed

lemma repo_run_same:
  assumes view: "tenant_view t d1 = tenant_view t d2"
    and ok: "db_ok (rp_dimension rp) (rp_uuid5 rp) d1" "db_ok (rp_dimension rp) (rp_uuid5 rp) d2"
    and inj: "injective_uuid5 (rp_uuid5 rp)" and fresh: "fresh_call t c d1" "fresh_call t c d2"
  shows "fst (repo_run rp t c d1) = fst (repo_run rp t c d2)
    \<and> tenant_view t (snd (repo_run rp t c d1)) = tenant_view t (snd (repo_run rp t c d2))"
proof -
  have reading: "fst (snapshot t m d1) = fst (snapshot t m d2)"
    if "\<And>s1 s2. agree t s1 s2 \<Longrightarrow> same_at t m s1 s2" for m :: "(session, 'x) proc"
    using that [of "in_tenant t d1" "in_tenant t d2"] view
    by (simp add: snapshot_tenant agree_def same_at_def)
  have begin': "fst (engine_begin (thenE (set_tenant t) m) d1)
      = fst (engine_begin (thenE (set_tenant t) m) d2)"
    if "\<And>s1 s2. agree t s1 s2 \<Longrightarrow> same_at t m s1 s2" for m :: "(session, 'x) proc"
    using that [of "in_tenant t d1" "in_tenant t d2"] same_begin [OF _ view, of m] view
    by (simp add: agree_def)
  show ?thesis
  proof (cases c)
    case (ListDocuments limit offset)
    have "fst (list_documents t limit offset d1) = fst (list_documents t limit offset d2)"
      by (auto simp: list_documents_def raiseE_def intro!: begin' same_intros)
    with ListDocuments view show ?thesis by (simp add: replyE_fst)
  next
    case (FindBySha256 sha)
    have "fst (find_by_sha256 t sha d1) = fst (find_by_sha256 t sha d2)"
      by (auto simp: find_by_sha256_def intro!: begin' same_intros)
    with FindBySha256 view show ?thesis by (simp add: replyE_fst)
  next
    case (RegisterUpload new event_id now trace filename sha media n key)
    with register_same [OF view] fresh show ?thesis
      by (simp add: replyE_fst register_upload_def ball_Un)
  next
    case (MarkStatus doc status error)
    with mark_same [OF view db_ok_docsD [OF ok(1)] db_ok_docsD [OF ok(2)]] show ?thesis
      by (simp add: replyE_fst)
  next
    case (UpsertDocument new now clk filename document)
    with upsert_same [OF view ok inj, of new now clk filename document] fresh show ?thesis
      by (simp add: replyE_fst ball_Un)
  next
    case (ReplaceChildren doc chunks ents)
    with replace_children_same [OF view ok inj, of doc chunks ents] show ?thesis
      by (simp add: replyE_fst)
  next
    case (GetDocument doc)
    have "fst (get_document t doc d1) = fst (get_document t doc d2)"
      unfolding get_document_def reader_get_document_def
      by (intro reading) (auto intro!: same_intros split: option.split prod.split)
    with GetDocument view show ?thesis by (simp add: replyE_fst get_document_def)
  next
    case (NearestChunks vector k flt)
    have "fst (nearest_chunks (rp_dimension rp) (rp_distance rp) t vector k flt d1)
        = fst (nearest_chunks (rp_dimension rp) (rp_distance rp) t vector k flt d2)"
      unfolding nearest_chunks_def reader_nearest_chunks_def
      by (intro reading) (auto intro!: same_intros)
    with NearestChunks view show ?thesis by (simp add: replyE_fst nearest_chunks_def)
  next
    case (SearchText query k flt)
    have "fst (search_text (rp_matches rp) (rp_rank rp) t query k flt d1)
        = fst (search_text (rp_matches rp) (rp_rank rp) t query k flt d2)"
      unfolding search_text_def reader_search_text_def
      by (intro reading) (auto intro!: same_intros)
    with SearchText view show ?thesis by (simp add: replyE_fst search_text_def)
  qed
qed

end
