(* ===== verification/QueryData.thy ===== *)
theory QueryData
  imports Contracts "HOL-Library.List_Lexorder" "HOL-Library.Product_Lexorder" "HOL-Library.AList"
begin

text \<open>
  The data of the query service (\<open>contracts/query.py\<close>) and the operations on text that need
  Unicode tables: they are the fields of a \<open>unicode\<close> record. Scores and confidences are real
  numbers.
\<close>

section \<open>Unicode\<close>

record unicode =
  un_word :: "nat \<Rightarrow> bool" \<comment> \<open>what \<open>[^\W_]\<close> matches\<close>
  un_casefold :: "ustr \<Rightarrow> ustr"
  un_isupper :: "ustr \<Rightarrow> bool"
  un_nfkc :: "ustr \<Rightarrow> ustr"

fun join_with :: "ustr \<Rightarrow> ustr list \<Rightarrow> ustr" where
  \<comment> \<open>\<open>sep.join(parts)\<close>\<close>
  "join_with sep [] = []"
| "join_with sep [w] = w"
| "join_with sep (w # ws) = w @ sep @ join_with sep ws"

definition normalized :: "unicode \<Rightarrow> ustr \<Rightarrow> ustr" where
  "normalized un t = join_with (ascii '' '') (split_words (un_casefold un (un_nfkc un t)))"

section \<open>Requests and answers\<close>

record query_request =
  rq_question :: ustr
  rq_top_k :: int
  rq_filter :: query_filter

definition new_request :: "ustr \<Rightarrow> int option \<Rightarrow> query_filter option \<Rightarrow> query_request result" where
  \<comment> \<open>the constructor: \<open>top_k\<close> and \<open>filter\<close> have defaults\<close>
  "new_request question top_k flt =
     (let k = (case top_k of None \<Rightarrow> 5 | Some k \<Rightarrow> k)
      in if strip question = [] \<or> k < 1 \<or> 20 < k then Inl ValidationError
         else Inr \<lparr>rq_question = strip question, rq_top_k = k,
                   rq_filter = (case flt of None \<Rightarrow> \<lparr>qf_documents = None, qf_language = None\<rparr>
                                | Some f \<Rightarrow> f)\<rparr>)"

record generation =
  ge_answer :: ustr
  ge_supported :: bool
  ge_indexes :: "int list"
  ge_usage :: "token_usage option"

record generation_info =
  gi_provider :: string
  gi_model :: string
  gi_usage :: "token_usage option"
  gi_reason :: "string option"

record source =
  so_document :: uuid
  so_page :: nat
  so_ord :: nat
  so_start :: nat
  so_end :: nat
  so_text :: ustr
  so_score :: real

record cited_entity =
  ce_text :: ustr
  ce_label :: string
  ce_count :: nat
  ce_document :: uuid

record query_response =
  qr_answer :: ustr
  qr_confidence :: real
  qr_abstained :: bool
  qr_sources :: "source list"
  qr_entities :: "cited_entity list"
  qr_top_k :: int
  qr_hits :: nat
  qr_generation :: generation_info

end
