(* ===== verification/Ranking.thy ===== *)
theory Ranking
  imports QueryData
begin

text \<open>
  \<open>ranking.py\<close> and \<open>extractive.py\<close>: content words, reciprocal rank fusion, the confidence of
  an answer and the decision to abstain, and the offline generator.
\<close>

section \<open>Words\<close>

definition stop_words :: "ustr list" where
  "stop_words = map ascii
     [''a'', ''an'', ''the'', ''is'', ''are'', ''was'', ''were'', ''do'', ''does'', ''did'',
      ''what'', ''where'', ''when'', ''why'', ''how'', ''which'', ''who'', ''in'', ''on'', ''at'',
      ''to'', ''of'', ''for'', ''and'', ''or'', ''it'', ''this'', ''that'', ''through'', ''during'',
      ''with'', ''about'', ''can'', ''could'', ''please'', ''explain'', ''tell'', ''me'', ''gdje'',
      ''kako'', ''kada'', ''je'', ''su'', ''se'', ''u'', ''na'', ''i'', ''od'', ''za'']
     @ [[353, 116, 111], [122, 97, 353, 116, 111]]"

definition operators :: "ustr list" where
  "operators = [ascii ''and'', ascii ''or'']"

definition keeps_word :: "unicode \<Rightarrow> ustr \<Rightarrow> bool" where
  "keeps_word un token \<longleftrightarrow>
     (let folded = un_casefold un token;
          acronym = 1 < length token \<and> un_isupper un token \<and> folded \<notin> set operators
      in folded \<notin> set stop_words \<or> acronym)"

definition words :: "unicode \<Rightarrow> ustr \<Rightarrow> ustr list" where
  \<comment> \<open>the set as a list without repetitions\<close>
  "words un t = fromkeys (map (un_casefold un) (filter (keeps_word un) (find_runs (un_word un) t)))"

definition overlap :: "unicode \<Rightarrow> ustr \<Rightarrow> ustr \<Rightarrow> real" where
  "overlap un t evidence =
     (let tokens = words un t
      in if tokens = [] then 0
         else real (length (filter (\<lambda>w. w \<in> set (words un evidence)) tokens)) / real (length tokens))"

definition lexical_query :: "unicode \<Rightarrow> ustr \<Rightarrow> ustr" where
  "lexical_query un question =
     join_with (ascii '' OR '') (map (\<lambda>term. 34 # term @ [34]) (sort (words un question)))"

section \<open>Reciprocal rank fusion\<close>

type_synonym hit_key = "uuid \<times> nat"

definition hit_key :: "search_hit \<Rightarrow> hit_key" where
  "hit_key h = (sh_document h, ck_ord (sh_chunk h))"

type_synonym fusion = "(hit_key \<times> real) list \<times> (hit_key \<times> search_hit) list"

definition score_of :: "(hit_key \<times> real) list \<Rightarrow> hit_key \<Rightarrow> real" where
  \<comment> \<open>\<open>scores.get(key, 0.0)\<close>\<close>
  "score_of scores key = (case map_of scores key of None \<Rightarrow> 0 | Some x \<Rightarrow> x)"

fun fuse_ranking :: "nat \<Rightarrow> nat \<Rightarrow> hit_key list \<Rightarrow> search_hit list \<Rightarrow> fusion \<Rightarrow> fusion" where
  \<comment> \<open>the inner loop at rank \<open>rank\<close>, with the keys \<open>seen\<close> in this ranking\<close>
  "fuse_ranking k rank seen [] f = f"
| "fuse_ranking k rank seen (h # hs) (scores, hits) =
     (let key = hit_key h
      in if key \<in> set seen then fuse_ranking k (Suc rank) seen hs (scores, hits)
         else fuse_ranking k (Suc rank) (key # seen) hs
           (AList.update key (score_of scores key + 1 / real (k + rank)) scores,
            if map_of hits key = None then hits @ [(key, h)] else hits))"

definition fused :: "nat \<Rightarrow> search_hit list list \<Rightarrow> fusion" where
  "fused k rankings = foldl (\<lambda>f ranking. fuse_ranking k 1 [] ranking f) ([], []) rankings"

definition fuse :: "search_hit list list \<Rightarrow> nat \<Rightarrow> search_hit list result" where
  "fuse rankings k =
     (if k < 1 then Inl (ValueError ''RRF k must be positive'')
      else
        (case fused k rankings of (scores, hits) \<Rightarrow>
           let score = (\<lambda>key. the (map_of scores key))
           in Inr (map (\<lambda>key. (the (map_of hits key))\<lparr>sh_score := score key\<rparr>)
                (sort_key (\<lambda>key. (- score key, key)) (map fst hits)))))"

section \<open>Confidence\<close>

definition confidence :: "unicode \<Rightarrow> real list \<Rightarrow> bool \<Rightarrow> ustr \<Rightarrow> ustr list \<Rightarrow> real" where
  "confidence un scores supported answer cited =
     (if \<not> supported \<or> scores = [] \<or> strip answer = [] \<or> cited = [] then 0
      else
        let margin = (if 1 < length scores \<and> 0 < hd scores
                      then (hd scores - last scores) / hd scores else 0);
            margin = min 1 (max 0 margin);
            grounding = overlap un answer (join_with (ascii '' '') cited)
        in min 1 (max 0 ((7 / 10 + 3 / 10 * margin) * grounding)))"

definition should_abstain :: "real \<Rightarrow> real \<Rightarrow> bool \<Rightarrow> bool \<Rightarrow> bool" where
  "should_abstain value threshold supported generated \<longleftrightarrow>
     \<not> supported \<or> (\<not> generated \<and> (value \<le> 0 \<or> value < threshold))"

definition assess_generation ::
  "unicode \<Rightarrow> generation \<Rightarrow> generation_info \<Rightarrow> search_hit list \<Rightarrow> real
   \<Rightarrow> real \<times> bool \<times> search_hit list" where
  "assess_generation un g info hits threshold =
     (let indexes = fromkeys (ge_indexes g);
          valid = indexes \<noteq> [] \<and> strip (ge_answer g) \<noteq> []
            \<and> list_all (\<lambda>i. 0 \<le> i \<and> i < int (length hits)) indexes;
          cited = (if valid then map (\<lambda>i. hits ! nat i) indexes else []);
          value = confidence un (map sh_score hits) (ge_supported g \<and> valid) (ge_answer g)
            (map (\<lambda>h. ck_text (sh_chunk h)) cited);
          abstained = should_abstain value threshold (ge_supported g \<and> valid)
            (gi_provider info = ''openai'')
      in (value, abstained, cited))"

section \<open>The offline generator\<close>

fun sentence_ends :: "nat \<Rightarrow> ustr \<Rightarrow> nat list" where
  \<comment> \<open>the ends of the matches of \<open>[.!?]\s+\<close>\<close>
  "sentence_ends i [] = []"
| "sentence_ends i (c # cs) =
     (let n = length (takeWhile isspace cs)
      in if c \<in> {46, 33, 63} \<and> n \<noteq> 0 then (i + 1 + n) # sentence_ends (i + 1 + n) (drop n cs)
         else sentence_ends (i + 1) cs)"

definition windows :: "ustr \<Rightarrow> ustr list" where
  "windows t =
     (let boundaries = 0 # sentence_ends 0 t @ [length t]
      in map (\<lambda>(i, start). strip (py_slice start (boundaries ! min (i + 2) (length boundaries - 1)) t))
           (enumerate_from 0 (butlast boundaries)))"

fun max_by :: "('a \<Rightarrow> real) \<Rightarrow> 'a \<Rightarrow> 'a list \<Rightarrow> 'a" where
  \<comment> \<open>\<open>max(..., key=f)\<close>: the first of the largest\<close>
  "max_by f best [] = best"
| "max_by f best (x # xs) = max_by f (if f best < f x then x else best) xs"

definition best_window :: "(ustr \<Rightarrow> real) \<Rightarrow> ustr list \<Rightarrow> ustr" where
  "best_window f ws = (case ws of [] \<Rightarrow> [] | w # ws' \<Rightarrow> max_by f w ws')"

definition extractive_generate :: "unicode \<Rightarrow> ustr \<Rightarrow> ustr list \<Rightarrow> generation" where
  "extractive_generate un question passages =
     (case passages of
        [] \<Rightarrow> \<lparr>ge_answer = [], ge_supported = False, ge_indexes = [], ge_usage = None\<rparr>
      | t # _ \<Rightarrow>
          (let answer = best_window (overlap un question) (windows t);
               supported = answer \<noteq> [] \<and> 3 / 10 \<le> overlap un question answer
           in \<lparr>ge_answer = answer, ge_supported = supported,
               ge_indexes = (if answer \<noteq> [] then [0] else []), ge_usage = None\<rparr>))"

end
