(* ===== verification/Analysis.thy ===== *)
theory Analysis
  imports ChunkerLaws
begin

text \<open>
  \<open>deduplicate\<close> and \<open>analyze\<close> of \<open>structure.py\<close>, \<open>embedding.py\<close> and \<open>evaluation.py\<close>. Language
  detection, entity recognition, embedding and the Unicode folding are parameters; a
  provider that raises is an \<open>Inl\<close> value.
\<close>

section \<open>Grouping entities\<close>

fun join_words :: "ustr list \<Rightarrow> ustr" where
  \<comment> \<open>\<open>" ".join(words)\<close>\<close>
  "join_words [] = []"
| "join_words [w] = w"
| "join_words (w # ws) = w @ 32 # join_words ws"

type_synonym entity_key = "ustr \<times> string"

definition entity_key :: "(ustr \<Rightarrow> ustr) \<Rightarrow> entity \<Rightarrow> entity_key" where
  \<comment> \<open>\<open>casefold\<close> is \<open>normalize("NFKC", text).casefold()\<close>\<close>
  "entity_key casefold e = (join_words (split_words (casefold (en_text e))), en_label e)"

definition add_entity ::
  "(ustr \<Rightarrow> ustr) \<Rightarrow> (entity_key \<times> entity) list \<Rightarrow> entity \<Rightarrow> (entity_key \<times> entity) list" where
  "add_entity casefold unique e =
     (let key = entity_key casefold e
      in case map_of unique key of
           Some x \<Rightarrow> AList.update key (x\<lparr>en_count := en_count x + en_count e\<rparr>) unique
         | None \<Rightarrow> AList.update key e unique)"

definition deduplicate :: "(ustr \<Rightarrow> ustr) \<Rightarrow> entity list \<Rightarrow> entity list" where
  "deduplicate casefold entities =
     map snd (foldl (add_entity casefold) [] (sort_key (\<lambda>e. (en_page e, en_start e)) entities))"

section \<open>Page analysis\<close>

record analysis_providers =
  ap_detect :: "ustr \<Rightarrow> language_guess result"
  ap_ner :: "page \<Rightarrow> (entity list) result"
  ap_tokenizer :: tokenizer
  ap_fold :: "ustr \<Rightarrow> ustr"

definition detected_language :: "('a) worker_settings_scheme \<Rightarrow> language_guess \<Rightarrow> string" where
  "detected_language s guess =
     (if lang_min_confidence s \<le> lg_confidence guess then lg_language guess else ''und'')"

definition analyzed_page :: "('a) worker_settings_scheme \<Rightarrow> page \<Rightarrow> language_guess \<Rightarrow> page" where
  "analyzed_page s p guess =
     p\<lparr>pg_language := detected_language s guess, pg_confidence := lg_confidence guess\<rparr>"

definition page_entities ::
  "analysis_providers \<Rightarrow> page \<Rightarrow> nat \<Rightarrow> (entity list) result" where
  "page_entities ap p remaining =
     (let text = take remaining (pg_text p)
      in if text \<noteq> [] then ap_ner ap (p\<lparr>pg_text := text\<rparr>) else Inr [])"

fun analyze_pages ::
  "analysis_providers \<Rightarrow> ('a) worker_settings_scheme \<Rightarrow> nat \<Rightarrow> page list \<Rightarrow> chunk list
   \<Rightarrow> entity list \<Rightarrow> page list \<Rightarrow> (page list \<times> chunk list \<times> entity list) result" where
  "analyze_pages ap s remaining pages chunks entities [] = Inr (pages, chunks, entities)"
| "analyze_pages ap s remaining pages chunks entities (original # rest) =
     (case ap_detect ap (take (lang_sample_chars s) (pg_text original)) of
        Inl e \<Rightarrow> Inl e
      | Inr guess \<Rightarrow>
          (let p = analyzed_page s original guess
           in case page_entities ap p remaining of
                Inl e \<Rightarrow> Inl e
              | Inr found \<Rightarrow>
                  (case chunk_page p (ap_tokenizer ap) s (length chunks) of
                     Inl e \<Rightarrow> Inl e
                   | Inr cs \<Rightarrow>
                       analyze_pages ap s (remaining - length (take remaining (pg_text p)))
                         (pages @ [p]) (chunks @ cs) (entities @ found) rest)))"

definition analyze ::
  "analysis_providers \<Rightarrow> ('a) worker_settings_scheme \<Rightarrow> extracted_document \<Rightarrow> document result" where
  "analyze ap s d =
     (case analyze_pages ap s (ner_max_chars s) [] [] [] (xd_pages d) of
        Inl e \<Rightarrow> Inl e
      | Inr (pages, chunks, entities) \<Rightarrow>
          Inr \<lparr>xd_version = pipeline_version, xd_sha256 = xd_sha256 d,
               xd_media_type = xd_media_type d, xd_pages = pages, dc_chunks = chunks,
               dc_entities = deduplicate (ap_fold ap) entities, dc_embed_model = None,
               dc_embed_dimension = None\<rparr>)"

section \<open>Embedding\<close>

record embedder =
  em_passages :: "ustr list \<Rightarrow> (pyfloat list list) result"
  em_query :: "ustr \<Rightarrow> (pyfloat list) result"
  em_dimension :: nat
  em_model :: string

definition vector_ok :: "nat \<Rightarrow> pyfloat list \<Rightarrow> bool" where
  "vector_ok dimension v \<longleftrightarrow> \<not> (length v \<noteq> dimension \<or> \<not> list_ex truthy v \<or> \<not> list_all isfinite v)"

definition embed_document :: "embedder \<Rightarrow> document \<Rightarrow> document result" where
  "embed_document em d =
     (case em_passages em (map ck_text (dc_chunks d)) of
        Inl e \<Rightarrow> Inl e
      | Inr vectors \<Rightarrow>
          (if length vectors \<noteq> length (dc_chunks d)
             \<or> list_ex (\<lambda>v. \<not> vector_ok (em_dimension em) v) vectors
           then Inl (ValueError ''Embedder returned invalid vector count, dimension or values'')
           else Inr (d\<lparr>dc_chunks := map (\<lambda>(c, v). c\<lparr>ck_embedding := Some v\<rparr>)
                         (zip (dc_chunks d) vectors),
                       dc_embed_model := Some (em_model em),
                       dc_embed_dimension := Some (em_dimension em),
                       xd_version := pipeline_version\<rparr>)))"

definition embed_passages ::
  "tokenizer \<Rightarrow> (ustr list \<Rightarrow> (real list list) result) \<Rightarrow> ustr list \<Rightarrow> (pyfloat list list) result" where
  \<comment> \<open>\<open>FastEmbedEmbedder.embed_passages\<close>; \<open>model\<close> is the loaded network\<close>
  "embed_passages tokenizer model texts =
     (if texts = [] then Inr []
      else if list_ex (\<lambda>t. 126 < length (tokenizer t)) texts
      then Inl (ValueError ''MiniLM input exceeds 126 content tokens; refusing truncation'')
      else
        (case model texts of
           Inl e \<Rightarrow> Inl e
         | Inr vectors \<Rightarrow> Inr (map (\<lambda>v.
             let norm = sqrt (sum_list (map (\<lambda>x. x * x) v))
             in map (\<lambda>x. if norm = 0 then NaN else Finite (x / norm)) v) vectors)))"

definition embed_query ::
  "tokenizer \<Rightarrow> (ustr list \<Rightarrow> (real list list) result) \<Rightarrow> ustr \<Rightarrow> (pyfloat list) result" where
  "embed_query tokenizer model t =
     (case embed_passages tokenizer model [t] of
        Inl e \<Rightarrow> Inl e | Inr [] \<Rightarrow> Inl IndexError | Inr (v # vs) \<Rightarrow> Inr v)"

section \<open>Retrieval metrics\<close>

definition cosine :: "pyfloat list \<Rightarrow> pyfloat list \<Rightarrow> real result" where
  "cosine a b =
     (if a = [] \<or> length a \<noteq> length b \<or> \<not> list_all isfinite (a @ b)
      then Inl (ValueError ''Cosine requires finite vectors of the same nonzero dimension'')
      else
        let xs = map fin_val a; ys = map fin_val b;
            denominator = sqrt (sum_list (map (\<lambda>x. x * x) xs)) * sqrt (sum_list (map (\<lambda>x. x * x) ys))
        in if denominator = 0 then Inl (ValueError ''Cosine is undefined for zero vectors'')
           else Inr (sum_list (map (\<lambda>(x, y). x * y) (zip xs ys)) / denominator))"

definition contains :: "ustr \<Rightarrow> ustr \<Rightarrow> bool" where
  \<comment> \<open>\<open>needle in text\<close>\<close>
  "contains text needle \<longleftrightarrow>
     list_ex (\<lambda>i. take (length needle) (drop i text) = needle) [0 ..< Suc (length text)]"

fun cosines :: "pyfloat list \<Rightarrow> pyfloat list list \<Rightarrow> (real list) result" where
  "cosines query [] = Inr []"
| "cosines query (v # vs) =
     (case cosine query v of
        Inl e \<Rightarrow> Inl e
      | Inr x \<Rightarrow> (case cosines query vs of Inl e \<Rightarrow> Inl e | Inr xs \<Rightarrow> Inr (x # xs)))"

definition first_rank :: "(nat \<Rightarrow> bool) \<Rightarrow> nat list \<Rightarrow> nat" where
  \<comment> \<open>one-based position of the first index that satisfies the test, or 0\<close>
  "first_rank p ranking =
     (case find (\<lambda>(rank, i). p i) (enumerate_from 1 ranking) of None \<Rightarrow> 0 | Some (rank, i) \<Rightarrow> rank)"

definition case_rank ::
  "embedder \<Rightarrow> chunk list \<Rightarrow> pyfloat list list \<Rightarrow> ustr \<times> ustr \<Rightarrow> nat result" where
  "case_rank em chunks vectors =
     (\<lambda>(question, expected).
       case em_query em question of
         Inl e \<Rightarrow> Inl e
       | Inr query \<Rightarrow>
           (case cosines query vectors of
              Inl e \<Rightarrow> Inl e
            | Inr scores \<Rightarrow>
                Inr (first_rank (\<lambda>i. contains (ck_text (chunks ! i)) expected)
                  (sort_key (\<lambda>i. - (scores ! i)) [0 ..< length chunks]))))"

fun evaluate_cases ::
  "embedder \<Rightarrow> chunk list \<Rightarrow> pyfloat list list \<Rightarrow> nat \<Rightarrow> real \<Rightarrow> (ustr \<times> ustr) list \<Rightarrow> (nat \<times> real) result" where
  "evaluate_cases em chunks vectors hits ranks [] = Inr (hits, ranks)"
| "evaluate_cases em chunks vectors hits ranks (c # cs) =
     (case case_rank em chunks vectors c of
        Inl e \<Rightarrow> Inl e
      | Inr rank \<Rightarrow>
          evaluate_cases em chunks vectors (hits + (if 0 < rank \<and> rank \<le> 5 then 1 else 0))
            (ranks + (if rank \<noteq> 0 then 1 / real rank else 0)) cs)"

definition evaluate ::
  "(ustr \<times> ustr) list \<Rightarrow> chunk list \<Rightarrow> embedder \<Rightarrow> (real \<times> real) result" where
  "evaluate cases chunks em =
     (if cases = [] then Inl (ValueError ''Evaluation requires at least one question'')
      else
        (case em_passages em (map ck_text chunks) of
           Inl e \<Rightarrow> Inl e
         | Inr vectors \<Rightarrow>
             (if length vectors \<noteq> length chunks
              then Inl (ValueError ''Embedder must return one vector per chunk'')
              else
                (case evaluate_cases em chunks vectors 0 0 cases of
                   Inl e \<Rightarrow> Inl e
                 | Inr (hits, ranks) \<Rightarrow>
                     Inr (real hits / real (length cases), ranks / real (length cases))))))"

end
