(* ===== verification/Memory.thy ===== *)
theory Memory
  imports StorageLaws Ranking Analysis
begin

text \<open>
  The in-memory repository of \<open>packages/testing\<close> (\<open>storage.py\<close>), which claims the replacement and
  tenant semantics of the Postgres store. A dict is an association list in insertion order;
  assigning to a key that is there keeps its place. Records that are handed out are copies.
\<close>

section \<open>State\<close>

type_synonym memory_docs = "((ustr \<times> uuid) \<times> stored_document) list"

record memory =
  mm_docs :: memory_docs
  mm_events :: "document_uploaded list"

definition new_memory :: memory where
  "new_memory = \<lparr>mm_docs = [], mm_events = []\<rparr>"

section \<open>Uploads\<close>

definition owned :: "ustr \<Rightarrow> ustr \<Rightarrow> (ustr \<times> uuid) \<times> stored_document \<Rightarrow> bool" where
  "owned tenant sha = (\<lambda>(key, d). sd_tenant d = tenant \<and> sd_sha256 d = sha)"

definition mem_find :: "ustr \<Rightarrow> ustr \<Rightarrow> memory \<Rightarrow> stored_document option" where
  \<comment> \<open>\<open>find_by_sha256\<close>\<close>
  "mem_find tenant sha m = map_option snd (find (owned tenant sha) (mm_docs m))"

definition mem_names :: "ustr \<Rightarrow> memory \<Rightarrow> (uuid \<times> ustr) list" where
  \<comment> \<open>\<open>document_names\<close>\<close>
  "mem_names tenant m =
     map (\<lambda>((t, i), d). (i, sd_filename d)) (filter (\<lambda>((t, i), d). t = tenant) (mm_docs m))"

definition mem_list :: "ustr \<Rightarrow> int \<Rightarrow> int \<Rightarrow> (memory, stored_document list) proc" where
  \<comment> \<open>\<open>list_documents\<close>\<close>
  "mem_list tenant limit offset =
     (if \<not> (1 \<le> limit \<and> limit \<le> 100) \<or> offset < 0 then raiseE (ValueError ''Invalid pagination'')
      else readE (\<lambda>m.
        take (nat limit) (drop (nat offset)
          (sort_key (\<lambda>d. (- sd_created d, sd_id d)) (map snd (filter (\<lambda>((t, i), d). t = tenant) (mm_docs m)))))))"

definition mem_register ::
  "uuid \<Rightarrow> uuid \<Rightarrow> timestamp \<Rightarrow> ustr \<Rightarrow> ustr \<Rightarrow> ustr \<Rightarrow> string \<Rightarrow> nat \<Rightarrow> ustr \<Rightarrow> (memory, stored_document) proc" where
  \<comment> \<open>\<open>register_upload\<close>\<close>
  "mem_register new event_id now tenant filename sha media size_bytes key m =
     (case mem_find tenant sha m of
        Some previous \<Rightarrow> (Inr previous, m)
      | None \<Rightarrow>
          (let row = \<lparr>sd_id = new, sd_tenant = tenant, sd_filename = filename, sd_sha256 = sha,
                 sd_media_type = media, sd_page_count = None, sd_language = None, sd_status = ''uploaded'',
                 sd_version = None, sd_embed_model = None, sd_size = Some size_bytes, sd_key = Some key,
                 sd_error = None, sd_created = now, sd_processed = None\<rparr>;
               record = with_children row [] [];
               event = uploaded_event event_id None row
           in if \<not> valid_event event then (Inl ValidationError, m)
              else (Inr record, m\<lparr>mm_docs := AList.update (tenant, new) record (mm_docs m),
                                  mm_events := mm_events m @ [event]\<rparr>)))"

definition mem_mark :: "ustr \<Rightarrow> uuid \<Rightarrow> string \<Rightarrow> ustr option \<Rightarrow> (memory, unit) proc" where
  \<comment> \<open>\<open>mark_status\<close>\<close>
  "mem_mark tenant doc status error m =
     (if \<not> document_status status then (Inl (ValueError ''Invalid document status''), m)
      else
        (case map_of (mm_docs m) (tenant, doc) of
           None \<Rightarrow> (Inl not_found, m)
         | Some d \<Rightarrow> (Inr (), m\<lparr>mm_docs := AList.update (tenant, doc)
             (d\<lparr>sd_status := status, sd_error := (if status = ''failed'' then error else None)\<rparr>) (mm_docs m)\<rparr>)))"

section \<open>Processed documents\<close>

definition or_created :: "stored_document \<Rightarrow> timestamp" where
  \<comment> \<open>\<open>d.processed_at or d.created_at\<close>\<close>
  "or_created d = (case sd_processed d of None \<Rightarrow> sd_created d | Some t \<Rightarrow> t)"

definition mem_replaced :: "stored_document option \<Rightarrow> stored_document \<Rightarrow> stored_document" where
  \<comment> \<open>the loop over the previous versions\<close>
  "mem_replaced previous record =
     (case previous of
        None \<Rightarrow> record
      | Some p \<Rightarrow>
          (let record = record\<lparr>sd_id := sd_id p, sd_created := sd_created p, sd_size := sd_size p, sd_key := sd_key p\<rparr>
           in record\<lparr>sd_processed := Some (max (or_created record) (or_created p + 1))\<rparr>))"

definition mem_upsert ::
  "nat \<Rightarrow> uuid \<Rightarrow> timestamp \<Rightarrow> ustr \<Rightarrow> ustr \<Rightarrow> document \<Rightarrow> (memory, stored_document) proc" where
  \<comment> \<open>\<open>upsert_document\<close>\<close>
  "mem_upsert dimension new now tenant filename document =
     bindE (liftE (prepare_document new now tenant filename document)) (\<lambda>record.
     thenE (liftE (validate_chunks (sd_chunks record) dimension)) (\<lambda>m.
       (let record = mem_replaced (mem_find tenant (xd_sha256 document) m) record
        in (Inr record, m\<lparr>mm_docs := AList.update (tenant, sd_id record) record (mm_docs m)\<rparr>))))"

definition mem_get :: "ustr \<Rightarrow> uuid \<Rightarrow> memory \<Rightarrow> stored_document option" where
  \<comment> \<open>\<open>get_document\<close>\<close>
  "mem_get tenant doc m = map_of (mm_docs m) (tenant, doc)"

definition mem_replace :: "nat \<Rightarrow> ustr \<Rightarrow> uuid \<Rightarrow> chunk list \<Rightarrow> entity list \<Rightarrow> (memory, unit) proc" where
  \<comment> \<open>\<open>replace_chunks_and_entities\<close>\<close>
  "mem_replace dimension tenant doc chunks entities m =
     (case mem_get tenant doc m of
        None \<Rightarrow> (Inl not_found, m)
      | Some d \<Rightarrow>
          thenE (liftE (validate_chunks chunks dimension))
            (writeE (\<lambda>m. m\<lparr>mm_docs := AList.update (tenant, doc)
               (d\<lparr>sd_chunks := chunks, sd_entities := entities\<rparr>) (mm_docs m)\<rparr>)) m)"

definition mem_snapshot :: "ustr \<Rightarrow> memory \<Rightarrow> memory" where
  \<comment> \<open>\<open>snapshot\<close>: the copy its reader works on\<close>
  "mem_snapshot tenant m = m\<lparr>mm_docs := filter (\<lambda>((t, i), d). t = tenant) (mm_docs m)\<rparr>"

section \<open>Searches\<close>

fun split_by :: "ustr \<Rightarrow> ustr \<Rightarrow> ustr \<Rightarrow> ustr list" where
  \<comment> \<open>\<open>t.split(sep)\<close> of a text whose current piece is \<open>done\<close>; \<open>sep\<close> is not empty\<close>
  "split_by sep piece [] = [piece]"
| "split_by sep piece (c # cs) =
     (if sep \<noteq> [] \<and> take (length sep) (c # cs) = sep
      then piece # split_by sep [] (drop (length sep - 1) cs)
      else split_by sep (piece @ [c]) cs)"

definition terms_of :: "unicode \<Rightarrow> ustr \<Rightarrow> ustr list" where
  "terms_of un t = fromkeys (find_runs (un_word un) (un_casefold un t))"

definition text_score :: "unicode \<Rightarrow> ustr \<Rightarrow> ustr \<Rightarrow> real" where
  "text_score un query t =
     (let present = terms_of un t
      in real (sum_list (map (\<lambda>part. let terms = terms_of un part
           in if terms \<noteq> [] \<and> set terms \<subseteq> set present then length terms else 0)
           (split_by (ascii '' OR '') [] query))))"

definition passes :: "query_filter option \<Rightarrow> uuid \<Rightarrow> chunk \<Rightarrow> bool" where
  \<comment> \<open>the loop of \<open>nearest_chunks\<close> does not skip the chunk\<close>
  "passes flt i c \<longleftrightarrow>
     (case flt of None \<Rightarrow> True
      | Some f \<Rightarrow> (case qf_documents f of None \<Rightarrow> True | Some ids \<Rightarrow> i \<in> set ids)
          \<and> (case qf_language f of None \<Rightarrow> True | Some l \<Rightarrow> ck_language c = l))"

definition mem_candidates :: "ustr \<Rightarrow> query_filter option \<Rightarrow> memory \<Rightarrow> (uuid \<times> chunk) list" where
  "mem_candidates tenant flt m =
     concat (map (\<lambda>((t, i), d).
       if t = tenant then map (Pair i) (filter (passes flt i) (sd_chunks d)) else []) (mm_docs m))"

definition sum_squares :: "pyfloat list \<Rightarrow> real" where
  "sum_squares v = sum_list (map (\<lambda>x. fin_val x * fin_val x) v)"

definition mem_score :: "pyfloat list \<Rightarrow> pyfloat list \<Rightarrow> real" where
  "mem_score v w = sum_list (map2 (\<lambda>a b. fin_val a * fin_val b) v w) / sqrt (sum_squares v * sum_squares w)"

definition mem_hit :: "pyfloat list \<Rightarrow> uuid \<times> chunk \<Rightarrow> search_hit result" where
  "mem_hit vector = (\<lambda>(i, c).
     let embedding = chunk_vector c
     in if length vector \<noteq> length embedding then Inl (ValueError ''zip() arguments differ in length'')
        else if sqrt (sum_squares vector * sum_squares embedding) = 0
        then Inl (OtherException ''ZeroDivisionError'')
        else Inr \<lparr>sh_document = i, sh_chunk = c, sh_score = mem_score vector embedding\<rparr>)"

fun mem_hits :: "pyfloat list \<Rightarrow> (uuid \<times> chunk) list \<Rightarrow> search_hit list result" where
  "mem_hits vector [] = Inr []"
| "mem_hits vector (c # cs) =
     (case mem_hit vector c of
        Inl e \<Rightarrow> Inl e
      | Inr h \<Rightarrow> (case mem_hits vector cs of Inl e \<Rightarrow> Inl e | Inr hs \<Rightarrow> Inr (h # hs)))"

definition best_hits :: "int \<Rightarrow> search_hit list \<Rightarrow> search_hit list" where
  "best_hits k hits =
     take (nat k) (sort_key (\<lambda>h. (- sh_score h, sh_document h, ck_ord (sh_chunk h))) hits)"

definition mem_nearest ::
  "nat \<Rightarrow> ustr \<Rightarrow> pyfloat list \<Rightarrow> int \<Rightarrow> query_filter option \<Rightarrow> (memory, search_hit list) proc" where
  \<comment> \<open>\<open>nearest_chunks\<close>\<close>
  "mem_nearest dimension tenant vector k flt =
     thenE (liftE (validate_vector vector dimension))
       (if k < 1 then raiseE (ValueError ''k must be positive'')
        else (\<lambda>m. (case mem_hits vector (mem_candidates tenant flt m) of
                     Inl e \<Rightarrow> Inl e | Inr hits \<Rightarrow> Inr (best_hits k hits), m)))"

definition mem_search ::
  "unicode \<Rightarrow> nat \<Rightarrow> ustr \<Rightarrow> ustr \<Rightarrow> int \<Rightarrow> query_filter option \<Rightarrow> (memory, search_hit list) proc" where
  \<comment> \<open>\<open>search_text\<close>\<close>
  "mem_search un dimension tenant query k flt =
     (if k < 1 then raiseE (ValueError ''k must be positive'')
      else
        bindE (\<lambda>m. mem_nearest dimension tenant (Finite 1 # replicate (dimension - 1) (Finite 0))
             (max k (int (sum_list (map (\<lambda>(key, d). length (sd_chunks d)) (mm_docs m))))) flt m) (\<lambda>hits.
          returnE (best_hits k (filter (\<lambda>h. 0 < sh_score h)
            (map (\<lambda>h. h\<lparr>sh_score := text_score un query (ck_text (sh_chunk h))\<rparr>) hits)))))"

end
