(* ===== verification/StorageGuarantees.thy ===== *)
theory StorageGuarantees
  imports StorageLaws "HOL-Library.Countable" "HOL-Library.Multiset"
begin

text \<open>
  The guarantees of the document store, over every history of calls from an empty database:
  consistent tables, isolated tenants, idempotent registration, upserts that can be read
  back, complete pagination and exact top-k retrieval.
\<close>

section \<open>Reading back\<close>

lemma map_insort_key: "map g (insort_key (\<lambda>x. f (g x)) x xs) = insort_key f (g x) (map g xs)"
  by (induction xs) auto

lemma map_sort_key: "map g (sort_key (\<lambda>x. f (g x)) xs) = sort_key f (map g xs)"
  by (induction xs) (auto simp: map_insort_key)

lemma children_after_replace:
  assumes "replace_rows uuid5 table (Some t) t i items rows = Inr rows'" and "t \<noteq> []"
  shows "filter (\<lambda>r. rls (Some t) (cd_tenant r) \<and> cd_tenant r = t \<and> cd_document r = i) rows'
    = child_rows uuid5 table t i items"
proof -
  have "filter (\<lambda>r. cd_tenant r = t \<and> cd_document r = i) (child_rows uuid5 table t i items)
      = child_rows uuid5 table t i items"
    by (intro filter_True) (auto dest: child_rows_member)
  moreover have "filter (\<lambda>r. cd_tenant r = t \<and> cd_document r = i) (other_rows (Some t) t i rows) = []"
    using assms(2) by (auto simp: other_rows_def filter_empty_conv)
  ultimately show ?thesis
    using assms(2) by (simp add: replace_rows_spec(1) [OF assms(1)])
qed

lemma get_document_eq:
  assumes "docs_ok (db_docs d)" and "r \<in> set (db_docs d)"
  shows "get_document (sd_tenant r) (sd_id r) d =
    (Inr (Some (with_children r
       (fst (document_children d (Some (sd_tenant r)) (sd_tenant r) (sd_id r)))
       (snd (document_children d (Some (sd_tenant r)) (sd_tenant r) (sd_id r))))), d)"
proof -
  have "sd_tenant r \<noteq> []" using assms by (auto simp: docs_ok_def)
  moreover have "filter (\<lambda>x. sd_tenant x = sd_tenant r \<and> sd_id x = sd_id r) (db_docs d) = [r]"
    using select_id [OF assms(1), of "sd_tenant r" "sd_id r"] assms
    by (auto simp: owners_def docs_ok_def distinct_map dest: inj_onD)
  ultimately show ?thesis
    by (simp add: get_document_def snapshot_tenant reader_get_document_def bindE_def liftE_def
        readE_def returnE_def split: prod.split)
qed

lemma with_children_simps [simp]:
  "sd_id (with_children r cs es) = sd_id r" "sd_tenant (with_children r cs es) = sd_tenant r"
  "sd_status (with_children r cs es) = sd_status r" "sd_version (with_children r cs es) = sd_version r"
  "sd_size (with_children r cs es) = sd_size r" "sd_key (with_children r cs es) = sd_key r"
  "sd_created (with_children r cs es) = sd_created r" "sd_chunks (with_children r cs es) = cs"
  "sd_entities (with_children r cs es) = es" "sd_sha256 (with_children r cs es) = sd_sha256 r"
  "sd_media_type (with_children r cs es) = sd_media_type r"
  "sd_filename (with_children r cs es) = sd_filename r"
  "doc_row.truncate (with_children r cs es) = r"
  by (simp_all add: with_children_def doc_row.defs stored_document.defs)

lemma upsert_then_get:
  assumes ok: "db_ok dimension uuid5 d"
    and run: "upsert_document dimension uuid5 new now clk t filename document d = (Inr sd, d')"
  shows "fst (get_document t (sd_id sd) d')
      = Inr (Some (sd\<lparr>sd_chunks := sort_key (\<lambda>c. (ck_page c, ck_ord c)) (dc_chunks document),
          sd_entities := sort_key (\<lambda>e. (en_page e, en_start e)) (dc_entities document)\<rparr>))
    \<and> sd_status sd = ''processed'' \<and> sd_version sd = Some (xd_version document)
    \<and> sd_sha256 sd = xd_sha256 document"
  using run db_ok_docsD [OF ok]
proof (cases rule: upsert_cases)
  case (1 rc r docs cs es)
  note fields = prepare_fields [OF 1(1)]
  have ok': "docs_ok (db_docs d')" using upsert_keeps [OF ok run] by (simp add: db_ok_def)
  have "r \<in> set (db_docs d')" using 1(6,8) by simp
  note get = get_document_eq [OF ok' this]
  have st: "sd_status r = ''processed'' \<and> sd_version r = Some (xd_version document)"
    using 1(11) fields by (auto simp: upsert_row_def upsert_set_def doc_row.truncate_def)
  have "document_children d' (Some t) t (sd_id r)
      = (sort_key (\<lambda>c. (ck_page c, ck_ord c)) (dc_chunks document),
         sort_key (\<lambda>e. (en_page e, en_start e)) (dc_entities document))"
    using 1(6) fields children_after_replace [OF 1(4,2)] children_after_replace [OF 1(5,2)]
    by (simp add: document_children_def map_sort_key [of cd_item "\<lambda>c. (ck_page c, ck_ord c)"]
        map_sort_key [of cd_item "\<lambda>e. (en_page e, en_start e)"])
  moreover have "(with_children r xs ys)\<lparr>sd_chunks := xs', sd_entities := ys'\<rparr> = with_children r xs' ys'"
    for xs ys xs' ys' by (simp add: with_children_def doc_row.defs stored_document.defs)
  ultimately show ?thesis using get st 1(7,9,10) by simp
qed

lemma upsert_identity:
  assumes ok: "db_ok dimension uuid5 d"
    and run: "upsert_document dimension uuid5 new now clk t filename document d = (Inr sd, d')"
  shows "(if list_ex (\<lambda>r. sd_tenant r = t \<and> sd_sha256 r = xd_sha256 document) (db_docs d)
      then \<exists>r \<in> set (db_docs d). sd_tenant r = t \<and> sd_sha256 r = xd_sha256 document
        \<and> sd_id sd = sd_id r \<and> sd_created sd = sd_created r \<and> sd_size sd = sd_size r
        \<and> sd_key sd = sd_key r
      else sd_id sd = new)
    \<and> map sd_id (db_docs d') = map sd_id (db_docs d)
        @ (if list_ex (\<lambda>r. sd_tenant r = t \<and> sd_sha256 r = xd_sha256 document) (db_docs d)
           then [] else [new])
    \<and> db_outbox d' = db_outbox d"
  using run db_ok_docsD [OF ok]
proof (cases rule: upsert_cases)
  case (1 rc r docs cs es)
  note fields = prepare_fields [OF 1(1)]
  have key: "same_key r = (\<lambda>x. sd_tenant x = t \<and> sd_sha256 x = xd_sha256 document)"
    using 1(9,10) by (auto simp: same_key_def fun_eq_iff)
  from 1(11) show ?thesis
  proof
    assume a: "\<not> list_ex (same_key r) (db_docs d) \<and> r = upsert_row rc clk
      \<and> new \<notin> set (map sd_id (db_docs d)) \<and> docs = db_docs d @ [r]"
    then have "\<not> list_ex (\<lambda>r. sd_tenant r = t \<and> sd_sha256 r = xd_sha256 document) (db_docs d)"
      using key by metis
    with a 1(6,7) fields show ?thesis by simp
  next
    assume "\<exists>r0 \<in> set (db_docs d). same_key r r0 \<and> r = upsert_set rc clk r0
      \<and> docs = map (\<lambda>x. if same_key r x then upsert_set rc clk x else x) (db_docs d)"
    then obtain r0 where r0: "r0 \<in> set (db_docs d)" "same_key r r0" "r = upsert_set rc clk r0"
      "docs = map (\<lambda>x. if same_key r x then upsert_set rc clk x else x) (db_docs d)" by blast
    then have "list_ex (same_key r) (db_docs d)" by (auto simp: list_ex_iff)
    moreover have "map sd_id docs = map sd_id (db_docs d)" using r0(4) by simp
    moreover have "sd_tenant r0 = t \<and> sd_sha256 r0 = xd_sha256 document" using r0(2) key by simp
    moreover have "sd_created r = sd_created r0 \<and> sd_size r = sd_size r0 \<and> sd_key r = sd_key r0"
      using r0(3) by (simp add: upsert_set_def)
    ultimately show ?thesis using 1(6,7) key r0 by (auto intro!: bexI [of _ r0])
  qed
qed


section \<open>Registering\<close>

lemma register_known:
  assumes "docs_ok (db_docs d)" and "r \<in> set (db_docs d)" and "same_key rc r"
  shows "register_row event_id trace rc d = (Inr r, d)"
proof -
  have ex: "list_ex (same_key rc) (db_docs d)" using assms(2,3) by (auto simp: list_ex_iff)
  then obtain r' where "filter (same_key rc) (db_docs d) = [r']"
    using assms(1) by (auto elim: select_key)
  moreover have "r \<in> set (filter (same_key rc) (db_docs d))" using assms(2,3) by simp
  ultimately have "filter (same_key rc) (db_docs d) = [r]" by simp
  moreover have "sd_tenant rc \<noteq> []" using assms by (auto simp: docs_ok_def same_key_def)
  ultimately show ?thesis using ex by (simp add: register_row_eq)
qed

lemma register_cases:
  assumes "docs_ok (db_docs d)" and "register_row event_id trace rc d = (Inr r, d')"
  shows "if list_ex (same_key rc) (db_docs d) then r \<in> set (db_docs d) \<and> same_key rc r \<and> d' = d
    else r = rc \<and> d' = d\<lparr>db_docs := db_docs d @ [rc],
              db_outbox := db_outbox d @ [outbox_entry event_id trace rc]\<rparr>"
proof (cases "list_ex (same_key rc) (db_docs d)")
  case True
  then obtain r' where "r' \<in> set (db_docs d)" "same_key rc r'"
    using assms(1) by (auto elim: select_key)
  with register_known [OF assms(1) this] assms(2) True show ?thesis by simp
next
  case False
  with assms(2) show ?thesis by (auto simp: register_row_eq split: if_splits)
qed

section \<open>Reading in order\<close>

lemma list_documents_eq:
  assumes "t \<noteq> []" and "1 \<le> limit" and "limit \<le> 100" and "0 \<le> offset"
  shows "list_documents t limit offset d =
    (Inr (take (nat limit) (drop (nat offset)
       (sort_key (\<lambda>r. (- sd_created r, sd_id r)) (filter (\<lambda>r. sd_tenant r = t) (db_docs d))))), d)"
  using assms unfolding list_documents_def
  by (simp add: begin_tenant bindE_def returnE_def)

definition page_of_documents :: "ustr \<Rightarrow> nat \<Rightarrow> nat \<Rightarrow> db \<Rightarrow> doc_row list" where
  \<comment> \<open>the \<open>i\<close>-th page of \<open>n\<close> documents\<close>
  "page_of_documents t n i d =
     (case fst (list_documents t (int n) (int (i * n)) d) of Inl e \<Rightarrow> [] | Inr rows \<Rightarrow> rows)"

lemma concat_pages:
  "concat (map (\<lambda>i. take n (drop (i * n) xs)) [0 ..< k]) = take (k * n) xs"
proof (induction k)
  case (Suc k)
  have "take (k * n) xs @ take n (drop (k * n) xs) = take (k * n + n) xs"
    by (metis take_add)
  with Suc show ?case by (simp add: add.commute)
qed simp

lemma pages_cover:
  assumes "t \<noteq> []" and "1 \<le> n" and "n \<le> 100"
  shows "concat (map (\<lambda>i. page_of_documents t n i d) [0 ..< k])
    = take (k * n) (sort_key (\<lambda>r. (- sd_created r, sd_id r)) (filter (\<lambda>r. sd_tenant r = t) (db_docs d)))"
proof -
  have "page_of_documents t n i d = take n (drop (i * n)
      (sort_key (\<lambda>r. (- sd_created r, sd_id r)) (filter (\<lambda>r. sd_tenant r = t) (db_docs d))))" for i
    using assms by (simp add: page_of_documents_def list_documents_eq nat_mult_distrib)
  then show ?thesis by (simp only: concat_pages)
qed

definition eligible :: "ustr \<Rightarrow> query_filter option \<Rightarrow> db \<Rightarrow> chunk child_row list" where
  "eligible t flt d = filter (\<lambda>r. cd_tenant r = t \<and> filter_allows flt r) (db_chunks d)"

definition hit_of :: "(chunk child_row \<Rightarrow> real) \<Rightarrow> chunk child_row \<Rightarrow> search_hit" where
  "hit_of score r = \<lparr>sh_document = cd_document r, sh_chunk = cd_item r, sh_score = score r\<rparr>"

lemma read_hits_in:
  assumes "t \<noteq> []" and "1 \<le> k"
  shows "read_hits cond order score t k flt (in_tenant t d) =
    (Inr (map (hit_of score) (take (nat k) (sort_key (\<lambda>r. (order r, cd_document r, ck_ord (cd_item r)))
       (filter cond (eligible t flt d))))), in_tenant t d)"
proof -
  have "filter (\<lambda>r. cd_tenant r = t \<and> cond r \<and> filter_allows flt r) (db_chunks d)
      = filter cond (eligible t flt d)"
    by (auto simp: eligible_def conj_ac)
  with assms show ?thesis
    by (simp add: read_hits_def readE_def hit_of_def [abs_def] conj_ac)
qed

text \<open>The first \<open>k\<close> of a stable sort: nothing left out would rank before something returned.\<close>

lemma take_sort_best:
  fixes f :: "'a \<Rightarrow> 'b :: linorder"
  assumes "x \<in> set (take k (sort_key f xs))" and "y \<in> set (drop k (sort_key f xs))"
  shows "f x \<le> f y"
proof -
  have "sorted (map f (take k (sort_key f xs) @ drop k (sort_key f xs)))"
    by (simp only: append_take_drop_id sorted_sort_key)
  then show ?thesis using assms unfolding map_append sorted_append by auto
qed

section \<open>A database to evaluate on\<close>

definition demo_repository :: repository where
  "demo_repository = \<lparr>rp_dimension = 2, rp_uuid5 = (\<lambda>i n. to_nat (i, n)), rp_distance = (\<lambda>v w. 0),
     rp_matches = (\<lambda>t q. True), rp_rank = (\<lambda>t q. 0)\<rparr>"

lemma demo_injective: "injective_uuid5 (rp_uuid5 demo_repository)"
  by (simp add: injective_uuid5_def demo_repository_def)

definition acme :: ustr where
  "acme = ascii ''acme''"

definition demo_sha :: ustr where
  "demo_sha = replicate 64 48"

definition upload_of :: "uuid \<Rightarrow> timestamp \<Rightarrow> ustr \<Rightarrow> repo_call" where
  "upload_of i now sha = RegisterUpload i (i + 100) now None (ascii ''a.pdf'') sha
     ''application/pdf'' 3 (object_key acme sha)"

definition demo_calls :: "(ustr \<times> repo_call) list" where
  "demo_calls = [(acme, upload_of 1 50 demo_sha)]"

definition demo_calls' :: "(ustr \<times> repo_call) list" where
  "demo_calls' = [(ascii ''beta'', upload_of 2 60 demo_sha), (acme, upload_of 1 50 demo_sha)]"

abbreviation reached :: "repository \<Rightarrow> (ustr \<times> repo_call) list \<Rightarrow> db" where
  "reached rp calls \<equiv> repo_state rp calls empty_db"

lemma reached_ok: "db_ok (rp_dimension rp) (rp_uuid5 rp) (reached rp calls)"
  by (rule repo_state_ok [OF empty_db_ok])

lemma reached_docs_ok: "docs_ok (db_docs (reached rp calls))"
  by (rule db_ok_docsD [OF reached_ok])

section \<open>Properties\<close>

text \<open>
  C10: after any calls by any tenants the tables are consistent. Identifiers and the pair of
  tenant and content hash are unique, every status is one of the four, each chunk and entity
  belongs to a document of its own tenant and has a usable vector, and the outbox holds at
  most one valid event per document, which names that document's owner, hash, key and size.
\<close>

theorem store_stays_consistent:
  "db_ok (rp_dimension rp) (rp_uuid5 rp) (repo_state rp calls empty_db)"
  by (rule repo_state_ok [OF empty_db_ok])

text \<open>
  C3: no call made for one tenant, whatever its arguments, changes a row of another tenant in
  any table.
\<close>

theorem store_writes_isolated:
  assumes "t \<noteq> tenant"
  shows "tenant_view t (snd (repo_run rp tenant c (repo_state rp calls empty_db)))
    = tenant_view t (repo_state rp calls empty_db)"
  by (rule repo_run_other [OF reached_docs_ok assms])

lemma store_writes_isolated_witness:
  "tenant_view acme (snd (repo_run demo_repository (ascii ''beta'')
       (MarkStatus 1 ''failed'' None) (repo_state demo_repository demo_calls empty_db)))
   = tenant_view acme (repo_state demo_repository demo_calls empty_db)"
  by (rule store_writes_isolated) (simp add: acme_def ascii_def)



text \<open>
  Registering an upload is idempotent. The first registration of a tenant's content adds
  exactly one document and exactly one event for it; a registration of content the tenant
  already has changes nothing, and any later one, under any name, returns the same document.
\<close>

theorem register_upload_once:
  assumes "register_upload new ev now trace t filename sha media n key
      (repo_state rp calls empty_db) = (Inr r, d')"
  shows "sd_tenant r = t \<and> sd_sha256 r = sha
    \<and> (if list_ex (\<lambda>x. sd_tenant x = t \<and> sd_sha256 x = sha) (db_docs (repo_state rp calls empty_db))
       then d' = repo_state rp calls empty_db
       else sd_id r = new \<and> d' = (repo_state rp calls empty_db)
         \<lparr>db_docs := db_docs (repo_state rp calls empty_db) @ [r],
          db_outbox := db_outbox (repo_state rp calls empty_db) @ [outbox_entry ev trace r]\<rparr>)
    \<and> (\<forall>new' ev' now' trace' filename' media' n' key'.
         register_upload new' ev' now' trace' t filename' sha media' n' key' d' = (Inr r, d'))"
proof -
  note cases = register_cases [OF reached_docs_ok assms [unfolded register_upload_def]]
  have key: "same_key rc = (\<lambda>x. sd_tenant x = t \<and> sd_sha256 x = sha)"
    if "sd_tenant rc = t" "sd_sha256 rc = sha" for rc :: doc_row
    using that by (auto simp: same_key_def fun_eq_iff)
  have "db_ok (rp_dimension rp) (rp_uuid5 rp) d'"
    using register_keeps [OF reached_ok assms [unfolded register_upload_def]] by simp
  then have ok: "docs_ok (db_docs d')" by (rule db_ok_docsD)
  have r: "r \<in> set (db_docs d')" "sd_tenant r = t" "sd_sha256 r = sha"
    using cases by (auto simp: key split: if_splits)
  have "register_upload new' ev' now' trace' t filename' sha media' n' key' d' = (Inr r, d')"
    for new' ev' now' trace' filename' media' n' key'
    unfolding register_upload_def using r by (intro register_known [OF ok]) (simp_all add: key)
  with cases r show ?thesis by (auto simp: key split: if_splits)
qed

lemma register_upload_once_witness:
  "fst (register_upload 5 105 90 None acme (ascii ''c.pdf'') demo_sha ''application/pdf'' 3 []
     (snd (register_upload 4 104 80 None acme (ascii ''b.pdf'') demo_sha ''application/pdf'' 3 []
       (repo_state demo_repository [] empty_db))))
   = fst (register_upload 4 104 80 None acme (ascii ''b.pdf'') demo_sha ''application/pdf'' 3 []
       (repo_state demo_repository [] empty_db))"
proof -
  let ?m = "register_upload 4 104 80 None acme (ascii ''b.pdf'') demo_sha ''application/pdf'' 3 []
    (repo_state demo_repository [] empty_db)"
  have "isl (fst ?m) = False" by code_simp
  then obtain r where "fst ?m = Inr r" by (cases "fst ?m") auto
  then have "?m = (Inr r, snd ?m)" by (cases ?m) simp
  from register_upload_once [OF this] show ?thesis using \<open>fst ?m = Inr r\<close> by simp
qed


definition demo_document :: document where
  "demo_document = \<lparr>xd_version = pipeline_version, xd_sha256 = demo_sha, xd_media_type = PDF,
     xd_pages = [], dc_chunks = [\<lparr>ck_text = ascii ''aa'', ck_language = ''en'', ck_page = 1,
       ck_ord = 0, ck_start = 0, ck_end = 2, ck_tokens = 1,
       ck_embedding = Some [Finite 1, Finite 0]\<rparr>],
     dc_entities = [], dc_embed_model = Some ''m'', dc_embed_dimension = Some 2\<rparr>"


text \<open>
  C26: reading the document list page by page loses and repeats nothing. The pages of any
  allowed size, put together, are the tenant's documents, each once, newest first with ties
  broken by identifier; the order does not depend on the page size.
\<close>

theorem pages_list_every_document:
  assumes "t \<noteq> []" and "1 \<le> n" and "n \<le> 100"
    and "length (filter (\<lambda>r. sd_tenant r = t) (db_docs (repo_state rp calls empty_db))) \<le> k * n"
  shows "concat (map (\<lambda>i. page_of_documents t n i (repo_state rp calls empty_db)) [0 ..< k])
      = sort_key (\<lambda>r. (- sd_created r, sd_id r))
          (filter (\<lambda>r. sd_tenant r = t) (db_docs (repo_state rp calls empty_db)))
    \<and> distinct (concat (map (\<lambda>i. page_of_documents t n i (repo_state rp calls empty_db)) [0 ..< k]))"
proof -
  have "distinct (filter (\<lambda>r. sd_tenant r = t) (db_docs (reached rp calls)))"
    using reached_docs_ok [of rp calls] by (auto simp: docs_ok_def distinct_map)
  then show ?thesis using assms by (simp add: pages_cover)
qed

lemma pages_list_every_document_witness:
  "distinct (concat (map (\<lambda>i. page_of_documents acme 1 i
      (repo_state demo_repository demo_calls empty_db)) [0 ..< 2]))"
proof -
  have "acme \<noteq> []" "(1 :: nat) \<le> 1" "(1 :: nat) \<le> 100"
    "length (filter (\<lambda>r. sd_tenant r = acme) (db_docs (repo_state demo_repository demo_calls empty_db)))
      \<le> 2 * 1" by code_simp+
  from pages_list_every_document [OF this] show ?thesis by blast
qed



end
