(* ===== verification/MemoryLaws.thy ===== *)
theory MemoryLaws
  imports Memory StorageGuarantees
begin

text \<open>
  The in-memory repository is what the Postgres repository looks like from outside: a
  simulation relates the dict to the four tables, every call keeps it, and the replies agree
  up to what a caller cannot rely on, the clock of \<open>processed_at\<close> and the order in which a
  document's chunks come back.
\<close>

section \<open>The simulation\<close>

definition forget :: "('a) doc_row_scheme \<Rightarrow> ('a) doc_row_scheme" where
  \<comment> \<open>the reading of the clock is left out, that there was one is kept\<close>
  "forget r = r\<lparr>sd_processed := map_option (\<lambda>_. 0) (sd_processed r)\<rparr>"

definition own_items :: "'a child_row list \<Rightarrow> doc_row \<Rightarrow> 'a list" where
  "own_items rows r = map cd_item (filter (\<lambda>c. cd_tenant c = sd_tenant r \<and> cd_document c = sd_id r) rows)"

definition doc_key :: "doc_row \<Rightarrow> ustr \<times> uuid" where
  "doc_key r = (sd_tenant r, sd_id r)"

definition pictured :: "db \<Rightarrow> (ustr \<times> uuid) \<times> stored_document \<Rightarrow> doc_row \<Rightarrow> bool" where
  "pictured d = (\<lambda>(key, s) r. key = doc_key r \<and> forget (doc_row.truncate s) = forget r
     \<and> sd_chunks s = own_items (db_chunks d) r \<and> sd_entities s = own_items (db_entities d) r)"

definition simulates :: "db \<Rightarrow> memory \<Rightarrow> bool" where
  "simulates d m \<longleftrightarrow> list_all2 (pictured d) (mm_docs m) (db_docs d)
     \<and> mm_events m = map (\<lambda>q. (ob_payload q)\<lparr>ev_traceparent := None\<rparr>) (db_outbox d)"

definition in_order :: "stored_document \<Rightarrow> stored_document" where
  "in_order s = s\<lparr>sd_chunks := sort_key (\<lambda>c. (ck_page c, ck_ord c)) (sd_chunks s),
     sd_entities := sort_key (\<lambda>e. (en_page e, en_start e)) (sd_entities s)\<rparr>"

fun seen :: "repo_reply \<Rightarrow> repo_reply" where
  "seen (Rows rs) = Rows (map forget rs)"
| "seen (Row r) = Row (map_option forget r)"
| "seen (Stored s) = Stored (map_option (\<lambda>s. forget (in_order s)) s)"
| "seen Done = Done"
| "seen (Hits hs) = Hits hs"

lemma simulates_empty: "simulates empty_db new_memory"
  by (simp add: simulates_def empty_db_def new_memory_def)

lemma clock_eq: "map_option (\<lambda>_. c) a = map_option (\<lambda>_. c) b \<longleftrightarrow> (a = None) = (b = None)"
  by (cases a; cases b) auto

lemma forget_iff:
  fixes s :: "('a) doc_row_scheme" and r :: doc_row
  shows "forget (doc_row.truncate s) = forget r \<longleftrightarrow>
    sd_id s = sd_id r \<and> sd_tenant s = sd_tenant r \<and> sd_filename s = sd_filename r
    \<and> sd_sha256 s = sd_sha256 r \<and> sd_media_type s = sd_media_type r \<and> sd_page_count s = sd_page_count r
    \<and> sd_language s = sd_language r \<and> sd_status s = sd_status r \<and> sd_version s = sd_version r
    \<and> sd_embed_model s = sd_embed_model r \<and> sd_size s = sd_size r \<and> sd_key s = sd_key r
    \<and> sd_error s = sd_error r \<and> sd_created s = sd_created r
    \<and> (sd_processed s = None) = (sd_processed r = None)"
  by (cases r) (simp add: forget_def doc_row.truncate_def clock_eq)

lemma forget_keeps:
  assumes "forget (doc_row.truncate s) = forget r"
  shows "sd_id s = sd_id r" "sd_tenant s = sd_tenant r" "sd_sha256 s = sd_sha256 r"
    "sd_created s = sd_created r" "sd_size s = sd_size r" "sd_key s = sd_key r"
  using assms by (simp_all only: forget_iff)

lemma pictured_iff:
  "pictured d (k, s) r \<longleftrightarrow> k = doc_key r \<and> forget (doc_row.truncate s) = forget r
     \<and> sd_chunks s = own_items (db_chunks d) r \<and> sd_entities s = own_items (db_entities d) r"
  by (simp add: pictured_def)

section \<open>Lookups\<close>

lemma find_related:
  assumes "list_all2 R xs ys" and "\<And>x y. R x y \<Longrightarrow> P x = Q y"
  shows "rel_option R (find P xs) (find Q ys)"
  using assms(1) by (induction rule: list_all2_induct) (auto simp: assms(2))

lemma filter_related:
  assumes "list_all2 R xs ys" and "\<And>x y. R x y \<Longrightarrow> P x = Q y"
  shows "list_all2 R (filter P xs) (filter Q ys)"
  using assms(1) by (induction rule: list_all2_induct) (auto simp: assms(2))

lemma keys_related: "list_all2 (pictured d) al rows \<Longrightarrow> map fst al = map doc_key rows"
  by (induction rule: list_all2_induct) (auto simp: pictured_def)

lemma distinct_keys:
  assumes "docs_ok rows"
  shows "distinct (map doc_key rows)"
proof -
  have "distinct (map snd (map doc_key rows))"
    using assms by (simp add: docs_ok_def doc_key_def comp_def)
  then show ?thesis unfolding distinct_map [of snd] by blast
qed

lemma map_of_find:
  assumes "list_all2 R al rows" and "\<And>x y. R x y \<Longrightarrow> fst x = g y"
  shows "rel_option (\<lambda>s r. R (k, s) r) (map_of al k) (find (\<lambda>r. g r = k) rows)"
  using assms(1) by (induction rule: list_all2_induct) (use assms(2) in fastforce)+

lemma map_of_related:
  assumes "list_all2 (pictured d) al rows"
  shows "rel_option (\<lambda>s r. pictured d (k, s) r) (map_of al k) (find (\<lambda>r. doc_key r = k) rows)"
  using assms by (rule map_of_find) (auto simp: pictured_iff)

lemma find_filter: "filter P xs = [] \<Longrightarrow> find P xs = None" "filter P xs = x # zs \<Longrightarrow> find P xs = Some x"
  by (induction xs) (auto split: if_splits)

lemma update_present:
  assumes "distinct (map fst al)" and "k \<in> fst ` set al"
  shows "AList.update k v al = map (\<lambda>(k', x). (k', if k' = k then v else x)) al"
  using assms
proof (induction al)
  case (Cons p al)
  have "map (\<lambda>(k', x). (k', if k' = k then v else x)) al = al" if "k \<notin> fst ` set al"
    using that by (intro map_idI) (auto simp: image_iff)
  with Cons show ?case by (cases p) auto
qed simp

lemma update_absent: "k \<notin> fst ` set al \<Longrightarrow> AList.update k v al = al @ [(k, v)]"
  by (induction al) auto

lemma owned_pictured:
  assumes "pictured d x r"
  shows "owned t sha x = (sd_tenant r = t \<and> sd_sha256 r = sha)"
proof (cases x)
  case (Pair k s)
  with assms have "forget (doc_row.truncate s) = forget r" by (simp add: pictured_iff)
  from forget_keeps(2,3) [OF this] Pair show ?thesis by (simp add: owned_def)
qed

lemma find_sha_related:
  assumes "list_all2 (pictured d) (mm_docs m) (db_docs d)"
  shows "rel_option (\<lambda>s r. pictured d (doc_key r, s) r) (mem_find t sha m)
    (find (\<lambda>r. sd_tenant r = t \<and> sd_sha256 r = sha) (db_docs d))"
proof -
  have "rel_option (pictured d) (find (owned t sha) (mm_docs m))
      (find (\<lambda>r. sd_tenant r = t \<and> sd_sha256 r = sha) (db_docs d))"
    using assms owned_pictured by (rule find_related)
  moreover have "pictured d (doc_key r, snd x) r" if "pictured d x r" for x r
    using that by (cases x) (simp add: pictured_iff)
  ultimately show ?thesis
    unfolding mem_find_def option.rel_map by (rule option.rel_mono_strong)
qed

section \<open>Replacing the derived rows\<close>

definition written ::
  "(uuid \<Rightarrow> ustr \<Rightarrow> uuid) \<Rightarrow> ustr \<Rightarrow> uuid \<Rightarrow> chunk list \<Rightarrow> entity list \<Rightarrow> db \<Rightarrow> db" where
  "written uuid5 t i cs es d = d\<lparr>
     db_chunks := other_rows (Some t) t i (db_chunks d) @ child_rows uuid5 ''chunks'' t i cs,
     db_entities := other_rows (Some t) t i (db_entities d) @ child_rows uuid5 ''entities'' t i es\<rparr>"

lemma child_name_inj [simp]: "child_name table i = child_name table j \<longleftrightarrow> i = j"
  by (simp add: child_name_def)

lemma child_rows_Nil [simp]: "child_rows uuid5 table t i [] = []"
  by (simp add: child_rows_def enumerate_from_def)

lemma child_ids_distinct:
  assumes "injective_uuid5 uuid5"
  shows "distinct (map cd_id (child_rows uuid5 table t i items))"
proof -
  have "map cd_id (child_rows uuid5 table t i items)
      = map (\<lambda>n. uuid5 i (child_name table n)) (map fst (enumerate_from 0 items))"
    by (simp add: child_rows_def case_prod_unfold)
  moreover have "inj (\<lambda>n. uuid5 i (child_name table n))"
    using assms unfolding inj_def injective_uuid5_def by (metis child_name_inj)
  ultimately show ?thesis
    by (auto simp: enumerate_from_def distinct_map intro: inj_on_subset)
qed

lemma replace_rows_succeed:
  assumes "injective_uuid5 uuid5" and "t \<noteq> []"
    and own: "\<And>r. r \<in> set rows \<Longrightarrow> (\<exists>n. cd_id r = uuid5 (cd_document r) (child_name table n))
      \<and> (cd_document r = i \<longrightarrow> cd_tenant r = t)"
  shows "replace_rows uuid5 table (Some t) t i items rows
    = Inr (other_rows (Some t) t i rows @ child_rows uuid5 table t i items)"
proof -
  have "cd_id r \<noteq> cd_id r'"
    if "r \<in> set (child_rows uuid5 table t i items)" "r' \<in> set (other_rows (Some t) t i rows)" for r r'
  proof -
    have "r' \<in> set rows" "cd_document r' \<noteq> i"
      using that(2) own assms(2) by (auto simp: other_rows_def)
    with child_rows_member [OF that(1)] own [of r'] assms(1) show ?thesis
      unfolding injective_uuid5_def by metis
  qed
  then have "set (map cd_id (child_rows uuid5 table t i items))
      \<inter> set (map cd_id (other_rows (Some t) t i rows)) = {}" by auto
  then show ?thesis
    using child_ids_distinct [OF assms(1), of table t i items] assms(2)
    unfolding replace_rows_def Let_def other_rows_def [symmetric] by (simp del: set_map)
qed

lemma replace_in:
  assumes ok: "db_ok dimension uuid5 d" and inj: "injective_uuid5 uuid5" and t: "t \<noteq> []"
    and owner: "\<And>r. r \<in> set (db_docs d) \<Longrightarrow> sd_id r = i \<Longrightarrow> sd_tenant r = t"
  shows "replace dimension' uuid5 t i cs es (in_tenant t (d\<lparr>db_docs := docs\<rparr>)) =
    (case validate_chunks cs dimension' of
       Inl e \<Rightarrow> (Inl e, in_tenant t (d\<lparr>db_docs := docs\<rparr>))
     | Inr _ \<Rightarrow> (Inr (), in_tenant t (written uuid5 t i cs es (d\<lparr>db_docs := docs\<rparr>))))"
proof -
  have own: "(\<exists>n. cd_id r = uuid5 (cd_document r) (child_name table n)) \<and> (cd_document r = i \<longrightarrow> cd_tenant r = t)"
    if "children_ok uuid5 table (db_docs d) rows" "r \<in> set rows" for table r and rows :: "'x child_row list"
    using that owner unfolding children_ok_def owners_def by force
  have "children_ok uuid5 ''chunks'' (db_docs d) (db_chunks d)"
    "children_ok uuid5 ''entities'' (db_docs d) (db_entities d)"
    using ok by (simp_all add: db_ok_def)
  note rows = own [OF this(1)] own [OF this(2)]
  have "replace_rows uuid5 ''chunks'' (Some t) t i cs (db_chunks d)
      = Inr (other_rows (Some t) t i (db_chunks d) @ child_rows uuid5 ''chunks'' t i cs)"
    by (rule replace_rows_succeed [OF inj t]) (use rows in blast)
  moreover have "replace_rows uuid5 ''entities'' (Some t) t i es (db_entities d)
      = Inr (other_rows (Some t) t i (db_entities d) @ child_rows uuid5 ''entities'' t i es)"
    by (rule replace_rows_succeed [OF inj t]) (use rows in blast)
  ultimately show ?thesis by (simp add: replace_eq written_def split: sum.split)
qed

lemma own_items_written:
  assumes "t \<noteq> []"
  shows "own_items (other_rows (Some t) t i rows @ child_rows uuid5 table t i items) r
    = (if doc_key r = (t, i) then items else own_items rows r)"
proof (cases "doc_key r = (t, i)")
  case True
  have "filter (\<lambda>c. cd_tenant c = t \<and> cd_document c = i) (other_rows (Some t) t i rows) = []"
    using assms by (auto simp: other_rows_def filter_empty_conv)
  moreover have "filter (\<lambda>c. cd_tenant c = t \<and> cd_document c = i) (child_rows uuid5 table t i items)
      = child_rows uuid5 table t i items"
    by (intro filter_True) (auto dest: child_rows_member)
  ultimately show ?thesis using True by (simp add: own_items_def doc_key_def)
next
  case False
  have "filter (\<lambda>c. cd_tenant c = sd_tenant r \<and> cd_document c = sd_id r) (other_rows (Some t) t i rows)
      = filter (\<lambda>c. cd_tenant c = sd_tenant r \<and> cd_document c = sd_id r) rows"
    using assms False by (auto simp: other_rows_def doc_key_def intro!: filter_cong)
  moreover have "filter (\<lambda>c. cd_tenant c = sd_tenant r \<and> cd_document c = sd_id r)
      (child_rows uuid5 table t i items) = []"
    using False by (auto simp: filter_empty_conv doc_key_def dest: child_rows_member)
  ultimately show ?thesis using False by (simp add: own_items_def)
qed

lemma pictured_written:
  assumes "t \<noteq> []"
  shows "pictured (written uuid5 t i cs es d) (k, s) r \<longleftrightarrow>
    k = doc_key r \<and> forget (doc_row.truncate s) = forget r
    \<and> sd_chunks s = (if k = (t, i) then cs else own_items (db_chunks d) r)
    \<and> sd_entities s = (if k = (t, i) then es else own_items (db_entities d) r)"
  unfolding pictured_iff written_def by (auto simp: own_items_written [OF assms])

lemma owner_unique:
  assumes "docs_ok rows" and "r \<in> set rows" and "r' \<in> set rows" and "sd_id r = sd_id r'"
  shows "r = r'"
  using assms by (auto simp: docs_ok_def distinct_map dest: inj_onD)


section \<open>The in-memory repository as the same interface\<close>

definition answerE :: "('a \<Rightarrow> repo_reply) \<Rightarrow> (memory, 'a) proc \<Rightarrow> (memory, repo_reply) proc" where
  "answerE f m = bindE m (\<lambda>a. returnE (f a))"

lemma answerE_eq: "answerE f m s = (map_sum id f (fst (m s)), snd (m s))"
  by (auto simp: answerE_def bindE_def returnE_def split: prod.split sum.split)

fun memory_run :: "unicode \<Rightarrow> nat \<Rightarrow> ustr \<Rightarrow> repo_call \<Rightarrow> (memory, repo_reply) proc" where
  "memory_run un dimension t (ListDocuments limit offset) =
     answerE (\<lambda>ds. Rows (map doc_row.truncate ds)) (mem_list t limit offset)"
| "memory_run un dimension t (FindBySha256 sha) =
     answerE (\<lambda>s. Row (map_option doc_row.truncate s)) (readE (mem_find t sha))"
| "memory_run un dimension t (RegisterUpload new event_id now trace filename sha media n key) =
     answerE (\<lambda>s. Row (Some (doc_row.truncate s))) (mem_register new event_id now t filename sha media n key)"
| "memory_run un dimension t (MarkStatus doc status error) =
     answerE (\<lambda>_. Done) (mem_mark t doc status error)"
| "memory_run un dimension t (UpsertDocument new now clk filename document) =
     answerE (\<lambda>s. Stored (Some s)) (mem_upsert dimension new now t filename document)"
| "memory_run un dimension t (ReplaceChildren doc chunks ents) =
     answerE (\<lambda>_. Done) (mem_replace dimension t doc chunks ents)"
| "memory_run un dimension t (GetDocument doc) = answerE Stored (readE (mem_get t doc))"
| "memory_run un dimension t (NearestChunks vector k flt) = answerE Hits (mem_nearest dimension t vector k flt)"
| "memory_run un dimension t (SearchText query k flt) = answerE Hits (mem_search un dimension t query k flt)"

definition matching :: "(db, repo_reply) proc \<Rightarrow> (memory, repo_reply) proc \<Rightarrow> db \<Rightarrow> memory \<Rightarrow> bool" where
  "matching p q d m \<longleftrightarrow> map_sum id seen (fst (p d)) = map_sum id seen (fst (q m))
     \<and> simulates (snd (p d)) (snd (q m))"

lemma sim_docs: "simulates d m \<Longrightarrow> list_all2 (pictured d) (mm_docs m) (db_docs d)"
  by (simp add: simulates_def)

lemma find_doc:
  assumes "docs_ok rows" and "r \<in> set rows" and "doc_key r = k"
  shows "find (\<lambda>r. doc_key r = k) rows = Some r"
proof -
  obtain r' where r': "find (\<lambda>r. doc_key r = k) rows = Some r'"
    using assms(2,3) by (cases "find (\<lambda>r. doc_key r = k) rows") (auto simp: find_None_iff)
  then have "r' \<in> set rows" "doc_key r' = k" by (auto simp: find_Some_iff)
  moreover have "sd_id r = sd_id r'" using \<open>doc_key r' = k\<close> assms(3) unfolding doc_key_def by blast
  ultimately have "r = r'" using owner_unique [OF assms(1,2)] by blast
  with r' show ?thesis by simp
qed

lemma match_register:
  assumes ok: "db_ok dimension uuid5 d" and sim: "simulates d m" and t: "t \<noteq> []"
    and new: "new \<notin> sd_id ` set (db_docs d)" "event_id \<notin> ob_id ` set (db_outbox d)"
  shows "matching (replyE (\<lambda>r. Row (Some r)) (register_upload new event_id now trace t filename sha media n key))
    (answerE (\<lambda>s. Row (Some (doc_row.truncate s))) (mem_register new event_id now t filename sha media n key)) d m"
proof -
  note dok = db_ok_docsD [OF ok]
  define rc where "rc = \<lparr>sd_id = new, sd_tenant = t, sd_filename = filename, sd_sha256 = sha,
    sd_media_type = media, sd_page_count = None, sd_language = None, sd_status = ''uploaded'',
    sd_version = None, sd_embed_model = None, sd_size = Some n, sd_key = Some key, sd_error = None,
    sd_created = now, sd_processed = None\<rparr>"
  have rc: "sd_id rc = new" "sd_tenant rc = t" "sd_sha256 rc = sha" "sd_status rc = ''uploaded''"
    by (simp_all add: rc_def)
  have key: "(\<lambda>r. sd_tenant r = t \<and> sd_sha256 r = sha) = same_key rc"
    by (auto simp: same_key_def rc fun_eq_iff)
  have reg: "register_upload new event_id now trace t filename sha media n key = register_row event_id trace rc"
    by (simp add: register_upload_def rc_def)
  note found = find_sha_related [OF sim_docs [OF sim], of t sha, unfolded key]
  show ?thesis
  proof (cases "mem_find t sha m")
    case (Some s)
    with found obtain r where "find (same_key rc) (db_docs d) = Some r" and p: "pictured d (doc_key r, s) r"
      by (auto simp: option_rel_Some1)
    then have "r \<in> set (db_docs d)" "same_key rc r" by (auto simp: find_Some_iff)
    from register_known [OF dok this] p Some sim show ?thesis
      by (simp add: matching_def reg replyE_fst answerE_eq mem_register_def pictured_iff)
  next
    case None
    with found have none: "\<not> list_ex (same_key rc) (db_docs d)"
      by (auto simp: option_rel_Some2 find_None_iff list_ex_iff)
    let ?e = "uploaded_event event_id trace rc" and ?e' = "uploaded_event event_id None rc"
    have ev: "valid_event ?e = valid_event ?e'" "?e' = ?e\<lparr>ev_traceparent := None\<rparr>"
      by (simp_all add: valid_event_def uploaded_event_def)
    have run: "register_row event_id trace rc d = (if \<not> valid_event ?e then (Inl ValidationError, d)
        else (Inr rc, d\<lparr>db_docs := db_docs d @ [rc], db_outbox := db_outbox d @ [outbox_entry event_id trace rc]\<rparr>))"
      using none new t by (simp add: register_row_eq rc document_status_def)
    have mem: "mem_register new event_id now t filename sha media n key m =
        (if \<not> valid_event ?e' then (Inl ValidationError, m)
         else (Inr (with_children rc [] []), m\<lparr>mm_docs := AList.update (t, new) (with_children rc [] []) (mm_docs m),
           mm_events := mm_events m @ [?e']\<rparr>))"
      using None by (simp add: mem_register_def rc_def Let_def)
    show ?thesis
    proof (cases "valid_event ?e")
      case False
      with ev run mem sim show ?thesis
        by (simp add: matching_def reg replyE_fst answerE_eq)
    next
      case True
      have free: "(t, new) \<notin> fst ` set (mm_docs m)"
      proof -
        have "fst ` set (mm_docs m) = doc_key ` set (db_docs d)"
          using keys_related [OF sim_docs [OF sim]] by (metis list.set_map)
        with new(1) show ?thesis by (auto simp: doc_key_def)
      qed
      have orphan: "own_items (db_chunks d) rc = []" "own_items (db_entities d) rc = []"
      proof -
        have "own_items rows rc = []"
          if "children_ok uuid5 table (db_docs d) rows" for table and rows :: "'x child_row list"
          using that new(1) by (force simp: own_items_def filter_empty_conv children_ok_def owners_def rc)
        with ok show "own_items (db_chunks d) rc = []" "own_items (db_entities d) rc = []"
          by (auto simp: db_ok_def)
      qed
      let ?d = "d\<lparr>db_docs := db_docs d @ [rc], db_outbox := db_outbox d @ [outbox_entry event_id trace rc]\<rparr>"
      have "pictured ?d = pictured d" by (simp add: pictured_def fun_eq_iff)
      moreover have "pictured d ((t, new), with_children rc [] []) rc"
        using orphan by (simp add: pictured_iff doc_key_def rc)
      ultimately have "simulates ?d (m\<lparr>mm_docs := AList.update (t, new) (with_children rc [] []) (mm_docs m),
           mm_events := mm_events m @ [?e']\<rparr>)"
        using sim ev(2) by (simp add: simulates_def update_absent [OF free] list_all2_appendI outbox_entry_def)
      with True ev(1) run mem show ?thesis
        by (simp add: matching_def reg replyE_fst answerE_eq)
    qed
  qed
qed

lemma update_as_map:
  assumes "distinct (map fst al)" and "map_of al k = Some s"
  shows "AList.update k (g s) al = map (\<lambda>(k', x). (k', if k' = k then g x else x)) al"
  using assms
proof (induction al)
  case (Cons p al)
  have "map (\<lambda>(k', x). (k', if k' = k then g x else x)) al = al" if "k \<notin> fst ` set al"
    using that by (intro map_idI) (auto simp: image_iff)
  with Cons show ?case by (cases p) (auto split: if_splits)
qed simp

lemma related_update:
  assumes rel: "list_all2 (pictured d) al rows" and ok: "docs_ok rows" and s: "map_of al k = Some s"
    and hit: "\<And>x r. r \<in> set rows \<Longrightarrow> pictured d (k, x) r \<Longrightarrow> pictured d' (k, g x) (f r)"
    and other: "\<And>k' x r. k' \<noteq> k \<Longrightarrow> pictured d (k', x) r \<Longrightarrow> pictured d' (k', x) r"
    and key: "\<And>r. p r \<longleftrightarrow> doc_key r = k"
  shows "list_all2 (pictured d') (AList.update k (g s) al) (map (\<lambda>r. if p r then f r else r) rows)"
proof -
  have keys: "distinct (map fst al)" using keys_related [OF rel] distinct_keys [OF ok] by simp
  have step: "pictured d' (case x of (k', x) \<Rightarrow> (k', if k' = k then g x else x)) (if p r then f r else r)"
    if r: "r \<in> set rows" and x: "pictured d x r" for x r
  proof (cases x)
    case (Pair k' y)
    moreover from x Pair have "k' = doc_key r" by (simp add: pictured_iff)
    ultimately show ?thesis using x key hit [OF r, of y] other [of k' y r] by auto
  qed
  show ?thesis
    unfolding update_as_map [OF keys s] list_all2_map1 list_all2_map2
    by (rule list.rel_mono_strong [OF rel]) (rule step)
qed

lemma related_append:
  assumes rel: "list_all2 (pictured d) al rows" and k: "k \<notin> doc_key ` set rows"
    and hit: "pictured d' (k, v) r"
    and other: "\<And>k' x r. k' \<noteq> k \<Longrightarrow> pictured d (k', x) r \<Longrightarrow> pictured d' (k', x) r"
  shows "list_all2 (pictured d') (AList.update k v al) (rows @ [r])"
proof -
  have keys: "fst ` set al = doc_key ` set rows" using keys_related [OF rel] by (metis list.set_map)
  with k have "AList.update k v al = al @ [(k, v)]" by (intro update_absent) simp
  moreover have "list_all2 (pictured d') al rows"
  proof (rule list.rel_mono_strong [OF rel])
    fix x r'
    assume "x \<in> set al" and "pictured d x r'"
    moreover from \<open>x \<in> set al\<close> keys k have "fst x \<noteq> k" by (metis imageI)
    ultimately show "pictured d' x r'" using other [of "fst x" "snd x" r'] by simp
  qed
  ultimately show ?thesis using hit by (simp add: list_all2_appendI)
qed

lemma match_mark:
  assumes ok: "docs_ok (db_docs d)" and sim: "simulates d m"
  shows "matching (replyE (\<lambda>_. Done) (mark_status t doc status error))
    (answerE (\<lambda>_. Done) (mem_mark t doc status error)) d m"
proof (cases "document_status status")
  case False
  with sim ok show ?thesis
    by (simp add: matching_def replyE_fst answerE_eq mark_status_eq mem_mark_def)
next
  case True
  note found = map_of_related [OF sim_docs [OF sim], of "(t, doc)"]
  have owner: "(doc, t) \<in> owners (db_docs d) \<longleftrightarrow> find (\<lambda>r. doc_key r = (t, doc)) (db_docs d) \<noteq> None"
    by (auto simp: owners_def find_None_iff doc_key_def image_iff)
  show ?thesis
  proof (cases "map_of (mm_docs m) (t, doc)")
    case None
    with found owner True sim ok show ?thesis
      by (simp add: matching_def replyE_fst answerE_eq mark_status_eq mem_mark_def)
  next
    case (Some s)
    define e where "e = (if status = ''failed'' then error else None)"
    define docs where "docs = map (\<lambda>r. if sd_tenant r = t \<and> sd_id r = doc
      then r\<lparr>sd_status := status, sd_error := e\<rparr> else r) (db_docs d)"
    have pic: "pictured (d\<lparr>db_docs := docs\<rparr>) = pictured d" by (simp add: pictured_def fun_eq_iff)
    have "list_all2 (pictured (d\<lparr>db_docs := docs\<rparr>))
      (AList.update (t, doc) (s\<lparr>sd_status := status, sd_error := e\<rparr>) (mm_docs m)) docs"
      unfolding docs_def pic
      by (rule related_update [OF sim_docs [OF sim] ok Some, where g = "\<lambda>s. s\<lparr>sd_status := status, sd_error := e\<rparr>"])
        (auto simp: pictured_iff doc_key_def forget_iff own_items_def)
    then have "simulates (d\<lparr>db_docs := docs\<rparr>)
      (m\<lparr>mm_docs := AList.update (t, doc) (s\<lparr>sd_status := status, sd_error := e\<rparr>) (mm_docs m)\<rparr>)"
      using sim by (simp add: simulates_def)
    moreover have "mark_status t doc status error d = (Inr (), d\<lparr>db_docs := docs\<rparr>)"
      using True found owner Some by (auto simp: mark_status_eq [OF ok] docs_def e_def option_rel_Some1)
    moreover have "mem_mark t doc status error m
        = (Inr (), m\<lparr>mm_docs := AList.update (t, doc) (s\<lparr>sd_status := status, sd_error := e\<rparr>) (mm_docs m)\<rparr>)"
      using True Some by (simp add: mem_mark_def e_def)
    ultimately show ?thesis by (simp add: matching_def replyE_fst answerE_eq)
  qed
qed

text \<open>The upsert of a document, as one equation.\<close>

lemma upsert_eq:
  assumes ok: "db_ok dimension uuid5 d" and inj: "injective_uuid5 uuid5" and t: "t \<noteq> []"
    and new: "new \<notin> sd_id ` set (db_docs d)"
    and rc: "prepare_document new now t filename document = Inr rc"
    and old: "find (\<lambda>r. sd_tenant r = t \<and> sd_sha256 r = xd_sha256 document) (db_docs d) = old"
    and r: "r = (case old of None \<Rightarrow> upsert_row rc clk | Some r0 \<Rightarrow> upsert_set rc clk r0)"
    and docs: "docs = (case old of None \<Rightarrow> db_docs d @ [r]
        | Some r0 \<Rightarrow> map (\<lambda>x. if doc_key x = doc_key r0 then upsert_set rc clk x else x) (db_docs d))"
  shows "upsert_document dimension uuid5 new now clk t filename document d =
    (case validate_chunks (sd_chunks rc) dimension of Inl e \<Rightarrow> (Inl e, d)
     | Inr _ \<Rightarrow> (Inr (with_children r (sd_chunks rc) (sd_entities rc)),
         written uuid5 t (sd_id r) (sd_chunks rc) (sd_entities rc) (d\<lparr>db_docs := docs\<rparr>)))"
proof -
  note dok = db_ok_docsD [OF ok] and fields = prepare_fields [OF rc]
  let ?row = "upsert_row rc clk"
  have key: "same_key ?row = (\<lambda>r. sd_tenant r = t \<and> sd_sha256 r = xd_sha256 document)"
    by (auto simp: same_key_def fields fun_eq_iff)
  have st: "document_status (sd_status ?row)" "sd_tenant ?row = t"
    by (simp_all add: fields document_status_def)
  have "insert_or_update ?row (upsert_set rc clk) (in_tenant t d) = (Inr [r], in_tenant t (d\<lparr>db_docs := docs\<rparr>))
    \<and> (\<forall>x \<in> set (db_docs d). sd_id x = sd_id r \<longrightarrow> sd_tenant x = t)"
  proof (cases old)
    case None
    with old key have "\<not> list_ex (same_key ?row) (db_docs d)" by (auto simp: find_None_iff list_ex_iff)
    with new t None show ?thesis
      by (auto simp: insert_or_update_in [OF dok st(2,1)] r docs fields image_iff)
  next
    case (Some r0)
    with old have r0: "r0 \<in> set (db_docs d)" "same_key ?row r0" by (auto simp: find_Some_iff key)
    then have ex: "list_ex (same_key ?row) (db_docs d)" by (auto simp: list_ex_iff)
    then obtain r1 where r1: "filter (same_key ?row) (db_docs d) = [r1]" using dok by (auto elim: select_key)
    moreover have "r0 \<in> set (filter (same_key ?row) (db_docs d))" using r0 by simp
    ultimately have one: "filter (same_key ?row) (db_docs d) = [r0]" by simp
    have "same_key ?row x \<longleftrightarrow> doc_key x = doc_key r0" if x: "x \<in> set (db_docs d)" for x
    proof
      assume "same_key ?row x"
      with x have "x \<in> set (filter (same_key ?row) (db_docs d))" by simp
      with one show "doc_key x = doc_key r0" by simp
    next
      assume "doc_key x = doc_key r0"
      then have "x = r0" using owner_unique [OF dok x r0(1)] by (simp add: doc_key_def)
      with r0(2) show "same_key ?row x" by simp
    qed
    then have "map (\<lambda>x. if same_key ?row x then upsert_set rc clk x else x) (db_docs d) = docs"
      by (simp add: docs Some)
    moreover have "sd_tenant x = t" if "x \<in> set (db_docs d)" "sd_id x = sd_id r" for x
      using that owner_unique [OF dok that(1) r0(1)] r0(2) by (auto simp: r Some key)
    ultimately show ?thesis using ex one t by (simp add: insert_or_update_in [OF dok st(2,1)] r Some)
  qed
  then have ins: "insert_or_update ?row (upsert_set rc clk) (in_tenant t d) = (Inr [r], in_tenant t (d\<lparr>db_docs := docs\<rparr>))"
    and own: "\<And>x. x \<in> set (db_docs d) \<Longrightarrow> sd_id x = sd_id r \<Longrightarrow> sd_tenant x = t" by blast+
  note rep = replace_in [OF ok inj t own, where docs = docs]
  show ?thesis
    unfolding upsert_document_def by (simp add: bindE_def [of "liftE _"] liftE_def rc begin_tenant)
      (simp add: bindE_def ins thenE_def rep returnE_def split: sum.split)
qed


lemma same_stored:
  assumes "forget (doc_row.truncate v) = forget r"
    and "sort_key (\<lambda>c. (ck_page c, ck_ord c)) (sd_chunks v) = sort_key (\<lambda>c. (ck_page c, ck_ord c)) cs"
    and "sort_key (\<lambda>e. (en_page e, en_start e)) (sd_entities v) = sort_key (\<lambda>e. (en_page e, en_start e)) es"
  shows "forget (in_order v) = forget (in_order (with_children r cs es))"
proof (rule stored_document.equality)
qed (use assms(1) [unfolded forget_iff] assms(2,3) in \<open>simp_all add: forget_def in_order_def with_children_def doc_row.defs stored_document.defs clock_eq\<close>)

lemma mem_upsert_eq:
  assumes "prepare_document new now t filename document = Inr rc"
  shows "mem_upsert dimension new now t filename document m =
    (case validate_chunks (sd_chunks rc) dimension of Inl e \<Rightarrow> (Inl e, m)
     | Inr _ \<Rightarrow> (let record = mem_replaced (mem_find t (xd_sha256 document) m) rc
         in (Inr record, m\<lparr>mm_docs := AList.update (t, sd_id record) record (mm_docs m)\<rparr>)))"
  using assms by (simp add: mem_upsert_def bindE_def liftE_def thenE_def split: sum.split)

lemma replaced_pictured:
  assumes rc: "prepare_document new now t filename document = Inr rc"
  shows "forget (doc_row.truncate (mem_replaced None rc)) = forget (upsert_row rc clk)"
    "sd_chunks (mem_replaced old rc) = sd_chunks rc" "sd_entities (mem_replaced old rc) = sd_entities rc"
    "sd_id (mem_replaced None rc) = new"
  using assms
  by (auto simp: mem_replaced_def forget_def upsert_row_def prepare_document_def doc_row.truncate_def
      Let_def split: if_splits sum.splits option.split)

lemma replaced_known:
  assumes rc: "prepare_document new now t filename document = Inr rc"
    and s: "forget (doc_row.truncate s) = forget r0" and key: "sd_tenant r0 = t" "sd_sha256 r0 = xd_sha256 document"
  shows "forget (doc_row.truncate (mem_replaced (Some s) rc)) = forget (upsert_set rc clk r0)"
    "sd_id (mem_replaced (Some s) rc) = sd_id r0"
  using forget_keeps [OF s] prepare_fields [OF rc] key
  by (simp_all add: mem_replaced_def forget_iff upsert_set_def Let_def)

lemma match_upsert:
  assumes ok: "db_ok dimension uuid5 d" and sim: "simulates d m" and t: "t \<noteq> []"
    and inj: "injective_uuid5 uuid5" and new: "new \<notin> sd_id ` set (db_docs d)"
  shows "matching (replyE (\<lambda>r. Stored (Some r)) (upsert_document dimension uuid5 new now clk t filename document))
    (answerE (\<lambda>s. Stored (Some s)) (mem_upsert dimension new now t filename document)) d m"
proof (cases "prepare_document new now t filename document")
  case (Inl e)
  then show ?thesis using sim
    by (simp add: matching_def replyE_fst answerE_eq upsert_document_def mem_upsert_def bindE_def liftE_def)
next
  case (Inr rc)
  note dok = db_ok_docsD [OF ok] and rel = sim_docs [OF sim] and fields = prepare_fields [OF Inr]
  define old where "old = find (\<lambda>r. sd_tenant r = t \<and> sd_sha256 r = xd_sha256 document) (db_docs d)"
  define r where "r = (case old of None \<Rightarrow> upsert_row rc clk | Some r0 \<Rightarrow> upsert_set rc clk r0)"
  define docs where "docs = (case old of None \<Rightarrow> db_docs d @ [r]
    | Some r0 \<Rightarrow> map (\<lambda>x. if doc_key x = doc_key r0 then upsert_set rc clk x else x) (db_docs d))"
  define v where "v = mem_replaced (mem_find t (xd_sha256 document) m) rc"
  define d' where "d' = written uuid5 t (sd_id r) (sd_chunks rc) (sd_entities rc) (d\<lparr>db_docs := docs\<rparr>)"
  note run = upsert_eq [OF ok inj t new Inr old_def [symmetric] r_def docs_def]
  note mem = mem_upsert_eq [OF Inr, of dimension m, folded v_def]
  note found = find_sha_related [OF rel, of t "xd_sha256 document", folded old_def]
  have pic: "pictured d' (k, x) y \<longleftrightarrow> k = doc_key y \<and> forget (doc_row.truncate x) = forget y
      \<and> sd_chunks x = (if k = (t, sd_id r) then sd_chunks rc else own_items (db_chunks d) y)
      \<and> sd_entities x = (if k = (t, sd_id r) then sd_entities rc else own_items (db_entities d) y)" for k x y
    by (simp add: d'_def pictured_written [OF t])
  have "forget (doc_row.truncate v) = forget r \<and> sd_id v = sd_id r
    \<and> list_all2 (pictured d') (AList.update (t, sd_id r) v (mm_docs m)) docs"
  proof (cases old)
    case None
    with found have v: "v = mem_replaced None rc" by (simp add: v_def)
    have new_key: "doc_key r = (t, sd_id r)" "sd_id r = new"
      by (simp_all add: r_def None doc_key_def fields)
    have "list_all2 (pictured d') (AList.update (t, sd_id r) v (mm_docs m)) (db_docs d @ [r])"
    proof (rule related_append [OF rel])
      show "(t, sd_id r) \<notin> doc_key ` set (db_docs d)" using new new_key by (auto simp: doc_key_def)
      show "pictured d' ((t, sd_id r), v) r"
        using replaced_pictured [OF Inr] new_key by (simp add: pic v r_def None)
    qed (simp add: pic pictured_iff [of d])
    then show ?thesis using replaced_pictured [OF Inr] new_key by (simp add: docs_def None v r_def)
  next
    case (Some r0)
    with found obtain s where s: "mem_find t (xd_sha256 document) m = Some s" "pictured d (doc_key r0, s) r0"
      by (auto simp: option_rel_Some2)
    have r0: "r0 \<in> set (db_docs d)" "sd_tenant r0 = t" "sd_sha256 r0 = xd_sha256 document"
      using Some by (auto simp: old_def find_Some_iff)
    have k: "doc_key r0 = (t, sd_id r)" using r0 by (simp add: doc_key_def r_def Some)
    obtain s' where s': "map_of (mm_docs m) (t, sd_id r) = Some s'"
      using map_of_related [OF rel, of "(t, sd_id r)"] find_doc [OF dok r0(1) k] by (auto simp: option_rel_Some2)
    have v: "v = mem_replaced (Some s) rc" by (simp add: v_def s)
    note known = replaced_known [OF Inr _ r0(2,3), of s]
    have "list_all2 (pictured d') (AList.update (t, sd_id r) v (mm_docs m)) docs"
      unfolding docs_def Some option.case
    proof (rule related_update [OF rel dok s', where g = "\<lambda>_. v"])
      show "pictured d' ((t, sd_id r), v) (upsert_set rc clk y)"
        if y: "y \<in> set (db_docs d)" "pictured d ((t, sd_id r), x) y" for x y
      proof -
        have "doc_key y = doc_key r0" using y(2) k by (simp add: pictured_iff)
        then have "sd_id y = sd_id r0" unfolding doc_key_def by blast
        then have "y = r0" by (rule owner_unique [OF dok y(1) r0(1)])
        with known(1) s(2) k replaced_pictured(2,3) [OF Inr] show ?thesis
          by (simp add: pic pictured_iff [of d] v doc_key_def)
      qed
    qed (simp_all add: pic pictured_iff [of d] k)
    with known s(2) show ?thesis by (simp add: v r_def Some pictured_iff)
  qed
  then have "forget (doc_row.truncate v) = forget r" "sd_id v = sd_id r"
    "simulates d' (m\<lparr>mm_docs := AList.update (t, sd_id v) v (mm_docs m)\<rparr>)"
    using sim by (simp_all add: simulates_def d'_def written_def)
  moreover have "forget (in_order v) = forget (in_order (with_children r (sd_chunks rc) (sd_entities rc)))"
    using calculation(1) replaced_pictured(2,3) [OF Inr] by (intro same_stored) (simp_all add: v_def)
  ultimately show ?thesis using sim
    by (simp add: matching_def replyE_fst answerE_eq run mem Let_def d'_def split: sum.split)
qed


lemma owner_found:
  assumes "docs_ok (db_docs d)" and "simulates d m"
  shows "(doc, t) \<in> owners (db_docs d) \<longleftrightarrow> map_of (mm_docs m) (t, doc) \<noteq> None"
proof -
  have "(doc, t) \<in> owners (db_docs d) \<longleftrightarrow> (t, doc) \<in> set (map doc_key (db_docs d))"
    by (auto simp: owners_def doc_key_def)
  also have "\<dots> \<longleftrightarrow> map_of (mm_docs m) (t, doc) \<noteq> None"
    unfolding keys_related [OF sim_docs [OF assms(2)], symmetric] by (simp add: map_of_eq_None_iff)
  finally show ?thesis .
qed

lemma doc_found:
  assumes "docs_ok (db_docs d)" and "simulates d m" and "map_of (mm_docs m) (t, doc) = Some s"
  obtains r where "r \<in> set (db_docs d)" "doc_key r = (t, doc)" "pictured d ((t, doc), s) r"
proof -
  obtain r where r: "find (\<lambda>r. doc_key r = (t, doc)) (db_docs d) = Some r" "pictured d ((t, doc), s) r"
    using map_of_related [OF sim_docs [OF assms(2)], of "(t, doc)"] assms(3)
    by (auto simp: option_rel_Some1)
  then have "r \<in> set (db_docs d)" "doc_key r = (t, doc)" by (auto simp: find_Some_iff)
  with r(2) show thesis by (rule that [rotated 2])
qed

lemma match_replace:
  assumes ok: "db_ok dimension uuid5 d" and sim: "simulates d m" and t: "t \<noteq> []"
    and inj: "injective_uuid5 uuid5"
  shows "matching (replyE (\<lambda>_. Done) (replace_chunks_and_entities dimension uuid5 t doc cs es))
    (answerE (\<lambda>_. Done) (mem_replace dimension t doc cs es)) d m"
proof (cases "map_of (mm_docs m) (t, doc)")
  case None
  with owner_found [OF db_ok_docsD [OF ok] sim, of doc t] sim show ?thesis
    by (simp add: matching_def replyE_fst answerE_eq replace_children_eq [OF db_ok_docsD [OF ok]]
        mem_replace_def mem_get_def)
next
  case (Some s)
  note dok = db_ok_docsD [OF ok] and rel = sim_docs [OF sim]
  obtain r where r: "r \<in> set (db_docs d)" "doc_key r = (t, doc)"
    using doc_found [OF dok sim Some] by blast
  have own: "sd_tenant x = t" if x: "x \<in> set (db_docs d)" "sd_id x = doc" for x
    using owner_unique [OF dok x(1) r(1)] x(2) r(2) by (simp add: doc_key_def)
  let ?s = "s\<lparr>sd_chunks := cs, sd_entities := es\<rparr>" and ?d = "written uuid5 t doc cs es d"
  have pg: "replace_chunks_and_entities dimension uuid5 t doc cs es d =
      (case validate_chunks cs dimension of Inl e \<Rightarrow> (Inl e, d) | Inr _ \<Rightarrow> (Inr (), ?d))"
    using replace_in [OF ok inj t own, where docs = "db_docs d"] owner_found [OF dok sim, of doc t] Some
    by (simp add: replace_children_eq [OF dok] split: sum.split)
  have mem: "mem_replace dimension t doc cs es m = (case validate_chunks cs dimension of Inl e \<Rightarrow> (Inl e, m)
      | Inr _ \<Rightarrow> (Inr (), m\<lparr>mm_docs := AList.update (t, doc) ?s (mm_docs m)\<rparr>))"
    using Some by (simp add: mem_replace_def mem_get_def thenE_def bindE_def liftE_def writeE_def split: sum.split)
  have "list_all2 (pictured ?d) (AList.update (t, doc) ?s (mm_docs m))
      (map (\<lambda>r. if doc_key r = (t, doc) then r else r) (db_docs d))"
    by (rule related_update [OF rel dok Some, where g = "\<lambda>s. s\<lparr>sd_chunks := cs, sd_entities := es\<rparr>"])
      (simp_all add: pictured_written [OF t] pictured_iff [of d] forget_def doc_row.truncate_def)
  then have "simulates ?d (m\<lparr>mm_docs := AList.update (t, doc) ?s (mm_docs m)\<rparr>)"
    using sim by (simp add: simulates_def written_def)
  with sim show ?thesis
    by (simp add: matching_def replyE_fst answerE_eq pg mem split: sum.split)
qed

lemma sort_key_again [simp]: "sort_key f (sort_key f xs) = sort_key f xs"
proof -
  have "sort_key f ys = ys" if "sorted (map f ys)" for ys
    using that by (induction ys) (auto simp: insort_is_Cons)
  then show ?thesis by simp
qed

lemma match_get:
  assumes ok: "docs_ok (db_docs d)" and sim: "simulates d m"
  shows "matching (replyE Stored (get_document t doc)) (answerE Stored (readE (mem_get t doc))) d m"
proof (cases "map_of (mm_docs m) (t, doc)")
  case None
  with owner_found [OF ok sim, of doc t]
  have "filter (\<lambda>r. t \<noteq> [] \<and> sd_tenant r = t \<and> sd_tenant r = t \<and> sd_id r = doc) (db_docs d) = []"
    by (auto simp: owners_def filter_empty_conv)
  then have "get_document t doc d = (Inr None, d)"
    by (simp add: get_document_def snapshot_tenant reader_get_document_def bindE_def liftE_def returnE_def)
  with None sim show ?thesis by (simp add: matching_def replyE_fst answerE_eq readE_def mem_get_def)
next
  case (Some s)
  obtain r where r: "r \<in> set (db_docs d)" "doc_key r = (t, doc)" "pictured d ((t, doc), s) r"
    using doc_found [OF ok sim Some] by blast
  have t: "t \<noteq> []" "sd_tenant r = t" "sd_id r = doc" using ok r(1,2) by (auto simp: docs_ok_def doc_key_def)
  have kids: "document_children d (Some t) t doc
      = (sort_key (\<lambda>c. (ck_page c, ck_ord c)) (sd_chunks s), sort_key (\<lambda>e. (en_page e, en_start e)) (sd_entities s))"
    using r(3) t by (simp add: document_children_def pictured_iff own_items_def
        map_sort_key [of cd_item "\<lambda>c. (ck_page c, ck_ord c)"]
        map_sort_key [of cd_item "\<lambda>e. (en_page e, en_start e)"])
  have "forget (in_order s) = forget (in_order (with_children r
      (fst (document_children d (Some t) t doc)) (snd (document_children d (Some t) t doc))))"
    using r(3) by (intro same_stored) (simp_all add: kids pictured_iff)
  with get_document_eq [OF ok r(1)] t Some sim show ?thesis
    by (simp add: matching_def replyE_fst answerE_eq readE_def mem_get_def)
qed

lemma one_row:
  assumes "docs_ok rows" and "find (\<lambda>r. sd_tenant r = t \<and> sd_sha256 r = sha) rows = found"
  shows "filter (\<lambda>r. sd_tenant r = t \<and> sd_sha256 r = sha) rows = (case found of None \<Rightarrow> [] | Some r \<Rightarrow> [r])"
proof (cases found)
  case None
  with assms(2) show ?thesis by (auto simp: find_None_iff filter_empty_conv)
next
  case (Some r)
  with assms(2) have r: "r \<in> set rows" "sd_tenant r = t" "sd_sha256 r = sha" by (auto simp: find_Some_iff)
  then have "filter (\<lambda>y. (sd_tenant y, sd_sha256 y) = (sd_tenant r, sd_sha256 r)) rows = [r]"
    using assms(1) by (intro filter_unique) (simp_all add: docs_ok_def)
  with r Some show ?thesis by simp
qed

lemma match_find:
  assumes ok: "docs_ok (db_docs d)" and sim: "simulates d m" and t: "t \<noteq> []"
  shows "matching (replyE Row (find_by_sha256 t sha))
    (answerE (\<lambda>s. Row (map_option doc_row.truncate s)) (readE (mem_find t sha))) d m"
proof -
  define found where "found = find (\<lambda>r. sd_tenant r = t \<and> sd_sha256 r = sha) (db_docs d)"
  have "find_by_sha256 t sha d = (Inr found, d)"
    using one_row [OF ok found_def [symmetric]] t
    by (simp add: find_by_sha256_def begin_tenant bindE_def liftE_def conj_ac split: option.split)
  moreover have "map_option (forget \<circ> doc_row.truncate) (mem_find t sha m) = map_option forget found"
    using find_sha_related [OF sim_docs [OF sim], of t sha, folded found_def]
    by (cases "mem_find t sha m"; cases found) (auto simp: pictured_iff)
  ultimately show ?thesis using sim
    by (simp add: matching_def replyE_fst answerE_eq readE_def option.map_comp)
qed

lemma match_list:
  assumes sim: "simulates d m" and t: "t \<noteq> []"
  shows "matching (replyE Rows (list_documents t limit offset))
    (answerE (\<lambda>ds. Rows (map doc_row.truncate ds)) (mem_list t limit offset)) d m"
proof (cases "1 \<le> limit \<and> limit \<le> 100 \<and> 0 \<le> offset")
  case False
  with sim show ?thesis
    by (auto simp: matching_def replyE_fst answerE_eq list_documents_def mem_list_def raiseE_def)
next
  case True
  let ?key = "\<lambda>r :: doc_row. (- sd_created r, sd_id r)"
  let ?mine = "map snd (filter (\<lambda>((u, i), s). u = t) (mm_docs m))"
  have "map (\<lambda>s. forget (doc_row.truncate s)) ?mine = map forget (filter (\<lambda>r. sd_tenant r = t) (db_docs d))"
    using sim_docs [OF sim] by (induction rule: list_all2_induct) (auto simp: pictured_iff doc_key_def)
  moreover have "map (\<lambda>s. forget (doc_row.truncate s)) (sort_key (\<lambda>s. (- sd_created s, sd_id s)) xs)
      = sort_key ?key (map (\<lambda>s. forget (doc_row.truncate s)) xs)" for xs :: "stored_document list"
    using map_sort_key [of "\<lambda>s. forget (doc_row.truncate s)" ?key xs]
    by (simp add: forget_def doc_row.truncate_def)
  moreover have "map forget (sort_key ?key xs) = sort_key ?key (map forget xs)" for xs
    using map_sort_key [of forget ?key xs] by (simp add: forget_def)
  ultimately show ?thesis using True sim t
    by (simp add: matching_def replyE_fst answerE_eq list_documents_eq mem_list_def readE_def
        take_map [symmetric] drop_map [symmetric] comp_def)
qed


section \<open>Nearest neighbours\<close>

text \<open>A stable sort sees only, for each key, the elements with that key in their order.\<close>

lemma sort_key_groups:
  fixes f :: "'a \<Rightarrow> 'b :: linorder"
  assumes same: "\<And>i. filter (\<lambda>x. g x = i) xs = filter (\<lambda>x. g x = i) ys"
    and key: "\<And>x y. f x = f y \<Longrightarrow> g x = g y"
  shows "sort_key f xs = sort_key f ys"
proof (rule properties_for_sort_key)
  have eq: "filter p xs = filter p ys" if "\<And>x. p x \<Longrightarrow> g x = i" for p i
  proof -
    have "filter p zs = filter p (filter (\<lambda>x. g x = i) zs)" for zs using that by (induction zs) auto
    with same [of i] show ?thesis by metis
  qed
  show "mset (sort_key f ys) = mset xs"
  proof (rule multiset_eqI)
    fix x
    have "filter (\<lambda>y. x = y) xs = filter (\<lambda>y. x = y) ys" by (rule eq [of _ "g x"]) simp
    then have "count (mset xs) x = count (mset ys) x" by (simp add: count_mset count_list_eq_length_filter)
    then show "count (mset (sort_key f ys)) x = count (mset xs) x" by simp
  qed
  show "filter (\<lambda>x. f k = f x) (sort_key f ys) = filter (\<lambda>x. f k = f x) xs" if "k \<in> set (sort_key f ys)" for k
  proof -
    have "filter (\<lambda>x. f k = f x) (sort_key f ys) = filter (\<lambda>x. f k = f x) ys"
      using sort_key_stable [of f "f k" ys] by (simp add: eq_commute [of "f k"])
    moreover have "filter (\<lambda>x. f k = f x) xs = filter (\<lambda>x. f k = f x) ys"
      by (rule eq [of _ "g k"]) (use key in metis)
    ultimately show ?thesis by simp
  qed
qed simp

lemma sort_key_order:
  assumes "\<And>x y. f x \<le> f y \<longleftrightarrow> g x \<le> g y"
  shows "sort_key f xs = sort_key g xs"
proof -
  have "insort_key f x ys = insort_key g x ys" for x ys
    by (induction ys) (auto simp: assms)
  then show ?thesis by (induction xs) simp_all
qed

lemma candidates_of:
  assumes "distinct (map fst al)"
  shows "filter (\<lambda>x. fst x = i) (concat (map (\<lambda>((u, j), s). if u = t then map (Pair j) (G j s) else []) al))
    = (case map_of al (t, i) of None \<Rightarrow> [] | Some s \<Rightarrow> map (Pair i) (G i s))"
  using assms
proof (induction al)
  case (Cons p al)
  obtain u j s where p: "p = ((u, j), s)" by (metis surj_pair)
  have "filter (\<lambda>x. fst x = i) (map (Pair j) (G j s)) = (if j = i then map (Pair i) (G i s) else [])"
    by (auto simp: filter_empty_conv intro!: filter_True)
  moreover have "map_of al (t, i) = None" if "u = t" "j = i"
    using that Cons.prems p by (simp add: map_of_eq_None_iff)
  ultimately show ?case using Cons by (auto simp: p)
qed simp

lemma sum_squares_pos:
  assumes "validate_vector v dimension = Inr ()"
  shows "0 < sum_squares v"
proof -
  obtain x where x: "x \<in> set v" "isfinite x" "truthy x"
    using assms by (auto simp: validate_vector_def list_all_iff list_ex_iff split: if_splits)
  from x(2,3) have "fin_val x \<noteq> 0"
    by (auto simp: truthy_def fin_val_def isfinite_def split: pyfloat.splits)
  then have "sum_squares v \<noteq> 0"
    using x(1) unfolding sum_squares_def by (subst sum_list_nonneg_eq_0_iff) auto
  moreover have "0 \<le> sum_squares v" by (auto simp: sum_squares_def intro!: sum_list_nonneg)
  ultimately show ?thesis by simp
qed

definition scored :: "pyfloat list \<Rightarrow> uuid \<times> chunk \<Rightarrow> search_hit" where
  "scored vector = (\<lambda>(i, c). \<lparr>sh_document = i, sh_chunk = c, sh_score = mem_score vector (chunk_vector c)\<rparr>)"

lemma mem_hits_ok:
  assumes "validate_vector vector dimension = Inr ()"
    and "\<And>x. x \<in> set xs \<Longrightarrow> validate_vector (chunk_vector (snd x)) dimension = Inr ()"
  shows "mem_hits vector xs = Inr (map (scored vector) xs)"
  using assms(2)
proof (induction xs)
  case (Cons x xs)
  obtain i c where x: "x = (i, c)" by (cases x)
  then have c: "validate_vector (chunk_vector c) dimension = Inr ()" using Cons.prems [of x] by simp
  have "length vector = length (chunk_vector c)"
    using assms(1) c by (auto simp: validate_vector_def split: if_splits)
  with sum_squares_pos [OF assms(1)] sum_squares_pos [OF c] have "mem_hit vector x = Inr (scored vector x)"
    by (simp add: x mem_hit_def scored_def Let_def)
  with Cons show ?case by simp
qed simp

lemma match_nearest:
  assumes ok: "db_ok dimension uuid5 d" and sim: "simulates d m" and t: "t \<noteq> []"
  shows "matching (replyE Hits (nearest_chunks dimension (\<lambda>c q. 1 - mem_score q c) t vector k flt))
    (answerE Hits (mem_nearest dimension t vector k flt)) d m"
proof (cases "validate_vector vector dimension = Inr () \<and> 1 \<le> k")
  case False
  then show ?thesis using sim
    by (cases "validate_vector vector dimension")
      (auto simp: matching_def replyE_fst answerE_eq nearest_chunks_def snapshot_tenant reader_nearest_chunks_def
        read_hits_def mem_nearest_def thenE_def bindE_def liftE_def raiseE_def)
next
  case True
  note dok = db_ok_docsD [OF ok] and rel = sim_docs [OF sim]
  let ?E = "eligible t flt d" and ?C = "mem_candidates t flt m"
  let ?pair = "\<lambda>r. (cd_document r, cd_item r)"
  have keys: "distinct (map fst (mm_docs m))" using keys_related [OF rel] distinct_keys [OF dok] by simp
  have groups: "filter (\<lambda>x. fst x = i) (map ?pair ?E) = filter (\<lambda>x. fst x = i) ?C" for i
  proof -
    have C: "filter (\<lambda>x. fst x = i) ?C = (case map_of (mm_docs m) (t, i) of None \<Rightarrow> []
        | Some s \<Rightarrow> map (Pair i) (filter (passes flt i) (sd_chunks s)))"
      unfolding mem_candidates_def by (rule candidates_of [OF keys])
    have E: "filter (\<lambda>x. fst x = i) (map ?pair ?E)
        = map ?pair (filter (\<lambda>r. filter_allows flt r) (filter (\<lambda>r. cd_tenant r = t \<and> cd_document r = i) (db_chunks d)))"
      by (simp add: filter_map comp_def eligible_def conj_ac)
    show ?thesis
    proof (cases "map_of (mm_docs m) (t, i)")
      case None
      then have "(i, t) \<notin> owners (db_docs d)" using owner_found [OF dok sim, of i t] by simp
      then have "filter (\<lambda>r. cd_tenant r = t \<and> cd_document r = i) (db_chunks d) = []"
        using ok by (auto simp: filter_empty_conv db_ok_def children_ok_def)
      then show ?thesis by (simp add: E C None)
    next
      case (Some s)
      then obtain r where "doc_key r = (t, i)" "pictured d ((t, i), s) r" using doc_found [OF dok sim] by blast
      then have s: "sd_chunks s = map cd_item (filter (\<lambda>r. cd_tenant r = t \<and> cd_document r = i) (db_chunks d))"
        by (auto simp: pictured_iff own_items_def doc_key_def)
      have kept: "map ?pair (filter (\<lambda>r. filter_allows flt r) rows)
          = map (Pair i) (filter (passes flt i) (map cd_item rows))"
        if "\<And>r. r \<in> set rows \<Longrightarrow> cd_document r = i" for rows
        using that by (induction rows) (auto simp: filter_allows_def passes_def)
      show ?thesis unfolding E C Some s option.case by (rule kept) simp
    qed
  qed
  have valid: "validate_vector (chunk_vector (snd x)) dimension = Inr ()" if "x \<in> set ?C" for x
  proof -
    have "x \<in> set (filter (\<lambda>y. fst y = fst x) ?C)" using that by simp
    then have "x \<in> set (map ?pair ?E)" unfolding groups [symmetric] by simp
    then show ?thesis using ok by (auto simp: eligible_def db_ok_def)
  qed
  let ?near = "\<lambda>r. (1 - mem_score vector (chunk_vector (cd_item r)), cd_document r, ck_ord (cd_item r))"
    and ?best = "\<lambda>h. (- sh_score h, sh_document h, ck_ord (sh_chunk h))"
    and ?dist = "\<lambda>h. (1 - sh_score h, sh_document h, ck_ord (sh_chunk h))"
  have "map (\<lambda>r. scored vector (?pair r)) (sort_key ?near ?E) = sort_key ?dist (map (\<lambda>r. scored vector (?pair r)) ?E)"
    using map_sort_key [of "\<lambda>r. scored vector (?pair r)" ?dist ?E] by (simp add: scored_def)
  also have "\<dots> = sort_key ?best (map (\<lambda>r. scored vector (?pair r)) ?E)"
    by (rule sort_key_order) (auto simp: less_eq_prod_def)
  also have "\<dots> = sort_key ?best (map (scored vector) ?C)"
  proof (rule sort_key_groups [where g = sh_document])
    fix i
    have "filter (\<lambda>h. sh_document h = i) (map (scored vector) xs) = map (scored vector) (filter (\<lambda>x. fst x = i) xs)" for xs
      by (induction xs) (auto simp: scored_def)
    from this [of "map ?pair ?E"] this [of ?C] groups [of i]
    show "filter (\<lambda>h. sh_document h = i) (map (\<lambda>r. scored vector (?pair r)) ?E)
        = filter (\<lambda>h. sh_document h = i) (map (scored vector) ?C)" by (simp add: comp_def)
  qed simp
  finally have order: "map (\<lambda>r. scored vector (?pair r)) (sort_key ?near ?E) = sort_key ?best (map (scored vector) ?C)" .
  have hit: "hit_of (\<lambda>r. mem_score vector (chunk_vector (cd_item r))) = (\<lambda>r. scored vector (?pair r))"
    by (simp add: fun_eq_iff hit_of_def scored_def)
  have "fst (nearest_chunks dimension (\<lambda>c q. 1 - mem_score q c) t vector k flt d)
      = Inr (map (\<lambda>r. scored vector (?pair r)) (take (nat k) (sort_key ?near ?E)))"
    using True t by (simp add: nearest_chunks_def snapshot_tenant reader_nearest_chunks_def
        thenE_def bindE_def liftE_def read_hits_in hit)
  moreover have "mem_nearest dimension t vector k flt m = (Inr (best_hits k (map (scored vector) ?C)), m)"
    using True mem_hits_ok [OF _ valid, of vector] by (simp add: mem_nearest_def thenE_def bindE_def liftE_def)
  ultimately show ?thesis using sim order
    by (simp add: matching_def replyE_fst answerE_eq nearest_chunks_def best_hits_def take_map [symmetric])
qed


section \<open>Histories\<close>

fun drawn :: "repo_call \<Rightarrow> uuid list" where
  \<comment> \<open>the document identifiers \<open>uuid4()\<close> gives a call\<close>
  "drawn (RegisterUpload new event_id now trace filename sha media n key) = [new]"
| "drawn (UpsertDocument new now clk filename document) = [new]"
| "drawn c = []"

fun drawn_events :: "repo_call \<Rightarrow> uuid list" where
  "drawn_events (RegisterUpload new event_id now trace filename sha media n key) = [event_id]"
| "drawn_events c = []"

fun full_text :: "repo_call \<Rightarrow> bool" where
  "full_text (SearchText query k flt) = True"
| "full_text c = False"

definition comparable :: "(ustr \<times> repo_call) list \<Rightarrow> bool" where
  \<comment> \<open>named tenants, fresh identifiers, and no full-text search, whose grammar the fake leaves out\<close>
  "comparable calls \<longleftrightarrow> list_all (\<lambda>(t, c). t \<noteq> [] \<and> \<not> full_text c) calls
     \<and> distinct (concat (map (\<lambda>(t, c). drawn c) calls))
     \<and> distinct (concat (map (\<lambda>(t, c). drawn_events c) calls))"

fun conversation :: "(ustr \<Rightarrow> 'c \<Rightarrow> ('s, 'r) proc) \<Rightarrow> (ustr \<times> 'c) list \<Rightarrow> 's \<Rightarrow> 'r result list \<times> 's" where
  \<comment> \<open>the replies and errors of the calls, in order, and the final state\<close>
  "conversation run [] s = ([], s)"
| "conversation run ((t, c) # calls) s =
     (let (r, s1) = run t c s; (rs, s2) = conversation run calls s1 in (r # rs, s2))"

lemma match_call:
  assumes ok: "db_ok (rp_dimension rp) (rp_uuid5 rp) d" and sim: "simulates d m" and t: "t \<noteq> []"
    and inj: "injective_uuid5 (rp_uuid5 rp)" and dist: "rp_distance rp = (\<lambda>c q. 1 - mem_score q c)"
    and new: "set (drawn c) \<inter> sd_id ` set (db_docs d) = {}"
      "set (drawn_events c) \<inter> ob_id ` set (db_outbox d) = {}"
    and c: "\<not> full_text c"
  shows "matching (repo_run rp t c) (memory_run un (rp_dimension rp) t c) d m"
  using new c
  by (cases c) (simp_all add: dist match_list [OF sim t] match_find [OF db_ok_docsD [OF ok] sim t]
      match_register [OF ok sim t] match_mark [OF db_ok_docsD [OF ok] sim] match_upsert [OF ok sim t inj]
      match_replace [OF ok sim t inj] match_get [OF db_ok_docsD [OF ok] sim] match_nearest [OF ok sim t])

lemma drawn_ids:
  assumes ok: "db_ok (rp_dimension rp) (rp_uuid5 rp) d"
  shows "sd_id ` set (db_docs (snd (repo_run rp t c d))) \<subseteq> sd_id ` set (db_docs d) \<union> set (drawn c)
    \<and> ob_id ` set (db_outbox (snd (repo_run rp t c d))) \<subseteq> ob_id ` set (db_outbox d) \<union> set (drawn_events c)"
proof (cases c)
  case (RegisterUpload new event_id now trace filename sha media n key)
  then show ?thesis by (auto simp: register_upload_def register_row_eq outbox_entry_def)
next
  case (MarkStatus doc status error)
  then show ?thesis by (auto simp: mark_status_eq [OF db_ok_docsD [OF ok]])
next
  case (UpsertDocument new now clk filename document)
  obtain x d' where run: "upsert_document (rp_dimension rp) (rp_uuid5 rp) new now clk t filename document d = (x, d')"
    by fastforce
  show ?thesis
  proof (cases x)
    case (Inl e)
    with run UpsertDocument show ?thesis by (auto dest: upsert_error)
  next
    case (Inr sd)
    note id = upsert_identity [OF ok run [unfolded Inr]]
    have "set (map sd_id (db_docs d')) \<subseteq> set (map sd_id (db_docs d)) \<union> {new}"
      unfolding id [THEN conjunct2, THEN conjunct1] by auto
    then have "sd_id ` set (db_docs d') \<subseteq> sd_id ` set (db_docs d) \<union> {new}" unfolding set_map .
    with id run UpsertDocument show ?thesis by (simp add: insert_commute del: image_subset_iff)
  qed
next
  case (ReplaceChildren doc cs es)
  then show ?thesis
    by (auto simp: replace_children_eq [OF db_ok_docsD [OF ok]] replace_eq split: sum.splits)
qed (simp_all add: get_document_def nearest_chunks_def search_text_def)

lemma conversation_matches:
  assumes "injective_uuid5 (rp_uuid5 rp)" and "rp_distance rp = (\<lambda>c q. 1 - mem_score q c)"
    and "comparable calls" and "db_ok (rp_dimension rp) (rp_uuid5 rp) d" and "simulates d m"
    and "set (concat (map (\<lambda>(t, c). drawn c) calls)) \<inter> sd_id ` set (db_docs d) = {}"
    and "set (concat (map (\<lambda>(t, c). drawn_events c) calls)) \<inter> ob_id ` set (db_outbox d) = {}"
  shows "map (map_sum id seen) (fst (conversation (repo_run rp) calls d))
      = map (map_sum id seen) (fst (conversation (memory_run un (rp_dimension rp)) calls m))
    \<and> simulates (snd (conversation (repo_run rp) calls d))
        (snd (conversation (memory_run un (rp_dimension rp)) calls m))"
  using assms(3-)
proof (induction calls arbitrary: d m)
  case (Cons tc calls)
  obtain t c where tc: "tc = (t, c)" by (cases tc)
  obtain r d1 where pg: "repo_run rp t c d = (r, d1)" by fastforce
  obtain r' m1 where mem: "memory_run un (rp_dimension rp) t c m = (r', m1)" by fastforce
  have now: "t \<noteq> []" "\<not> full_text c" "set (drawn c) \<inter> sd_id ` set (db_docs d) = {}"
    "set (drawn_events c) \<inter> ob_id ` set (db_outbox d) = {}"
    using Cons.prems by (auto simp: tc comparable_def)
  have "matching (repo_run rp t c) (memory_run un (rp_dimension rp) t c) d m"
    using match_call [OF Cons.prems(2,3) now(1) assms(1,2) now(3,4,2)] .
  then have step: "map_sum id seen r = map_sum id seen r'" "simulates d1 m1"
    by (simp_all add: matching_def pg mem)
  have later: "comparable calls" "db_ok (rp_dimension rp) (rp_uuid5 rp) d1"
    "set (concat (map (\<lambda>(t, c). drawn c) calls)) \<inter> sd_id ` set (db_docs d1) = {}"
    "set (concat (map (\<lambda>(t, c). drawn_events c) calls)) \<inter> ob_id ` set (db_outbox d1) = {}"
  proof -
    show "comparable calls" using Cons.prems(1) by (auto simp: tc comparable_def)
    show "db_ok (rp_dimension rp) (rp_uuid5 rp) d1" using repo_run_keeps [OF Cons.prems(2), of t c] by (simp add: pg)
    note ids = drawn_ids [OF Cons.prems(2), of t c, unfolded pg snd_conv]
    have fresh: "set (drawn c) \<inter> set (concat (map (\<lambda>(t, c). drawn c) calls)) = {}"
      "set (drawn_events c) \<inter> set (concat (map (\<lambda>(t, c). drawn_events c) calls)) = {}"
      using Cons.prems(1) by (simp_all add: tc comparable_def)
    show "set (concat (map (\<lambda>(t, c). drawn c) calls)) \<inter> sd_id ` set (db_docs d1) = {}"
      using ids fresh(1) Cons.prems(4) by (simp only: tc list.map concat.simps set_append prod.case) blast
    show "set (concat (map (\<lambda>(t, c). drawn_events c) calls)) \<inter> ob_id ` set (db_outbox d1) = {}"
      using ids fresh(2) Cons.prems(5) by (simp only: tc list.map concat.simps set_append prod.case) blast
  qed
  from Cons.IH [OF later(1,2) step(2) later(3,4)] step(1)
  show ?case unfolding id_def by (simp add: tc pg mem split_beta Let_def)
qed simp


definition cosine_repository :: repository where
  "cosine_repository = demo_repository\<lparr>rp_distance := (\<lambda>c q. 1 - mem_score q c)\<rparr>"

definition demo_history :: "(ustr \<times> repo_call) list" where
  "demo_history =
     [(acme, upload_of 1 50 demo_sha), (ascii ''beta'', upload_of 2 60 demo_sha),
      (acme, MarkStatus 1 ''processing'' None),
      (acme, UpsertDocument 3 70 71 (ascii ''a.pdf'') demo_document),
      (acme, GetDocument 1), (acme, NearestChunks [Finite 1, Finite 0] 3 None), (acme, ListDocuments 50 0)]"


end
