(* ===== verification/AnalysisLaws.thy ===== *)
theory AnalysisLaws
  imports Analysis
begin

text \<open>
  What analysis and embedding promise: entity groups are exactly the classes of equal key,
  chunk ordinals count through the whole document, texts are slices of their pages and fit
  the model, and a document that leaves \<open>embed_document\<close> passes the store's validation.
\<close>

section \<open>Entity groups\<close>

definition entity_group :: "(ustr \<Rightarrow> ustr) \<Rightarrow> entity list \<Rightarrow> entity_key \<Rightarrow> entity" where
  "entity_group f es k =
     (let same = filter (\<lambda>e. entity_key f e = k) es
      in (hd same)\<lparr>en_count := sum_list (map en_count same)\<rparr>)"

lemma fromkeys_loop_snoc:
  "fromkeys_loop seen (xs @ [x])
    = (if x \<in> set seen \<union> set xs then fromkeys_loop seen xs else fromkeys_loop seen xs @ [x])"
  by (induction seen xs rule: fromkeys_loop.induct) auto

lemma fromkeys_snoc: "fromkeys (xs @ [x]) = (if x \<in> set xs then fromkeys xs else fromkeys xs @ [x])"
  by (simp add: fromkeys_def fromkeys_loop_snoc)

lemma map_of_graph: "map_of (map (\<lambda>k. (k, g k)) ks) k = (if k \<in> set ks then Some (g k) else None)"
  by (induction ks) auto

lemma update_graph:
  "distinct ks \<Longrightarrow> AList.update k v (map (\<lambda>k. (k, g k)) ks)
    = (if k \<in> set ks then map (\<lambda>k'. (k', if k' = k then v else g k')) ks
       else map (\<lambda>k. (k, g k)) ks @ [(k, v)])"
  by (induction ks) auto

lemma add_entity_groups:
  "foldl (add_entity f) [] es
    = map (\<lambda>k. (k, entity_group f es k)) (fromkeys (map (entity_key f) es))"
proof (induction es rule: rev_induct)
  case Nil
  show ?case by (simp add: fromkeys_def)
next
  case (snoc e es)
  let ?k = "entity_key f e" and ?ks = "fromkeys (map (entity_key f) es)"
  have mem: "k \<in> set ?ks \<longleftrightarrow> (\<exists>x \<in> set es. entity_key f x = k)" for k by auto
  have other: "entity_group f (es @ [e]) k = entity_group f es k" if "k \<noteq> ?k" for k
    using that by (simp add: entity_group_def)
  note other = other [of "entity_key f _"]
  show ?case
  proof (cases "?k \<in> set ?ks")
    case False
    then have "filter (\<lambda>x. entity_key f x = ?k) es = []" using mem by (auto simp: filter_empty_conv)
    then have "entity_group f (es @ [e]) ?k = e" by (simp add: entity_group_def)
    moreover have "\<forall>x \<in> set es. entity_group f es (entity_key f x)
        = entity_group f (es @ [e]) (entity_key f x)"
      using False other by (metis imageI list.set_map set_fromkeys)
    ultimately show ?thesis using False
      by (simp only: foldl_append foldl.simps snoc)
        (auto simp: add_entity_def Let_def map_of_graph update_graph fromkeys_snoc)
  next
    case True
    then obtain x xs where x: "filter (\<lambda>x. entity_key f x = ?k) es = x # xs"
      using mem by (cases "filter (\<lambda>x. entity_key f x = ?k) es") (auto simp: filter_empty_conv)
    then have "entity_group f (es @ [e]) ?k
        = (entity_group f es ?k)\<lparr>en_count := en_count (entity_group f es ?k) + en_count e\<rparr>"
      by (simp add: entity_group_def)
    with True other show ?thesis
      by (simp only: foldl_append foldl.simps snoc)
        (auto simp: add_entity_def Let_def map_of_graph update_graph fromkeys_snoc)
  qed
qed

lemma deduplicate_eq:
  "deduplicate f es =
     (let ordered = sort_key (\<lambda>e. (en_page e, en_start e)) es
      in map (entity_group f ordered) (fromkeys (map (entity_key f) ordered)))"
  by (simp add: deduplicate_def add_entity_groups Let_def comp_def)

lemma group_key:
  assumes "k \<in> entity_key f ` set es"
  shows "entity_key f (entity_group f es k) = k"
proof -
  have "filter (\<lambda>e. entity_key f e = k) es \<noteq> []" using assms by (auto simp: filter_empty_conv)
  then have "hd (filter (\<lambda>e. entity_key f e = k) es) \<in> set (filter (\<lambda>e. entity_key f e = k) es)"
    by (rule hd_in_set)
  then show ?thesis by (simp add: entity_group_def entity_key_def Let_def)
qed

lemma sum_list_single:
  "distinct ks \<Longrightarrow> k0 \<in> set ks \<Longrightarrow> sum_list (map (\<lambda>k. if k0 = k then c else 0) ks) = (c :: nat)"
proof (induction ks)
  case (Cons k ks)
  have "sum_list (map (\<lambda>k. if k0 = k then c else 0) ks) = 0" if "k0 \<notin> set ks"
    using that by (induction ks) auto
  with Cons show ?case by auto
qed simp

lemma sum_by_key:
  assumes "distinct ks" and "key ` set es \<subseteq> set ks"
  shows "sum_list (map (\<lambda>k. sum_list (map g (filter (\<lambda>e. key e = k) es))) ks) = sum_list (map (g :: _ \<Rightarrow> nat) es)"
  using assms(2)
proof (induction es)
  case Nil
  then show ?case by (induction ks) auto
next
  case (Cons e es)
  have "sum_list (map (\<lambda>k. sum_list (map g (filter (\<lambda>x. key x = k) (e # es)))) ks)
      = sum_list (map (\<lambda>k. if key e = k then g e else 0) ks)
        + sum_list (map (\<lambda>k. sum_list (map g (filter (\<lambda>x. key x = k) es))) ks)"
    unfolding sum_list_addf [symmetric] by (intro arg_cong [where f = sum_list] map_cong) auto
  moreover have "sum_list (map (\<lambda>k. if key e = k then g e else 0) ks) = g e"
    using assms(1) Cons.prems by (intro sum_list_single) auto
  ultimately show ?case using Cons by simp
qed

section \<open>Analysed pages\<close>

definition chunk_of_page :: "('a) worker_settings_scheme \<Rightarrow> page \<Rightarrow> chunk \<Rightarrow> bool" where
  "chunk_of_page s p c \<longleftrightarrow> ck_text c = py_slice (ck_start c) (ck_end c) (pg_text p)
     \<and> ck_page c = pg_number p \<and> ck_language c = pg_language p \<and> ck_embedding c = None
     \<and> ck_tokens c \<le> int (chunk_tokens s)"

lemma chunk_page_chunks:
  assumes "chunk_page p enc s start_ord = Inr cs"
  shows "list_all (chunk_of_page s p) cs \<and> map ck_ord cs = [start_ord ..< start_ord + length cs]"
proof -
  obtain us cnt where "chunk_windows p us cnt (chunk_tokens s) (chunk_overlap s) start_ord 0 [] = Inr cs"
    using assms by (auto simp: chunk_page_def reference_chunk_page_def Let_def
        split: if_splits sum.splits)
  from chunk_windows_ok [OF this] show ?thesis
    by (auto simp: chunks_ok_def chunk_ok_def chunk_of_page_def list_all_iff)
qed

definition analysis_ok ::
  "('a) worker_settings_scheme \<Rightarrow> page list \<Rightarrow> page list \<Rightarrow> chunk list \<Rightarrow> bool" where
  "analysis_ok s originals pages chunks \<longleftrightarrow>
     map (\<lambda>p. p\<lparr>pg_language := ''und'', pg_confidence := 0\<rparr>) pages
       = map (\<lambda>p. p\<lparr>pg_language := ''und'', pg_confidence := 0\<rparr>) originals
     \<and> map ck_ord chunks = [0 ..< length chunks]
     \<and> (\<forall>c \<in> set chunks. \<exists>p \<in> set pages. chunk_of_page s p c)"

lemma analyze_pages_ok:
  assumes "analyze_pages ap s remaining pages chunks entities rest = Inr (pages', chunks', entities')"
    and "analysis_ok s originals pages chunks"
  shows "analysis_ok s (originals @ rest) pages' chunks'"
  using assms
proof (induction rest arbitrary: remaining pages chunks entities originals)
  case Nil
  then show ?case by simp
next
  case (Cons p rest)
  from Cons.prems(1) obtain guess found cs where
    cs: "chunk_page (analyzed_page s p guess) (ap_tokenizer ap) s (length chunks) = Inr cs"
    and step: "analyze_pages ap s
        (remaining - length (take remaining (pg_text (analyzed_page s p guess))))
        (pages @ [analyzed_page s p guess]) (chunks @ cs) (entities @ found) rest
      = Inr (pages', chunks', entities')"
    by (auto simp: Let_def split: sum.splits)
  have "analysis_ok s (originals @ [p]) (pages @ [analyzed_page s p guess]) (chunks @ cs)"
    using chunk_page_chunks [OF cs] Cons.prems(2)
    by (auto simp: analysis_ok_def analyzed_page_def list_all_iff upt_add_eq_append [symmetric])
  from Cons.IH [OF step this] show ?case by simp
qed

lemma analyze_ok:
  assumes "analyze ap s d = Inr doc"
  shows "analysis_ok s (xd_pages d) (xd_pages doc) (dc_chunks doc)
    \<and> xd_sha256 doc = xd_sha256 d \<and> xd_media_type doc = xd_media_type d
    \<and> xd_version doc = pipeline_version
    \<and> (\<exists>es. dc_entities doc = deduplicate (ap_fold ap) es)"
proof -
  obtain pages chunks entities where
    "analyze_pages ap s (ner_max_chars s) [] [] [] (xd_pages d) = Inr (pages, chunks, entities)"
    using assms by (auto simp: analyze_def split: sum.splits)
  with analyze_pages_ok [OF this, of "[]"] assms show ?thesis
    by (auto simp: analyze_def analysis_ok_def)
qed

section \<open>Embedded documents\<close>

lemma vector_ok_iff: "vector_ok n v \<longleftrightarrow> validate_vector v n = Inr ()"
  by (auto simp: vector_ok_def validate_vector_def)

lemma embed_document_ok:
  assumes "embed_document em d = Inr d'"
  shows "validate_chunks (dc_chunks d') (em_dimension em) = Inr ()
    \<and> map (\<lambda>c. c\<lparr>ck_embedding := None\<rparr>) (dc_chunks d')
      = map (\<lambda>c. c\<lparr>ck_embedding := None\<rparr>) (dc_chunks d)
    \<and> em_passages em (map ck_text (dc_chunks d)) = Inr (map chunk_vector (dc_chunks d'))
    \<and> xd_sha256 d' = xd_sha256 d \<and> xd_pages d' = xd_pages d \<and> dc_entities d' = dc_entities d
    \<and> dc_embed_model d' = Some (em_model em) \<and> dc_embed_dimension d' = Some (em_dimension em)
    \<and> xd_version d' = pipeline_version \<and> xd_media_type d' = xd_media_type d"
proof -
  from assms obtain vs where vs: "em_passages em (map ck_text (dc_chunks d)) = Inr vs"
    and len: "length vs = length (dc_chunks d)"
    and ok: "\<forall>v \<in> set vs. vector_ok (em_dimension em) v"
    and d': "d' = d\<lparr>dc_chunks := map (\<lambda>(c, v). c\<lparr>ck_embedding := Some v\<rparr>) (zip (dc_chunks d) vs),
        dc_embed_model := Some (em_model em), dc_embed_dimension := Some (em_dimension em),
        xd_version := pipeline_version\<rparr>"
    by (auto simp: embed_document_def list_ex_iff split: sum.splits if_splits)
  have vecs: "map chunk_vector (dc_chunks d') = vs"
    using len by (simp add: d' comp_def case_prod_unfold chunk_vector_def)
  have "map (\<lambda>c. c\<lparr>ck_embedding := None\<rparr>) (dc_chunks d')
      = map (\<lambda>c. c\<lparr>ck_embedding := None\<rparr>) (map fst (zip (dc_chunks d) vs))"
    by (simp add: d' comp_def case_prod_unfold)
  moreover have "validate_chunks (dc_chunks d') (em_dimension em) = Inr ()"
  proof -
    have "list_all (\<lambda>v. validate_vector v (em_dimension em) = Inr ()) (map chunk_vector (dc_chunks d'))"
      using ok vecs by (simp add: list_all_iff vector_ok_iff)
    then show ?thesis by (simp add: validate_chunks_ok list_all_iff)
  qed
  ultimately show ?thesis using vs vecs len d' by simp
qed

lemma embed_passages_fit:
  assumes "\<forall>t \<in> set texts. length (tokenizer t) \<le> 126" and "model texts = Inr vs"
  shows "\<exists>us. embed_passages tokenizer model texts = Inr us"
  using assms by (auto simp: embed_passages_def list_ex_iff)

section \<open>Chunks fit the embedder\<close>

lemma chunk_tokens_counted:
  assumes "word_tokenizer enc" and "chunk_page p enc s start_ord = Inr cs" and "c \<in> set cs"
  shows "int (length (enc (ck_text c))) = ck_tokens c \<and> ck_tokens c \<le> int (chunk_tokens s)"
proof -
  have "reference_chunk_page p enc s start_ord = Inr cs"
    using assms(1,2) word_tokenizer.equivalent by metis
  then have "chunk_windows p (reference_units (pg_text p) enc (chunk_tokens s))
      (reference_count (pg_text p) enc) (chunk_tokens s) (chunk_overlap s) start_ord 0 [] = Inr cs"
    by (simp add: reference_chunk_page_def)
  from chunk_windows_ok [OF this] assms(3) show ?thesis
    by (auto simp: chunks_ok_def chunk_ok_def list_all_iff reference_count_def)
qed

lemma analyzed_chunks_fit:
  assumes "word_tokenizer (ap_tokenizer ap)"
    and "analyze_pages ap s remaining pages chunks entities rest = Inr (pages', chunks', entities')"
    and "\<forall>c \<in> set chunks. length (ap_tokenizer ap (ck_text c)) \<le> chunk_tokens s"
  shows "\<forall>c \<in> set chunks'. length (ap_tokenizer ap (ck_text c)) \<le> chunk_tokens s"
  using assms(2,3)
proof (induction rest arbitrary: remaining pages chunks entities)
  case Nil
  then show ?case by simp
next
  case (Cons p rest)
  from Cons.prems(1) obtain guess found cs where
    cs: "chunk_page (analyzed_page s p guess) (ap_tokenizer ap) s (length chunks) = Inr cs"
    and step: "analyze_pages ap s
        (remaining - length (take remaining (pg_text (analyzed_page s p guess))))
        (pages @ [analyzed_page s p guess]) (chunks @ cs) (entities @ found) rest
      = Inr (pages', chunks', entities')"
    by (auto simp: Let_def split: sum.splits)
  have "\<forall>c \<in> set (chunks @ cs). length (ap_tokenizer ap (ck_text c)) \<le> chunk_tokens s"
    using chunk_tokens_counted [OF assms(1) cs] Cons.prems(2)
    by (metis Un_iff of_nat_le_iff set_append)
  with Cons.IH [OF step] show ?case by blast
qed

section \<open>Metrics\<close>

lemma evaluate_cases_bounds:
  assumes "evaluate_cases em chunks vectors hits ranks cs = Inr (hits', ranks')"
  shows "hits \<le> hits' \<and> hits' \<le> hits + length cs \<and> ranks \<le> ranks'
    \<and> ranks' \<le> ranks + real (length cs)"
  using assms
proof (induction cs arbitrary: hits ranks)
  case (Cons c cs)
  from Cons.prems obtain rank where r: "case_rank em chunks vectors c = Inr rank"
    by (auto split: sum.splits)
  have "0 \<le> (if rank \<noteq> 0 then 1 / real rank else 0) \<and> (if rank \<noteq> 0 then 1 / real rank else 0) \<le> 1"
    by (simp add: divide_le_eq)
  with Cons.IH [of "hits + (if 0 < rank \<and> rank \<le> 5 then 1 else 0)"
      "ranks + (if rank \<noteq> 0 then 1 / real rank else 0)"] Cons.prems r
  show ?case by (fastforce split: if_splits)
qed simp

end
