(* ===== verification/Pipeline.thy ===== *)
theory Pipeline
  imports AnalysisLaws Storage
begin

text \<open>
  From bytes to a stored document: \<open>extraction.py\<close>, \<open>providers.py\<close>, \<open>object_store.py\<close>,
  \<open>pipeline.py\<close> and the download of \<open>processing.py\<close>. PDFium, Pillow, Tesseract, the language
  and entity models and SHA-256 are parameters. A stream that is read in pieces is the list
  of what its successive \<open>read\<close> calls return or raise.
\<close>

section \<open>Media types\<close>

definition ascii_bytes :: "string \<Rightarrow> bytes" where
  "ascii_bytes s = map of_char s"

definition signatures :: "(bytes \<times> media_type) list" where
  "signatures =
     [(ascii_bytes ''%PDF-'', PDF),
      ([0x89] @ ascii_bytes ''PNG'' @ [0x0D, 0x0A, 0x1A, 0x0A], PNG),
      ([0xFF, 0xD8, 0xFF], JPEG),
      (ascii_bytes ''II*'' @ [0], TIFF),
      (ascii_bytes ''MM'' @ [0] @ ascii_bytes ''*'', TIFF)]"

definition startswith :: "bytes \<Rightarrow> bytes \<Rightarrow> bool" where
  "startswith d prefix \<longleftrightarrow> take (length prefix) d = prefix"

definition media_type_of :: "bytes \<Rightarrow> media_type result" where
  \<comment> \<open>\<open>media_type\<close>\<close>
  "media_type_of d =
     (case find (\<lambda>(signature, kind). startswith d signature) signatures of
        None \<Rightarrow> Inl UnsupportedMediaType
      | Some (signature, kind) \<Rightarrow> Inr kind)"

section \<open>Text extraction\<close>

fun replace_crlf :: "ustr \<Rightarrow> ustr" where
  \<comment> \<open>\<open>text.replace("\r\n", "\n")\<close>\<close>
  "replace_crlf (a # b # cs) =
     (if a = 13 \<and> b = 10 then 10 # replace_crlf cs else a # replace_crlf (b # cs))"
| "replace_crlf cs = cs"

definition normalize_text :: "ustr \<Rightarrow> ustr" where
  "normalize_text t = strip (map (\<lambda>c. if c = 13 then 10 else c) (replace_crlf t))"

record 'i extractors =
  xr_pdf :: "bytes \<Rightarrow> ((ustr result \<times> (real \<Rightarrow> 'i result)) list) result"
    \<comment> \<open>each page's text layer and its rendering at a scale\<close>
  xr_image :: "bytes \<Rightarrow> 'i result" \<comment> \<open>the first frame, rotated as EXIF says\<close>
  xr_ocr :: "string \<Rightarrow> string \<Rightarrow> 'i \<Rightarrow> ustr result"
  xr_sha256 :: "bytes \<Rightarrow> ustr"

definition new_page :: "nat \<Rightarrow> ustr \<Rightarrow> page_source \<Rightarrow> page" where
  "new_page number t src = \<lparr>pg_number = number, pg_text = t, pg_source = src,
     pg_language = ''und'', pg_confidence = 0\<rparr>"

definition ocr :: "'i extractors \<Rightarrow> ('a) worker_settings_scheme \<Rightarrow> 'i \<Rightarrow> ustr result" where
  "ocr xr s img =
     (case xr_ocr xr (tesseract_cmd s) (ocr_langs s) img of
        Inl e \<Rightarrow> Inl e | Inr t \<Rightarrow> Inr (normalize_text t))"

definition pdf_page ::
  "'i extractors \<Rightarrow> ('a) worker_settings_scheme \<Rightarrow> nat \<Rightarrow> ustr result \<times> (real \<Rightarrow> 'i result)
   \<Rightarrow> page result" where
  "pdf_page xr s number p =
     (case fst p of
        Inl e \<Rightarrow> Inl e
      | Inr raw \<Rightarrow>
          (let t = normalize_text raw
           in if ocr_min_chars s \<le> length t then Inr (new_page number t TextLayer)
              else
                (case snd p (real (ocr_dpi s) / 72) of
                   Inl e \<Rightarrow> Inl e
                 | Inr img \<Rightarrow>
                     (case ocr xr s img of
                        Inl e \<Rightarrow> Inl e | Inr t \<Rightarrow> Inr (new_page number t OCR)))))"

fun pdf_pages ::
  "'i extractors \<Rightarrow> ('a) worker_settings_scheme \<Rightarrow> nat \<Rightarrow> (ustr result \<times> (real \<Rightarrow> 'i result)) list
   \<Rightarrow> (page list) result" where
  "pdf_pages xr s index [] = Inr []"
| "pdf_pages xr s index (p # ps) =
     (case pdf_page xr s (index + 1) p of
        Inl e \<Rightarrow> Inl e
      | Inr q \<Rightarrow> (case pdf_pages xr s (index + 1) ps of Inl e \<Rightarrow> Inl e | Inr qs \<Rightarrow> Inr (q # qs)))"

definition extract_document ::
  "'i extractors \<Rightarrow> ('a) worker_settings_scheme \<Rightarrow> bytes \<Rightarrow> extracted_document result" where
  "extract_document xr s d =
     (case media_type_of d of
        Inl e \<Rightarrow> Inl e
      | Inr kind \<Rightarrow>
          (case (if kind = PDF
                 then (case xr_pdf xr d of Inl e \<Rightarrow> Inl e | Inr ps \<Rightarrow> pdf_pages xr s 0 ps)
                 else (case xr_image xr d of
                         Inl e \<Rightarrow> Inl e
                       | Inr img \<Rightarrow>
                           (case ocr xr s img of
                              Inl e \<Rightarrow> Inl e | Inr t \<Rightarrow> Inr [new_page 1 t OCR]))) of
             Inl e \<Rightarrow> Inl e
           | Inr pages \<Rightarrow>
               Inr \<lparr>xd_version = pipeline_version, xd_sha256 = xr_sha256 xr d,
                    xd_media_type = kind, xd_pages = pages\<rparr>))"

section \<open>Model adapters\<close>

definition lingua_detect :: "(ustr \<Rightarrow> (string \<times> real) list) \<Rightarrow> ustr \<Rightarrow> language_guess" where
  \<comment> \<open>\<open>values\<close> are lingua's language codes in lower case with confidences, best first\<close>
  "lingua_detect confidences t =
     (case confidences t of
        [] \<Rightarrow> \<lparr>lg_language = ''und'', lg_confidence = 0\<rparr>
      | (code, value) # _ \<Rightarrow>
          (if value = 0 then \<lparr>lg_language = ''und'', lg_confidence = 0\<rparr>
           else \<lparr>lg_language = code, lg_confidence = value\<rparr>))"

record span =
  sp_text :: ustr
  sp_label :: string
  sp_start :: nat
  sp_end :: nat

definition spacy_extract ::
  "('a) worker_settings_scheme \<Rightarrow> (string \<Rightarrow> ustr \<Rightarrow> span list) \<Rightarrow> page \<Rightarrow> entity list" where
  \<comment> \<open>\<open>ents\<close> are the entities a loaded spaCy model finds\<close>
  "spacy_extract s ents p =
     (case map_of (ner_models s) (pg_language p) of
        None \<Rightarrow> []
      | Some model \<Rightarrow>
          map (\<lambda>sp. \<lparr>en_text = sp_text sp, en_label = sp_label sp, en_page = pg_number p,
                 en_start = sp_start sp, en_end = sp_end sp, en_count = 1\<rparr>)
            (filter (\<lambda>sp. 10 \<notin> set (sp_text sp)) (ents model (pg_text p))))"

section \<open>Object store\<close>

record 'o s3_client =
  s3_put_object :: "ustr \<Rightarrow> bytes \<Rightarrow> nat \<Rightarrow> string \<Rightarrow> ('o, unit) proc"
  s3_get_object :: "ustr \<Rightarrow> ('o, (bytes result) list) proc"
  s3_head_object :: "ustr \<Rightarrow> ('o, unit) proc"

definition missing_codes :: "string set" where
  "missing_codes = {''404'', ''NoSuchKey'', ''NotFound''}"

definition object_put :: "'o s3_client \<Rightarrow> ustr \<Rightarrow> bytes \<Rightarrow> nat \<Rightarrow> string \<Rightarrow> ('o, unit) proc" where
  "object_put c key body n media = s3_put_object c key body n media"

definition object_get :: "'o s3_client \<Rightarrow> ustr \<Rightarrow> ('o, (bytes result) list) proc" where
  "object_get c key = s3_get_object c key"

definition object_exists :: "'o s3_client \<Rightarrow> ustr \<Rightarrow> ('o, bool) proc" where
  "object_exists c key =
     tryE (thenE (s3_head_object c key) (returnE True))
       (\<lambda>e. case e of
          ClientError code \<Rightarrow> (if code \<in> missing_codes then returnE False else raiseE e)
        | _ \<Rightarrow> raiseE e)"

section \<open>Verified download\<close>

fun read_object :: "nat \<Rightarrow> bytes \<Rightarrow> (bytes result) list \<Rightarrow> bytes result" where
  \<comment> \<open>the \<open>while data := source.read(...)\<close> loop: the bytes written to the file so far\<close>
  "read_object limit got [] = Inr got"
| "read_object limit got (Inl e # reads) = Inl e"
| "read_object limit got (Inr d # reads) =
     (if d = [] then Inr got
      else if length got + length d > limit then Inl (ValueError ''Object size mismatch'')
      else read_object limit (got @ d) reads)"

definition download_error :: "exn \<Rightarrow> exn" where
  \<comment> \<open>the \<open>except\<close> clauses around the transfer\<close>
  "download_error e =
     (case e of
        ClientError code \<Rightarrow> (if code \<in> missing_codes then MissingObject else StorageUnavailable)
      | BotoCoreError \<Rightarrow> StorageUnavailable
      | KeyError \<Rightarrow> MissingObject
      | _ \<Rightarrow> (if is_os_error e then StorageUnavailable else e))"

definition download ::
  "(bytes \<Rightarrow> ustr) \<Rightarrow> ((bytes result) list) result \<Rightarrow> document_uploaded \<Rightarrow> bytes result" where
  "download sha256 source event =
     (case (case source of Inl e \<Rightarrow> Inl e | Inr reads \<Rightarrow> read_object (ev_size event) [] reads) of
        Inl e \<Rightarrow> Inl (download_error e)
      | Inr d \<Rightarrow>
          (if length d \<noteq> ev_size event \<or> sha256 d \<noteq> ev_sha256 event
           then Inl (ValueError ''Object integrity mismatch'')
           else
             (case media_type_of (take 8 d) of
                Inl e \<Rightarrow> Inl e
              | Inr kind \<Rightarrow>
                  (if mime kind \<noteq> ev_media_type event
                   then Inl (ValueError ''Object media type mismatch'') else Inr d))))"

section \<open>The pipeline\<close>

record 'i pipeline =
  pl_settings :: worker_settings
  pl_extractors :: "'i extractors"
  pl_analysis :: analysis_providers
  pl_embedder :: embedder

definition pipeline_document :: "'i pipeline \<Rightarrow> ('a) worker_settings_scheme \<Rightarrow> bytes \<Rightarrow> document result" where
  \<comment> \<open>the stages before the store; \<open>s\<close> is what \<open>get_settings()\<close> returns in \<open>extract\<close>\<close>
  "pipeline_document pl s d =
     (case extract_document (pl_extractors pl) s d of
        Inl e \<Rightarrow> Inl e
      | Inr extracted \<Rightarrow>
          (case analyze (pl_analysis pl) (pl_settings pl) extracted of
             Inl e \<Rightarrow> Inl e
           | Inr doc \<Rightarrow> embed_document (pl_embedder pl) doc))"

definition pipeline_index ::
  "'i pipeline \<Rightarrow> ('a) worker_settings_scheme \<Rightarrow> ustr \<Rightarrow> bytes \<Rightarrow> ustr
   \<Rightarrow> (ustr \<Rightarrow> ustr \<Rightarrow> document \<Rightarrow> ('s, stored_document) proc) \<Rightarrow> ustr option
   \<Rightarrow> ('s, stored_document) proc" where
  \<comment> \<open>\<open>Pipeline.index\<close>; \<open>upsert\<close> is the repository's method, \<open>name\<close> is \<open>path.name\<close>\<close>
  "pipeline_index pl s name d tenant upsert filename =
     bindE (liftE (pipeline_document pl s d)) (\<lambda>doc.
       upsert tenant (case filename of None \<Rightarrow> name | Some f \<Rightarrow> if f = [] then name else f) doc)"

section \<open>What the stages guarantee\<close>

lemma startswith_take: "length p \<le> n \<Longrightarrow> startswith (take n d) p \<longleftrightarrow> startswith d p"
  by (simp add: startswith_def min_absorb1)

lemma media_type_prefix: "media_type_of (take 8 d) = media_type_of d"
proof -
  have "list_all (\<lambda>(p, k). length p \<le> 8) signatures"
    by (simp add: signatures_def ascii_bytes_def)
  then have "find (\<lambda>(p, k). startswith (take 8 d) p) signatures
      = find (\<lambda>(p, k). startswith d p) signatures"
    by (intro find_cong) (auto simp: list_all_iff startswith_take)
  then show ?thesis by (simp add: media_type_of_def)
qed

lemma read_object_whole:
  "read_object limit got reads = Inr d \<Longrightarrow> length got \<le> limit \<Longrightarrow> length d \<le> limit"
  by (induction limit got reads rule: read_object.induct) (auto split: if_splits)

lemma download_ok:
  assumes "download sha256 source event = Inr d"
  shows "length d = ev_size event \<and> sha256 d = ev_sha256 event
    \<and> (\<exists>kind. media_type_of d = Inr kind \<and> mime kind = ev_media_type event)"
  using assms media_type_prefix [of d]
  by (auto simp: download_def split: sum.splits if_splits)

lemma pdf_page_number: "pdf_page xr s number p = Inr q \<Longrightarrow> pg_number q = number"
  by (auto simp: pdf_page_def new_page_def Let_def split: sum.splits if_splits)

lemma pdf_pages_numbers:
  "pdf_pages xr s index ps = Inr qs \<Longrightarrow>
     map pg_number qs = [index + 1 ..< index + 1 + length ps]"
proof (induction ps arbitrary: index qs)
  case (Cons p ps)
  then obtain q qs' where q: "pdf_page xr s (index + 1) p = Inr q"
    and qs': "pdf_pages xr s (index + 1) ps = Inr qs'" "qs = q # qs'"
    by (auto split: sum.splits)
  from Cons.IH [OF qs'(1)] pdf_page_number [OF q] qs'(2) show ?case
    by (simp add: upt_conv_Cons del: upt_Suc)
qed simp

lemma extract_ok:
  assumes "extract_document xr s d = Inr xd"
  shows "xd_sha256 xd = xr_sha256 xr d \<and> media_type_of d = Inr (xd_media_type xd)
    \<and> xd_version xd = pipeline_version \<and> map pg_number (xd_pages xd) = [1 ..< Suc (length (xd_pages xd))]"
proof -
  from assms obtain kind where kind: "media_type_of d = Inr kind"
    by (auto simp: extract_document_def split: sum.splits)
  show ?thesis
  proof (cases "kind = PDF")
    case True
    with assms kind obtain ps where ps: "pdf_pages xr s 0 ps = Inr (xd_pages xd)"
      by (auto simp: extract_document_def split: sum.splits)
    from pdf_pages_numbers [OF this] have "map pg_number (xd_pages xd) = [1 ..< Suc (length ps)]" by simp
    moreover have "length (xd_pages xd) = length ps"
      using arg_cong [OF calculation, of length] by (simp del: upt_Suc)
    ultimately show ?thesis using assms kind True by (auto simp: extract_document_def split: sum.splits)
  next
    case False
    with assms kind show ?thesis by (auto simp: extract_document_def new_page_def split: sum.splits)
  qed
qed

lemma pipeline_document_ok:
  assumes "pipeline_document pl s d = Inr doc"
  shows "xd_sha256 doc = xr_sha256 (pl_extractors pl) d \<and> xd_version doc = pipeline_version
    \<and> validate_chunks (dc_chunks doc) (em_dimension (pl_embedder pl)) = Inr ()
    \<and> map ck_ord (dc_chunks doc) = [0 ..< length (dc_chunks doc)]
    \<and> map pg_number (xd_pages doc) = [1 ..< Suc (length (xd_pages doc))]
    \<and> media_type_of d = Inr (xd_media_type doc)
    \<and> dc_embed_model doc = Some (em_model (pl_embedder pl))
    \<and> dc_embed_dimension doc = Some (em_dimension (pl_embedder pl))"
proof -
  from assms obtain xd doc' where x: "extract_document (pl_extractors pl) s d = Inr xd"
    and a: "analyze (pl_analysis pl) (pl_settings pl) xd = Inr doc'"
    and e: "embed_document (pl_embedder pl) doc' = Inr doc"
    by (auto simp: pipeline_document_def split: sum.splits)
  note X = extract_ok [OF x] and A = analyze_ok [OF a] and E = embed_document_ok [OF e]
  have pages: "map pg_number (xd_pages doc') = map pg_number (xd_pages xd)"
    using arg_cong [of _ _ "map pg_number", OF conjunct1 [OF A [THEN conjunct1, unfolded analysis_ok_def]]]
    by (simp add: comp_def)
  have "map ck_ord (map (\<lambda>c. c\<lparr>ck_embedding := None\<rparr>) (dc_chunks doc))
      = map ck_ord (map (\<lambda>c. c\<lparr>ck_embedding := None\<rparr>) (dc_chunks doc'))" using E by simp
  then have "map ck_ord (dc_chunks doc) = map ck_ord (dc_chunks doc')" by (simp add: comp_def)
  moreover from this have "length (dc_chunks doc) = length (dc_chunks doc')"
    by (metis length_map)
  moreover have "length (xd_pages doc') = length (xd_pages xd)" using pages by (metis length_map)
  ultimately show ?thesis using X A E pages by (simp add: analysis_ok_def)
qed

end
