(* ===== verification/PipelineGuarantees.thy ===== *)
theory PipelineGuarantees
  imports Pipeline StorageGuarantees
begin

text \<open>
  What indexing promises, from the bytes of an upload to the document handed to the store,
  with a pipeline of small functions to apply it to.
\<close>

section \<open>A pipeline\<close>

definition demo_pipeline :: "unit pipeline" where
  "demo_pipeline = \<lparr>pl_settings = demo_settings,
     pl_extractors = \<lparr>xr_pdf = (\<lambda>d. Inr [(Inr (ascii ''aa bb''), (\<lambda>scale. Inr ()))]),
       xr_image = (\<lambda>d. Inr ()), xr_ocr = (\<lambda>cmd langs img. Inr (ascii ''aa bb cc'')),
       xr_sha256 = (\<lambda>d. demo_sha)\<rparr>,
     pl_analysis = \<lparr>ap_detect = (\<lambda>t. Inr \<lparr>lg_language = ''en'', lg_confidence = 1\<rparr>),
       ap_ner = (\<lambda>p. Inr []), ap_tokenizer = fake_encode, ap_fold = id\<rparr>,
     pl_embedder = \<lparr>em_passages = (\<lambda>ts. Inr (map (\<lambda>t. [Finite 1, Finite 0]) ts)),
       em_query = (\<lambda>t. Inr [Finite 1, Finite 0]), em_dimension = 2, em_model = ''m''\<rparr>\<rparr>"

definition demo_content :: bytes where
  "demo_content = ascii_bytes ''%PDF-1''"

definition demo_event :: document_uploaded where
  "demo_event = \<lparr>ev_id = 101, ev_type = ascii ''document.uploaded'', ev_tenant = acme, ev_document = 1,
     ev_sha256 = demo_sha, ev_key = object_key acme demo_sha, ev_media_type = ''application/pdf'',
     ev_size = 6, ev_occurred = 50, ev_traceparent = None\<rparr>"

section \<open>Properties\<close>

text \<open>
  A downloaded object is the announced one. The worker accepts bytes only when their
  number, their digest and the media type of their first bytes are those of the event, and
  the read loop never holds more bytes than the event announces.
\<close>

theorem download_verified:
  assumes "download sha256 source event = Inr d"
  shows "length d = ev_size event \<and> sha256 d = ev_sha256 event
    \<and> (\<exists>kind. media_type_of d = Inr kind \<and> mime kind = ev_media_type event)
    \<and> (\<exists>reads. source = Inr reads \<and> (\<exists>n \<le> length reads. d = concat (map projr (take n reads))))"
proof -
  have "\<exists>n \<le> length reads. x = got @ concat (map projr (take n reads))"
    if "read_object limit got reads = Inr x" for limit got reads x
    using that
  proof (induction limit got reads rule: read_object.induct)
    case (1 limit got)
    then show ?case by simp
  next
    case (2 limit got e reads)
    then show ?case by simp
  next
    case (3 limit got y reads)
    show ?case
    proof (cases "y = []")
      case True
      with 3 show ?thesis by (intro exI [of _ 0]) simp
    next
      case False
      with 3 obtain n where "n \<le> length reads" "x = (got @ y) @ concat (map projr (take n reads))"
        by (auto split: if_splits)
      then show ?thesis by (intro exI [of _ "Suc n"]) simp
    qed
  qed
  note whole = this [where got = "[]", simplified]
  from download_ok [OF assms] assms show ?thesis
    by (auto simp: download_def split: sum.splits if_splits dest: whole)
qed

lemma download_verified_witness:
  "\<exists>d. download (\<lambda>d. demo_sha) (Inr [Inr (take 2 demo_content), Inr (drop 2 demo_content), Inr []]) demo_event
     = Inr d \<and> length d = 6"
proof -
  have "download (\<lambda>d. demo_sha) (Inr [Inr (take 2 demo_content), Inr (drop 2 demo_content), Inr []]) demo_event
      = Inr demo_content" by code_simp
  from download_verified [OF this] this show ?thesis by (simp add: demo_event_def)
qed

text \<open>
  C17: whatever the extraction, language, entity and embedding models return, a document that
  leaves the pipeline is fit for the store: it carries the digest and media type of its bytes,
  pages numbered from one, chunk ordinals counted from zero through the whole document, and a
  finite nonzero vector of the embedder's dimension on every chunk.
\<close>

theorem pipeline_document_ready:
  assumes "pipeline_document pl s d = Inr doc"
  shows "xd_sha256 doc = xr_sha256 (pl_extractors pl) d \<and> media_type_of d = Inr (xd_media_type doc)
    \<and> xd_version doc = pipeline_version
    \<and> map pg_number (xd_pages doc) = [1 ..< Suc (length (xd_pages doc))]
    \<and> map ck_ord (dc_chunks doc) = [0 ..< length (dc_chunks doc)]
    \<and> validate_chunks (dc_chunks doc) (em_dimension (pl_embedder pl)) = Inr ()
    \<and> dc_embed_model doc = Some (em_model (pl_embedder pl))"
  using pipeline_document_ok [OF assms] by simp

lemma pipeline_document_ready_witness:
  "\<exists>doc. pipeline_document demo_pipeline demo_settings demo_content = Inr doc
    \<and> length (dc_chunks doc) = 2 \<and> map ck_ord (dc_chunks doc) = [0, 1]"
proof -
  let ?m = "pipeline_document demo_pipeline demo_settings demo_content"
  have "isl ?m = False" by code_simp
  then obtain doc where doc: "?m = Inr doc" by (cases ?m) auto
  have "length (dc_chunks (projr ?m)) = 2" by code_simp
  with pipeline_document_ready [OF doc] doc show ?thesis by (auto simp: upt_rec)
qed



text \<open>
  Entity grouping is a partition with sums. Every spelling and label class of the input
  appears exactly once in the output, in order of first appearance on the page, with the
  fields of that first appearance and the sum of the counts of its class; so no mention is
  lost or counted twice, and grouping again changes nothing about the classes.
\<close>

theorem deduplicate_groups:
  "map (entity_key f) (deduplicate f es) = fromkeys (map (entity_key f) (sort_key (\<lambda>e. (en_page e, en_start e)) es))
   \<and> distinct (map (entity_key f) (deduplicate f es))
   \<and> entity_key f ` set (deduplicate f es) = entity_key f ` set es
   \<and> sum_list (map en_count (deduplicate f es)) = sum_list (map en_count es)
   \<and> list_all (\<lambda>g. g\<lparr>en_count := 0\<rparr> = (hd (filter (\<lambda>e. entity_key f e = entity_key f g)
        (sort_key (\<lambda>e. (en_page e, en_start e)) es)))\<lparr>en_count := 0\<rparr>) (deduplicate f es)"
proof -
  let ?o = "sort_key (\<lambda>e. (en_page e, en_start e)) es"
  let ?ks = "fromkeys (map (entity_key f) ?o)"
  have eq: "deduplicate f es = map (entity_group f ?o) ?ks" by (simp add: deduplicate_eq Let_def)
  have key: "entity_key f (entity_group f ?o k) = k" if "k \<in> set ?ks" for k
    using that by (intro group_key) auto
  have keys: "map (entity_key f) (deduplicate f es) = ?ks"
    unfolding eq map_map comp_def using key by (intro map_idI) blast
  have "sum_list (map en_count (deduplicate f es))
      = sum_list (map (\<lambda>k. sum_list (map en_count (filter (\<lambda>e. entity_key f e = k) ?o))) ?ks)"
    by (simp add: eq entity_group_def Let_def comp_def)
  also have "\<dots> = sum_list (map en_count ?o)" by (rule sum_by_key) auto
  also have "\<dots> = sum_list (map en_count es)"
  proof -
    have "mset (map en_count ?o) = mset (map en_count es)" by simp
    then show ?thesis unfolding sum_mset_sum_list [symmetric] by (rule arg_cong)
  qed
  finally have total: "sum_list (map en_count (deduplicate f es)) = sum_list (map en_count es)" .
  have first: "list_all (\<lambda>g. g\<lparr>en_count := 0\<rparr> = (hd (filter (\<lambda>e. entity_key f e = entity_key f g)
        ?o))\<lparr>en_count := 0\<rparr>) (deduplicate f es)"
    unfolding eq list_all_iff set_map using key by (auto simp: entity_group_def Let_def)
  have "entity_key f ` set (deduplicate f es) = entity_key f ` set es"
    using arg_cong [OF keys, of set] by simp
  then show ?thesis using keys total first by simp
qed

text \<open>
  The retrieval metrics are proportions: \<open>recall_at_5\<close> and the mean reciprocal rank of
  every evaluation lie between zero and one, and an evaluation without questions is an error.
\<close>

theorem metrics_are_proportions:
  "(case evaluate cases chunks em of
      Inl e \<Rightarrow> True
    | Inr (recall, mrr) \<Rightarrow> cases \<noteq> [] \<and> 0 \<le> recall \<and> recall \<le> 1 \<and> 0 \<le> mrr \<and> mrr \<le> 1)"
proof (cases "evaluate cases chunks em")
  case (Inr rm)
  then obtain vs hits ranks where ne: "cases \<noteq> []"
    and r: "evaluate_cases em chunks vs 0 0 cases = Inr (hits, ranks)"
    and rm: "rm = (real hits / real (length cases), ranks / real (length cases))"
    by (auto simp: evaluate_def split: sum.splits if_splits)
  from evaluate_cases_bounds [OF r] have "hits \<le> length cases" "0 \<le> ranks" "ranks \<le> real (length cases)"
    by auto
  with ne rm Inr show ?thesis by (simp add: divide_le_eq)
qed simp

end
