(* ===== verification/Retrieval.thy ===== *)
theory Retrieval
  imports Ranking Storage
begin

text \<open>
  Retrieval (\<open>retrieval.py\<close>): a question that names a document narrows the search to it, then
  vector and full-text rankings are fused. Names match when \<open>difflib.SequenceMatcher\<close> finds
  them similar, so its matching blocks are defined here as the library computes them.
\<close>

section \<open>SequenceMatcher\<close>

definition popular :: "ustr \<Rightarrow> nat \<Rightarrow> bool" where
  \<comment> \<open>the \<open>autojunk\<close> heuristic of the second sequence\<close>
  "popular b c \<longleftrightarrow> 200 \<le> length b \<and> length b div 100 + 1 < count_list b c"

fun common_run :: "(nat \<Rightarrow> bool) \<Rightarrow> ustr \<Rightarrow> ustr \<Rightarrow> nat" where
  \<comment> \<open>how many leading characters agree and satisfy \<open>P\<close>\<close>
  "common_run P (x # xs) (y # ys) = (if x = y \<and> P y then Suc (common_run P xs ys) else 0)"
| "common_run P _ _ = 0"

definition run_at :: "(nat \<Rightarrow> bool) \<Rightarrow> ustr \<Rightarrow> ustr \<Rightarrow> nat \<times> nat \<Rightarrow> nat" where
  "run_at P a b = (\<lambda>(i, j). common_run P (drop i a) (drop j b))"

definition longest_match :: "(nat \<Rightarrow> bool) \<Rightarrow> ustr \<Rightarrow> ustr \<Rightarrow> nat \<times> nat \<times> nat" where
  \<comment> \<open>\<open>find_longest_match\<close>: the first longest run of indexed characters, then extended on both
    sides over any character\<close>
  "longest_match P a b =
     (let (i, j) = max_by (\<lambda>p. real (run_at P a b p)) (0, 0)
            (List.product [0 ..< length a] [0 ..< length b]);
          k = run_at P a b (i, j);
          left = common_run (\<lambda>_. True) (rev (take i a)) (rev (take j b));
          right = common_run (\<lambda>_. True) (drop (i + k) a) (drop (j + k) b)
      in (i - left, j - left, left + k + right))"

lemma common_run_le: "common_run P xs ys \<le> length xs" "common_run P xs ys \<le> length ys"
  by (induction P xs ys rule: common_run.induct) auto

lemma common_run_rev_le: "common_run P (rev (take i xs)) ys \<le> i"
  using common_run_le(1) [of P "rev (take i xs)" ys] by simp

lemma max_by_in: "max_by f best xs \<in> insert best (set xs)"
  by (induction f best xs rule: max_by.induct) auto

lemma longest_match_fits:
  assumes "longest_match P a b = (i, j, k)"
  shows "i + k \<le> length a"
proof -
  obtain i0 j0 where m: "max_by (\<lambda>p. real (run_at P a b p)) (0, 0)
      (List.product [0 ..< length a] [0 ..< length b]) = (i0, j0)" by fastforce
  have "(i0, j0) \<in> insert (0, 0) (set (List.product [0 ..< length a] [0 ..< length b]))"
    unfolding m [symmetric] by (rule max_by_in)
  then have in_a: "i0 \<le> length a" by auto
  define k0 where "k0 = run_at P a b (i0, j0)"
  define left where "left = common_run (\<lambda>_. True) (rev (take i0 a)) (rev (take j0 b))"
  define right where "right = common_run (\<lambda>_. True) (drop (i0 + k0) a) (drop (j0 + k0) b)"
  have eq: "i = i0 - left" "k = left + k0 + right"
    using assms unfolding longest_match_def m k0_def left_def right_def by (simp_all add: Let_def)
  have "left \<le> length (rev (take i0 a))" unfolding left_def by (rule common_run_le)
  then have l: "left \<le> i0" "left \<le> length a" by simp_all
  have k0: "k0 \<le> length a - i0"
    using common_run_le(1) [of P "drop i0 a" "drop j0 b"] by (simp add: k0_def run_at_def)
  have "right \<le> length a - (i0 + k0)"
    using common_run_le(1) [of "\<lambda>_. True" "drop (i0 + k0) a" "drop (j0 + k0) b"] by (simp add: right_def)
  with eq l k0 in_a show ?thesis by simp
qed

function matched :: "(nat \<Rightarrow> bool) \<Rightarrow> ustr \<Rightarrow> ustr \<Rightarrow> nat" where
  \<comment> \<open>the summed size of \<open>get_matching_blocks\<close>\<close>
  "matched P a b =
     (case longest_match P a b of (i, j, k) \<Rightarrow>
        if k = 0 then 0
        else matched P (take i a) (take j b) + k + matched P (drop (i + k) a) (drop (j + k) b))"
  by auto
termination
  by (relation "measure (\<lambda>(P, a, b). length a)") (auto dest!: longest_match_fits [OF sym])

declare matched.simps [simp del]

definition similarity :: "ustr \<Rightarrow> ustr \<Rightarrow> real" where
  \<comment> \<open>\<open>SequenceMatcher(None, a, b).ratio()\<close>\<close>
  "similarity a b =
     (if a = [] \<and> b = [] then 1
      else 2 * real (matched (\<lambda>c. \<not> popular b c) a b) / real (length a + length b))"

section \<open>Scope\<close>

definition question_terms :: "unicode \<Rightarrow> ustr \<Rightarrow> ustr list" where
  "question_terms un question = filter (\<lambda>t. 5 \<le> length t) (words un question)"

definition title_words :: "unicode \<Rightarrow> ustr \<Rightarrow> ustr list" where
  "title_words un filename =
     fromkeys (filter (\<lambda>w. 5 \<le> length w) (find_runs (un_word un) (un_casefold un filename)))"

definition names_document :: "unicode \<Rightarrow> ustr \<Rightarrow> ustr \<Rightarrow> bool" where
  "names_document un question filename \<longleftrightarrow>
     list_ex (\<lambda>term. list_ex (\<lambda>word. 43 / 50 \<le> similarity term word) (title_words un filename))
       (question_terms un question)"

definition named_scope ::
  "unicode \<Rightarrow> ustr \<Rightarrow> (uuid \<times> ustr) list \<Rightarrow> query_filter \<Rightarrow> query_filter" where
  "named_scope un question names requested =
     (let matches = map fst (filter (\<lambda>(identifier, filename). names_document un question filename) names)
      in if qf_documents requested \<noteq> None \<or> matches = [] then requested
         else requested\<lparr>qf_documents := Some matches\<rparr>)"

section \<open>Retrieval\<close>

record postgres =
  pg_dimension :: nat
  pg_distance :: "pyfloat list \<Rightarrow> pyfloat list \<Rightarrow> real" \<comment> \<open>pgvector's cosine distance\<close>
  pg_matches :: "ustr \<Rightarrow> ustr \<Rightarrow> bool" \<comment> \<open>the full-text match\<close>
  pg_rank :: "ustr \<Rightarrow> ustr \<Rightarrow> real" \<comment> \<open>\<open>ts_rank_cd\<close>\<close>

definition retrieve ::
  "unicode \<Rightarrow> postgres \<Rightarrow> ustr \<Rightarrow> query_request \<Rightarrow> pyfloat list \<Rightarrow> nat \<Rightarrow> nat
   \<Rightarrow> (session, search_hit list) proc" where
  "retrieve un pg tenant request vector cap k =
     bindE (document_names tenant) (\<lambda>names.
       let scope = named_scope un (rq_question request) names (rq_filter request)
       in bindE (reader_nearest_chunks (pg_dimension pg) (pg_distance pg) tenant vector (int cap) (Some scope)) (\<lambda>near.
          bindE (reader_search_text (pg_matches pg) (pg_rank pg) tenant
              (lexical_query un (rq_question request)) (int cap) (Some scope)) (\<lambda>lexical.
          bindE (liftE (fuse [near, lexical] k)) (\<lambda>hits.
            returnE (take (nat (min (rq_top_k request) (int cap))) hits)))))"

end
