(* ===== verification/RankingLaws.thy ===== *)
theory RankingLaws
  imports Ranking
begin

text \<open>
  Fusion is reciprocal rank fusion, an answer is never more confident than its grounding
  allows, and the offline generator only quotes.
\<close>

section \<open>Fusion\<close>

definition rank_score :: "nat \<Rightarrow> hit_key \<Rightarrow> nat \<Rightarrow> search_hit list \<Rightarrow> real" where
  \<comment> \<open>the reciprocal of \<open>k\<close> plus the rank of the first hit with this key, ranks from \<open>rank\<close>\<close>
  "rank_score k key rank hs =
     (if key \<in> hit_key ` set hs
      then 1 / real (k + (rank + length (takeWhile (\<lambda>h. hit_key h \<noteq> key) hs))) else 0)"

definition rrf :: "nat \<Rightarrow> search_hit list list \<Rightarrow> hit_key \<Rightarrow> real" where
  "rrf k rankings key = sum_list (map (rank_score k key 1) rankings)"

definition fusion_keys :: "fusion \<Rightarrow> hit_key set" where
  "fusion_keys f = set (map fst (snd f))"

definition fusion_ok :: "fusion \<Rightarrow> bool" where
  "fusion_ok f \<longleftrightarrow> distinct (map fst (snd f)) \<and> fst ` set (fst f) = fusion_keys f
     \<and> (\<forall>(key, h) \<in> set (snd f). hit_key h = key)"

lemma score_of_update [simp]:
  "score_of (AList.update key x scores) key' = (if key' = key then x else score_of scores key')"
  by (simp add: score_of_def update_conv')

lemma fuse_ranking_spec:
  assumes "fusion_ok (scores, hits)" and "fuse_ranking k rank seen hs (scores, hits) = (scores', hits')"
    and "set seen \<subseteq> fusion_keys (scores, hits)"
  shows "fusion_ok (scores', hits')
    \<and> fusion_keys (scores', hits') = fusion_keys (scores, hits) \<union> hit_key ` set hs
    \<and> (\<forall>key. score_of scores' key = score_of scores key
          + (if key \<in> set seen then 0 else rank_score k key rank hs))
    \<and> set hits \<subseteq> set hits' \<and> set hits' \<subseteq> set hits \<union> (\<lambda>h. (hit_key h, h)) ` set hs"
  using assms
proof (induction k rank seen hs "(scores, hits)" arbitrary: scores hits rule: fuse_ranking.induct)
  case (1 k rank seen)
  then show ?case by (auto simp: rank_score_def)
next
  case (2 k rank seen h hs scores hits)
  let ?key = "hit_key h"
  show ?case
  proof (cases "?key \<in> set seen")
    case True
    with 2(4) have "fuse_ranking k (Suc rank) seen hs (scores, hits) = (scores', hits')" by simp
    from 2(1) [OF refl True 2(3) this 2(5)] True 2(5) show ?thesis
      by (auto simp: rank_score_def)
  next
    case False
    let ?scores = "AList.update ?key (score_of scores ?key + 1 / real (k + rank)) scores"
    let ?hits = "if map_of hits ?key = None then hits @ [(?key, h)] else hits"
    from 2(4) False have run: "fuse_ranking k (Suc rank) (?key # seen) hs (?scores, ?hits) = (scores', hits')"
      by (simp add: Let_def split: if_splits)
    have keys: "fusion_keys (?scores, ?hits) = insert ?key (fusion_keys (scores, hits))"
      by (force simp: fusion_keys_def map_of_eq_None_iff)
    have ok: "fusion_ok (?scores, ?hits)"
      using 2(3) keys by (auto simp: fusion_ok_def dom_update map_of_eq_None_iff fusion_keys_def)
    have sub: "set (?key # seen) \<subseteq> fusion_keys (?scores, ?hits)"
      unfolding keys using 2(5) by auto
    have step: "score_of scores' key = score_of scores key
        + (if key \<in> set seen then 0 else rank_score k key rank (h # hs))" if
      "score_of scores' key = score_of ?scores key
        + (if key \<in> set (?key # seen) then 0 else rank_score k key (Suc rank) hs)" for key
      using that False by (auto simp: rank_score_def)
    from 2(2) [OF refl False ok run sub] step keys show ?thesis
      by (auto split: if_splits)
  qed
qed

lemma fused_snoc: "fused k (rankings @ [r]) = fuse_ranking k 1 [] r (fused k rankings)"
  by (simp add: fused_def)

lemma fused_spec:
  "fusion_ok (fused k rankings)
   \<and> fusion_keys (fused k rankings) = hit_key ` (\<Union>r \<in> set rankings. set r)
   \<and> (\<forall>key. score_of (fst (fused k rankings)) key = rrf k rankings key)
   \<and> set (snd (fused k rankings)) \<subseteq> (\<lambda>h. (hit_key h, h)) ` (\<Union>r \<in> set rankings. set r)"
proof (induction rankings rule: rev_induct)
  case Nil
  show ?case by (simp add: fused_def fusion_ok_def fusion_keys_def score_of_def rrf_def)
next
  case (snoc r rankings)
  obtain scores hits where f: "fused k rankings = (scores, hits)" by fastforce
  obtain scores' hits' where g: "fuse_ranking k 1 [] r (scores, hits) = (scores', hits')" by fastforce
  from snoc f have ok: "fusion_ok (scores, hits)" by simp
  note step = fuse_ranking_spec [OF ok g]
  have "set hits' \<subseteq> (\<lambda>h. (hit_key h, h)) ` (\<Union>r \<in> set (rankings @ [r]). set r)"
    using step snoc f by (simp add: image_Un) blast
  with step snoc f g show ?case
    by (simp add: fused_snoc rrf_def image_Un Un_commute)
qed

lemma score_of_mem: "key \<in> fst ` set scores \<Longrightarrow> the (map_of scores key) = score_of scores key"
  by (auto simp: score_of_def map_of_eq_None_iff split: option.splits)

lemma sorted_keys_inj:
  assumes "distinct ks"
  shows "sorted_wrt (\<lambda>a b. (f a, a) < ((f b, b) :: real \<times> hit_key)) (sort_key (\<lambda>key. (f key, key)) ks)"
proof -
  let ?ks = "sort_key (\<lambda>key. (f key, key)) ks"
  have "sorted (map (\<lambda>key. (f key, key)) ?ks)" by (rule sorted_sort_key)
  moreover have "distinct (map (\<lambda>key. (f key, key)) ?ks)"
    using assms by (auto simp: distinct_map inj_on_def)
  ultimately have "sorted_wrt (<) (map (\<lambda>key. (f key, key)) ?ks)" by (simp only: strict_sorted_iff simp_thms)
  then show ?thesis by (simp add: sorted_wrt_map)
qed

section \<open>Properties\<close>

lemma fuse_facts:
  assumes "fuse rankings k = Inr hs"
  shows "distinct (map hit_key hs) \<and> hit_key ` set hs = hit_key ` (\<Union>r \<in> set rankings. set r)
    \<and> list_all (\<lambda>h. sh_score h = rrf k rankings (hit_key h)
        \<and> (\<exists>r \<in> set rankings. \<exists>h0 \<in> set r. h = h0\<lparr>sh_score := sh_score h\<rparr>)) hs
    \<and> sorted_wrt (\<lambda>a b. (- sh_score a, hit_key a) < (- sh_score b, hit_key b)) hs"
proof -
  obtain scores hits where f: "fused k rankings = (scores, hits)" by fastforce
  note spec = fused_spec [of k rankings, unfolded f fst_conv snd_conv]
  define ks where "ks = sort_key (\<lambda>key. (- the (map_of scores key), key)) (map fst hits)"
  define mk where "mk key = (the (map_of hits key))\<lparr>sh_score := the (map_of scores key)\<rparr>" for key
  have hs: "hs = map mk ks"
    using assms f by (auto simp: fuse_def ks_def mk_def Let_def split: if_splits)
  have ks: "set ks = fst ` set hits" "distinct ks"
    using spec by (auto simp: ks_def fusion_ok_def)
  have at: "\<exists>h. map_of hits key = Some h \<and> hit_key h = key \<and> (key, h) \<in> set hits" if mem: "key \<in> set ks" for key
  proof -
    obtain h where h: "map_of hits key = Some h"
      using mem ks(1) by (cases "map_of hits key") (auto simp: map_of_eq_None_iff)
    with spec map_of_SomeD [OF h] show ?thesis by (fastforce simp: fusion_ok_def)
  qed
  have score: "the (map_of scores key) = rrf k rankings key" if "key \<in> set ks" for key
  proof -
    have "key \<in> fst ` set scores" using that ks spec by (auto simp: fusion_ok_def fusion_keys_def)
    with spec show ?thesis by (metis score_of_mem)
  qed
  have key: "hit_key (mk key) = key" "sh_score (mk key) = rrf k rankings key" if "key \<in> set ks" for key
    using at [OF that] score [OF that] by (auto simp: mk_def hit_key_def)
  have keys: "map hit_key hs = ks"
    unfolding hs map_map comp_def by (rule map_idI) (rule key)
  have from_rankings: "\<exists>r \<in> set rankings. \<exists>h0 \<in> set r. mk key = h0\<lparr>sh_score := sh_score (mk key)\<rparr>"
    if "key \<in> set ks" for key
  proof -
    from at [OF that] obtain h where h: "map_of hits key = Some h" "(key, h) \<in> set hits" by blast
    with spec obtain r where "r \<in> set rankings" "h \<in> set r" by fastforce
    with h show ?thesis by (intro bexI [of _ r] bexI [of _ h]) (auto simp: mk_def)
  qed
  have ksort: "sorted_wrt (\<lambda>a b. (- the (map_of scores a), a) < (- the (map_of scores b), b)) ks"
    unfolding ks_def using spec by (intro sorted_keys_inj) (simp add: fusion_ok_def)
  have "sorted_wrt (\<lambda>a b. (- sh_score (mk a), hit_key (mk a)) < (- sh_score (mk b), hit_key (mk b))) ks"
    by (rule sorted_wrt_mono_rel [OF _ ksort]) (simp add: key score)
  then have sorted: "sorted_wrt (\<lambda>a b. (- sh_score a, hit_key a) < (- sh_score b, hit_key b)) hs"
    by (simp add: hs sorted_wrt_map)
  have "hit_key ` set hs = set ks" using arg_cong [OF keys, of set] by simp
  then have "hit_key ` set hs = hit_key ` (\<Union>r \<in> set rankings. set r)"
    using ks spec by (simp add: fusion_keys_def)
  moreover have "list_all (\<lambda>h. sh_score h = rrf k rankings (hit_key h)
        \<and> (\<exists>r \<in> set rankings. \<exists>h0 \<in> set r. h = h0\<lparr>sh_score := sh_score h\<rparr>)) hs"
    using key from_rankings by (auto simp: hs list_all_iff)
  ultimately show ?thesis using keys ks sorted by simp
qed

text \<open>
  C36: fusion is reciprocal rank fusion. The fused list holds every document and chunk number
  of the rankings exactly once; each hit is one of the given hits with its score replaced by
  the sum, over the rankings, of one over \<open>k\<close> plus its first rank there; the list is strictly
  ordered by that score, ties by document and chunk number.
\<close>

theorem fuse_is_rrf:
  assumes "fuse rankings k = Inr hs"
  shows "distinct (map hit_key hs) \<and> hit_key ` set hs = hit_key ` (\<Union>r \<in> set rankings. set r)
    \<and> list_all (\<lambda>h. sh_score h = rrf k rankings (hit_key h)
        \<and> (\<exists>r \<in> set rankings. \<exists>h0 \<in> set r. h = h0\<lparr>sh_score := sh_score h\<rparr>)) hs
    \<and> sorted_wrt (\<lambda>a b. (- sh_score a, hit_key a) < (- sh_score b, hit_key b)) hs"
  by (rule fuse_facts [OF assms])

definition demo_chunk :: "nat \<Rightarrow> string \<Rightarrow> chunk" where
  "demo_chunk n t = \<lparr>ck_text = ascii t, ck_language = ''en'', ck_page = 1, ck_ord = n, ck_start = 0,
     ck_end = length t, ck_tokens = 1, ck_embedding = None\<rparr>"

definition demo_hit :: "nat \<Rightarrow> string \<Rightarrow> search_hit" where
  "demo_hit n t = \<lparr>sh_document = 1, sh_chunk = demo_chunk n t, sh_score = 1\<rparr>"

lemma fuse_is_rrf_witness:
  "\<exists>hs. fuse [[demo_hit 0 ''a'', demo_hit 1 ''b''], [demo_hit 1 ''b'', demo_hit 1 ''b'']] 60 = Inr hs
    \<and> map hit_key hs = [(1, 1), (1, 0)] \<and> distinct (map hit_key hs)"
proof -
  let ?m = "fuse [[demo_hit 0 ''a'', demo_hit 1 ''b''], [demo_hit 1 ''b'', demo_hit 1 ''b'']] 60"
  have "isl ?m = False" by code_simp
  then obtain hs where hs: "?m = Inr hs" by (cases ?m) auto
  have "map hit_key (projr ?m) = [(1, 1), (1, 0)]" by code_simp
  with fuse_is_rrf [OF hs] hs show ?thesis by simp
qed

section \<open>Grounding\<close>

lemma overlap_bounds: "0 \<le> overlap un t evidence \<and> overlap un t evidence \<le> 1"
proof -
  have "length (filter p xs) \<le> length xs" for p and xs :: "ustr list" by simp
  then show ?thesis by (auto simp: overlap_def Let_def divide_le_eq)
qed

lemma confidence_bounds:
  "0 \<le> confidence un scores supported answer cited \<and> confidence un scores supported answer cited \<le> 1
   \<and> confidence un scores supported answer cited \<le> overlap un answer (join_with (ascii '' '') cited)
   \<and> (0 < confidence un scores supported answer cited \<longrightarrow> supported \<and> strip answer \<noteq> [] \<and> cited \<noteq> [])"
proof -
  have le: "(7 / 10 + 3 / 10 * m) * g \<le> g" if "m \<le> 1" "0 \<le> g" for m g :: real
  proof -
    have "(7 / 10 + 3 / 10 * m) * g \<le> 1 * g" using that by (intro mult_right_mono) auto
    then show ?thesis by simp
  qed
  have "min 1 (max 0 ((7 / 10 + 3 / 10 * min 1 (max 0 x)) * overlap un answer e)) \<le> overlap un answer e" for x e
    using overlap_bounds [of un answer e] le [of "min 1 (max 0 x)" "overlap un answer e"] by auto
  then show ?thesis using overlap_bounds by (auto simp: confidence_def Let_def)
qed

lemma assess_facts:
  assumes "assess_generation un g info hits threshold = (value, abstained, cited)"
  shows "0 \<le> value \<and> value \<le> 1
    \<and> value \<le> overlap un (ge_answer g) (join_with (ascii '' '') (map (\<lambda>h. ck_text (sh_chunk h)) cited))
    \<and> set cited \<subseteq> set hits
    \<and> (\<not> abstained \<longrightarrow> ge_supported g \<and> strip (ge_answer g) \<noteq> [] \<and> cited \<noteq> []
        \<and> list_all (\<lambda>i. 0 \<le> i \<and> i < int (length hits)) (ge_indexes g)
        \<and> cited = map (\<lambda>i. hits ! nat i) (fromkeys (ge_indexes g))
        \<and> (gi_provider info \<noteq> ''openai'' \<longrightarrow> 0 < value \<and> threshold \<le> value))"
proof -
  let ?ixs = "fromkeys (ge_indexes g)"
  let ?valid = "?ixs \<noteq> [] \<and> strip (ge_answer g) \<noteq> []
    \<and> list_all (\<lambda>i. 0 \<le> i \<and> i < int (length hits)) ?ixs"
  have cited: "cited = (if ?valid then map (\<lambda>i. hits ! nat i) ?ixs else [])"
    and val: "value = confidence un (map sh_score hits) (ge_supported g \<and> ?valid) (ge_answer g)
      (map (\<lambda>h. ck_text (sh_chunk h)) cited)"
    and ab: "abstained = should_abstain value threshold (ge_supported g \<and> ?valid)
      (gi_provider info = ''openai'')"
    using assms unfolding assess_generation_def Let_def by auto
  note conf = confidence_bounds [of un "map sh_score hits" "ge_supported g \<and> ?valid" "ge_answer g"
      "map (\<lambda>h. ck_text (sh_chunk h)) cited", folded val]
  have mem: "set cited \<subseteq> set hits" using cited by (auto simp: list_all_iff nat_less_iff)
  have all: "list_all p ?ixs \<longleftrightarrow> list_all p (ge_indexes g)" for p by (simp add: list_all_iff)
  have "ge_supported g \<and> ?valid" if "\<not> abstained"
    using that ab by (simp add: should_abstain_def)
  moreover have "gi_provider info \<noteq> ''openai'' \<longrightarrow> 0 < value \<and> threshold \<le> value" if "\<not> abstained"
    using that ab by (auto simp: should_abstain_def not_less not_le)
  ultimately show ?thesis using conf mem cited unfolding all by auto
qed

text \<open>
  C35: no answer is shown without evidence. Whatever generator produced it, an answer is
  accepted only if it claims support, is not blank and cites at least one passage, every
  citation being one of the retrieved hits; the local generator must also reach the threshold
  with a positive confidence. Confidence lies between zero and one and never exceeds the share
  of the answer's content words that occur in the cited passages.
\<close>

theorem accepted_answers_are_grounded:
  assumes "assess_generation un g info hits threshold = (value, abstained, cited)"
  shows "0 \<le> value \<and> value \<le> 1
    \<and> value \<le> overlap un (ge_answer g) (join_with (ascii '' '') (map (\<lambda>h. ck_text (sh_chunk h)) cited))
    \<and> set cited \<subseteq> set hits
    \<and> (\<not> abstained \<longrightarrow> ge_supported g \<and> strip (ge_answer g) \<noteq> [] \<and> cited \<noteq> []
        \<and> list_all (\<lambda>i. 0 \<le> i \<and> i < int (length hits)) (ge_indexes g)
        \<and> cited = map (\<lambda>i. hits ! nat i) (fromkeys (ge_indexes g))
        \<and> (gi_provider info \<noteq> ''openai'' \<longrightarrow> 0 < value \<and> threshold \<le> value))"
  by (rule assess_facts [OF assms])

definition demo_unicode :: unicode where
  \<comment> \<open>ASCII letters and digits\<close>
  "demo_unicode = \<lparr>un_word = is_alnum_ascii,
     un_casefold = map (\<lambda>c. if 65 \<le> c \<and> c \<le> 90 then c + 32 else c),
     un_isupper = list_all (\<lambda>c. 65 \<le> c \<and> c \<le> 90), un_nfkc = id\<rparr>"

lemma accepted_answers_are_grounded_witness:
  "\<exists>value cited. assess_generation demo_unicode
      \<lparr>ge_answer = ascii ''Red foxes'', ge_supported = True, ge_indexes = [0, 0], ge_usage = None\<rparr>
      \<lparr>gi_provider = ''extractive'', gi_model = ''m'', gi_usage = None, gi_reason = None\<rparr>
      [demo_hit 0 ''The red foxes run.''] (3 / 5) = (value, False, cited)
    \<and> 3 / 5 \<le> value \<and> length cited = 1"
proof -
  let ?m = "assess_generation demo_unicode
      \<lparr>ge_answer = ascii ''Red foxes'', ge_supported = True, ge_indexes = [0, 0], ge_usage = None\<rparr>
      \<lparr>gi_provider = ''extractive'', gi_model = ''m'', gi_usage = None, gi_reason = None\<rparr>
      [demo_hit 0 ''The red foxes run.''] (3 / 5)"
  have a: "fst (snd ?m) = False" by code_simp
  have "?m = (fst ?m, False, snd (snd ?m))" using a by (cases ?m) auto
  then obtain v cited where r: "?m = (v, False, cited)" by blast
  from accepted_answers_are_grounded [OF r] have "3 / 5 \<le> v \<and> length cited = 1"
    by (simp add: fromkeys_def)
  with r show ?thesis by blast
qed

section \<open>The offline generator\<close>

lemma max_by_mem: "max_by f x xs \<in> set (x # xs) \<and> (\<forall>y \<in> set (x # xs). f y \<le> f (max_by f x xs))"
  by (induction xs arbitrary: x) (force split: if_splits)+

lemma best_window_mem:
  "best_window f ws \<noteq> [] \<Longrightarrow> best_window f ws \<in> set ws"
  "w \<in> set ws \<Longrightarrow> f w \<le> f (best_window f ws)"
  using max_by_mem [of f] by (cases ws; force simp: best_window_def)+

lemma strip_infix: "\<exists>pre post. t = pre @ strip t @ post"
proof -
  have l: "t = takeWhile isspace t @ dropWhile isspace t" by simp
  have r: "dropWhile isspace t = rev (dropWhile isspace (rev (dropWhile isspace t)))
      @ rev (takeWhile isspace (rev (dropWhile isspace t)))"
    by (metis rev_append rev_rev_ident takeWhile_dropWhile_id)
  from l r show ?thesis unfolding strip_def by metis
qed

lemma py_slice_infix: "\<exists>pre post. t = pre @ py_slice a b t @ post"
proof -
  have "t = take a t @ py_slice a b t @ drop (b - a) (drop a t)"
    unfolding py_slice_def by (metis append_take_drop_id)
  then show ?thesis by blast
qed

lemma windows_infix: "w \<in> set (windows t) \<Longrightarrow> \<exists>pre post. t = pre @ w @ post"
proof -
  assume "w \<in> set (windows t)"
  then obtain a b where w: "w = strip (py_slice a b t)" by (auto simp: windows_def Let_def)
  obtain p q where "t = p @ py_slice a b t @ q" using py_slice_infix by blast
  moreover obtain p' q' where "py_slice a b t = p' @ w @ q'" using strip_infix w by blast
  ultimately show ?thesis by (metis append.assoc)
qed

text \<open>
  The offline generator only quotes. Its answer is a contiguous piece of the highest
  ranked passage, the one of its sentence windows that shares the most content words with the
  question; it cites that passage and nothing else, and claims support only for a nonempty
  answer that holds at least three tenths of the question's content words.
\<close>

theorem extractive_answers_quote:
  assumes "extractive_generate un question passages = g"
  shows "(ge_answer g \<noteq> [] \<longrightarrow> (\<exists>pre post. hd passages = pre @ ge_answer g @ post) \<and> passages \<noteq> []
      \<and> ge_indexes g = [0])
    \<and> (ge_supported g \<longrightarrow> ge_answer g \<noteq> [] \<and> 3 / 10 \<le> overlap un question (ge_answer g))
    \<and> (passages \<noteq> [] \<longrightarrow> (\<forall>w \<in> set (windows (hd passages)).
        overlap un question w \<le> overlap un question (ge_answer g)))
    \<and> (passages = [] \<longrightarrow> \<not> ge_supported g)"
proof (cases passages)
  case Nil
  with assms show ?thesis by (auto simp: extractive_generate_def)
next
  case (Cons t ts)
  let ?a = "best_window (overlap un question) (windows t)"
  have quote: "?a \<noteq> [] \<longrightarrow> (\<exists>pre post. t = pre @ ?a @ post)"
    using best_window_mem(1) windows_infix by blast
  have best: "\<forall>w \<in> set (windows t). overlap un question w \<le> overlap un question ?a"
    by (blast intro: best_window_mem(2))
  have g: "ge_answer g = ?a" "ge_supported g = (?a \<noteq> [] \<and> 3 / 10 \<le> overlap un question ?a)"
    "ge_indexes g = (if ?a \<noteq> [] then [0] else [])"
    using assms Cons by (auto simp: extractive_generate_def Let_def)
  show ?thesis using quote best Cons unfolding g by simp
qed

lemma extractive_answers_quote_witness:
  "ge_answer (extractive_generate demo_unicode (ascii ''where do foxes run'')
      [ascii ''Cats sleep. Red foxes run at night. Owls hunt.'']) = ascii ''Cats sleep. Red foxes run at night.''
   \<and> ge_indexes (extractive_generate demo_unicode (ascii ''where do foxes run'')
      [ascii ''Cats sleep. Red foxes run at night. Owls hunt.'']) = [0]"
proof -
  have "ge_answer (extractive_generate demo_unicode (ascii ''where do foxes run'')
      [ascii ''Cats sleep. Red foxes run at night. Owls hunt.'']) = ascii ''Cats sleep. Red foxes run at night.''"
    by code_simp
  with extractive_answers_quote [OF refl, of demo_unicode "ascii ''where do foxes run''"
      "[ascii ''Cats sleep. Red foxes run at night. Owls hunt.'']"]
  show ?thesis by (simp add: ascii_def)
qed

end
