(* ===== verification/Breaker.thy ===== *)
theory Breaker
  imports QueryData
begin

text \<open>
  The circuit breaker (\<open>breaker.py\<close>) and the admission of calls around it
  (\<open>OpenAIGenerator.generate\<close>): a call takes a slot and an epoch ticket, runs outside any
  lock, and settles its ticket when it ends. Calls of several threads interleave, so a
  \<open>pool\<close> records the tickets in flight and a step is the start or the end of one call.
\<close>

section \<open>The breaker\<close>

record breaker =
  br_limit :: nat
  br_seconds :: real
  br_failures :: nat
  br_epoch :: nat
  br_opened :: "real option"
  br_probing :: bool

definition new_breaker :: "nat \<Rightarrow> real \<Rightarrow> breaker" where
  "new_breaker limit seconds = \<lparr>br_limit = limit, br_seconds = seconds, br_failures = 0,
     br_epoch = 0, br_opened = None, br_probing = False\<rparr>"

definition breaker_acquire :: "real \<Rightarrow> breaker \<Rightarrow> nat option \<times> breaker" where
  \<comment> \<open>\<open>now\<close> is the clock\<close>
  "breaker_acquire now b =
     (case br_opened b of
        None \<Rightarrow> (Some (br_epoch b), b)
      | Some t \<Rightarrow>
          (if now - t < br_seconds b \<or> br_probing b then (None, b)
           else (Some (br_epoch b), b\<lparr>br_probing := True\<rparr>)))"

definition breaker_finish :: "real \<Rightarrow> nat \<Rightarrow> bool \<Rightarrow> breaker \<Rightarrow> breaker" where
  "breaker_finish now ticket success b =
     (if ticket \<noteq> br_epoch b then b
      else if success
      then
        let b = b\<lparr>br_failures := 0\<rparr>
        in if br_probing b
           then b\<lparr>br_opened := None, br_probing := False, br_epoch := br_epoch b + 1\<rparr> else b
      else
        let b = b\<lparr>br_failures := br_failures b + 1\<rparr>
        in if br_probing b \<or> br_limit b \<le> br_failures b
           then b\<lparr>br_opened := Some now, br_probing := False, br_epoch := br_epoch b + 1\<rparr> else b)"

section \<open>Admission\<close>

record pool =
  po_free :: nat \<comment> \<open>permits left in the semaphore\<close>
  po_breaker :: breaker
  po_tickets :: "nat list" \<comment> \<open>tickets of the calls in flight\<close>

definition new_pool :: "nat \<Rightarrow> nat \<Rightarrow> real \<Rightarrow> pool" where
  "new_pool slots limit seconds =
     \<lparr>po_free = slots, po_breaker = new_breaker limit seconds, po_tickets = []\<rparr>"

definition begin_call :: "real \<Rightarrow> pool \<Rightarrow> nat result \<times> pool" where
  "begin_call now p =
     (if po_free p = 0 then (Inl (ProviderFailure ''busy'' (Some no_usage)), p)
      else
        (case breaker_acquire now (po_breaker p) of
           (None, b) \<Rightarrow> (Inl (ProviderFailure ''circuit_open'' (Some no_usage)), p\<lparr>po_breaker := b\<rparr>)
         | (Some ticket, b) \<Rightarrow>
             (Inr ticket, p\<lparr>po_free := po_free p - 1, po_breaker := b,
                            po_tickets := ticket # po_tickets p\<rparr>)))"

definition release :: "nat \<Rightarrow> pool \<Rightarrow> pool" where
  \<comment> \<open>\<open>finally: self.slots.release()\<close>\<close>
  "release ticket p = p\<lparr>po_free := po_free p + 1, po_tickets := remove1 ticket (po_tickets p)\<rparr>"

definition end_call :: "real \<Rightarrow> nat \<Rightarrow> bool \<Rightarrow> pool \<Rightarrow> pool" where
  "end_call now ticket success p =
     release ticket (p\<lparr>po_breaker := breaker_finish now ticket success (po_breaker p)\<rparr>)"

definition settles :: "exn \<Rightarrow> bool" where
  \<comment> \<open>\<open>except (httpx.HTTPError, ValueError, KeyError, TypeError)\<close>\<close>
  "settles e \<longleftrightarrow> is_httpx_error e \<or> is_value_error e \<or> e = KeyError \<or> e = TypeError"

definition finish_call :: "real \<Rightarrow> nat \<Rightarrow> 'a result \<Rightarrow> pool \<Rightarrow> pool" where
  \<comment> \<open>the end of a call with this outcome\<close>
  "finish_call now ticket r p =
     (case r of
        Inr g \<Rightarrow> end_call now ticket True p
      | Inl e \<Rightarrow> (if settles e then end_call now ticket False p else release ticket p))"

definition openai_generate ::
  "string \<Rightarrow> generation result \<Rightarrow> real \<Rightarrow> real \<Rightarrow> pool \<Rightarrow> generation result \<times> pool" where
  \<comment> \<open>one call that no other overlaps; \<open>reply\<close> is the outcome of \<open>_call\<close>\<close>
  "openai_generate key reply now now' p =
     (if key = [] then (Inl (ProviderFailure ''disabled'' (Some no_usage)), p)
      else
        (case begin_call now p of
           (Inl e, p) \<Rightarrow> (Inl e, p)
         | (Inr ticket, p) \<Rightarrow> (reply, finish_call now' ticket reply p)))"

section \<open>Interleaved calls\<close>

inductive pool_step :: "pool \<Rightarrow> pool \<Rightarrow> bool" where
  begins: "begin_call now p = (r, p') \<Longrightarrow> pool_step p p'"
| ends: "ticket \<in> set (po_tickets p) \<Longrightarrow> pool_step p (end_call now ticket success p)"

inductive reachable :: "nat \<Rightarrow> nat \<Rightarrow> real \<Rightarrow> pool \<Rightarrow> bool" for slots limit seconds where
  starts: "reachable slots limit seconds (new_pool slots limit seconds)"
| steps: "reachable slots limit seconds p \<Longrightarrow> pool_step p p' \<Longrightarrow> reachable slots limit seconds p'"

inductive_cases pool_stepE: "pool_step p p'"

section \<open>Laws\<close>

definition pool_ok :: "nat \<Rightarrow> pool \<Rightarrow> bool" where
  "pool_ok slots p \<longleftrightarrow>
     (let b = po_breaker p
      in po_free p + length (po_tickets p) = slots
         \<and> (\<forall>t \<in> set (po_tickets p). t \<le> br_epoch b)
         \<and> (br_opened b = None \<longrightarrow> \<not> br_probing b \<and> br_failures b < br_limit b)
         \<and> (br_opened b \<noteq> None \<longrightarrow>
             count_list (po_tickets p) (br_epoch b) = (if br_probing b then 1 else 0)))"

lemma count_list_remove1 [simp]:
  "count_list (remove1 x xs) y = (if x = y then count_list xs y - 1 else count_list xs y)"
  by (induction xs) (auto simp: count_list_0_iff)

lemma count_fresh: "\<forall>t \<in> set ts. t \<le> (n :: nat) \<Longrightarrow> count_list ts (Suc n) = 0"
  by (induction ts) auto

lemma pool_ok_new: "0 < limit \<Longrightarrow> pool_ok slots (new_pool slots limit seconds)"
  by (simp add: pool_ok_def new_pool_def new_breaker_def)

lemma begin_call_ok:
  assumes "pool_ok slots p" and "begin_call now p = (r, p')"
  shows "pool_ok slots p'"
  using assms
  by (auto simp: begin_call_def breaker_acquire_def pool_ok_def Let_def
      split: option.splits if_splits)

definition circuit_ok :: "breaker \<Rightarrow> nat list \<Rightarrow> bool" where
  "circuit_ok b ts \<longleftrightarrow> (\<forall>t \<in> set ts. t \<le> br_epoch b)
     \<and> (br_opened b = None \<longrightarrow> \<not> br_probing b \<and> br_failures b < br_limit b)
     \<and> (br_opened b \<noteq> None \<longrightarrow> count_list ts (br_epoch b) = (if br_probing b then 1 else 0))"

lemma pool_ok_iff:
  "pool_ok slots p \<longleftrightarrow> po_free p + length (po_tickets p) = slots \<and> circuit_ok (po_breaker p) (po_tickets p)"
  by (simp add: pool_ok_def circuit_ok_def Let_def)

lemma finish_stale: "ticket \<noteq> br_epoch b \<Longrightarrow> breaker_finish now ticket success b = b"
  by (simp add: breaker_finish_def)

lemma finish_current:
  "br_opened b = None \<Longrightarrow> \<not> br_probing b \<Longrightarrow> breaker_finish now (br_epoch b) success b =
     (if success then b\<lparr>br_failures := 0\<rparr>
      else if br_limit b \<le> Suc (br_failures b)
      then b\<lparr>br_failures := Suc (br_failures b), br_opened := Some now, br_epoch := Suc (br_epoch b)\<rparr>
      else b\<lparr>br_failures := Suc (br_failures b)\<rparr>)"
  "br_probing b \<Longrightarrow> breaker_finish now (br_epoch b) success b =
     (if success
      then b\<lparr>br_failures := 0, br_opened := None, br_probing := False, br_epoch := Suc (br_epoch b)\<rparr>
      else b\<lparr>br_failures := Suc (br_failures b), br_opened := Some now, br_probing := False,
             br_epoch := Suc (br_epoch b)\<rparr>)"
  by (simp_all add: breaker_finish_def Let_def)

lemma circuit_ok_current:
  assumes ok: "circuit_ok b ts" and t: "br_epoch b \<in> set ts" and pos: "0 < br_limit b"
  shows "circuit_ok (breaker_finish now (br_epoch b) success b) (remove1 (br_epoch b) ts)"
proof -
  have old: "\<forall>x \<in> set (remove1 (br_epoch b) ts). x \<le> br_epoch b"
    using ok set_remove1_subset [of "br_epoch b" ts] by (auto simp: circuit_ok_def)
  then have old': "\<forall>x \<in> set (remove1 (br_epoch b) ts). x \<le> Suc (br_epoch b)" by fastforce
  note fresh = count_fresh [OF old]
  show ?thesis
  proof (cases "br_opened b")
    case None
    with ok have "\<not> br_probing b" by (simp add: circuit_ok_def)
    with None old old' fresh ok pos show ?thesis
      unfolding finish_current(1) [OF None \<open>\<not> br_probing b\<close>] by (simp add: circuit_ok_def)
  next
    case (Some x)
    have probing: "br_probing b"
      using ok t Some by (auto simp: circuit_ok_def count_list_0_iff split: if_splits)
    show ?thesis
      unfolding finish_current(2) [OF probing] using old' fresh pos by (simp add: circuit_ok_def)
  qed
qed

lemma begin_call_limit: "begin_call now p = (r, p') \<Longrightarrow> br_limit (po_breaker p') = br_limit (po_breaker p)"
  by (auto simp: begin_call_def breaker_acquire_def split: option.splits if_splits)

lemma end_call_limit: "br_limit (po_breaker (end_call now t s p)) = br_limit (po_breaker p)"
  by (simp add: end_call_def release_def breaker_finish_def Let_def)

lemma end_call_ok:
  assumes ok: "pool_ok slots p" and t: "ticket \<in> set (po_tickets p)" and pos: "0 < br_limit (po_breaker p)"
  shows "pool_ok slots (end_call now ticket success p)"
proof -
  let ?b = "po_breaker p"
  have len: "po_free p + 1 + length (remove1 ticket (po_tickets p)) = slots"
    using ok t by (auto simp: pool_ok_iff length_remove1 dest: length_pos_if_in_set)
  have "circuit_ok (breaker_finish now ticket success ?b) (remove1 ticket (po_tickets p))"
  proof (cases "ticket = br_epoch ?b")
    case True
    with ok t pos circuit_ok_current [of ?b "po_tickets p"] show ?thesis by (simp add: pool_ok_iff)
  next
    case False
    with ok set_remove1_subset [of ticket "po_tickets p"] show ?thesis
      by (auto simp: pool_ok_iff circuit_ok_def finish_stale)
  qed
  with len show ?thesis by (simp add: pool_ok_iff end_call_def release_def)
qed

lemma reachable_limit: "reachable slots limit seconds p \<Longrightarrow> br_limit (po_breaker p) = limit"
  by (induction rule: reachable.induct)
    (auto simp: new_pool_def new_breaker_def end_call_limit begin_call_limit elim!: pool_stepE)

lemma reachable_ok:
  assumes "reachable slots limit seconds p" and "0 < limit"
  shows "pool_ok slots p"
  using assms
proof (induction rule: reachable.induct)
  case starts
  then show ?case by (rule pool_ok_new)
next
  case (steps p p')
  then show ?case
    using reachable_limit [OF steps(1)] by (auto elim!: pool_stepE intro: begin_call_ok end_call_ok)
qed

section \<open>The circuit it implements\<close>

datatype circuit = Closed nat | Open real | HalfOpen

definition view :: "breaker \<Rightarrow> circuit" where
  "view b = (case br_opened b of None \<Rightarrow> Closed (br_failures b)
     | Some t \<Rightarrow> (if br_probing b then HalfOpen else Open t))"

fun admits :: "real \<Rightarrow> real \<Rightarrow> circuit \<Rightarrow> circuit option" where
  \<comment> \<open>the state after an admitted call, or no admission\<close>
  "admits seconds now (Closed n) = Some (Closed n)"
| "admits seconds now (Open t) = (if now - t < seconds then None else Some HalfOpen)"
| "admits seconds now HalfOpen = None"

fun settle_call :: "nat \<Rightarrow> real \<Rightarrow> bool \<Rightarrow> circuit \<Rightarrow> circuit" where
  "settle_call limit now success (Closed n) =
     (if success then Closed 0 else if limit \<le> Suc n then Open now else Closed (Suc n))"
| "settle_call limit now success HalfOpen = (if success then Closed 0 else Open now)"
| "settle_call limit now success (Open t) = Open t"

lemma acquire_refines:
  assumes "br_opened b = None \<longrightarrow> \<not> br_probing b"
  shows "(case breaker_acquire now b of (r, b') \<Rightarrow>
     (r = Some (br_epoch b) \<and> admits (br_seconds b) now (view b) = Some (view b'))
     \<or> (r = None \<and> b' = b \<and> admits (br_seconds b) now (view b) = None))"
  using assms by (auto simp: breaker_acquire_def view_def split: option.splits)

section \<open>Properties\<close>


definition opened_pool :: pool where
  \<comment> \<open>one call failed with a limit of one failure, while another is still in flight\<close>
  "opened_pool = end_call 5 0 False
     (snd (begin_call 1 (snd (begin_call 1 (new_pool 2 1 30)))))"

lemma opened_reachable: "reachable 2 1 30 opened_pool"
proof -
  let ?p = "snd (begin_call 1 (snd (begin_call 1 (new_pool 2 1 30))))"
  have next_: "pool_step q (snd (begin_call now q))" for now q
    by (rule begins [OF surjective_pairing])
  have "reachable 2 1 30 ?p"
    by (rule steps [OF steps [OF starts next_] next_])
  moreover have "(0 :: nat) \<in> set (po_tickets ?p)" by code_simp
  ultimately show ?thesis unfolding opened_pool_def by (rule steps [OF _ ends])
qed




text \<open>
  A probe that ends with any other exception locks the breaker. \<open>generate\<close> settles a ticket
  only for the exceptions it lists; when the probe call raises another one (a \<open>RuntimeError\<close>,
  say), its slot is released but its ticket is not settled, the breaker keeps waiting for a
  probe that is gone, and every later call is refused, at any time.
\<close>

theorem escaped_probe_locks_breaker:
  assumes "openai_generate key (Inl e) now now' p = (r, p')" and "key \<noteq> []"
    and "view (po_breaker p) = Open t" and "br_seconds (po_breaker p) \<le> now - t"
    and "0 < po_free p" and "\<not> settles e"
  shows "view (po_breaker p') = HalfOpen \<and> po_tickets p' = po_tickets p \<and> po_free p' = po_free p
    \<and> (\<forall>reply later later'. openai_generate key reply later later' p'
        = (Inl (ProviderFailure ''circuit_open'' (Some no_usage)), p'))"
proof -
  have o: "br_opened (po_breaker p) = Some t" "\<not> br_probing (po_breaker p)"
    using assms(3) by (auto simp: view_def split: option.splits if_splits)
  with assms have p': "p' = p\<lparr>po_breaker := (po_breaker p)\<lparr>br_probing := True\<rparr>\<rparr>"
    by (auto simp: openai_generate_def begin_call_def breaker_acquire_def finish_call_def release_def)
  with o assms show ?thesis
    by (simp add: view_def openai_generate_def begin_call_def breaker_acquire_def)
qed

lemma escaped_probe_locks_breaker_witness:
  "\<forall>g. fst (openai_generate ''k'' (Inr g) 1000 1001
      (snd (openai_generate ''k'' (Inl (RuntimeError ''closed'')) 60 61 opened_pool)))
   = Inl (ProviderFailure ''circuit_open'' (Some no_usage))"
proof -
  have a: "view (po_breaker opened_pool) = Open 5" "br_seconds (po_breaker opened_pool) \<le> 60 - 5"
    "0 < po_free opened_pool" by code_simp+
  have e: "\<not> settles (RuntimeError ''closed'')" by code_simp
  from escaped_probe_locks_breaker [OF surjective_pairing _ a e, of "''k''" 61] show ?thesis by simp
qed

end
