(* ===== verification/Ledger.thy ===== *)
theory Ledger
  imports Storage
begin

text \<open>
  Token accounting: \<open>PostgresUsageLedger\<close> of \<open>usage.py\<close> over the tables of migration 0004, and
  the single-day \<open>InMemoryUsageLedger\<close> of \<open>packages/testing\<close>. A day is the number the database
  clock gives; columns are 64-bit, and a value outside their range is refused.
\<close>

section \<open>Tables\<close>

record budget_row =
  bu_tenant :: ustr
  bu_day :: int
  bu_charged :: int
  bu_reserved :: int

record usage_row =
  us_id :: uuid
  us_tenant :: ustr
  us_day :: int
  us_model :: string
  us_reserved :: int
  us_input :: int
  us_output :: int
  us_cached :: int
  us_request :: "ustr option"
  us_outcome :: string

record ledger =
  lg_budgets :: "budget_row list"
  lg_usage :: "usage_row list"

definition empty_ledger :: ledger where
  "empty_ledger = \<lparr>lg_budgets = [], lg_usage = []\<rparr>"

definition bigint :: "int \<Rightarrow> bool" where
  "bigint n \<longleftrightarrow> - (2 ^ 63) \<le> n \<and> n < 2 ^ 63"

section \<open>Reserving\<close>

definition owns_budget :: "ustr \<Rightarrow> int \<Rightarrow> budget_row \<Rightarrow> bool" where
  "owns_budget tenant day b \<longleftrightarrow> rls (Some tenant) (bu_tenant b) \<and> bu_tenant b = tenant \<and> bu_day b = day"

definition reserve_budget :: "int \<Rightarrow> int \<Rightarrow> ustr \<Rightarrow> int \<Rightarrow> (ledger, bool) proc" where
  \<comment> \<open>the conditional upsert; whether it returned a row\<close>
  "reserve_budget limit day tenant tokens lg =
     (if \<not> rls (Some tenant) tenant \<or> \<not> bigint tokens then (Inl OtherSQLAlchemyError, lg)
      else
        (case find (owns_budget tenant day) (lg_budgets lg) of
           None \<Rightarrow> (Inr True, lg\<lparr>lg_budgets := lg_budgets lg @
             [\<lparr>bu_tenant = tenant, bu_day = day, bu_charged = 0, bu_reserved = tokens\<rparr>]\<rparr>)
         | Some b \<Rightarrow>
             (if \<not> bigint (bu_charged b + bu_reserved b + tokens) then (Inl OtherSQLAlchemyError, lg)
              else if bu_charged b + bu_reserved b + tokens \<le> limit
              then (Inr True, lg\<lparr>lg_budgets := map (\<lambda>b. if owns_budget tenant day b
                  then b\<lparr>bu_reserved := bu_reserved b + tokens\<rparr> else b) (lg_budgets lg)\<rparr>)
              else (Inr False, lg))))"

definition insert_usage :: "uuid \<Rightarrow> ustr \<Rightarrow> int \<Rightarrow> string \<Rightarrow> int \<Rightarrow> (ledger, unit) proc" where
  "insert_usage identifier tenant day model tokens lg =
     (if identifier \<in> us_id ` set (lg_usage lg) then (Inl OtherSQLAlchemyError, lg)
      else (Inr (), lg\<lparr>lg_usage := lg_usage lg @
        [\<lparr>us_id = identifier, us_tenant = tenant, us_day = day, us_model = model, us_reserved = tokens,
          us_input = 0, us_output = 0, us_cached = 0, us_request = None, us_outcome = ''reserved''\<rparr>]\<rparr>))"

definition ledger_reserve ::
  "int \<Rightarrow> uuid \<Rightarrow> int \<Rightarrow> ustr \<Rightarrow> int \<Rightarrow> string \<Rightarrow> (ledger, uuid) proc" where
  \<comment> \<open>\<open>identifier\<close> is \<open>uuid4()\<close>, \<open>day\<close> the database's UTC date\<close>
  "ledger_reserve limit identifier day tenant tokens model =
     (if tokens < 1 \<or> limit < tokens then raiseE BudgetExceeded
      else transaction
        (bindE (reserve_budget limit day tenant tokens) (\<lambda>found.
          if \<not> found then raiseE BudgetExceeded
          else thenE (insert_usage identifier tenant day model tokens) (returnE identifier))))"

section \<open>Settling\<close>

definition open_usage :: "ustr \<Rightarrow> uuid \<Rightarrow> usage_row \<Rightarrow> bool" where
  "open_usage tenant reservation r \<longleftrightarrow> rls (Some tenant) (us_tenant r)
     \<and> us_id r = reservation \<and> us_tenant r = tenant \<and> us_outcome r = ''reserved''"

definition settle_usage ::
  "ustr \<Rightarrow> uuid \<Rightarrow> token_usage \<Rightarrow> string \<Rightarrow> (ledger, (int \<times> int) option) proc" where
  \<comment> \<open>the first statement, returning day and reserved tokens\<close>
  "settle_usage tenant reservation actual outcome lg =
     (if \<not> list_all bigint [tu_input actual, tu_output actual, tu_cached actual]
      then (Inl OtherSQLAlchemyError, lg)
      else
        (case find (open_usage tenant reservation) (lg_usage lg) of
           None \<Rightarrow> (Inr None, lg)
         | Some r \<Rightarrow> (Inr (Some (us_day r, us_reserved r)), lg\<lparr>lg_usage := map (\<lambda>r.
             if open_usage tenant reservation r
             then r\<lparr>us_input := tu_input actual, us_output := tu_output actual,
                    us_cached := tu_cached actual, us_request := tu_request_id actual,
                    us_outcome := outcome\<rparr> else r) (lg_usage lg)\<rparr>)))"

definition charge_budget :: "ustr \<Rightarrow> int \<Rightarrow> int \<Rightarrow> int \<Rightarrow> (ledger, unit) proc" where
  \<comment> \<open>the second statement, with the checks of its columns\<close>
  "charge_budget tenant day reserved charged lg =
     (let update = (\<lambda>b. if owns_budget tenant day b
            then b\<lparr>bu_reserved := bu_reserved b - reserved, bu_charged := bu_charged b + charged\<rparr>
            else b);
          budgets = map update (lg_budgets lg)
      in if list_all (\<lambda>b. owns_budget tenant day b \<longrightarrow> 0 \<le> bu_reserved b \<and> 0 \<le> bu_charged b \<and> bigint (bu_charged b)) budgets
         then (Inr (), lg\<lparr>lg_budgets := budgets\<rparr>) else (Inl OtherSQLAlchemyError, lg))"

definition ledger_settle ::
  "ustr \<Rightarrow> uuid \<Rightarrow> token_usage option \<Rightarrow> string \<Rightarrow> (ledger, unit) proc" where
  "ledger_settle tenant reservation usage outcome =
     transaction
       (bindE (settle_usage tenant reservation (case usage of None \<Rightarrow> no_usage | Some u \<Rightarrow> u) outcome)
         (\<lambda>row. case row of
            None \<Rightarrow> returnE ()
          | Some (day, reserved) \<Rightarrow>
              charge_budget tenant day reserved
                (case usage of None \<Rightarrow> reserved | Some u \<Rightarrow> usage_total u)))"

section \<open>Summary\<close>

record usage_summary =
  ug_limit :: int
  ug_charged :: int
  ug_reserved :: int
  ug_requests :: nat
  ug_input :: int
  ug_output :: int
  ug_cached :: int

definition usage_of :: "ustr \<Rightarrow> int \<Rightarrow> ledger \<Rightarrow> usage_row list" where
  "usage_of tenant day lg =
     filter (\<lambda>r. rls (Some tenant) (us_tenant r) \<and> us_tenant r = tenant \<and> us_day r = day) (lg_usage lg)"

definition ledger_summary :: "int \<Rightarrow> int \<Rightarrow> int \<Rightarrow> ustr \<Rightarrow> ledger \<Rightarrow> usage_summary" where
  \<comment> \<open>each statement reads the clock again\<close>
  "ledger_summary limit day day' tenant lg =
     (let budget = find (owns_budget tenant day) (lg_budgets lg); rows = usage_of tenant day' lg
      in \<lparr>ug_limit = limit,
          ug_charged = (case budget of None \<Rightarrow> 0 | Some b \<Rightarrow> bu_charged b),
          ug_reserved = (case budget of None \<Rightarrow> 0 | Some b \<Rightarrow> bu_reserved b),
          ug_requests = length rows, ug_input = sum_list (map us_input rows),
          ug_output = sum_list (map us_output rows), ug_cached = sum_list (map us_cached rows)\<rparr>)"

section \<open>The in-memory ledger\<close>

type_synonym mem_entry = "ustr \<times> int \<times> token_usage option \<times> string"
type_synonym mem_ledger = "(uuid \<times> mem_entry) list"

definition mem_rows :: "ustr \<Rightarrow> mem_ledger \<Rightarrow> mem_entry list" where
  "mem_rows tenant m = filter (\<lambda>e. fst e = tenant) (map snd m)"

definition mem_charge :: "mem_entry \<Rightarrow> int" where
  "mem_charge = (\<lambda>(tenant, tokens, usage, state).
     if state \<noteq> ''reserved'' then (case usage of None \<Rightarrow> tokens | Some u \<Rightarrow> usage_total u) else 0)"

definition mem_held :: "mem_entry \<Rightarrow> int" where
  "mem_held = (\<lambda>(tenant, tokens, usage, state). if state = ''reserved'' then tokens else 0)"

definition mem_usage :: "(token_usage \<Rightarrow> int) \<Rightarrow> mem_entry \<Rightarrow> int" where
  "mem_usage f = (\<lambda>(tenant, tokens, usage, state). case usage of None \<Rightarrow> 0 | Some u \<Rightarrow> f u)"

definition mem_summary :: "int \<Rightarrow> ustr \<Rightarrow> mem_ledger \<Rightarrow> usage_summary" where
  "mem_summary limit tenant m =
     (let rows = mem_rows tenant m
      in \<lparr>ug_limit = limit, ug_charged = sum_list (map mem_charge rows),
          ug_reserved = sum_list (map mem_held rows), ug_requests = length rows,
          ug_input = sum_list (map (mem_usage tu_input) rows),
          ug_output = sum_list (map (mem_usage tu_output) rows),
          ug_cached = sum_list (map (mem_usage tu_cached) rows)\<rparr>)"

definition mem_reserve :: "int \<Rightarrow> uuid \<Rightarrow> ustr \<Rightarrow> int \<Rightarrow> (mem_ledger, uuid) proc" where
  "mem_reserve limit identifier tenant tokens m =
     (let s = mem_summary limit tenant m
      in if tokens < 1 \<or> limit < ug_charged s + ug_reserved s + tokens then (Inl BudgetExceeded, m)
         else (Inr identifier, AList.update identifier (tenant, tokens, None, ''reserved'') m))"

definition mem_settle :: "ustr \<Rightarrow> uuid \<Rightarrow> token_usage option \<Rightarrow> string \<Rightarrow> (mem_ledger, unit) proc" where
  "mem_settle tenant reservation usage outcome m =
     (Inr (), case map_of m reservation of
        None \<Rightarrow> m
      | Some (owner, tokens, u, state) \<Rightarrow>
          (if owner = tenant \<and> state = ''reserved''
           then AList.update reservation (tenant, tokens, usage, outcome) m else m))"

section \<open>Histories\<close>

datatype ledger_call =
    Reserve uuid int ustr int string
  | Settle ustr uuid "token_usage option" string
  | Summary int ustr

datatype ledger_reply = Reserved uuid | Settled | Totals usage_summary

fun ledger_run :: "int \<Rightarrow> ledger_call \<Rightarrow> (ledger, ledger_reply) proc" where
  "ledger_run limit (Reserve i day t tokens model) =
     bindE (ledger_reserve limit i day t tokens model) (\<lambda>i. returnE (Reserved i))"
| "ledger_run limit (Settle t r u outcome) = thenE (ledger_settle t r u outcome) (returnE Settled)"
| "ledger_run limit (Summary day t) = readE (\<lambda>lg. Totals (ledger_summary limit day day t lg))"

fun mem_run :: "int \<Rightarrow> ledger_call \<Rightarrow> (mem_ledger, ledger_reply) proc" where
  "mem_run limit (Reserve i day t tokens model) =
     bindE (mem_reserve limit i t tokens) (\<lambda>i. returnE (Reserved i))"
| "mem_run limit (Settle t r u outcome) = thenE (mem_settle t r u outcome) (returnE Settled)"
| "mem_run limit (Summary day t) = readE (\<lambda>m. Totals (mem_summary limit t m))"

fun replies :: "('c \<Rightarrow> ('s, 'a) proc) \<Rightarrow> 'c list \<Rightarrow> 's \<Rightarrow> 'a result list \<times> 's" where
  "replies call [] s = ([], s)"
| "replies call (c # cs) s =
     (case call c s of (r, s') \<Rightarrow> (case replies call cs s' of (rs, t) \<Rightarrow> (r # rs, t)))"

end
