(* ===== verification/LedgerLaws.thy ===== *)
theory LedgerLaws
  imports Ledger
begin

text \<open>
  The ledger's books always balance: a budget row holds exactly its open reservations, no
  history of honest calls exceeds a day's limit, and on one day the tables answer every call
  as the in-memory ledger does.
\<close>

section \<open>What a call does\<close>

lemma owns_budget_iff: "owns_budget t d b \<longleftrightarrow> t \<noteq> [] \<and> bu_tenant b = t \<and> bu_day b = d"
  by (auto simp: owns_budget_def rls_def)

lemma open_usage_iff:
  "open_usage t i r \<longleftrightarrow> t \<noteq> [] \<and> us_id r = i \<and> us_tenant r = t \<and> us_outcome r = ''reserved''"
  by (auto simp: open_usage_def rls_def)

lemma find_map_if:
  assumes "\<And>b. Q b \<Longrightarrow> P (f b) = P b"
  shows "find P (map (\<lambda>b. if Q b then f b else b) bs) = map_option (\<lambda>b. if Q b then f b else b) (find P bs)"
  using assms by (induction bs) auto

lemma find_append: "find P (xs @ ys) = (case find P xs of None \<Rightarrow> find P ys | Some x \<Rightarrow> Some x)"
  by (induction xs) auto

definition new_usage :: "uuid \<Rightarrow> ustr \<Rightarrow> int \<Rightarrow> string \<Rightarrow> int \<Rightarrow> usage_row" where
  "new_usage i t d model n = \<lparr>us_id = i, us_tenant = t, us_day = d, us_model = model, us_reserved = n,
     us_input = 0, us_output = 0, us_cached = 0, us_request = None, us_outcome = ''reserved''\<rparr>"

definition hold :: "ustr \<Rightarrow> int \<Rightarrow> int \<Rightarrow> budget_row \<Rightarrow> budget_row" where
  "hold t d n b = (if owns_budget t d b then b\<lparr>bu_reserved := bu_reserved b + n\<rparr> else b)"

definition move :: "ustr \<Rightarrow> int \<Rightarrow> int \<Rightarrow> int \<Rightarrow> budget_row \<Rightarrow> budget_row" where
  "move t d n c b = (if owns_budget t d b
     then b\<lparr>bu_reserved := bu_reserved b - n, bu_charged := bu_charged b + c\<rparr> else b)"

lemma reserve_cases:
  assumes "ledger_reserve limit i d t n model lg = (r, lg')"
  obtains
    (added) "r = Inr i" "t \<noteq> []" "1 \<le> n" "n \<le> limit" "i \<notin> us_id ` set (lg_usage lg)"
      "find (owns_budget t d) (lg_budgets lg) = None"
      "lg' = \<lparr>lg_budgets = lg_budgets lg @ [\<lparr>bu_tenant = t, bu_day = d, bu_charged = 0, bu_reserved = n\<rparr>],
        lg_usage = lg_usage lg @ [new_usage i t d model n]\<rparr>"
  | (held) b where "r = Inr i" "t \<noteq> []" "1 \<le> n" "n \<le> limit" "i \<notin> us_id ` set (lg_usage lg)"
      "find (owns_budget t d) (lg_budgets lg) = Some b" "bu_charged b + bu_reserved b + n \<le> limit"
      "lg' = \<lparr>lg_budgets = map (hold t d n) (lg_budgets lg),
        lg_usage = lg_usage lg @ [new_usage i t d model n]\<rparr>"
  | (refused) "r = Inl BudgetExceeded" "lg' = lg" "n < 1 \<or> limit < n
      \<or> (\<exists>b. find (owns_budget t d) (lg_budgets lg) = Some b \<and> limit < bu_charged b + bu_reserved b + n)"
  | (broken) "r = Inl OtherSQLAlchemyError" "lg' = lg"
  using assms
  by (cases lg; cases "find (owns_budget t d) (lg_budgets lg)")
    (auto simp: ledger_reserve_def reserve_budget_def insert_usage_def new_usage_def hold_def effect_defs
      rls_def not_le split: if_splits)

lemma settle_cases:
  assumes "ledger_settle t i u outcome lg = (r, lg')"
  obtains
    (unknown) "r = Inr ()" "lg' = lg" "find (open_usage t i) (lg_usage lg) = None"
  | (settled) row where "r = Inr ()" "find (open_usage t i) (lg_usage lg) = Some row"
      "lg_usage lg' = map (\<lambda>r. if open_usage t i r
         then r\<lparr>us_input := tu_input (case u of None \<Rightarrow> no_usage | Some u \<Rightarrow> u),
                us_output := tu_output (case u of None \<Rightarrow> no_usage | Some u \<Rightarrow> u),
                us_cached := tu_cached (case u of None \<Rightarrow> no_usage | Some u \<Rightarrow> u),
                us_request := tu_request_id (case u of None \<Rightarrow> no_usage | Some u \<Rightarrow> u),
                us_outcome := outcome\<rparr> else r) (lg_usage lg)"
      "lg_budgets lg' = map (move t (us_day row) (us_reserved row)
         (case u of None \<Rightarrow> us_reserved row | Some u \<Rightarrow> usage_total u)) (lg_budgets lg)"
  | (broken) "r = Inl OtherSQLAlchemyError" "lg' = lg"
  using assms
  by (cases "find (open_usage t i) (lg_usage lg)")
    (auto simp: ledger_settle_def settle_usage_def charge_budget_def move_def effect_defs Let_def
      split: if_splits)

lemma owns_hold [simp]: "owns_budget t d (hold t' d' n b) = owns_budget t d b"
  by (auto simp: hold_def owns_budget_iff)

lemma owns_move [simp]: "owns_budget t d (move t' d' n c b) = owns_budget t d b"
  by (auto simp: move_def owns_budget_iff)

lemma find_map_same: "(\<And>b. P (f b) = P b) \<Longrightarrow> find P (map f bs) = map_option f (find P bs)"
  by (induction bs) auto

section \<open>The books balance\<close>

definition held_for :: "ustr \<Rightarrow> int \<Rightarrow> usage_row list \<Rightarrow> int" where
  \<comment> \<open>the open reservations of a tenant's day\<close>
  "held_for t d rows = sum_list (map us_reserved
     (filter (\<lambda>r. us_tenant r = t \<and> us_day r = d \<and> us_outcome r = ''reserved'') rows))"

definition day_ok :: "int \<Rightarrow> ustr \<Rightarrow> int \<Rightarrow> budget_row option \<Rightarrow> usage_row list \<Rightarrow> bool" where
  "day_ok limit t d budget rows \<longleftrightarrow>
     (case budget of
        None \<Rightarrow> (t, d) \<notin> (\<lambda>r. (us_tenant r, us_day r)) ` set rows
      | Some b \<Rightarrow> bu_reserved b = held_for t d rows \<and> 0 \<le> bu_charged b
          \<and> bu_charged b + bu_reserved b \<le> limit)"

definition books_ok :: "int \<Rightarrow> ledger \<Rightarrow> bool" where
  "books_ok limit lg \<longleftrightarrow> distinct (map us_id (lg_usage lg)) \<and> (\<forall>r \<in> set (lg_usage lg). 0 < us_reserved r)
     \<and> (\<forall>t d. t \<noteq> [] \<longrightarrow> day_ok limit t d (find (owns_budget t d) (lg_budgets lg)) (lg_usage lg))"

definition honest :: "ledger \<Rightarrow> ledger_call \<Rightarrow> bool" where
  \<comment> \<open>usage is not negative and within the reservation it settles\<close>
  "honest lg c \<longleftrightarrow>
     (case c of
        Settle t i u outcome \<Rightarrow> outcome \<noteq> ''reserved''
          \<and> (case u of None \<Rightarrow> True
             | Some u \<Rightarrow> 0 \<le> usage_total u
                 \<and> (\<forall>r \<in> set (lg_usage lg). us_id r = i \<longrightarrow> usage_total u \<le> us_reserved r))
      | _ \<Rightarrow> True)"

lemma held_for_nonneg: "\<forall>r \<in> set rows. 0 < us_reserved r \<Longrightarrow> 0 \<le> held_for t d rows"
  by (auto simp: held_for_def intro!: sum_list_nonneg) fastforce

lemma held_for_append [simp]: "held_for t d (xs @ ys) = held_for t d xs + held_for t d ys"
  by (simp add: held_for_def)

lemma held_for_new [simp]: "held_for t d [new_usage i t' d' m n] = (if t' = t \<and> d' = d then n else 0)"
  by (simp add: held_for_def new_usage_def)

lemma held_for_none: "(t, d) \<notin> (\<lambda>r. (us_tenant r, us_day r)) ` set rows \<Longrightarrow> held_for t d rows = 0"
  unfolding held_for_def by (subst filter_False) auto

lemma day_ok_new: "(t', d') \<noteq> (t, d) \<Longrightarrow>
  day_ok limit t' d' budget (rows @ [new_usage i t d m n]) = day_ok limit t' d' budget rows"
  by (auto simp: day_ok_def new_usage_def held_for_def split: option.split)

lemma reserve_balances:
  assumes ok: "books_ok limit lg" and run: "ledger_reserve limit i d t n model lg = (r, lg')"
  shows "books_ok limit lg'"
  using run
proof (cases rule: reserve_cases)
  case added
  have "day_ok limit t' d' (find (owns_budget t' d') (lg_budgets lg')) (lg_usage lg')"
    if t': "t' \<noteq> []" for t' d'
  proof (cases "(t', d') = (t, d)")
    case True
    have "day_ok limit t d None (lg_usage lg)"
      using ok added(2,6) unfolding books_ok_def by metis
    with True added show ?thesis
      by (simp add: day_ok_def find_append owns_budget_iff held_for_none)
  next
    case False
    then have "find (owns_budget t' d') (lg_budgets lg') = find (owns_budget t' d') (lg_budgets lg)"
      using added(7) by (auto simp: find_append owns_budget_iff split: option.split)
    with False ok t' added(7) show ?thesis by (simp add: day_ok_new books_ok_def)
  qed
  with ok added show ?thesis unfolding books_ok_def by (auto simp: new_usage_def)
next
  case (held b)
  have "day_ok limit t' d' (find (owns_budget t' d') (lg_budgets lg')) (lg_usage lg')"
    if t': "t' \<noteq> []" for t' d'
  proof (cases "(t', d') = (t, d)")
    case True
    have "owns_budget t d b" using held(6) by (auto simp: find_Some_iff)
    moreover have "day_ok limit t d (Some b) (lg_usage lg)"
      using ok held(2,6) unfolding books_ok_def by metis
    moreover have "find (owns_budget t d) (lg_budgets lg') = Some (hold t d n b)"
      using held(6,8) find_map_same [of "owns_budget t d" "hold t d n"] by simp
    ultimately show ?thesis using True held(7,8) by (auto simp: day_ok_def hold_def)
  next
    case False
    have "hold t d n x = x" if "find (owns_budget t' d') (lg_budgets lg) = Some x" for x
      using that False by (auto simp: hold_def owns_budget_iff find_Some_iff)
    then have "find (owns_budget t' d') (lg_budgets lg') = find (owns_budget t' d') (lg_budgets lg)"
      using held(8) by (cases "find (owns_budget t' d') (lg_budgets lg)") (auto simp: find_map_same)
    with False ok t' held(8) show ?thesis by (simp add: day_ok_new books_ok_def)
  qed
  with ok held show ?thesis unfolding books_ok_def by (auto simp: new_usage_def)
qed (use ok in auto)

lemma held_for_Cons:
  "held_for t d (r # rows) = (if us_tenant r = t \<and> us_day r = d \<and> us_outcome r = ''reserved''
     then us_reserved r else 0) + held_for t d rows"
  by (simp add: held_for_def)

lemma held_for_settled:
  fixes f :: "usage_row \<Rightarrow> usage_row"
  assumes "distinct (map us_id rows)" and "find (open_usage t i) rows = Some row"
    and "\<And>r. us_outcome (f r) \<noteq> ''reserved''"
  shows "held_for t' d' (map (\<lambda>r. if open_usage t i r then f r else r) rows)
    = held_for t' d' rows - (if t' = t \<and> d' = us_day row then us_reserved row else 0)"
  using assms(1,2)
proof (induction rows)
  case Nil
  then show ?case by simp
next
  case (Cons r rows)
  show ?case
  proof (cases "open_usage t i r")
    case True
    with Cons.prems have row: "row = r" by simp
    have "us_id r \<noteq> us_id x" if "x \<in> set rows" for x using that Cons.prems(1) by auto
    then have "\<not> open_usage t i x" if "x \<in> set rows" for x
      using that True by (fastforce simp: open_usage_iff)
    then have same: "map (\<lambda>r. if open_usage t i r then f r else r) rows = rows"
      by (intro map_idI) simp
    have r: "us_tenant r = t" "us_outcome r = ''reserved''" using True by (simp_all add: open_usage_iff)
    have "held_for t' d' (map (\<lambda>r. if open_usage t i r then f r else r) (r # rows)) = held_for t' d' rows"
      using True same assms(3) by (simp add: held_for_Cons)
    then show ?thesis using r row by (auto simp: held_for_Cons)
  next
    case False
    with Cons show ?thesis by (simp add: held_for_Cons)
  qed
qed

lemma settle_balances:
  assumes ok: "books_ok limit lg" and run: "ledger_settle t i u outcome lg = (r, lg')"
    and hon: "honest lg (Settle t i u outcome)"
  shows "books_ok limit lg'"
  using run
proof (cases rule: settle_cases)
  case (settled row)
  let ?c = "case u of None \<Rightarrow> us_reserved row | Some u \<Rightarrow> usage_total u"
  have row: "row \<in> set (lg_usage lg)" "open_usage t i row" using settled(2) by (auto simp: find_Some_iff)
  have c: "0 \<le> ?c" "?c \<le> us_reserved row"
    using hon row ok by (auto simp: honest_def books_ok_def open_usage_iff less_imp_le split: option.splits)
  have ids: "map us_id (lg_usage lg') = map us_id (lg_usage lg)" using settled(3) by simp
  have pos: "\<forall>r \<in> set (lg_usage lg'). 0 < us_reserved r"
    using ok settled(3) by (auto simp: books_ok_def)
  have "map (\<lambda>r. (us_tenant r, us_day r)) (lg_usage lg') = map (\<lambda>r. (us_tenant r, us_day r)) (lg_usage lg)"
    using settled(3) by simp
  from arg_cong [OF this, of set]
  have owner: "(\<lambda>r. (us_tenant r, us_day r)) ` set (lg_usage lg') = (\<lambda>r. (us_tenant r, us_day r)) ` set (lg_usage lg)"
    by simp
  have held: "held_for t' d' (lg_usage lg') = held_for t' d' (lg_usage lg)
      - (if t' = t \<and> d' = us_day row then us_reserved row else 0)" for t' d'
    using held_for_settled [OF _ settled(2)] ok hon settled(3) by (simp add: books_ok_def honest_def)
  have "day_ok limit t' d' (find (owns_budget t' d') (lg_budgets lg')) (lg_usage lg')"
    if t': "t' \<noteq> []" for t' d'
  proof (cases "find (owns_budget t' d') (lg_budgets lg)")
    case None
    with ok t' have "day_ok limit t' d' None (lg_usage lg)" unfolding books_ok_def by metis
    with None settled(4) owner show ?thesis by (simp add: day_ok_def find_map_same)
  next
    case (Some b)
    then have b: "owns_budget t' d' b" by (auto simp: find_Some_iff)
    have "day_ok limit t' d' (Some b) (lg_usage lg)"
      using ok t' Some unfolding books_ok_def by metis
    with Some settled(4) b c held [of t' d'] show ?thesis
      by (auto simp: day_ok_def find_map_same move_def owns_budget_iff)
  qed
  with ok ids pos show ?thesis unfolding books_ok_def by simp
qed (use ok in auto)

lemma call_balances:
  assumes "books_ok limit lg" and "ledger_run limit c lg = (r, lg')" and "honest lg c"
  shows "books_ok limit lg'"
  using assms
  by (cases c) (auto simp: effect_defs intro: reserve_balances settle_balances split: sum.splits prod.splits)

fun honest_history :: "int \<Rightarrow> ledger_call list \<Rightarrow> ledger \<Rightarrow> bool" where
  "honest_history limit [] lg \<longleftrightarrow> True"
| "honest_history limit (c # cs) lg \<longleftrightarrow> honest lg c \<and> honest_history limit cs (snd (ledger_run limit c lg))"

lemma history_balances:
  "books_ok limit lg \<Longrightarrow> honest_history limit cs lg \<Longrightarrow> books_ok limit (snd (replies (ledger_run limit) cs lg))"
proof (induction cs arbitrary: lg)
  case (Cons c cs)
  obtain r lg' where c: "ledger_run limit c lg = (r, lg')" by fastforce
  with Cons call_balances [OF Cons.prems(1) c] have "books_ok limit (snd (replies (ledger_run limit) cs lg'))"
    by simp
  with c show ?case by (cases "replies (ledger_run limit) cs lg'") simp
qed simp

lemma empty_balances: "books_ok limit empty_ledger"
  by (simp add: books_ok_def day_ok_def empty_ledger_def)

section \<open>One day in memory\<close>

fun row_entry :: "int \<Rightarrow> usage_row \<Rightarrow> uuid \<times> mem_entry \<Rightarrow> bool" where
  "row_entry d r (i, t, n, u, outcome) \<longleftrightarrow> us_id r = i \<and> us_tenant r = t \<and> us_day r = d
     \<and> us_reserved r = n \<and> us_outcome r = outcome \<and> us_input r = (case u of None \<Rightarrow> 0 | Some u \<Rightarrow> tu_input u)
     \<and> us_output r = (case u of None \<Rightarrow> 0 | Some u \<Rightarrow> tu_output u)
     \<and> us_cached r = (case u of None \<Rightarrow> 0 | Some u \<Rightarrow> tu_cached u)
     \<and> t \<noteq> [] \<and> 1 \<le> n \<and> (case u of None \<Rightarrow> True | Some u \<Rightarrow> 0 \<le> usage_total u \<and> outcome \<noteq> ''reserved'')"

definition totals :: "(mem_entry \<Rightarrow> int) \<Rightarrow> ustr \<Rightarrow> mem_ledger \<Rightarrow> int" where
  "totals f t m = sum_list (map f (mem_rows t m))"

definition sim :: "int \<Rightarrow> mem_ledger \<Rightarrow> ledger \<Rightarrow> bool" where
  "sim d m lg \<longleftrightarrow> list_all2 (row_entry d) (lg_usage lg) m \<and> distinct (map fst m)
     \<and> (\<forall>t. t \<noteq> [] \<longrightarrow> find (owns_budget t d) (lg_budgets lg) =
          (if mem_rows t m = [] then None
           else Some \<lparr>bu_tenant = t, bu_day = d, bu_charged = totals mem_charge t m,
                      bu_reserved = totals mem_held t m\<rparr>))"

lemma sim_ids: "list_all2 (row_entry d) rows m \<Longrightarrow> map us_id rows = map fst m"
  by (induction rule: list_all2_induct) auto

lemma sim_tenants: "list_all2 (row_entry d) rows m \<Longrightarrow> \<forall>e \<in> set m. fst (snd e) \<noteq> []"
  by (induction rule: list_all2_induct) auto

lemma sim_rows:
  assumes "list_all2 (row_entry d) rows m" and "\<And>r e. row_entry d r e \<Longrightarrow> g r = f (snd e)"
  shows "map g (filter (\<lambda>r. rls (Some t) (us_tenant r) \<and> us_tenant r = t \<and> us_day r = d) rows)
    = map f (mem_rows t m)"
  using assms
proof (induction rule: list_all2_induct)
  case (Cons r rs e es)
  then show ?case by (cases e) (auto simp: mem_rows_def rls_def)
qed (simp add: mem_rows_def)

lemma sim_nonneg:
  assumes "list_all2 (row_entry d) rows m"
  shows "0 \<le> totals mem_charge t m \<and> 0 \<le> totals mem_held t m"
  using assms
proof (induction rule: list_all2_induct)
  case (Cons r rs e es)
  then show ?case
    by (cases e) (auto simp: totals_def mem_rows_def mem_charge_def mem_held_def split: option.splits)
qed (simp add: totals_def mem_rows_def)

lemma totals_snoc: "totals f t (m @ [(i, t', e)]) = totals f t m + (if t' = t then f (t', e) else 0)"
  by (simp add: totals_def mem_rows_def)

lemma rows_snoc: "mem_rows t (m @ [(i, t', e)]) = mem_rows t m @ (if t' = t then [(t', e)] else [])"
  by (simp add: mem_rows_def)

lemma update_fresh: "i \<notin> fst ` set m \<Longrightarrow> AList.update i e m = m @ [(i, e)]"
  by (induction m) auto

definition put :: "uuid \<Rightarrow> mem_entry \<Rightarrow> uuid \<times> mem_entry \<Rightarrow> uuid \<times> mem_entry" where
  "put i e x = (if fst x = i then (i, e) else x)"

lemma put_simps: "fst x = i \<Longrightarrow> put i e x = (i, e)" "fst x \<noteq> i \<Longrightarrow> put i e x = x"
  by (simp_all add: put_def)

lemma mem_rows_Cons: "mem_rows t (x # m) = (if fst (snd x) = t then [snd x] else []) @ mem_rows t m"
  by (simp add: mem_rows_def)

lemma totals_Cons: "totals f t (x # m) = (if fst (snd x) = t then f (snd x) else 0) + totals f t m"
  by (simp add: totals_def mem_rows_Cons)

lemma put_other: "i \<notin> fst ` set m \<Longrightarrow> map (put i e) m = m"
  by (induction m) (auto simp: put_def)

lemma update_known:
  "distinct (map fst m) \<Longrightarrow> i \<in> fst ` set m \<Longrightarrow> AList.update i e m = map (put i e) m"
proof (induction m)
  case (Cons x m)
  show ?case
  proof (cases "fst x = i")
    case True
    with Cons.prems have "map (put i e) m = m" by (intro put_other) auto
    with True show ?thesis by (cases x) (simp add: put_simps)
  next
    case False
    with Cons show ?thesis by (cases x) (simp add: put_simps)
  qed
qed simp

lemma totals_put:
  assumes "distinct (map fst m)" and "map_of m i = Some (t, e)"
  shows "totals f t' (map (put i (t, e')) m) = totals f t' m + (if t' = t then f (t, e') - f (t, e) else 0)"
  using assms
proof (induction m)
  case (Cons x m)
  show ?case
  proof (cases "fst x = i")
    case True
    with Cons.prems have "map (put i (t, e')) m = m" "snd x = (t, e)" by (auto intro!: put_other)
    with True show ?thesis by (simp add: put_simps totals_Cons)
  next
    case False
    with Cons show ?thesis by (cases x) (simp add: put_simps totals_Cons)
  qed
qed simp

lemma rows_put:
  assumes "map_of m i = Some (t, e)" and "distinct (map fst m)"
  shows "mem_rows t' (map (put i (t, e')) m) = [] \<longleftrightarrow> mem_rows t' m = []"
  using assms
proof (induction m)
  case (Cons x m)
  show ?case
  proof (cases "fst x = i")
    case True
    with Cons.prems have "map (put i (t, e')) m = m" "snd x = (t, e)" by (auto intro!: put_other)
    with True show ?thesis by (simp add: put_simps mem_rows_Cons)
  next
    case False
    with Cons show ?thesis by (cases x) (simp add: put_simps mem_rows_Cons)
  qed
qed simp

lemma mem_reserve_eq:
  "mem_reserve limit i t n m =
     (if n < 1 \<or> limit < totals mem_charge t m + totals mem_held t m + n then (Inl BudgetExceeded, m)
      else (Inr i, AList.update i (t, n, None, ''reserved'') m))"
  by (simp add: mem_reserve_def mem_summary_def totals_def Let_def)

lemma row_entry_new: "t \<noteq> [] \<Longrightarrow> 1 \<le> n \<Longrightarrow> row_entry d (new_usage i t d model n) (i, t, n, None, ''reserved'')"
  by (simp add: new_usage_def)

lemma reserve_simulates:
  assumes sim: "sim d m lg" and run: "ledger_reserve limit i d t n model lg = (r, lg')"
    and sql: "r \<noteq> Inl OtherSQLAlchemyError"
  shows "\<exists>m'. mem_reserve limit i t n m = (r, m') \<and> sim d m' lg'"
proof -
  have rows: "list_all2 (row_entry d) (lg_usage lg) m" and dist: "distinct (map fst m)"
    using sim by (simp_all add: sim_def)
  note ids = sim_ids [OF rows] and nonneg = sim_nonneg [OF rows, of t]
  have fresh: "i \<notin> fst ` set m" if "i \<notin> us_id ` set (lg_usage lg)"
    using that arg_cong [OF ids, of set] by simp
  let ?e = "(t, n, None, ''reserved'') :: mem_entry"
  have after: "sim d (m @ [(i, ?e)]) \<lparr>lg_budgets = bs, lg_usage = lg_usage lg @ [new_usage i t d model n]\<rparr>"
    if "t \<noteq> []" "1 \<le> n" "i \<notin> us_id ` set (lg_usage lg)"
      "\<And>t'. t' \<noteq> [] \<Longrightarrow> t' \<noteq> t \<Longrightarrow> find (owns_budget t' d) bs = find (owns_budget t' d) (lg_budgets lg)"
      "find (owns_budget t d) bs = Some \<lparr>bu_tenant = t, bu_day = d, bu_charged = totals mem_charge t m,
          bu_reserved = totals mem_held t m + n\<rparr>" for bs
  proof -
    have "list_all2 (row_entry d) (lg_usage lg @ [new_usage i t d model n]) (m @ [(i, ?e)])"
      using rows row_entry_new [OF that(1,2)] by (intro list_all2_appendI) simp_all
    moreover have "find (owns_budget t' d) bs = (if mem_rows t' (m @ [(i, ?e)]) = [] then None
        else Some \<lparr>bu_tenant = t', bu_day = d, bu_charged = totals mem_charge t' (m @ [(i, ?e)]),
          bu_reserved = totals mem_held t' (m @ [(i, ?e)])\<rparr>)" if "t' \<noteq> []" for t'
      using that \<open>\<And>t'. t' \<noteq> [] \<Longrightarrow> t' \<noteq> t \<Longrightarrow> find (owns_budget t' d) bs = _\<close> [of t'] sim
        \<open>find (owns_budget t d) bs = Some _\<close>
      by (cases "t' = t") (simp_all add: rows_snoc totals_snoc sim_def mem_charge_def mem_held_def)
    ultimately show ?thesis using dist fresh [OF that(3)] by (simp add: sim_def)
  qed
  show ?thesis
    using run
  proof (cases rule: reserve_cases)
    case added
    then have none: "mem_rows t m = []" using sim by (auto simp: sim_def split: if_splits)
    then have zero: "totals mem_charge t m = 0" "totals mem_held t m = 0" by (simp_all add: totals_def)
    have "sim d (m @ [(i, ?e)]) lg'"
      unfolding added(7)
    proof (rule after [OF added(2,3,5)])
      show "find (owns_budget t' d) (lg_budgets lg @ [\<lparr>bu_tenant = t, bu_day = d, bu_charged = 0,
          bu_reserved = n\<rparr>]) = find (owns_budget t' d) (lg_budgets lg)" if "t' \<noteq> t" for t'
        using that by (auto simp: find_append owns_budget_iff split: option.split)
      show "find (owns_budget t d) (lg_budgets lg @ [\<lparr>bu_tenant = t, bu_day = d, bu_charged = 0,
          bu_reserved = n\<rparr>]) = Some \<lparr>bu_tenant = t, bu_day = d, bu_charged = totals mem_charge t m,
            bu_reserved = totals mem_held t m + n\<rparr>"
        using added(2,6) zero by (simp add: find_append owns_budget_iff)
    qed
    then show ?thesis using added zero fresh by (simp add: mem_reserve_eq update_fresh)
  next
    case (held b)
    then have some: "mem_rows t m \<noteq> []" and b: "b = \<lparr>bu_tenant = t, bu_day = d,
        bu_charged = totals mem_charge t m, bu_reserved = totals mem_held t m\<rparr>"
      using sim by (auto simp: sim_def split: if_splits)
    have "sim d (m @ [(i, ?e)]) lg'"
      unfolding held(8)
    proof (rule after [OF held(2,3,5)])
      show "find (owns_budget t' d) (map (hold t d n) (lg_budgets lg)) = find (owns_budget t' d) (lg_budgets lg)"
        if ne: "t' \<noteq> t" for t'
      proof -
        have "hold t d n x = x" if "find (owns_budget t' d) (lg_budgets lg) = Some x" for x
          using that ne by (auto simp: hold_def owns_budget_iff find_Some_iff)
        then show ?thesis
          by (cases "find (owns_budget t' d) (lg_budgets lg)")
            (simp_all add: find_map_same [of "owns_budget t' d" "hold t d n"])
      qed
      show "find (owns_budget t d) (map (hold t d n) (lg_budgets lg)) = Some \<lparr>bu_tenant = t, bu_day = d,
          bu_charged = totals mem_charge t m, bu_reserved = totals mem_held t m + n\<rparr>"
        using held(2,6) b find_map_same [of "owns_budget t d" "hold t d n"]
        by (simp add: hold_def owns_budget_iff)
    qed
    then show ?thesis using held b fresh by (simp add: mem_reserve_eq update_fresh)
  next
    case refused
    have "n < 1 \<or> limit < totals mem_charge t m + totals mem_held t m + n"
    proof (rule ccontr)
      assume no: "\<not> (n < 1 \<or> limit < totals mem_charge t m + totals mem_held t m + n)"
      with refused(3) nonneg obtain b where b: "find (owns_budget t d) (lg_budgets lg) = Some b"
        "limit < bu_charged b + bu_reserved b + n" by auto
      from b(1) have "t \<noteq> []" by (auto simp: find_Some_iff owns_budget_iff)
      with sim b no show False by (auto simp: sim_def split: if_splits)
    qed
    with refused sim show ?thesis by (auto simp: mem_reserve_eq)
  next
    case broken
    with sql show ?thesis by simp
  qed
qed

lemma sim_open:
  assumes "list_all2 (row_entry d) rows m" and "distinct (map fst m)"
  shows "case find (open_usage t i) rows of
      None \<Rightarrow> \<nexists>n u. map_of m i = Some (t, n, u, ''reserved'')
    | Some row \<Rightarrow> map_of m i = Some (t, us_reserved row, None, ''reserved'') \<and> us_day row = d \<and> t \<noteq> []"
  using assms
proof (induction rule: list_all2_induct)
  case (Cons r rs e es)
  obtain j t' n' u' o' where e: "e = (j, t', n', u', o')" by (cases e)
  have re: "row_entry d r (j, t', n', u', o')" using Cons.hyps(1) e by simp
  have notin: "map_of es j = None" using Cons.prems e by (auto simp: map_of_eq_None_iff)
  show ?case
  proof (cases "i = j")
    case False
    with re have "\<not> open_usage t i r" by (auto simp: open_usage_iff)
    with Cons.IH Cons.prems False show ?thesis
      unfolding e by (cases "find (open_usage t i) rs") simp_all
  next
    case True
    show ?thesis
    proof (cases "open_usage t i r")
      case True
      with re have "u' = None" by (cases u') (auto simp: open_usage_iff)
      with True re \<open>i = j\<close> e show ?thesis by (auto simp: open_usage_iff)
    next
      case no: False
      have "find (open_usage t i) rs = None"
      proof (rule ccontr)
        assume "find (open_usage t i) rs \<noteq> None"
        with Cons notin True e show False by auto
      qed
      moreover have "\<nexists>n u. map_of (e # es) i = Some (t, n, u, ''reserved'')"
        using no re True e by (auto simp: open_usage_iff)
      ultimately show ?thesis using no by simp
    qed
  qed
qed simp

lemma settle_simulates:
  assumes sim: "sim d m lg" and run: "ledger_settle t i u outcome lg = (r, lg')"
    and sql: "r \<noteq> Inl OtherSQLAlchemyError" and oc: "outcome \<noteq> ''reserved''"
    and total: "case u of None \<Rightarrow> True | Some u \<Rightarrow> 0 \<le> usage_total u"
  shows "\<exists>m'. mem_settle t i u outcome m = (r, m') \<and> sim d m' lg'"
proof -
  have rows: "list_all2 (row_entry d) (lg_usage lg) m" and dist: "distinct (map fst m)"
    using sim by (simp_all add: sim_def)
  note op = sim_open [OF rows dist, where t = t and i = i]
  show ?thesis
    using run
  proof (cases rule: settle_cases)
    case unknown
    with op have "\<nexists>n u. map_of m i = Some (t, n, u, ''reserved'')" by simp
    then have "mem_settle t i u outcome m = (Inr (), m)"
      by (auto simp: mem_settle_def split: option.split)
    with unknown sim show ?thesis by simp
  next
    case (settled row)
    let ?e = "(t, us_reserved row, u, outcome) :: mem_entry"
    let ?m = "map (put i ?e) m"
    let ?c = "case u of None \<Rightarrow> us_reserved row | Some u \<Rightarrow> usage_total u"
    from op settled(2) have m: "map_of m i = Some (t, us_reserved row, None, ''reserved'')"
      "us_day row = d" "t \<noteq> []" by simp_all
    have i: "i \<in> fst ` set m" using m(1) by (force dest: map_of_SomeD)
    have "mem_settle t i u outcome m = (Inr (), ?m)"
      using m(1) update_known [OF dist i, of ?e] by (simp add: mem_settle_def)
    moreover have "list_all2 (row_entry d) (lg_usage lg') ?m"
    proof -
      have step: "row_entry d (if open_usage t i r
         then r\<lparr>us_input := tu_input (case u of None \<Rightarrow> no_usage | Some u \<Rightarrow> u),
                us_output := tu_output (case u of None \<Rightarrow> no_usage | Some u \<Rightarrow> u),
                us_cached := tu_cached (case u of None \<Rightarrow> no_usage | Some u \<Rightarrow> u),
                us_request := tu_request_id (case u of None \<Rightarrow> no_usage | Some u \<Rightarrow> u),
                us_outcome := outcome\<rparr> else r) (put i ?e x)"
        if "row_entry d r x" "x \<in> set m" for r x
      proof (cases "fst x = i")
        case True
        with that(2) dist m(1) have "x = (i, t, us_reserved row, None, ''reserved'')"
          by (metis map_of_is_SomeI option.inject prod.collapse)
        with that(1) total oc m(3) True show ?thesis
          by (auto simp: put_def open_usage_iff no_usage_def split: option.splits)
      next
        case False
        with that(1) show ?thesis by (cases x) (auto simp: put_def open_usage_iff)
      qed
      show ?thesis
        unfolding settled(3) list_all2_map1 list_all2_map2
        by (rule list.rel_mono_strong [OF rows]) (rule step)
    qed
    moreover have "distinct (map fst ?m)"
    proof -
      have "map fst ?m = map fst m" by (auto simp: put_def)
      then show ?thesis using dist by (simp only:)
    qed
    moreover have "find (owns_budget t' d) (lg_budgets lg') = (if mem_rows t' ?m = [] then None
        else Some \<lparr>bu_tenant = t', bu_day = d, bu_charged = totals mem_charge t' ?m,
          bu_reserved = totals mem_held t' ?m\<rparr>)" if t': "t' \<noteq> []" for t'
    proof -
      have "find (owns_budget t' d) (lg_budgets lg')
          = map_option (move t d (us_reserved row) ?c) (find (owns_budget t' d) (lg_budgets lg))"
        using settled(4) m(2) by (simp add: find_map_same [of "owns_budget t' d"])
      moreover have "totals f t' ?m = totals f t' m
          + (if t' = t then f ?e - f (t, us_reserved row, None, ''reserved'') else 0)" for f
        by (rule totals_put [OF dist m(1)])
      ultimately show ?thesis
        using sim t' oc rows_put [OF m(1) dist, where t' = t' and e' = "(us_reserved row, u, outcome)"]
        by (auto simp: sim_def move_def owns_budget_iff mem_charge_def mem_held_def)
    qed
    ultimately show ?thesis using settled(1) by (auto simp: sim_def)
  next
    case broken
    with sql show ?thesis by simp
  qed
qed

lemma summary_simulates:
  assumes sim: "sim d m lg"
  shows "ledger_summary limit d d t lg = mem_summary limit t m"
proof -
  have rows: "list_all2 (row_entry d) (lg_usage lg) m" using sim by (simp add: sim_def)
  have "map g (usage_of t d lg) = map f (mem_rows t m)"
    if "\<And>r e. row_entry d r e \<Longrightarrow> g r = f (snd e)" for g :: "usage_row \<Rightarrow> int" and f
    unfolding usage_of_def by (rule sim_rows [OF rows, where g = g and f = f]) (rule that)
  from this [of us_input "mem_usage tu_input"] this [of us_output "mem_usage tu_output"]
    this [of us_cached "mem_usage tu_cached"]
  have maps: "map us_input (usage_of t d lg) = map (mem_usage tu_input) (mem_rows t m)"
    "map us_output (usage_of t d lg) = map (mem_usage tu_output) (mem_rows t m)"
    "map us_cached (usage_of t d lg) = map (mem_usage tu_cached) (mem_rows t m)"
    by (fastforce simp: mem_usage_def)+
  have len: "length (usage_of t d lg) = length (mem_rows t m)"
    using arg_cong [OF maps(1), of length] by simp
  show ?thesis
  proof (cases "t = []")
    case True
    have "mem_rows t m = []"
      using sim_tenants [OF rows] True by (auto simp: mem_rows_def filter_empty_conv)
    moreover have "find (owns_budget t d) (lg_budgets lg) = None"
      using True by (auto simp: find_None_iff owns_budget_iff)
    ultimately show ?thesis using maps len by (simp add: ledger_summary_def mem_summary_def Let_def)
  next
    case False
    with sim maps len show ?thesis
      by (simp add: ledger_summary_def mem_summary_def sim_def totals_def Let_def)
  qed
qed

fun call_on :: "int \<Rightarrow> ledger_call \<Rightarrow> bool" where
  "call_on d (Reserve i day t n model) \<longleftrightarrow> day = d"
| "call_on d (Settle t i u outcome) \<longleftrightarrow> outcome \<noteq> ''reserved''
     \<and> (case u of None \<Rightarrow> True | Some u \<Rightarrow> 0 \<le> usage_total u)"
| "call_on d (Summary day t) \<longleftrightarrow> day = d"

lemma call_simulates:
  assumes "sim d m lg" and "ledger_run limit c lg = (r, lg')" and "call_on d c"
    and "r \<noteq> Inl OtherSQLAlchemyError"
  shows "\<exists>m'. mem_run limit c m = (r, m') \<and> sim d m' lg'"
proof (cases c)
  case (Reserve i day t n model)
  obtain r0 l0 where run: "ledger_reserve limit i d t n model lg = (r0, l0)" by fastforce
  with assms Reserve have "r0 \<noteq> Inl OtherSQLAlchemyError" by (auto simp: effect_defs)
  from reserve_simulates [OF assms(1) run this] obtain m' where
    "mem_reserve limit i t n m = (r0, m')" "sim d m' l0" by blast
  with run assms Reserve show ?thesis by (auto simp: effect_defs split: sum.splits)
next
  case (Settle t i u outcome)
  obtain r0 l0 where run: "ledger_settle t i u outcome lg = (r0, l0)" by fastforce
  with assms Settle have "r0 \<noteq> Inl OtherSQLAlchemyError" by (auto simp: effect_defs)
  from settle_simulates [OF assms(1) run this] assms(3) Settle obtain m' where
    "mem_settle t i u outcome m = (r0, m')" "sim d m' l0" by auto
  with run assms Settle show ?thesis by (auto simp: effect_defs split: sum.splits)
next
  case (Summary day t)
  with assms summary_simulates [OF assms(1)] show ?thesis by (auto simp: effect_defs)
qed

lemma history_simulates:
  assumes "sim d m lg" and "list_all (call_on d) cs"
    and "replies (ledger_run limit) cs lg = (rs, lg')" and "Inl OtherSQLAlchemyError \<notin> set rs"
  shows "fst (replies (mem_run limit) cs m) = rs"
  using assms
proof (induction cs arbitrary: m lg rs)
  case (Cons c cs)
  obtain r l1 where c: "ledger_run limit c lg = (r, l1)" by fastforce
  obtain rs' l2 where cs: "replies (ledger_run limit) cs l1 = (rs', l2)" by fastforce
  from Cons.prems c cs have rs: "rs = r # rs'" "l2 = lg'" by auto
  from call_simulates [OF Cons.prems(1) c] Cons.prems rs obtain m1 where
    m1: "mem_run limit c m = (r, m1)" "sim d m1 l1" by auto
  from Cons.IH [OF m1(2) _ cs [unfolded rs(2)]] Cons.prems rs have "fst (replies (mem_run limit) cs m1) = rs'"
    by simp
  with m1 rs show ?case by (auto split: prod.splits)
qed simp

lemma empty_simulates: "sim d [] empty_ledger"
  by (simp add: sim_def empty_ledger_def mem_rows_def)

section \<open>Properties\<close>


definition demo_usage :: token_usage where
  "demo_usage = \<lparr>tu_input = 20, tu_output = 10, tu_cached = 5, tu_request_id = None\<rparr>"

definition demo_history :: "ledger_call list" where
  "demo_history = [Reserve 1 7 (ascii ''a'') 60 ''m'', Reserve 2 7 (ascii ''a'') 50 ''m'',
     Settle (ascii ''a'') 1 (Some demo_usage) ''completed'', Reserve 2 7 (ascii ''a'') 50 ''m'',
     Settle (ascii ''a'') 2 None ''unknown'', Settle (ascii ''a'') 2 None ''unknown'',
     Summary 7 (ascii ''a'')]"


text \<open>
  C30: on one day the tables answer as the in-memory ledger. For every history of calls of one
  UTC day in which the database reports no error of its own, \<open>PostgresUsageLedger\<close> gives the
  replies of \<open>InMemoryUsageLedger\<close>: the same reservations are granted and refused, settling
  twice changes nothing, and every summary shows the same totals.
\<close>

theorem ledger_refines_memory:
  assumes "list_all (call_on d) cs" and "replies (ledger_run limit) cs empty_ledger = (rs, lg)"
    and "Inl OtherSQLAlchemyError \<notin> set rs"
  shows "fst (replies (mem_run limit) cs []) = rs"
  by (rule history_simulates [OF empty_simulates assms])

lemma ledger_refines_memory_witness:
  "fst (replies (mem_run 100) demo_history []) = fst (replies (ledger_run 100) demo_history empty_ledger)
   \<and> map isl (fst (replies (mem_run 100) demo_history [])) = [False, True, False, False, False, False, False]"
proof -
  have on: "list_all (call_on 7) demo_history" by code_simp
  have sql: "Inl OtherSQLAlchemyError \<notin> set (fst (replies (ledger_run 100) demo_history empty_ledger))"
    by code_simp
  have "map isl (fst (replies (ledger_run 100) demo_history empty_ledger))
      = [False, True, False, False, False, False, False]" by code_simp
  with ledger_refines_memory [OF on surjective_pairing sql] show ?thesis by simp
qed

end
