(* ===== verification/QueryService.thy ===== *)
theory QueryService
  imports Retrieval Answering
begin

text \<open>
  The query service: orchestration of one question (\<open>service.py\<close>), the process-owned clients
  (\<open>runtime.py\<close>) and the internal HTTP boundary (\<open>query/main.py\<close>). The embedder, pgvector, the
  full-text functions and the HTTP client of the provider are parameters; timing is left out.
\<close>

section \<open>Cited entities and sources\<close>

fun occurs :: "ustr \<Rightarrow> ustr \<Rightarrow> bool" where
  \<comment> \<open>\<open>k in t\<close>\<close>
  "occurs k [] = (k = [])"
| "occurs k (c # cs) = (take (length k) (c # cs) = k \<or> occurs k cs)"

type_synonym citation_key = "uuid \<times> ustr \<times> string"

definition citation_key :: "unicode \<Rightarrow> uuid \<Rightarrow> entity \<Rightarrow> citation_key" where
  "citation_key un doc e = (doc, normalized un (en_text e), en_label e)"

fun cite_entities ::
  "unicode \<Rightarrow> uuid \<Rightarrow> ustr list \<Rightarrow> entity list \<Rightarrow> (citation_key \<times> cited_entity) list
   \<Rightarrow> (citation_key \<times> cited_entity) list" where
  "cite_entities un doc passages [] result = result"
| "cite_entities un doc passages (e # es) result =
     (let key = citation_key un doc e; name = normalized un (en_text e)
      in if name \<noteq> [] \<and> list_ex (occurs name) passages \<and> map_of result key = None
         then cite_entities un doc passages es (result @ [(key,
           \<lparr>ce_text = en_text e, ce_label = en_label e, ce_count = en_count e, ce_document = doc\<rparr>)])
         else cite_entities un doc passages es result)"

definition cited_passages :: "unicode \<Rightarrow> search_hit list \<Rightarrow> uuid \<Rightarrow> ustr list" where
  "cited_passages un hits doc =
     map (\<lambda>h. normalized un (ck_text (sh_chunk h))) (filter (\<lambda>h. sh_document h = doc) hits)"

definition cited_entities :: "unicode \<Rightarrow> search_hit list \<Rightarrow> stored_document list \<Rightarrow> cited_entity list" where
  "cited_entities un hits documents =
     map snd (foldl (\<lambda>result d. cite_entities un (sd_id d) (cited_passages un hits (sd_id d)) (sd_entities d) result)
       [] documents)"

definition source_of :: "search_hit \<Rightarrow> source" where
  "source_of h = \<lparr>so_document = sh_document h, so_page = ck_page (sh_chunk h), so_ord = ck_ord (sh_chunk h),
     so_start = ck_start (sh_chunk h), so_end = ck_end (sh_chunk h), so_text = ck_text (sh_chunk h),
     so_score = sh_score h\<rparr>"

section \<open>One question\<close>

record 'e query_service =
  qs_unicode :: unicode
  qs_postgres :: postgres
  qs_embed :: "ustr \<Rightarrow> pyfloat list result"
  qs_fallback :: "'e fallback"
  qs_settings :: query_settings

definition query_documents :: "ustr \<Rightarrow> search_hit list \<Rightarrow> (session, stored_document list) proc" where
  \<comment> \<open>the documents of the hits, those that are there\<close>
  "query_documents tenant hits =
     (let load = (\<lambda>doc_id found. bindE (reader_get_document tenant doc_id) (\<lambda>d.
            returnE (found @ (case d of None \<Rightarrow> [] | Some document \<Rightarrow> [document]))))
      in foldl (\<lambda>m doc_id. bindE m (load doc_id)) (returnE []) (fromkeys (map sh_document hits)))"

definition query_snapshot ::
  "'e query_service \<Rightarrow> ustr \<Rightarrow> query_request \<Rightarrow> pyfloat list
   \<Rightarrow> (db, search_hit list \<times> stored_document list) proc" where
  "query_snapshot qs tenant request vector =
     snapshot tenant
       (bindE (retrieve (qs_unicode qs) (qs_postgres qs) tenant request vector
            (query_top_k_max (qs_settings qs)) (rrf_k (qs_settings qs))) (\<lambda>hits.
          bindE (query_documents tenant hits) (\<lambda>documents. returnE (hits, documents))))"

definition query_answer ::
  "'e query_service \<Rightarrow> query_request \<Rightarrow> search_hit list \<Rightarrow> stored_document list \<Rightarrow> generation
   \<Rightarrow> generation_info \<Rightarrow> query_response result" where
  \<comment> \<open>\<open>_response\<close>\<close>
  "query_answer qs request hits documents generation provider =
     (case assess_generation (qs_unicode qs) generation provider hits (abstain_threshold (qs_settings qs)) of
        (value, abstained, cited) \<Rightarrow>
          let returned = (if abstained then hits else cited)
          in if \<not> (0 \<le> value \<and> value \<le> 1) then Inl ValidationError
             else Inr \<lparr>qr_answer = (if abstained then [] else ge_answer generation),
               qr_confidence = value, qr_abstained = abstained, qr_sources = map source_of returned,
               qr_entities = (if abstained then [] else cited_entities (qs_unicode qs) cited documents),
               qr_top_k = min (rq_top_k request) (int (query_top_k_max (qs_settings qs))),
               qr_hits = length hits, qr_generation = provider\<rparr>)"

definition service_query ::
  "'e query_service \<Rightarrow> ustr \<Rightarrow> query_request \<Rightarrow> db \<Rightarrow> ('e, query_response) proc" where
  \<comment> \<open>the snapshot is closed before the provider is called\<close>
  "service_query qs tenant request d =
     (case qs_embed qs (rq_question request) of
        Inl x \<Rightarrow> raiseE (if is_value_error x then QuestionTooLong else x)
      | Inr vector \<Rightarrow>
          bindE (liftE (fst (query_snapshot qs tenant request vector d))) (\<lambda>(hits, documents).
          bindE (generate (qs_unicode qs) (qs_fallback qs) tenant (rq_question request)
              (map (\<lambda>h. ck_text (sh_chunk h)) hits)) (\<lambda>(generation, provider).
            liftE (query_answer qs request hits documents generation provider))))"

section \<open>The process\<close>

record query_runtime =
  qt_key :: "string option" \<comment> \<open>the key the service was built with, if it was\<close>
  qt_hosted :: hosted_env
  qt_db :: db

record query_config =
  qc_settings :: query_settings
  qc_secret :: "string \<Rightarrow> string result" \<comment> \<open>the stripped text of a secret file\<close>
  qc_unicode :: unicode
  qc_postgres :: postgres
  qc_embed :: "ustr \<Rightarrow> pyfloat list result"
  qc_conversions :: conversions
  qc_post :: "nat \<Rightarrow> json \<Rightarrow> http_reply result"

definition runtime_key :: "query_config \<Rightarrow> string result" where
  "runtime_key qc =
     (case openai_api_key_file (qc_settings qc) of
        None \<Rightarrow> Inr (api_key (qc_settings qc) (\<lambda>_. []))
      | Some f \<Rightarrow>
          (case qc_secret qc f of
             Inl e \<Rightarrow> Inl e | Inr v \<Rightarrow> Inr (api_key (qc_settings qc) (\<lambda>_. v))))"

definition runtime_service :: "query_config \<Rightarrow> string \<Rightarrow> hosted_env query_service" where
  "runtime_service qc key =
     \<lparr>qs_unicode = qc_unicode qc, qs_postgres = qc_postgres qc, qs_embed = qc_embed qc,
      qs_fallback = runtime_fallback (qc_conversions qc) (qc_settings qc) (qc_post qc) key,
      qs_settings = qc_settings qc\<rparr>"

definition get_service :: "query_config \<Rightarrow> (query_runtime, hosted_env query_service) proc" where
  \<comment> \<open>built once, with a fresh pool, under the lock\<close>
  "get_service qc rt =
     (case qt_key rt of
        Some key \<Rightarrow> (Inr (runtime_service qc key), rt)
      | None \<Rightarrow>
          (case runtime_key qc of
             Inl e \<Rightarrow> (Inl e, rt)
           | Inr key \<Rightarrow> (Inr (runtime_service qc key),
               rt\<lparr>qt_key := Some key, qt_hosted := (qt_hosted rt)\<lparr>he_pool :=
                 new_pool (llm_concurrency (qc_settings qc)) (llm_breaker_failures (qc_settings qc))
                   (llm_breaker_seconds (qc_settings qc))\<rparr>\<rparr>)))"

definition runtime_ready :: "query_config \<Rightarrow> unit result \<Rightarrow> (query_runtime, unit) proc" where
  \<comment> \<open>\<open>ping\<close> is the outcome of \<open>SELECT 1\<close>\<close>
  "runtime_ready qc ping =
     thenE (get_service qc) (thenE (liftE ping)
       (bindE (liftE (qc_embed qc (ascii ''readiness''))) (\<lambda>_. returnE ())))"

section \<open>The HTTP boundary\<close>

datatype query_reply =
    ErrorReply nat string ustr
  | Answered query_response
  | Usage usage_summary
  | Healthy
  | Ready

definition query_caught :: "exn \<Rightarrow> bool" where
  \<comment> \<open>\<open>except (SQLAlchemyError, OSError, RuntimeError, ValueError)\<close>\<close>
  "query_caught e \<longleftrightarrow> is_sqlalchemy_error e \<or> is_os_error e \<or> is_runtime_error e \<or> is_value_error e"

definition invalid_tenant :: query_reply where
  "invalid_tenant = ErrorReply 400 ''invalid_tenant'' (ascii ''A valid X-Tenant-Id header is required'')"

definition unavailable :: query_reply where
  "unavailable = ErrorReply 503 ''query_unavailable'' (ascii ''Query dependencies unavailable'')"

definition question_too_long :: query_reply where
  "question_too_long = ErrorReply 400 ''question_too_long''
     (ascii ''Question exceeds the 126 content token limit; refusing truncation'')"

definition unexpected_error :: query_reply where
  "unexpected_error = ErrorReply 500 ''internal_error'' (ascii ''Query operation failed'')"

definition validation_error :: query_reply where
  "validation_error = ErrorReply 422 ''validation_error'' (ascii ''Invalid query request'')"

definition or_unexpected :: "('s, query_reply) proc \<Rightarrow> 's \<Rightarrow> query_reply \<times> 's" where
  \<comment> \<open>the application's handler of the exceptions an endpoint lets through\<close>
  "or_unexpected m s = (case m s of (Inl e, s') \<Rightarrow> (unexpected_error, s') | (Inr r, s') \<Rightarrow> (r, s'))"

definition on_hosted :: "(hosted_env, 'a) proc \<Rightarrow> (query_runtime, 'a) proc" where
  "on_hosted m rt = (case m (qt_hosted rt) of (r, e) \<Rightarrow> (r, rt\<lparr>qt_hosted := e\<rparr>))"

definition query_endpoint ::
  "query_config \<Rightarrow> query_request \<Rightarrow> ustr option \<Rightarrow> (query_runtime, query_reply) proc" where
  "query_endpoint qc body tenant =
     (case tenant of
        None \<Rightarrow> returnE invalid_tenant
      | Some t \<Rightarrow>
          if \<not> valid_tenant t then returnE invalid_tenant
          else tryE
            (bindE (get_service qc) (\<lambda>qs rt.
               if int (query_top_k_max (qs_settings qs)) < rq_top_k body
               then (Inr (ErrorReply 422 ''validation_error''
                      (ascii ''top_k limit is '' @ str_nat (query_top_k_max (qs_settings qs)))), rt)
               else bindE (on_hosted (service_query qs t body (qt_db rt))) (\<lambda>r. returnE (Answered r)) rt))
            (\<lambda>e. if e = QuestionTooLong then returnE question_too_long
                 else if query_caught e then returnE unavailable else raiseE e))"

definition usage_endpoint ::
  "query_config \<Rightarrow> int \<Rightarrow> int \<Rightarrow> unit result \<Rightarrow> ustr option \<Rightarrow> (query_runtime, query_reply) proc" where
  \<comment> \<open>\<open>opened\<close> is the outcome of opening the transaction\<close>
  "usage_endpoint qc day day' opened tenant =
     (case tenant of
        None \<Rightarrow> returnE invalid_tenant
      | Some t \<Rightarrow>
          if \<not> valid_tenant t then returnE invalid_tenant
          else thenE (liftE opened) (readE (\<lambda>rt.
            Usage (ledger_summary (llm_daily_tokens (qc_settings qc)) day day' t (he_ledger (qt_hosted rt))))))"

definition ready_endpoint :: "query_config \<Rightarrow> unit result \<Rightarrow> (query_runtime, query_reply) proc" where
  "ready_endpoint qc ping =
     tryE (thenE (runtime_ready qc ping) (returnE Ready))
       (\<lambda>e. if query_caught e
            then returnE (ErrorReply 503 ''not_ready'' (ascii ''Query dependencies unavailable'')) else raiseE e)"

datatype query_http =
    PostQuery "query_request result" "ustr option"
  | GetUsage int int "unit result" "ustr option"
  | GetReady "unit result"
  | GetHealth

definition query_app :: "query_config \<Rightarrow> query_http \<Rightarrow> query_runtime \<Rightarrow> query_reply \<times> query_runtime" where
  \<comment> \<open>the routes of \<open>create_app\<close>; a body that does not validate never reaches its endpoint\<close>
  "query_app qc http =
     (case http of
        PostQuery (Inl _) _ \<Rightarrow> Pair validation_error
      | PostQuery (Inr body) tenant \<Rightarrow> or_unexpected (query_endpoint qc body tenant)
      | GetUsage day day' opened tenant \<Rightarrow> or_unexpected (usage_endpoint qc day day' opened tenant)
      | GetReady ping \<Rightarrow> or_unexpected (ready_endpoint qc ping)
      | GetHealth \<Rightarrow> Pair Healthy)"

end
