(* ===== verification/AnsweringLaws.thy ===== *)
theory AnsweringLaws
  imports Answering
begin

text \<open>
  A hosted reply is either well cited or a \<open>ProviderFailure\<close> that keeps the reported usage; and
  every reservation is settled, whatever the provider does.
\<close>

section \<open>Parsing\<close>

lemma bindR_Inr: "bindR r f = Inr b \<longleftrightarrow> (\<exists>a. r = Inr a \<and> f a = Inr b)"
  by (auto simp: bindR_def split: sum.splits)

lemma bindR_Inl: "bindR r f = Inl e \<longleftrightarrow> r = Inl e \<or> (\<exists>a. r = Inr a \<and> f a = Inl e)"
  by (auto simp: bindR_def split: sum.splits)

definition tame :: "'a result \<Rightarrow> bool" where
  \<comment> \<open>whatever it raises, the provider's \<open>except\<close> clause catches\<close>
  "tame r \<longleftrightarrow> (\<forall>e. r = Inl e \<longrightarrow> malformed e)"

named_theorems tame_intros

lemma tame_bind [tame_intros]: "tame r \<Longrightarrow> (\<And>a. tame (f a)) \<Longrightarrow> tame (bindR r f)"
  by (auto simp: tame_def bindR_Inl)

lemma tame_return [tame_intros]: "tame (Inr a)"
  by (simp add: tame_def)

lemma tame_raise [tame_intros]:
  "tame (Inl (ValueError s))" "tame (Inl ValidationError)" "tame (Inl TypeError)"
  by (simp_all add: tame_def malformed_def is_value_error_def)

lemma tame_if [tame_intros]: "tame r \<Longrightarrow> tame r' \<Longrightarrow> tame (if b then r else r')"
  by simp

lemma tame_json [tame_intros]: "tame (jget j k)" "tame (jitem j k)" "tame (jiter j)" "tame (count_field cv j)"
  by (auto simp: tame_def jget_def jitem_def jiter_def count_field_def malformed_def is_value_error_def
      split: json.splits option.splits if_splits)

lemma tame_map [tame_intros]: "(\<And>x. tame (f x)) \<Longrightarrow> tame (mapR f xs)"
  by (induction xs) (auto intro: tame_intros)

lemma tame_parts [tame_intros]: "tame (message_parts item)" "tame (any_refusal ps)" "tame (part_text p)"
proof -
  show "tame (message_parts item)" unfolding message_parts_def by (intro tame_intros)
  show "tame (any_refusal ps)" by (induction ps) (auto intro!: tame_intros)
  have "tame (case t of JStr t \<Rightarrow> Inr t | _ \<Rightarrow> Inl TypeError)" for t
    by (cases t) (simp_all add: tame_intros)
  then show "tame (part_text p)" unfolding part_text_def by (intro tame_intros)
qed

lemma tame_check [tame_intros]: "tame (check_generation n usage g)"
  unfolding check_generation_def Let_def by (intro tame_intros)

lemma tame_option [tame_intros]: "tame r \<Longrightarrow> (\<And>a. tame (f a)) \<Longrightarrow> tame (case x of None \<Rightarrow> r | Some a \<Rightarrow> f a)"
  by (cases x) simp_all

lemma usage_fields_raises: "usage_fields cv raw rid = Inl e \<Longrightarrow> malformed e"
proof -
  have "tame (usage_fields cv raw rid)" unfolding usage_fields_def by (intro tame_intros)
  then show "usage_fields cv raw rid = Inl e \<Longrightarrow> malformed e" by (simp add: tame_def)
qed

lemma parse_output_raises: "parse_output cv data n usage = Inl e \<Longrightarrow> malformed e"
proof -
  have "tame (parse_output cv data n usage)" unfolding parse_output_def Let_def by (intro tame_intros)
  then show "parse_output cv data n usage = Inl e \<Longrightarrow> malformed e" by (simp add: tame_def)
qed

lemma response_usage_raises:
  "response_usage cv data rid = Inl e \<Longrightarrow> \<exists>reason. e = ProviderFailure reason None
    \<and> reason \<in> {''invalid_usage'', ''invalid_output''}"
  using usage_fields_raises
  by (auto simp: response_usage_def split: json.splits option.splits if_splits sum.splits)

lemma check_generation_ok:
  "check_generation n usage g = Inr h \<Longrightarrow> ge_usage h = usage \<and> distinct (ge_indexes h)
    \<and> (if ge_supported h
       then strip (ge_answer h) \<noteq> [] \<and> ge_indexes h \<noteq> [] \<and> list_all (\<lambda>i. 0 \<le> i \<and> i < int n) (ge_indexes h)
       else ge_answer h = [] \<and> ge_indexes h = [])"
  by (auto simp: check_generation_def Let_def list_ex_iff list_all_iff not_le not_less split: if_splits)

section \<open>Settlement\<close>

locale token_ledger =
  fixes ls :: "'e ledger_service" and good :: "'e \<Rightarrow> bool"
    and held :: "'e \<Rightarrow> (uuid \<times> ustr \<times> int) set" and charged :: "'e \<Rightarrow> ustr \<Rightarrow> int"
  assumes reserve_law: "good e \<Longrightarrow> ls_reserve ls t n model e = (r, e') \<Longrightarrow> good e' \<and> charged e' = charged e
      \<and> (case r of Inl x \<Rightarrow> held e' = held e
         | Inr i \<Rightarrow> (\<forall>x. (i, x) \<notin> held e) \<and> held e' = insert (i, t, n) (held e))"
    and settle_law: "good e \<Longrightarrow> (i, t, n) \<in> held e \<Longrightarrow> outcome \<noteq> ''reserved'' \<Longrightarrow>
      ls_settle ls t i u outcome e = (r1, e') \<Longrightarrow> good e'
      \<and> (case r1 of Inl x \<Rightarrow> held e' = held e \<and> charged e' = charged e
         | Inr _ \<Rightarrow> held e' = held e - {(i, t, n)}
             \<and> charged e' = (charged e)(t := charged e t
                  + (case u of None \<Rightarrow> n | Some u \<Rightarrow> usage_total u)))"

definition due :: "int \<Rightarrow> generation result \<Rightarrow> int" where
  \<comment> \<open>what an attempt with this outcome costs: known usage, or the whole bound\<close>
  "due bound r = (case fst (settlement r) of None \<Rightarrow> bound | Some u \<Rightarrow> usage_total u)"

context token_ledger
begin

definition confined :: "('e, generation) proc \<Rightarrow> bool" where
  \<comment> \<open>a provider call does not touch the ledger and does not name its outcome \<open>reserved\<close>\<close>
  "confined m \<longleftrightarrow> (\<forall>e r e'. m e = (r, e') \<longrightarrow> snd (settlement r) \<noteq> ''reserved''
     \<and> (good e \<longrightarrow> good e' \<and> held e' = held e \<and> charged e' = charged e))"

lemma hosted_settles:
  assumes good: "good e" and ls: "fb_ledger fb = Some ls" and primary: "fb_primary fb = Some primary"
    and priv: "confined (primary question passages)"
    and bound: "token_bound (fb_max_output fb) question passages = Inr bound"
    and run: "hosted fb tenant question passages e = (r, e')"
  shows "good e' \<and> (held e' = held e \<and> charged e' = charged e
      \<or> held e' = held e \<and> charged e' = (charged e)(tenant := charged e tenant + due bound r)
      \<or> (\<exists>x e0 i usage outcome. ls_settle ls tenant i usage outcome e0 = (Inl x, e') \<and> r = Inl x))"
proof -
  obtain r1 e1 where rs: "ls_reserve ls tenant bound (fb_model fb) e = (r1, e1)" by fastforce
  note R = reserve_law [OF good rs]
  show ?thesis
  proof (cases r1)
    case (Inl x)
    with run rs ls primary bound have "e' = e1" by (auto simp: hosted_def effect_defs)
    with R Inl show ?thesis by simp
  next
    case (Inr i)
    obtain r2 e2 where p: "primary question passages e1 = (r2, e2)" by fastforce
    obtain usage outcome where st: "settlement r2 = (usage, outcome)" by fastforce
    obtain r3 e3 where se: "ls_settle ls tenant i usage outcome e2 = (r3, e3)" by fastforce
    have "snd (settlement r2) \<noteq> ''reserved'' \<and> (good e1 \<longrightarrow> good e2 \<and> held e2 = held e1 \<and> charged e2 = charged e1)"
      using priv p unfolding confined_def by blast
    with R st have P: "outcome \<noteq> ''reserved''" "good e2" "held e2 = held e1" "charged e2 = charged e1"
      by auto
    from R Inr have H: "held e1 = insert (i, tenant, bound) (held e)" "(i, tenant, bound) \<notin> held e"
      "charged e1 = charged e" by auto
    have "(i, tenant, bound) \<in> held e2" using P H by simp
    note S = settle_law [OF P(2) this P(1) se]
    have final: "(r, e') = (case r3 of Inl x \<Rightarrow> (Inl x, e3) | Inr _ \<Rightarrow> (r2, e3))"
      using run rs ls primary bound Inr p st se
      by (auto simp: hosted_def effect_defs split: sum.splits)
    show ?thesis
    proof (cases r3)
      case (Inl x)
      with final se S show ?thesis by auto
    next
      case (Inr u)
      with final S P H st show ?thesis by (auto simp: due_def)
    qed
  qed
qed

end

section \<open>The tables as a token ledger\<close>

definition ledger_sane :: "ledger \<Rightarrow> bool" where
  "ledger_sane lg \<longleftrightarrow> distinct (map us_id (lg_usage lg))
     \<and> distinct (map (\<lambda>b. (bu_tenant b, bu_day b)) (lg_budgets lg))
     \<and> (\<forall>r \<in> set (lg_usage lg). us_tenant r \<noteq> []
          \<and> (us_tenant r, us_day r) \<in> (\<lambda>b. (bu_tenant b, bu_day b)) ` set (lg_budgets lg))"

definition open_reservations :: "ledger \<Rightarrow> (uuid \<times> ustr \<times> int) set" where
  "open_reservations lg = set (map (\<lambda>r. (us_id r, us_tenant r, us_reserved r))
     (filter (\<lambda>r. us_outcome r = ''reserved'') (lg_usage lg)))"

definition charged_total :: "ledger \<Rightarrow> ustr \<Rightarrow> int" where
  "charged_total lg t = sum_list (map bu_charged (filter (\<lambda>b. bu_tenant b = t) (lg_budgets lg)))"

lemma key_hold [simp]: "(bu_tenant (hold t d n b), bu_day (hold t d n b)) = (bu_tenant b, bu_day b)"
  and key_move [simp]: "(bu_tenant (move t d n c b), bu_day (move t d n c b)) = (bu_tenant b, bu_day b)"
  by (simp_all add: hold_def move_def)

lemma charged_hold [simp]: "bu_charged (hold t d n b) = bu_charged b" "bu_tenant (hold t d n b) = bu_tenant b"
  "bu_day (hold t d n b) = bu_day b"
  by (simp_all add: hold_def)

lemma reserve_sane:
  assumes sane: "ledger_sane lg" and run: "ledger_reserve limit i d t n model lg = (r, lg')"
  shows "ledger_sane lg' \<and> charged_total lg' = charged_total lg
    \<and> (case r of Inl x \<Rightarrow> open_reservations lg' = open_reservations lg
       | Inr i \<Rightarrow> (\<forall>x. (i, x) \<notin> open_reservations lg)
           \<and> open_reservations lg' = insert (i, t, n) (open_reservations lg))"
  using run
proof (cases rule: reserve_cases)
  case added
  have "(t, d) \<notin> (\<lambda>b. (bu_tenant b, bu_day b)) ` set (lg_budgets lg)"
    using added(2,6) by (auto simp: find_None_iff owns_budget_iff)
  with added sane show ?thesis
    by (auto simp: ledger_sane_def open_reservations_def charged_total_def new_usage_def fun_eq_iff)
next
  case (held b)
  have "b \<in> set (lg_budgets lg) \<and> owns_budget t d b" using held(6) by (auto simp: find_Some_iff)
  then have td: "(t, d) \<in> (\<lambda>b. (bu_tenant b, bu_day b)) ` set (lg_budgets lg)"
    by (force simp: owns_budget_iff)
  have keys: "map (\<lambda>b. (bu_tenant b, bu_day b)) (map (hold t d n) (lg_budgets lg))
      = map (\<lambda>b. (bu_tenant b, bu_day b)) (lg_budgets lg)" by simp
  from arg_cong [OF this, of set] have set_keys: "(\<lambda>b. (bu_tenant b, bu_day b)) ` set (map (hold t d n) (lg_budgets lg))
      = (\<lambda>b. (bu_tenant b, bu_day b)) ` set (lg_budgets lg)" by (simp only: set_map)
  have "charged_total lg' = charged_total lg"
    using held(8) by (simp add: charged_total_def filter_map comp_def fun_eq_iff)
  moreover have "ledger_sane lg'"
    unfolding ledger_sane_def held(8) ledger.simps keys set_keys
    using sane td held(2,5) by (auto simp: ledger_sane_def new_usage_def)
  ultimately show ?thesis
    using held by (auto simp: open_reservations_def new_usage_def)
qed (use sane in auto)

lemma charged_move:
  assumes "distinct (map (\<lambda>b. (bu_tenant b, bu_day b)) bs)"
    and "(t, d) \<in> (\<lambda>b. (bu_tenant b, bu_day b)) ` set bs" and "t \<noteq> []"
  shows "sum_list (map bu_charged (filter (\<lambda>b. bu_tenant b = t') (map (move t d n c) bs)))
    = sum_list (map bu_charged (filter (\<lambda>b. bu_tenant b = t') bs)) + (if t' = t then c else 0)"
  using assms(1,2)
proof (induction bs)
  case (Cons b bs)
  show ?case
  proof (cases "(bu_tenant b, bu_day b) = (t, d)")
    case True
    with Cons.prems have "(t, d) \<notin> (\<lambda>b. (bu_tenant b, bu_day b)) ` set bs" by auto
    then have same: "map (move t d n c) bs = bs"
      by (intro map_idI) (auto simp: move_def owns_budget_iff)
    have "bu_charged (move t d n c b) = bu_charged b + c" "bu_tenant (move t d n c b) = t"
      using True assms(3) by (simp_all add: move_def owns_budget_iff)
    with True same show ?thesis by simp
  next
    case False
    then have "move t d n c b = b" by (auto simp: move_def owns_budget_iff)
    with False Cons show ?thesis by auto
  qed
qed simp

lemma settle_sane:
  assumes sane: "ledger_sane lg" and run: "ledger_settle t i u outcome lg = (r, lg')"
    and held: "(i, t, n) \<in> open_reservations lg" and oc: "outcome \<noteq> ''reserved''"
  shows "ledger_sane lg'
    \<and> (case r of Inl x \<Rightarrow> open_reservations lg' = open_reservations lg \<and> charged_total lg' = charged_total lg
       | Inr _ \<Rightarrow> open_reservations lg' = open_reservations lg - {(i, t, n)}
           \<and> charged_total lg' = (charged_total lg)(t := charged_total lg t
               + (case u of None \<Rightarrow> n | Some u \<Rightarrow> usage_total u)))"
proof -
  from held obtain q where q: "q \<in> set (lg_usage lg)" "us_id q = i" "us_tenant q = t" "us_reserved q = n"
    "us_outcome q = ''reserved''" by (auto simp: open_reservations_def)
  have dist: "distinct (map us_id (lg_usage lg))" and t: "t \<noteq> []"
    using sane q by (auto simp: ledger_sane_def)
  have open_q: "open_usage t i r \<longleftrightarrow> r = q" if "r \<in> set (lg_usage lg)" for r
    using that q t dist by (auto simp: open_usage_iff distinct_map dest: inj_onD)
  show ?thesis
    using run
  proof (cases rule: settle_cases)
    case unknown
    with open_q q show ?thesis by (auto simp: find_None_iff)
  next
    case (settled row)
    from settled(2) open_q have row: "row = q" by (auto simp: find_Some_iff)
    let ?f = "\<lambda>r. r\<lparr>us_input := tu_input (case u of None \<Rightarrow> no_usage | Some u \<Rightarrow> u),
                us_output := tu_output (case u of None \<Rightarrow> no_usage | Some u \<Rightarrow> u),
                us_cached := tu_cached (case u of None \<Rightarrow> no_usage | Some u \<Rightarrow> u),
                us_request := tu_request_id (case u of None \<Rightarrow> no_usage | Some u \<Rightarrow> u),
                us_outcome := outcome\<rparr>"
    let ?c = "case u of None \<Rightarrow> n | Some u \<Rightarrow> usage_total u"
    have usage: "lg_usage lg' = map (\<lambda>r. if r = q then ?f r else r) (lg_usage lg)"
      unfolding settled(3) using open_q by (intro map_cong) auto
    have budgets: "lg_budgets lg' = map (move t (us_day q) n ?c) (lg_budgets lg)"
      unfolding settled(4) row q(4) by (rule refl)
    have keys: "map (\<lambda>b. (bu_tenant b, bu_day b)) (lg_budgets lg')
        = map (\<lambda>b. (bu_tenant b, bu_day b)) (lg_budgets lg)" unfolding budgets by simp
    from arg_cong [OF this, of set] have set_keys: "(\<lambda>b. (bu_tenant b, bu_day b)) ` set (lg_budgets lg')
        = (\<lambda>b. (bu_tenant b, bu_day b)) ` set (lg_budgets lg)" by (simp only: set_map)
    have ids: "map us_id (lg_usage lg') = map us_id (lg_usage lg)" unfolding usage by simp
    have "ledger_sane lg'"
      unfolding ledger_sane_def ids keys set_keys using sane usage by (auto simp: ledger_sane_def)
    moreover have "open_reservations lg' = open_reservations lg - {(i, t, n)}"
    proof -
      have "\<forall>r \<in> set (lg_usage lg). r \<noteq> q \<longrightarrow> us_id r \<noteq> i"
        using q dist by (auto simp: distinct_map dest: inj_onD)
      with usage q oc show ?thesis by (auto simp: open_reservations_def)
    qed
    moreover have "charged_total lg' t' = charged_total lg t' + (if t' = t then ?c else 0)" for t'
      unfolding charged_total_def budgets
      using sane q t by (intro charged_move) (auto simp: ledger_sane_def)
    then have "charged_total lg' = (charged_total lg)(t := charged_total lg t + ?c)"
      by (auto simp: fun_eq_iff)
    ultimately show ?thesis using settled(1) by simp
  next
    case broken
    with sane show ?thesis by simp
  qed
qed

interpretation postgres: token_ledger "postgres_ledger limit" "\<lambda>e. ledger_sane (he_ledger e)"
    "\<lambda>e. open_reservations (he_ledger e)" "\<lambda>e. charged_total (he_ledger e)" for limit
proof (unfold_locales, goal_cases)
  case (1 e t n model r e')
  then obtain lg' where lg': "ledger_reserve limit (he_new e (he_calls e)) (he_day e (he_calls e)) t n model
      (he_ledger e) = (r, lg')" "he_ledger e' = lg'"
    by (auto simp: postgres_ledger_def on_ledger_def split: prod.splits)
  from reserve_sane [OF 1(1) lg'(1)] show ?case unfolding lg'(2) .
next
  case (2 e i t n outcome u r e')
  then obtain lg' where lg': "ledger_settle t i u outcome (he_ledger e) = (r, lg')" "he_ledger e' = lg'"
    by (auto simp: postgres_ledger_def on_ledger_def split: prod.splits)
  from settle_sane [OF 2(1) lg'(1) 2(2,3)] show ?case unfolding lg'(2) .
qed

section \<open>The adapter keeps to itself\<close>

definition foreign :: "(json \<Rightarrow> http_reply result) \<Rightarrow> bool" where
  \<comment> \<open>the HTTP client and the JSON decoder do not raise the adapter's own exception\<close>
  "foreign post \<longleftrightarrow> (\<forall>body. case post body of
     Inl e \<Rightarrow> \<nexists>reason u. e = ProviderFailure reason u
   | Inr reply \<Rightarrow> (case hr_json reply of Inl e \<Rightarrow> \<nexists>reason u. e = ProviderFailure reason u | Inr _ \<Rightarrow> True))"

definition own_reasons :: "string set" where
  "own_reasons = {''disabled'', ''busy'', ''circuit_open'', ''invalid_usage'', ''invalid_output''}"

lemma parse_response_cases:
  "(case parse_response cv data n rid of
      Inr g \<Rightarrow> distinct (ge_indexes g) \<and> response_usage cv data rid = Inr (ge_usage g)
        \<and> (if ge_supported g
           then strip (ge_answer g) \<noteq> [] \<and> ge_indexes g \<noteq> [] \<and> list_all (\<lambda>i. 0 \<le> i \<and> i < int n) (ge_indexes g)
           else ge_answer g = [] \<and> ge_indexes g = [])
    | Inl e \<Rightarrow> \<exists>reason u. e = ProviderFailure reason u \<and> reason \<in> {''invalid_usage'', ''invalid_output''}
        \<and> (\<forall>usage. response_usage cv data rid = Inr usage \<longrightarrow> u = usage))"
proof (cases "response_usage cv data rid")
  case (Inl e)
  with response_usage_raises [OF Inl] show ?thesis by (auto simp: parse_response_def)
next
  case (Inr usage)
  show ?thesis
  proof (cases "parse_output cv data n usage")
    case (Inl e)
    with Inr parse_output_raises [OF Inl] show ?thesis by (simp add: parse_response_def)
  next
    case g: (Inr g)
    then obtain g0 where "check_generation n usage g0 = Inr g"
      by (auto simp: parse_output_def bindR_Inr Let_def split: if_splits option.splits)
    from check_generation_ok [OF this] Inr g show ?thesis by (simp add: parse_response_def)
  qed
qed

lemma payload_raises: "payload s q ps = Inl e \<Longrightarrow> \<exists>m. e = ValueError m"
  by (auto simp: payload_def answer_schema_def split: sum.splits if_splits)

lemma openai_call_reasons:
  assumes "foreign post" and "openai_call cv s post q ps = Inl (ProviderFailure reason u)"
  shows "reason \<in> own_reasons"
proof (cases "payload s q ps")
  case (Inl e)
  with payload_raises [OF Inl] assms(2) show ?thesis by (simp add: openai_call_def bindR_def)
next
  case body: (Inr body)
  show ?thesis
  proof (cases "post body")
    case (Inl e)
    with body assms(2) have "post body = Inl (ProviderFailure reason u)" by (simp add: openai_call_def bindR_def)
    then show ?thesis using assms(1) [unfolded foreign_def, rule_format, of body] by simp
  next
    case reply: (Inr reply)
    with body assms(2) have call: "bindR (hr_json reply) (\<lambda>data. parse_response cv data (length ps) (hr_request_id reply))
        = Inl (ProviderFailure reason u)" by (simp add: openai_call_def bindR_def split: if_splits)
    show ?thesis
    proof (cases "hr_json reply")
      case (Inl e)
      with call have "hr_json reply = Inl (ProviderFailure reason u)" by (simp add: bindR_def)
      then show ?thesis using assms(1) [unfolded foreign_def, rule_format, of body] reply by simp
    next
      case (Inr data)
      with call have "parse_response cv data (length ps) (hr_request_id reply) = Inl (ProviderFailure reason u)"
        by (simp add: bindR_def)
      with parse_response_cases [where cv = cv and data = data and n = "length ps" and rid = "hr_request_id reply"] show ?thesis
        by (auto simp: own_reasons_def)
    qed
  qed
qed

lemma begin_call_reasons: "begin_call now p = (Inl e, p') \<Longrightarrow> \<exists>reason u. e = ProviderFailure reason u
    \<and> reason \<in> own_reasons \<and> u = Some no_usage"
  by (auto simp: begin_call_def own_reasons_def split: if_splits prod.splits option.splits)

lemma openai_primary_confined:
  assumes "\<forall>k. foreign (post k)"
  shows "postgres.confined (openai_primary cv s post key q ps)"
  unfolding postgres.confined_def
proof (intro allI impI conjI)
  fix e r e'
  assume run: "openai_primary cv s post key q ps e = (r, e')"
  let ?call = "openai_call cv s (post (he_calls e)) q ps"
  from run have led: "he_ledger e' = he_ledger e"
    by (auto simp: openai_primary_def Let_def split: prod.splits)
  obtain p where r: "openai_generate key ?call (he_clock e (he_calls e)) (he_clock e (Suc (he_calls e)))
      (he_pool e) = (r, p)"
    using run by (auto simp: openai_primary_def Let_def split: prod.splits)
  have reasons: "reason \<in> own_reasons" if "r = Inl (ProviderFailure reason u)" for reason u
  proof -
    from r that consider "reason = ''disabled''" | now p0 where "begin_call now (he_pool e) = (Inl (ProviderFailure reason u), p0)"
      | "?call = Inl (ProviderFailure reason u)"
      by (auto simp: openai_generate_def split: if_splits prod.splits sum.splits)
    then show ?thesis
    proof cases
      case 1
      then show ?thesis by (simp add: own_reasons_def)
    next
      case 2
      from begin_call_reasons [OF this(1)] show ?thesis by auto
    next
      case 3
      from openai_call_reasons [OF spec [OF assms] 3] show ?thesis .
    qed
  qed
  show "snd (settlement r) \<noteq> ''reserved''"
    using reasons by (auto simp: settlement_def own_reasons_def split: sum.splits exn.splits if_splits)
  show "ledger_sane (he_ledger e')" if "ledger_sane (he_ledger e)" using that led by simp
  show "open_reservations (he_ledger e') = open_reservations (he_ledger e)"
    "charged_total (he_ledger e') = charged_total (he_ledger e)" using led by simp_all
qed

section \<open>Properties\<close>

text \<open>
  C33: a response is accepted only if it is well cited. For any JSON at all, parsing either
  returns a generation with distinct citations inside the passages and a nonblank answer if it
  claims support, and neither answer nor citations if it does not, or it raises the adapter's
  own \<open>ProviderFailure\<close>; in both cases the token usage the response reported is kept.
\<close>

theorem hosted_replies_are_checked:
  "(case parse_response cv data n rid of
      Inr g \<Rightarrow> distinct (ge_indexes g) \<and> response_usage cv data rid = Inr (ge_usage g)
        \<and> (if ge_supported g
           then strip (ge_answer g) \<noteq> [] \<and> ge_indexes g \<noteq> [] \<and> list_all (\<lambda>i. 0 \<le> i \<and> i < int n) (ge_indexes g)
           else ge_answer g = [] \<and> ge_indexes g = [])
    | Inl e \<Rightarrow> \<exists>reason u. e = ProviderFailure reason u \<and> reason \<in> {''invalid_usage'', ''invalid_output''}
        \<and> (\<forall>usage. response_usage cv data rid = Inr usage \<longrightarrow> u = usage))"
  by (rule parse_response_cases)

definition demo_conversions :: conversions where
  "demo_conversions = \<lparr>cv_int = (\<lambda>j. case j of JInt n \<Rightarrow> Some n | _ \<Rightarrow> None),
     cv_generation = (\<lambda>t. Some \<lparr>ge_answer = t, ge_supported = True, ge_indexes = [0, 0], ge_usage = None\<rparr>)\<rparr>"

definition demo_reply :: "string \<Rightarrow> json" where
  "demo_reply status = jobj [(''status'', jstr status), (''usage'', jobj [(''input_tokens'', JInt 40),
       (''output_tokens'', JInt 2)]),
     (''output'', JList [jobj [(''type'', jstr ''message''), (''content'', JList
       [jobj [(''type'', jstr ''output_text''), (''text'', jstr ''Foxes run.'')]])]])]"

lemma hosted_replies_are_checked_witness:
  "\<exists>g. parse_response demo_conversions (demo_reply ''completed'') 1 None = Inr g
    \<and> distinct (ge_indexes g) \<and> map_option usage_total (ge_usage g) = Some 42"
proof -
  let ?m = "parse_response demo_conversions (demo_reply ''completed'') 1 None"
  have "isl ?m = False" by code_simp
  then obtain g where g: "?m = Inr g" by (cases ?m) auto
  have "map_option usage_total (ge_usage (projr ?m)) = Some 42" by code_simp
  with hosted_replies_are_checked [where cv = demo_conversions and data = "demo_reply ''completed''"
      and n = 1 and rid = None] g show ?thesis by simp
qed


definition demo_env :: "nat \<Rightarrow> hosted_env" where
  "demo_env slots = \<lparr>he_ledger = empty_ledger, he_pool = new_pool slots 3 30, he_calls = 0,
     he_clock = real, he_day = (\<lambda>k. 7), he_new = (\<lambda>k. 100 + k)\<rparr>"

definition demo_post :: "nat \<Rightarrow> json \<Rightarrow> http_reply result" where
  "demo_post k body = Inr \<lparr>hr_status = 200, hr_json = Inr (demo_reply ''incomplete''), hr_request_id = None\<rparr>"




end
