(* ===== verification/QueryLaws.thy ===== *)
theory QueryLaws
  imports QueryService StorageGuarantees AnsweringLaws
begin

text \<open>
  What a response may contain: only passages and entities the tenant stored, selected by the
  request's own filter.
\<close>

section \<open>Retrieval\<close>

lemma fst_Inr: "fst p = Inr a \<longleftrightarrow> (\<exists>s. p = (Inr a, s))"
  by (cases p) simp

lemma named_scope_narrows:
  "filter_allows (Some (named_scope un q names requested)) r \<Longrightarrow> filter_allows (Some requested) r"
  by (auto simp: named_scope_def filter_allows_def Let_def split: if_splits option.splits)

definition stored_hit :: "db \<Rightarrow> ustr \<Rightarrow> query_filter \<Rightarrow> search_hit \<Rightarrow> bool" where
  "stored_hit d tenant flt h \<longleftrightarrow> (\<exists>r \<in> set (db_chunks d). cd_tenant r = tenant \<and> filter_allows (Some flt) r
     \<and> cd_document r = sh_document h \<and> cd_item r = sh_chunk h)"

lemma stored_hit_score [simp]: "stored_hit d t flt (h\<lparr>sh_score := x\<rparr>) = stored_hit d t flt h"
  by (simp add: stored_hit_def)

lemma read_hits_stored:
  assumes "read_hits cond order score tenant k (Some flt) (in_tenant tenant d) = (Inr hits, s)"
  shows "s = in_tenant tenant d \<and> (\<forall>h \<in> set hits. stored_hit d tenant flt h)"
proof -
  let ?rows = "sort_key (\<lambda>r. (order r, cd_document r, ck_ord (cd_item r)))
    (filter (\<lambda>r. tenant \<noteq> [] \<and> cd_tenant r = tenant \<and> cond r \<and> cd_tenant r = tenant
      \<and> filter_allows (Some flt) r) (db_chunks d))"
  have eq: "s = in_tenant tenant d" "hits = map (\<lambda>r. \<lparr>sh_document = cd_document r, sh_chunk = cd_item r,
      sh_score = score r\<rparr>) (take (nat k) ?rows)"
    using assms by (auto simp: read_hits_def raiseE_def readE_def split: if_splits)
  have "set (take (nat k) ?rows) \<subseteq> set ?rows" by (rule set_take_subset)
  then show ?thesis unfolding eq by (auto simp: stored_hit_def)
qed

lemma stored_hit_narrows:
  "stored_hit d t (named_scope un q names flt) h \<Longrightarrow> stored_hit d t flt h"
  unfolding stored_hit_def using named_scope_narrows by blast

lemma retrieve_stored:
  assumes "retrieve un pg tenant request vector cap k (in_tenant tenant d) = (Inr hits, s)"
  shows "s = in_tenant tenant d \<and> (\<forall>h \<in> set hits. stored_hit d tenant (rq_filter request) h)
    \<and> distinct (map hit_key hits) \<and> length hits \<le> nat (min (rq_top_k request) (int cap))"
proof -
  define names where "names = map (\<lambda>r. (sd_id r, sd_filename r))
    (filter (\<lambda>r. tenant \<noteq> [] \<and> sd_tenant r = tenant) (db_docs d))"
  let ?scope = "Some (named_scope un (rq_question request) names (rq_filter request))"
  let ?q = "lexical_query un (rq_question request)"
  obtain near s1 lexical all where
    near: "read_hits (\<lambda>r. True) (\<lambda>r. pg_distance pg (chunk_vector (cd_item r)) vector)
        (\<lambda>r. 1 - pg_distance pg (chunk_vector (cd_item r)) vector) tenant (int cap) ?scope (in_tenant tenant d)
      = (Inr near, s1)"
    and lexical: "read_hits (\<lambda>r. pg_matches pg (ck_text (cd_item r)) ?q)
        (\<lambda>r. - pg_rank pg (ck_text (cd_item r)) ?q) (\<lambda>r. pg_rank pg (ck_text (cd_item r)) ?q)
        tenant (int cap) ?scope s1 = (Inr lexical, s)"
    and fuse: "fuse [near, lexical] k = Inr all"
    and hits: "hits = take (nat (min (rq_top_k request) (int cap))) all"
    using assms
    by (auto simp: retrieve_def document_names_def reader_nearest_chunks_def reader_search_text_def Let_def
        bindE_Inr thenE_def liftE_def returnE_def names_def)
  note near_stored = read_hits_stored [OF near]
  note lexical_stored = read_hits_stored [OF lexical [unfolded conjunct1 [OF near_stored]]]
  note facts = fuse_facts [OF fuse]
  have "stored_hit d tenant (rq_filter request) h" if "h \<in> set all" for h
  proof -
    from facts that have "\<exists>r \<in> set [near, lexical]. \<exists>h0 \<in> set r. h = h0\<lparr>sh_score := sh_score h\<rparr>"
      unfolding list_all_iff by blast
    then obtain h0 where h0: "h0 \<in> set near \<union> set lexical" "h = h0\<lparr>sh_score := sh_score h\<rparr>"
      unfolding list.set by blast
    then have "stored_hit d tenant (rq_filter request) h0"
      using near_stored lexical_stored stored_hit_narrows by blast
    then show ?thesis using h0(2) by (metis stored_hit_score)
  qed
  then show ?thesis using facts lexical_stored by (auto simp: hits take_map [symmetric] dest: in_set_takeD)
qed

section \<open>Documents\<close>

definition stored_entity :: "db \<Rightarrow> ustr \<Rightarrow> uuid \<Rightarrow> entity \<Rightarrow> bool" where
  "stored_entity d tenant doc e \<longleftrightarrow>
     (\<exists>r \<in> set (db_entities d). cd_tenant r = tenant \<and> cd_document r = doc \<and> cd_item r = e)"

lemma reader_document_stored:
  assumes "reader_get_document tenant doc (in_tenant tenant d) = (Inr x, s)"
  shows "s = in_tenant tenant d \<and> (\<forall>sd. x = Some sd \<longrightarrow> sd_id sd = doc
    \<and> (\<forall>e \<in> set (sd_entities sd). stored_entity d tenant doc e))"
proof -
  define rows where "rows = filter (\<lambda>r. tenant \<noteq> [] \<and> sd_tenant r = tenant \<and> sd_id r = doc) (db_docs d)"
  define children where "children = document_children d (Some tenant) tenant doc"
  obtain found where found: "one_or_none rows = Inr found"
    and x: "s = in_tenant tenant d" "x = map_option (\<lambda>r. with_children r (fst children) (snd children)) found"
  proof (cases "one_or_none rows")
    case (Inl e)
    then show ?thesis
      using assms by (simp add: reader_get_document_def bindE_def liftE_def rows_def)
  next
    case (Inr found)
    with assms have "s = in_tenant tenant d \<and> x = map_option (\<lambda>r. with_children r (fst children) (snd children)) found"
      by (cases found) (auto simp: reader_get_document_def bindE_def liftE_def readE_def returnE_def rows_def
          children_def split: prod.splits)
    with Inr that show ?thesis by blast
  qed
  have "sd_id r = doc" if "found = Some r" for r
  proof -
    have "r \<in> set rows" using found that by (cases rows rule: one_or_none.cases) auto
    then show ?thesis by (simp add: rows_def)
  qed
  moreover have "stored_entity d tenant doc e"
    if "e \<in> set (snd children)" for e
    using that by (auto simp: children_def document_children_def stored_entity_def)
  ultimately show ?thesis using x by auto
qed

lemma query_documents_stored:
  assumes "query_documents tenant hits (in_tenant tenant d) = (Inr docs, s)"
  shows "\<forall>sd \<in> set docs. \<forall>e \<in> set (sd_entities sd). stored_entity d tenant (sd_id sd) e"
proof -
  define load where "load doc_id found = bindE (reader_get_document tenant doc_id) (\<lambda>d.
      returnE (found @ (case d of None \<Rightarrow> [] | Some document \<Rightarrow> [document])))" for doc_id :: uuid and found
  have "\<forall>docs s. foldl (\<lambda>m doc_id. bindE m (load doc_id)) (returnE []) ids (in_tenant tenant d) = (Inr docs, s) \<longrightarrow>
      s = in_tenant tenant d \<and> (\<forall>sd \<in> set docs. \<forall>e \<in> set (sd_entities sd). stored_entity d tenant (sd_id sd) e)" for ids
  proof (induction ids rule: rev_induct)
    case Nil
    show ?case by (simp add: returnE_def)
  next
    case (snoc i ids)
    show ?case
    proof (intro allI impI)
      fix docs s
      assume "foldl (\<lambda>m doc_id. bindE m (load doc_id)) (returnE []) (ids @ [i]) (in_tenant tenant d) = (Inr docs, s)"
      then obtain docs0 s0 x where
        "foldl (\<lambda>m doc_id. bindE m (load doc_id)) (returnE []) ids (in_tenant tenant d) = (Inr docs0, s0)"
        "reader_get_document tenant i s0 = (Inr x, s)"
        "docs = docs0 @ (case x of None \<Rightarrow> [] | Some document \<Rightarrow> [document])"
        by (auto simp: load_def bindE_Inr returnE_def)
      with snoc reader_document_stored [of tenant i d x s]
      show "s = in_tenant tenant d \<and> (\<forall>sd \<in> set docs. \<forall>e \<in> set (sd_entities sd). stored_entity d tenant (sd_id sd) e)"
        by (auto split: option.splits)
    qed
  qed
  from this [of "fromkeys (map sh_document hits)"] assms show ?thesis
    by (simp add: query_documents_def load_def [abs_def])
qed

section \<open>Entities\<close>

lemma cite_entities_sound:
  assumes "\<forall>c \<in> snd ` set result. Q c"
    and "\<And>e. e \<in> set es \<Longrightarrow> list_ex (occurs (normalized un (en_text e))) passages \<Longrightarrow>
      Q \<lparr>ce_text = en_text e, ce_label = en_label e, ce_count = en_count e, ce_document = doc\<rparr>"
  shows "\<forall>c \<in> snd ` set (cite_entities un doc passages es result). Q c"
  using assms
  by (induction un doc passages es result rule: cite_entities.induct) (simp_all add: Let_def)

definition cited_from :: "unicode \<Rightarrow> db \<Rightarrow> ustr \<Rightarrow> search_hit list \<Rightarrow> cited_entity \<Rightarrow> bool" where
  "cited_from un d tenant hits c \<longleftrightarrow>
     (\<exists>e. stored_entity d tenant (ce_document c) e \<and> ce_text c = en_text e \<and> ce_label c = en_label e
        \<and> ce_count c = en_count e)
     \<and> (\<exists>h \<in> set hits. sh_document h = ce_document c
        \<and> occurs (normalized un (ce_text c)) (normalized un (ck_text (sh_chunk h))))"

lemma cited_entities_sound:
  assumes "\<forall>sd \<in> set docs. \<forall>e \<in> set (sd_entities sd). stored_entity d tenant (sd_id sd) e"
  shows "\<forall>c \<in> set (cited_entities un hits docs). cited_from un d tenant hits c"
proof -
  let ?step = "\<lambda>result sd. cite_entities un (sd_id sd) (cited_passages un hits (sd_id sd)) (sd_entities sd) result"
  have "\<forall>c \<in> snd ` set (foldl ?step [] ds). cited_from un d tenant hits c" if "set ds \<subseteq> set docs" for ds
    using that
  proof (induction ds rule: rev_induct)
    case Nil
    show ?case by simp
  next
    case (snoc sd ds)
    have "cited_from un d tenant hits \<lparr>ce_text = en_text e, ce_label = en_label e, ce_count = en_count e, ce_document = sd_id sd\<rparr>"
      if "e \<in> set (sd_entities sd)" "list_ex (occurs (normalized un (en_text e))) (cited_passages un hits (sd_id sd))" for e
      using that snoc.prems assms by (auto simp: cited_from_def cited_passages_def list_ex_iff)
    with snoc show ?case
      by (simp only: foldl_append foldl.simps set_append) (rule cite_entities_sound, auto)
  qed
  then show ?thesis by (auto simp: cited_entities_def)
qed

section \<open>Property\<close>

definition quotes :: "db \<Rightarrow> ustr \<Rightarrow> query_filter \<Rightarrow> source \<Rightarrow> bool" where
  \<comment> \<open>the source is a stored passage of the tenant, word for word, that the filter allows\<close>
  "quotes d tenant flt s \<longleftrightarrow> (\<exists>r \<in> set (db_chunks d). cd_tenant r = tenant \<and> filter_allows (Some flt) r
     \<and> s = \<lparr>so_document = cd_document r, so_page = ck_page (cd_item r), so_ord = ck_ord (cd_item r),
           so_start = ck_start (cd_item r), so_end = ck_end (cd_item r), so_text = ck_text (cd_item r),
           so_score = so_score s\<rparr>)"

lemma quotes_stored: "stored_hit d tenant flt h \<Longrightarrow> quotes d tenant flt (source_of h)"
  by (auto simp: stored_hit_def quotes_def source_of_def)

lemma distinct_picked:
  assumes "distinct (map f hs)" and "distinct ixs" and "list_all (\<lambda>i. 0 \<le> i \<and> i < int (length hs)) ixs"
  shows "distinct (map f (map (\<lambda>i. hs ! nat i) ixs))"
proof -
  have "i = j" if "i \<in> set ixs" "j \<in> set ixs" "f (hs ! nat i) = f (hs ! nat j)" for i j
  proof -
    from that assms(3) have "0 \<le> i" "nat i < length hs" "0 \<le> j" "nat j < length hs"
      by (auto simp: list_all_iff)
    with that(3) assms(1) show ?thesis by (auto simp: distinct_conv_nth dest: eq_nat_nat_iff)
  qed
  with assms(2) show ?thesis by (auto simp: distinct_map inj_on_def)
qed

lemma cited_hits:
  assumes "assess_generation un g info hits threshold = (score, False, cited)" and "distinct (map hit_key hits)"
  shows "distinct (map hit_key cited) \<and> set cited \<subseteq> set hits \<and> length cited \<le> length hits
    \<and> strip (ge_answer g) \<noteq> [] \<and> cited \<noteq> []"
proof -
  note facts = assess_facts [OF assms(1)]
  have "cited = map (\<lambda>i. hits ! nat i) (fromkeys (ge_indexes g))" and sub: "set cited \<subseteq> set hits"
    and "list_all (\<lambda>i. 0 \<le> i \<and> i < int (length hits)) (fromkeys (ge_indexes g))"
    using facts by (auto simp: list_all_iff)
  with distinct_picked [of hit_key hits "fromkeys (ge_indexes g)"] assms(2) have "distinct (map hit_key cited)" by auto
  moreover have "card (hit_key ` set cited) \<le> card (hit_key ` set hits)" using sub by (intro card_mono) auto
  ultimately show ?thesis using sub facts assms(2) by (metis distinct_card length_map list.set_map)
qed

lemma query_answer_rests:
  assumes "query_answer qs request hits docs g info = Inr resp"
    and hits: "\<forall>h \<in> set hits. stored_hit d tenant (rq_filter request) h" "distinct (map hit_key hits)"
      "length hits \<le> nat (min (rq_top_k request) (int cap))"
    and entities: "\<forall>sd \<in> set docs. \<forall>en \<in> set (sd_entities sd). stored_entity d tenant (sd_id sd) en"
  shows "list_all (quotes d tenant (rq_filter request)) (qr_sources resp)
    \<and> distinct (map (\<lambda>s. (so_document s, so_ord s)) (qr_sources resp))
    \<and> int (length (qr_sources resp)) \<le> max 0 (rq_top_k request)
    \<and> list_all (\<lambda>c. (\<exists>en. stored_entity d tenant (ce_document c) en \<and> ce_text c = en_text en
           \<and> ce_label c = en_label en \<and> ce_count c = en_count en)
         \<and> (\<exists>s \<in> set (qr_sources resp). so_document s = ce_document c
           \<and> occurs (normalized (qs_unicode qs) (ce_text c)) (normalized (qs_unicode qs) (so_text s))))
        (qr_entities resp)
    \<and> (if qr_abstained resp then qr_answer resp = [] \<and> qr_entities resp = []
       else strip (qr_answer resp) \<noteq> [] \<and> qr_sources resp \<noteq> [])"
proof -
  let ?un = "qs_unicode qs"
  obtain score abstained cited where
    assess: "assess_generation ?un g info hits (abstain_threshold (qs_settings qs)) = (score, abstained, cited)"
    by (metis prod_cases3)
  have resp: "qr_abstained resp = abstained" "qr_answer resp = (if abstained then [] else ge_answer g)"
    "qr_sources resp = map source_of (if abstained then hits else cited)"
    "qr_entities resp = (if abstained then [] else cited_entities ?un cited docs)"
    using assms(1) by (auto simp: query_answer_def assess Let_def split: if_splits)
  have key: "(so_document (source_of h), so_ord (source_of h)) = hit_key h" for h
    by (simp add: source_of_def hit_key_def)
  show ?thesis
  proof (cases abstained)
    case True
    then show ?thesis using hits resp by (auto simp: list_all_iff comp_def key quotes_stored)
  next
    case False
    with cited_hits [of ?un g info hits] assess hits(2) have cited: "distinct (map hit_key cited)" "set cited \<subseteq> set hits"
      "length cited \<le> length hits" "strip (ge_answer g) \<noteq> []" "cited \<noteq> []" by auto
    have "\<forall>c \<in> set (cited_entities ?un cited docs). cited_from ?un d tenant cited c"
      by (rule cited_entities_sound [OF entities])
    then have "list_all (\<lambda>c. (\<exists>en. stored_entity d tenant (ce_document c) en \<and> ce_text c = en_text en
           \<and> ce_label c = en_label en \<and> ce_count c = en_count en)
         \<and> (\<exists>s \<in> set (qr_sources resp). so_document s = ce_document c
           \<and> occurs (normalized ?un (ce_text c)) (normalized ?un (so_text s)))) (qr_entities resp)"
      using False by (fastforce simp: resp list_all_iff cited_from_def source_of_def)
    moreover have "list_all (quotes d tenant (rq_filter request)) (qr_sources resp)"
      using cited hits(1) False by (auto simp: resp list_all_iff quotes_stored)
    moreover have "distinct (map (\<lambda>s. (so_document s, so_ord s)) (qr_sources resp))"
      using cited False by (simp add: resp comp_def key)
    moreover have "int (length (qr_sources resp)) \<le> max 0 (rq_top_k request)"
      using hits(3) cited(3) False by (auto simp: resp le_nat_iff)
    ultimately show ?thesis using cited(4,5) False by (simp add: resp)
  qed
qed

lemma service_query_rests:
  assumes "service_query qs tenant request d e = (Inr resp, e')"
  shows "list_all (quotes d tenant (rq_filter request)) (qr_sources resp)
    \<and> distinct (map (\<lambda>s. (so_document s, so_ord s)) (qr_sources resp))
    \<and> int (length (qr_sources resp)) \<le> max 0 (rq_top_k request)
    \<and> list_all (\<lambda>c. (\<exists>en. stored_entity d tenant (ce_document c) en \<and> ce_text c = en_text en
           \<and> ce_label c = en_label en \<and> ce_count c = en_count en)
         \<and> (\<exists>s \<in> set (qr_sources resp). so_document s = ce_document c
           \<and> occurs (normalized (qs_unicode qs) (ce_text c)) (normalized (qs_unicode qs) (so_text s))))
        (qr_entities resp)
    \<and> (if qr_abstained resp then qr_answer resp = [] \<and> qr_entities resp = []
       else strip (qr_answer resp) \<noteq> [] \<and> qr_sources resp \<noteq> [])"
proof -
  obtain vector hits docs g info e1 where
    snap: "fst (query_snapshot qs tenant request vector d) = Inr (hits, docs)"
    and answer: "query_answer qs request hits docs g info = Inr resp"
    using assms
    by (auto simp: service_query_def bindE_Inr liftE_def raiseE_def split: sum.splits)
  obtain s where
    ret: "retrieve (qs_unicode qs) (qs_postgres qs) tenant request vector (query_top_k_max (qs_settings qs))
        (rrf_k (qs_settings qs)) (in_tenant tenant d) = (Inr hits, s)"
    and docs: "\<exists>s'. query_documents tenant hits s = (Inr docs, s')"
    using snap by (auto simp: query_snapshot_def snapshot_tenant fst_Inr bindE_Inr returnE_def)
  note stored = retrieve_stored [OF ret]
  have "\<forall>sd \<in> set docs. \<forall>en \<in> set (sd_entities sd). stored_entity d tenant (sd_id sd) en"
    using docs stored query_documents_stored by blast
  with stored query_answer_rests [OF answer] show ?thesis by blast
qed


definition demo_db :: db where
  "demo_db =
     (let row = \<lparr>sd_id = 1, sd_tenant = ascii ''a'', sd_filename = ascii ''a.pdf'', sd_sha256 = [],
        sd_media_type = ''application/pdf'', sd_page_count = Some 1, sd_language = Some ''en'',
        sd_status = ''processed'', sd_version = None, sd_embed_model = None, sd_size = None, sd_key = None,
        sd_error = None, sd_created = 0, sd_processed = None\<rparr>;
          passage = (\<lambda>n t. \<lparr>cd_id = n, cd_document = 1, cd_tenant = ascii ''a'', cd_item = demo_chunk n t\<rparr>)
      in \<lparr>db_docs = [row, row\<lparr>sd_id := 2, sd_tenant := ascii ''b''\<rparr>],
          db_chunks = [passage 0 ''Foxes run.'',
            (passage 1 ''Secret.'')\<lparr>cd_document := 2, cd_tenant := ascii ''b''\<rparr>],
          db_entities = [\<lparr>cd_id = 1, cd_document = 1, cd_tenant = ascii ''a'', cd_item =
            \<lparr>en_text = ascii ''Foxes'', en_label = ''ANIMAL'', en_page = 1, en_start = 0, en_end = 5, en_count = 1\<rparr>\<rparr>],
          db_outbox = []\<rparr>)"

definition demo_service :: "unit query_service" where
  "demo_service = \<lparr>qs_unicode = demo_unicode,
     qs_postgres = \<lparr>pg_dimension = 1, pg_distance = (\<lambda>v w. 1 / 2), pg_matches = (\<lambda>t q. True), pg_rank = (\<lambda>t q. 1)\<rparr>,
     qs_embed = (\<lambda>t. Inr [Finite 1]),
     qs_fallback = \<lparr>fb_primary = None, fb_model = [], fb_ledger = None, fb_max_output = 700\<rparr>,
     qs_settings = default_query\<rparr>"

definition demo_request :: query_request where
  "demo_request = \<lparr>rq_question = ascii ''foxes'', rq_top_k = 5,
     rq_filter = \<lparr>qf_documents = None, qf_language = None\<rparr>\<rparr>"


end
