(* ===== verification/QueryErrors.thy ===== *)
theory QueryErrors
  imports QueryLaws
begin

text \<open>Which exceptions reach the boundary of the query service, and how it answers them.\<close>

section \<open>Exceptions a call may raise\<close>

definition only_raises :: "(exn \<Rightarrow> bool) \<Rightarrow> ('s, 'a) proc \<Rightarrow> bool" where
  "only_raises P m \<longleftrightarrow> (\<forall>s e t. m s = (Inl e, t) \<longrightarrow> P e)"

named_theorems raises_intros

lemma raises_bind [raises_intros]:
  "only_raises P m \<Longrightarrow> (\<And>a. only_raises P (f a)) \<Longrightarrow> only_raises P (bindE m f)"
  unfolding only_raises_def bindE_Inl by blast

lemma raises_basic [raises_intros]:
  "only_raises P (returnE a)" "only_raises P (readE f)" "only_raises P (writeE g)" "P e \<Longrightarrow> only_raises P (raiseE e)"
  "(\<And>e. r = Inl e \<Longrightarrow> P e) \<Longrightarrow> only_raises P (liftE r)"
  by (auto simp: only_raises_def returnE_def readE_def writeE_def raiseE_def liftE_def)

lemma raises_then [raises_intros]: "only_raises P m \<Longrightarrow> only_raises P n \<Longrightarrow> only_raises P (thenE m n)"
  by (simp add: thenE_def raises_bind)

lemma raises_mono: "only_raises P m \<Longrightarrow> (\<And>e. P e \<Longrightarrow> Q e) \<Longrightarrow> only_raises Q m"
  by (auto simp: only_raises_def)

lemma raises_foldl:
  assumes "\<And>x a. only_raises P (f x a)" and "only_raises P m"
  shows "only_raises P (foldl (\<lambda>m x. bindE m (f x)) m xs)"
  using assms(2) by (induction xs arbitrary: m) (auto intro: raises_intros assms(1))

section \<open>The snapshot\<close>

lemma caught_basic [simp]:
  "query_caught (ValueError s)" "query_caught OtherSQLAlchemyError" "query_caught ValidationError"
  "query_caught BudgetExceeded" "query_caught QuestionTooLong"
  by (simp_all add: query_caught_def exn_classes)

lemma one_or_none_raises: "one_or_none xs = Inl e \<Longrightarrow> query_caught e"
  by (cases xs rule: one_or_none.cases) auto

lemma validate_vector_raises: "validate_vector v n = Inl e \<Longrightarrow> query_caught e"
  by (auto simp: validate_vector_def split: if_splits)

lemma raises_reader [raises_intros]:
  "only_raises query_caught (read_hits cond order score t k flt)"
  "only_raises query_caught (select_docs p)"
  "only_raises query_caught (reader_get_document t doc)"
proof -
  show "only_raises query_caught (read_hits cond order score t k flt)"
    by (auto simp: only_raises_def read_hits_def raiseE_def readE_def split: if_splits)
  show sel: "only_raises query_caught (select_docs p)" for p
    unfolding select_docs_def by (intro raises_intros)
  show "only_raises query_caught (reader_get_document t doc)"
    unfolding reader_get_document_def
    by (intro raises_intros sel one_or_none_raises) (auto intro!: raises_intros split: option.split)
qed

lemma fuse_raises: "fuse rankings k = Inl e \<Longrightarrow> query_caught e"
  by (auto simp: fuse_def split: if_splits prod.splits)

lemma raises_retrieve [raises_intros]: "only_raises query_caught (retrieve un pg t request vector cap k)"
  unfolding retrieve_def document_names_def reader_nearest_chunks_def reader_search_text_def Let_def
  by (intro raises_intros) (auto dest: validate_vector_raises fuse_raises)

lemma raises_documents [raises_intros]: "only_raises query_caught (query_documents t hits)"
  unfolding query_documents_def Let_def by (intro raises_foldl raises_intros)

lemma query_snapshot_raises:
  assumes "fst (query_snapshot qs t request vector d) = Inl e"
  shows "query_caught e"
proof -
  let ?m = "bindE (retrieve (qs_unicode qs) (qs_postgres qs) t request vector
      (query_top_k_max (qs_settings qs)) (rrf_k (qs_settings qs))) (\<lambda>hits.
    bindE (query_documents t hits) (\<lambda>documents. returnE (hits, documents)))"
  have "only_raises query_caught ?m" by (intro raises_intros)
  moreover have "?m (in_tenant t d) = (Inl e, snd (?m (in_tenant t d)))"
    using assms by (simp add: query_snapshot_def snapshot_tenant prod_eq_iff)
  ultimately show ?thesis unfolding only_raises_def by blast
qed

section \<open>The generator\<close>

definition answered :: "exn \<Rightarrow> bool" where
  \<comment> \<open>handled by the fallback or by the boundary\<close>
  "answered e \<longleftrightarrow> fallback_reason e \<noteq> None \<or> query_caught e"

definition reliable :: "(json \<Rightarrow> http_reply result) \<Rightarrow> bool" where
  \<comment> \<open>the HTTP client and the JSON decoder raise only exceptions the program names\<close>
  "reliable post \<longleftrightarrow> (\<forall>body. case post body of Inl e \<Rightarrow> answered e
     | Inr reply \<Rightarrow> (\<forall>e. hr_json reply = Inl e \<longrightarrow> answered e))"

lemma answered_basic [simp]: "query_caught e \<Longrightarrow> answered e" "answered (ProviderFailure reason u)"
    "answered (HTTPStatusError n)"
  by (simp_all add: answered_def fallback_reason_def is_httpx_error_def)

lemma openai_call_answered:
  assumes "reliable post" and "openai_call cv s post q ps = Inl e"
  shows "answered e"
proof -
  have parse: "answered e" if "parse_response cv data n rid = Inl e" for data n rid
    using that parse_response_cases [where cv = cv and data = data and n = n and rid = rid] by auto
  from assms(2) show ?thesis
    unfolding openai_call_def bindR_Inl
  proof (elim disjE exE conjE)
    assume "payload s q ps = Inl e"
    then show ?thesis using payload_raises by fastforce
  next
    fix body assume "post body = Inl e"
    then show ?thesis using assms(1) by (simp add: reliable_def split: sum.splits)
  next
    fix body reply
    assume reply: "post body = Inr reply"
      and run: "(if hr_status reply < 200 \<or> 300 \<le> hr_status reply then Inl (HTTPStatusError (hr_status reply))
        else bindR (hr_json reply) (\<lambda>data. parse_response cv data (length ps) (hr_request_id reply))) = Inl e"
    have json: "answered x" if "hr_json reply = Inl x" for x
      using assms(1) [unfolded reliable_def, rule_format, of body] reply that by simp
    show ?thesis
    proof (cases "hr_status reply < 200 \<or> 300 \<le> hr_status reply")
      case True
      with run have "e = HTTPStatusError (hr_status reply)" by simp
      then show ?thesis by simp
    next
      case False
      with run have body: "bindR (hr_json reply) (\<lambda>data. parse_response cv data (length ps) (hr_request_id reply)) = Inl e"
        by (simp only: if_False)
      show ?thesis
        using body [unfolded bindR_Inl]
      proof (elim disjE exE conjE)
        assume "hr_json reply = Inl e"
        then show ?thesis by (rule json)
      next
        fix data assume "parse_response cv data (length ps) (hr_request_id reply) = Inl e"
        then show ?thesis by (rule parse)
      qed
    qed
  qed
qed

lemma raises_primary:
  assumes "\<forall>k. reliable (post k)"
  shows "only_raises answered (openai_primary cv s post key q ps)"
proof -
  have "answered e" if "openai_generate key (openai_call cv s (post k) q ps) now now' p = (Inl e, p')" for k now now' p p' e
  proof -
    from that consider reason u where "e = ProviderFailure reason u" | "openai_call cv s (post k) q ps = Inl e"
      by (auto simp: openai_generate_def dest: begin_call_reasons split: if_splits prod.splits sum.splits)
    then show ?thesis using openai_call_answered [of "post k"] assms by cases auto
  qed
  then show ?thesis by (auto simp: only_raises_def openai_primary_def Let_def split: prod.splits)
qed

lemma ledger_raises [raises_intros]:
  "only_raises answered (ls_reserve (postgres_ledger limit) t n model)"
  "only_raises answered (ls_settle (postgres_ledger limit) t i u outcome)"
proof -
  have "answered e" if "ledger_reserve limit i day t n model lg = (Inl e, lg')" for e i day lg lg'
    using that by (cases "e = BudgetExceeded") (auto simp: ledger_reserve_def transaction_def raiseE_def bindE_def reserve_budget_def
      insert_usage_def thenE_def returnE_def split: if_splits prod.splits sum.splits option.splits)
  then show "only_raises answered (ls_reserve (postgres_ledger limit) t n model)"
    by (auto simp: only_raises_def postgres_ledger_def on_ledger_def split: prod.splits)
  have "answered e" if "ledger_settle t i u outcome lg = (Inl e, lg')" for e lg lg'
    using that by (auto simp: ledger_settle_def transaction_def bindE_def settle_usage_def charge_budget_def
      returnE_def Let_def split: if_splits prod.splits sum.splits option.splits)
  then show "only_raises answered (ls_settle (postgres_ledger limit) t i u outcome)"
    by (auto simp: only_raises_def postgres_ledger_def on_ledger_def split: prod.splits)
qed

lemma encoded_raises: "encoded_size t = Inl e \<Longrightarrow> query_caught e"
  by (auto simp: encoded_size_def split: if_splits option.splits)

lemma raises_hosted:
  assumes "\<forall>k. reliable (post k)"
  shows "only_raises answered (hosted (runtime_fallback cv s post key) tenant q ps)"
proof -
  let ?fb = "runtime_fallback cv s post key"
  have settled: "answered e"
    if "(case primary q ps s0 of (r, e') \<Rightarrow> (case (reservation, fb_ledger ?fb) of
                    (Some i, Some ls) \<Rightarrow>
                      (case settlement r of (usage, outcome) \<Rightarrow>
                         (case ls_settle ls tenant i usage outcome e' of
                            (Inl x, e'') \<Rightarrow> (Inl x, e'') | (Inr _, e'') \<Rightarrow> (r, e'')))
                  | _ \<Rightarrow> (r, e'))) = (Inl e, t)"
    and primary: "only_raises answered (primary q ps)" for primary s0 reservation e t
  proof -
    obtain r e' where p: "primary q ps s0 = (r, e')" by fastforce
    have r: "answered x" if "r = Inl x" for x
      using primary p that unfolding only_raises_def by blast
    have ls: "fb_ledger ?fb = Some (postgres_ledger (llm_daily_tokens s))" by (simp add: runtime_fallback_def)
    have st: "answered x" if "ls_settle (postgres_ledger (llm_daily_tokens s)) tenant i usage outcome e' = (Inl x, e'')"
      for i usage outcome x e''
      using ledger_raises(2) that unfolding only_raises_def by blast
    show ?thesis
    proof (cases reservation)
      case None
      with that(1) p r show ?thesis by simp
    next
      case (Some i)
      obtain usage outcome where o: "settlement r = (usage, outcome)" by fastforce
      obtain x e'' where x: "ls_settle (postgres_ledger (llm_daily_tokens s)) tenant i usage outcome e' = (x, e'')" by fastforce
      show ?thesis
      proof (cases x)
        case (Inl y)
        with that(1) p ls Some o x st show ?thesis by simp
      next
        case (Inr y)
        with that(1) p ls Some o x r show ?thesis by simp
      qed
    qed
  qed
  have bound: "only_raises answered (liftE (token_bound (fb_max_output ?fb) q ps))"
    by (intro raises_intros) (auto simp: token_bound_def bindR_Inl dest: encoded_raises)
  have res: "only_raises answered (case fb_ledger ?fb of None \<Rightarrow> returnE None
      | Some ls \<Rightarrow> bindE (ls_reserve ls tenant b (fb_model ?fb)) (\<lambda>i. returnE (Some i)))" for b
    by (simp add: runtime_fallback_def) (intro raises_intros)
  show ?thesis
  proof (cases "fb_primary ?fb")
    case None
    then show ?thesis by (simp add: hosted_def raises_intros)
  next
    case (Some primary)
    then have p: "only_raises answered (primary q ps)"
      using raises_primary [OF assms] by (auto simp: runtime_fallback_def split: if_splits)
    show ?thesis
      unfolding hosted_def Some option.case
      using settled [where primary = primary] p
      by (intro raises_bind bound res) (simp add: only_raises_def)
  qed
qed

lemma raises_generate:
  assumes "\<forall>k. reliable (post k)"
  shows "only_raises query_caught (generate un (runtime_fallback cv s post key) tenant q ps)"
  unfolding only_raises_def
proof (intro allI impI)
  fix e x e'
  let ?fb = "runtime_fallback cv s post key"
  assume run: "generate un ?fb tenant q ps e = (Inl x, e')"
  then have "hosted ?fb tenant q ps e = (Inl x, e') \<and> fallback_reason x = None"
    by (auto simp: generate_def Let_def split: if_splits prod.splits sum.splits option.splits)
  with raises_hosted [OF assms] show "query_caught x"
    unfolding only_raises_def answered_def by blast
qed

section \<open>The boundary\<close>

lemma generate_raises:
  "generate un fb tenant q ps e = (Inl x, e') \<Longrightarrow> fallback_reason x = None"
  by (auto simp: generate_def Let_def split: if_splits prod.splits sum.splits option.splits)

lemma too_long_falls_back: "fallback_reason QuestionTooLong \<noteq> None"
  by (simp add: fallback_reason_def is_value_error_def)

lemma service_query_raises:
  assumes "\<forall>k. reliable (qc_post qc k)" and "\<forall>t e. qc_embed qc t = Inl e \<longrightarrow> query_caught e"
    and "service_query (runtime_service qc key) t b d e = (Inl x, e')"
  shows "query_caught x \<and> (x = QuestionTooLong \<longrightarrow> e' = e)"
proof (cases "qc_embed qc (rq_question b)")
  case (Inl y)
  with assms(2,3) show ?thesis
    by (auto simp: service_query_def runtime_service_def raiseE_def split: if_splits)
next
  case (Inr v)
  let ?qs = "runtime_service qc key"
  let ?gen = "\<lambda>hits. generate (qs_unicode ?qs) (qs_fallback ?qs) t (rq_question b) (map (\<lambda>h. ck_text (sh_chunk h)) hits)"
  have gen: "query_caught x" if "?gen hits e = (Inl x, e'')" for hits e''
  proof -
    have "only_raises query_caught (?gen hits)"
      using raises_generate [OF assms(1)] by (simp add: runtime_service_def)
    with that show ?thesis unfolding only_raises_def by blast
  qed
  show ?thesis
  proof (cases "fst (query_snapshot ?qs t b v d)")
    case (Inl y)
    have "x = y \<and> e' = e"
      using Inr Inl assms(3) by (simp add: service_query_def runtime_service_def bindE_def liftE_def)
    with query_snapshot_raises [OF Inl] show ?thesis by simp
  next
    case snap: (Inr hd)
    obtain hits docs where hd: "hd = (hits, docs)" by fastforce
    obtain r e'' where r: "?gen hits e = (r, e'')" by fastforce
    show ?thesis
    proof (cases r)
      case (Inl y)
      then have "x = y \<and> e' = e''"
        using Inr snap hd r assms(3) by (simp add: service_query_def runtime_service_def bindE_def liftE_def)
      with r Inl gen have "query_caught x" "fallback_reason x = None" by (auto dest: generate_raises)
      with too_long_falls_back show ?thesis by auto
    next
      case g: (Inr gp)
      obtain g info where gp: "gp = (g, info)" by fastforce
      from g gp have "query_answer ?qs b hits docs g info = Inl x"
        using Inr snap hd r assms(3) by (simp add: service_query_def runtime_service_def bindE_def liftE_def)
      then have "x = ValidationError"
        by (auto simp: query_answer_def Let_def split: prod.splits if_splits)
      then show ?thesis by simp
    qed
  qed
qed

lemma answered_by_service:
  assumes "\<forall>k. reliable (qc_post qc k)" and "\<forall>t e. qc_embed qc t = Inl e \<longrightarrow> query_caught e"
    and "get_service qc rt = (Inr (runtime_service qc key), rt1)" and "valid_tenant t"
    and "query_app qc (PostQuery (Inr b) (Some t)) rt = (reply, rt')"
  shows "qt_db rt' = qt_db rt1 \<and> (reply = ErrorReply 422 ''validation_error''
        (ascii ''top_k limit is '' @ str_nat (query_top_k_max (qc_settings qc))) \<and> rt' = rt1
    \<or> (\<exists>resp. reply = Answered resp \<and> rq_top_k b \<le> int (query_top_k_max (qc_settings qc)))
    \<or> reply = question_too_long \<and> he_ledger (qt_hosted rt') = he_ledger (qt_hosted rt1) \<or> reply = unavailable)"
proof (cases "int (query_top_k_max (qc_settings qc)) < rq_top_k b")
  case True
  then show ?thesis
    using assms(3-5)
    by (auto simp: query_app_def query_endpoint_def or_unexpected_def tryE_def bindE_def runtime_service_def)
next
  case False
  let ?qs = "runtime_service qc key"
  have settings: "qs_settings ?qs = qc_settings qc" by (simp add: runtime_service_def)
  obtain x e where x: "service_query ?qs t b (qt_db rt1) (qt_hosted rt1) = (x, e)" by fastforce
  show ?thesis
  proof (cases x)
    case (Inl y)
    note raised = service_query_raises [OF assms(1,2) x [unfolded Inl]]
    then have "rt' = rt1\<lparr>qt_hosted := e\<rparr> \<and> reply = (if y = QuestionTooLong then question_too_long else unavailable)"
      using assms(3-5) False x Inl
      by (auto simp: query_app_def query_endpoint_def or_unexpected_def tryE_def bindE_def settings on_hosted_def returnE_def)
    with raised show ?thesis by auto
  next
    case (Inr resp)
    then have "rt' = rt1\<lparr>qt_hosted := e\<rparr> \<and> reply = Answered resp"
      using assms(3-5) False x
      by (simp add: query_app_def query_endpoint_def or_unexpected_def tryE_def bindE_def settings on_hosted_def returnE_def)
    with False show ?thesis by simp
  qed
qed


definition demo_query :: query_config where
  "demo_query = \<lparr>qc_settings = default_query, qc_secret = (\<lambda>f. Inl OSError), qc_unicode = demo_unicode,
     qc_postgres = qs_postgres demo_service, qc_embed = (\<lambda>t. Inl (ValueError ''tokens'')),
     qc_conversions = demo_conversions, qc_post = demo_post\<rparr>"


end
