(* ===== verification/Upload.thy ===== *)
theory Upload
  imports Effects
begin

text \<open>
  Bounded multipart parsing (\<open>ingest/upload.py\<close>). The parser of \<open>python_multipart\<close> is a
  parameter: written one block of the request body, it makes callbacks, here a list of events,
  and moves to its next state; so are its header option parser and SHA-256 (the digest is kept
  as the bytes hashed so far).
\<close>

section \<open>UTF-8 with replacement\<close>

definition utf8_lead :: "nat \<Rightarrow> (nat \<times> nat \<times> nat \<times> nat) option" where
  \<comment> \<open>of a lead byte: how many bytes follow, the bounds of the first of them, the bits it holds\<close>
  "utf8_lead b =
     (if 194 \<le> b \<and> b \<le> 223 then Some (1, 128, 191, b - 192)
      else if b = 224 then Some (2, 160, 191, 0)
      else if b = 237 then Some (2, 128, 159, 13)
      else if 225 \<le> b \<and> b \<le> 239 then Some (2, 128, 191, b - 224)
      else if b = 240 then Some (3, 144, 191, 0)
      else if 241 \<le> b \<and> b \<le> 243 then Some (3, 128, 191, b - 240)
      else if b = 244 then Some (3, 128, 143, 4)
      else None)"

definition utf8_tail :: "nat \<Rightarrow> nat \<Rightarrow> nat \<Rightarrow> nat list \<Rightarrow> nat list" where
  \<comment> \<open>the longest run of continuation bytes that fits\<close>
  "utf8_tail n lo hi bs =
     (case take n bs of
        [] \<Rightarrow> []
      | c # cs \<Rightarrow> (if lo \<le> c \<and> c \<le> hi then c # takeWhile (\<lambda>c. 128 \<le> c \<and> c \<le> 191) cs else []))"

function utf8_replace :: "nat list \<Rightarrow> ustr" where
  \<comment> \<open>\<open>bytes.decode("utf-8", errors="replace")\<close>\<close>
  "utf8_replace [] = []"
| "utf8_replace (b # bs) =
     (if b < 128 then b # utf8_replace bs
      else
        (case utf8_lead b of
           None \<Rightarrow> 65533 # utf8_replace bs
         | Some (n, lo, hi, bits) \<Rightarrow>
             (let tail = utf8_tail n lo hi bs
              in (if length tail = n then foldl (\<lambda>v c. 64 * v + (c - 128)) bits tail else 65533)
                 # utf8_replace (drop (length tail) bs))))"
  by pat_completeness auto
termination
  by (relation "measure length") auto

section \<open>The callbacks\<close>

record upload_body =
  ub_target :: bytes
  ub_limit :: nat
  ub_size :: nat
  ub_digest :: bytes
  ub_prefix :: bytes
  ub_filename :: ustr
  ub_headers :: "(bytes \<times> bytes) list"
  ub_header_count :: nat
  ub_field :: bytes
  ub_value :: bytes
  ub_parts :: nat
  ub_complete :: bool

definition new_upload :: "nat \<Rightarrow> upload_body" where
  "new_upload limit = \<lparr>ub_target = [], ub_limit = limit, ub_size = 0, ub_digest = [], ub_prefix = [],
     ub_filename = [], ub_headers = [], ub_header_count = 0, ub_field = [], ub_value = [], ub_parts = 0,
     ub_complete = False\<rparr>"

definition bytes_of :: "string \<Rightarrow> bytes" where
  "bytes_of s = map (\<lambda>c. of_nat (of_char c)) s"

definition lower_byte :: "8 word \<Rightarrow> 8 word" where
  "lower_byte b = (if 65 \<le> b \<and> b \<le> 90 then b + 32 else b)"

definition part_begin :: "(upload_body, unit) proc" where
  "part_begin =
     thenE (writeE (\<lambda>u. u\<lparr>ub_parts := ub_parts u + 1\<rparr>))
       (\<lambda>u. guardE (ub_parts u = 1) (HTTPException 400 ''Expected one file field'') u)"

definition bound_headers :: "(upload_body, unit) proc" where
  "bound_headers u =
     guardE (length (ub_field u) + length (ub_value u) \<le> 8192) (HTTPException 400 ''Multipart headers too large'') u"

definition header_field :: "bytes \<Rightarrow> (upload_body, unit) proc" where
  "header_field data = thenE (writeE (\<lambda>u. u\<lparr>ub_field := ub_field u @ map lower_byte data\<rparr>)) bound_headers"

definition header_value :: "bytes \<Rightarrow> (upload_body, unit) proc" where
  "header_value data = thenE (writeE (\<lambda>u. u\<lparr>ub_value := ub_value u @ data\<rparr>)) bound_headers"

definition header_end :: "(upload_body, unit) proc" where
  "header_end =
     thenE (writeE (\<lambda>u. u\<lparr>ub_header_count := ub_header_count u + 1\<rparr>))
     (thenE (\<lambda>u. guardE (ub_header_count u \<le> 16) (HTTPException 400 ''Too many multipart headers'') u)
       (writeE (\<lambda>u. u\<lparr>ub_headers := AList.update (ub_field u) (ub_value u) (ub_headers u),
          ub_field := [], ub_value := []\<rparr>)))"

type_synonym options_parser = "bytes \<Rightarrow> bytes \<times> (bytes \<rightharpoonup> bytes)"

definition headers_finished :: "options_parser \<Rightarrow> (upload_body, unit) proc" where
  "headers_finished parse_options u =
     (let header = (case map_of (ub_headers u) (bytes_of ''content-disposition'') of None \<Rightarrow> [] | Some v \<Rightarrow> v);
          options = snd (parse_options header)
      in case (options (bytes_of ''name''), options (bytes_of ''filename'')) of
           (Some name, Some filename) \<Rightarrow>
             (if name \<noteq> bytes_of ''file'' then (Inl (HTTPException 400 ''Expected a multipart file field''), u)
              else (Inr (), u\<lparr>ub_filename := utf8_replace (map unat filename)\<rparr>))
         | _ \<Rightarrow> (Inl (HTTPException 400 ''Expected a multipart file field''), u))"

definition part_data :: "bytes \<Rightarrow> (upload_body, unit) proc" where
  "part_data block =
     thenE (writeE (\<lambda>u. u\<lparr>ub_size := ub_size u + length block\<rparr>))
     (thenE (\<lambda>u. guardE (ub_size u \<le> ub_limit u) (HTTPException 413 ''Upload exceeds the configured limit'') u)
       (writeE (\<lambda>u. u\<lparr>ub_prefix := take 8 (ub_prefix u @ take 8 block), ub_digest := ub_digest u @ block,
          ub_target := ub_target u @ block\<rparr>)))"

definition upload_finish :: "(upload_body, unit) proc" where
  "upload_finish = writeE (\<lambda>u. u\<lparr>ub_complete := True\<rparr>)"

section \<open>Reading a request\<close>

datatype parser_event =
    PartBegin
  | HeaderField bytes
  | HeaderValue bytes
  | HeaderEnd
  | HeadersFinished
  | PartData bytes
  | EndOfBody
  | Malformed \<comment> \<open>the parser raises\<close>

record 'p multipart =
  mp_options :: options_parser
  mp_new :: "bytes \<Rightarrow> 'p"
  mp_write :: "'p \<Rightarrow> bytes \<Rightarrow> parser_event list \<times> 'p"
  mp_finalize :: "'p \<Rightarrow> unit result"

fun on_event :: "options_parser \<Rightarrow> parser_event \<Rightarrow> (upload_body, unit) proc" where
  "on_event opts PartBegin = part_begin"
| "on_event opts (HeaderField data) = header_field data"
| "on_event opts (HeaderValue data) = header_value data"
| "on_event opts HeaderEnd = header_end"
| "on_event opts HeadersFinished = headers_finished opts"
| "on_event opts (PartData data) = part_data data"
| "on_event opts EndOfBody = upload_finish"
| "on_event opts Malformed = raiseE MultipartParseError"

fun feed :: "'p multipart \<Rightarrow> nat \<Rightarrow> 'p \<Rightarrow> bytes result list \<Rightarrow> (upload_body, 'p) proc" where
  \<comment> \<open>the loop over \<open>request.stream()\<close>, which may raise\<close>
  "feed mp seen p [] = returnE p"
| "feed mp seen p (Inl e # blocks) = raiseE e"
| "feed mp seen p (Inr block # blocks) = (\<lambda>u.
     if ub_limit u + 16384 < seen + length block
     then (Inl (HTTPException 413 ''Upload exceeds the configured limit''), u)
     else
       (case mp_write mp p block of (events, p') \<Rightarrow>
          thenE (forE (on_event (mp_options mp)) events) (feed mp (seen + length block) p' blocks) u))"

definition read_upload :: "'p multipart \<Rightarrow> bytes \<Rightarrow> bytes result list \<Rightarrow> (upload_body, unit) proc" where
  \<comment> \<open>\<open>read\<close>: the content type header and the blocks of the body\<close>
  "read_upload mp content_type blocks =
     (let (kind, options) = mp_options mp content_type;
          boundary = (case options (bytes_of ''boundary'') of None \<Rightarrow> [] | Some b \<Rightarrow> b)
      in if kind \<noteq> bytes_of ''multipart/form-data'' \<or> \<not> (1 \<le> length boundary \<and> length boundary \<le> 200)
         then raiseE (HTTPException 400 ''Expected multipart/form-data with a boundary'')
         else
           bindE (feed mp 0 (mp_new mp boundary) blocks) (\<lambda>p.
           thenE (liftE (mp_finalize mp p))
             (\<lambda>u. guardE (ub_complete u \<and> ub_parts u = 1) (HTTPException 400 ''Incomplete multipart upload'') u)))"

section \<open>What a read leaves behind\<close>

definition upload_ok :: "nat \<Rightarrow> upload_body \<Rightarrow> bool" where
  "upload_ok limit u \<longleftrightarrow> ub_limit u = limit \<and> length (ub_target u) \<le> limit \<and> ub_digest u = ub_target u
     \<and> ub_prefix u = take 8 (ub_target u)"

definition whole :: "upload_body \<Rightarrow> bool" where
  \<comment> \<open>nothing refused so far\<close>
  "whole u \<longleftrightarrow> ub_size u = length (ub_target u) \<and> ub_parts u \<le> 1 \<and> ub_header_count u \<le> 16"

lemma new_upload_ok: "upload_ok limit (new_upload limit) \<and> whole (new_upload limit)"
  by (simp add: upload_ok_def whole_def new_upload_def)

lemma on_event_ok:
  assumes "upload_ok limit u" and "whole u" and "on_event opts e u = (r, u')"
  shows "upload_ok limit u' \<and> (r = Inr () \<longrightarrow> whole u')"
proof (cases e)
  case (PartData block)
  have "take 8 (take 8 t @ take 8 block) = take 8 (t @ block)" for t
    by (auto simp: take_append min_def)
  then show ?thesis
    using assms PartData
    by (auto simp: part_data_def upload_ok_def whole_def thenE_def bindE_def writeE_def guardE_def split: if_splits)
next
  case HeadersFinished
  then show ?thesis
    using assms by (auto simp: headers_finished_def upload_ok_def whole_def Let_def split: option.splits if_splits)
qed (use assms in \<open>auto simp: part_begin_def header_field_def header_value_def header_end_def upload_finish_def
  bound_headers_def raiseE_def upload_ok_def whole_def thenE_def bindE_def writeE_def guardE_def split: if_splits\<close>)

lemma on_events_ok:
  assumes "upload_ok limit u" and "whole u" and "forE (on_event opts) es u = (r, u')"
  shows "upload_ok limit u' \<and> (r = Inr () \<longrightarrow> whole u')"
  using assms
proof (induction es arbitrary: u)
  case Nil
  then show ?case by (simp add: returnE_def)
next
  case (Cons e es)
  obtain x u1 where e: "on_event opts e u = (x, u1)" by fastforce
  note ok = on_event_ok [OF Cons(2,3) e]
  show ?case
  proof (cases x)
    case (Inl y)
    with Cons(4) e ok show ?thesis by (auto simp: thenE_def bindE_def)
  next
    case (Inr y)
    with Cons(4) e have "forE (on_event opts) es u1 = (r, u')" by (simp add: thenE_def bindE_def)
    from Cons(1) [OF _ _ this] ok Inr show ?thesis by simp
  qed
qed

lemma feed_ok:
  assumes "upload_ok limit u" and "whole u" and "feed mp seen p blocks u = (r, u')"
  shows "upload_ok limit u' \<and> (\<forall>p'. r = Inr p' \<longrightarrow> whole u' \<and> (\<exists>bs. blocks = map Inr bs
      \<and> (bs \<noteq> [] \<longrightarrow> seen + sum_list (map length bs) \<le> limit + 16384)))"
  using assms
proof (induction mp seen p blocks arbitrary: u rule: feed.induct)
  case (1 mp seen p)
  then show ?case by (auto simp: returnE_def)
next
  case (2 mp seen p e blocks)
  then show ?case by (auto simp: raiseE_def)
next
  case (3 mp seen p block blocks)
  obtain es p' where w: "mp_write mp p block = (es, p')" by fastforce
  show ?case
  proof (cases "ub_limit u + 16384 < seen + length block")
    case True
    with 3 show ?thesis by auto
  next
    case False
    obtain x u1 where e: "forE (on_event (mp_options mp)) es u = (x, u1)" by fastforce
    note ok = on_events_ok [OF 3(2,3) e]
    have lim: "ub_limit u = limit" using 3(2) by (simp add: upload_ok_def)
    show ?thesis
    proof (cases x)
      case (Inl y)
      with 3(4) False w e ok show ?thesis by (auto simp: thenE_def bindE_def)
    next
      case (Inr y)
      with 3(4) False w e have run: "feed mp (seen + length block) p' blocks u1 = (r, u')"
        by (simp add: thenE_def bindE_def)
      have whole: "upload_ok limit u1" "whole u1" using ok Inr by simp_all
      note ih = 3(1) [OF False w [symmetric] whole run]
      have "\<exists>bs'. Inr block # blocks = map Inr bs' \<and> (bs' \<noteq> [] \<longrightarrow> seen + sum_list (map length bs') \<le> limit + 16384)"
        if "blocks = map Inr bs" "bs \<noteq> [] \<longrightarrow> seen + length block + sum_list (map length bs) \<le> limit + 16384" for bs
        using that False lim by (intro exI [of _ "block # bs"]) (cases bs; simp)
      with ih show ?thesis by blast
    qed
  qed
qed

lemma read_upload_spec:
  assumes "read_upload mp content_type blocks (new_upload limit) = (r, u)"
  shows "length (ub_target u) \<le> limit
    \<and> (r = Inr () \<longrightarrow> ub_size u = length (ub_target u) \<and> ub_digest u = ub_target u
        \<and> ub_prefix u = take 8 (ub_target u) \<and> ub_parts u = 1 \<and> ub_complete u \<and> ub_header_count u \<le> 16
        \<and> (\<exists>bs. blocks = map Inr bs \<and> sum_list (map length bs) \<le> limit + 16384))"
proof -
  note start = conjunct1 [OF new_upload_ok] conjunct2 [OF new_upload_ok]
  obtain kind options where o: "mp_options mp content_type = (kind, options)" by fastforce
  let ?boundary = "case options (bytes_of ''boundary'') of None \<Rightarrow> [] | Some b \<Rightarrow> b"
  obtain x u1 where f: "feed mp 0 (mp_new mp ?boundary) blocks (new_upload limit) = (x, u1)" by fastforce
  note fed = feed_ok [OF start f]
  show ?thesis
  proof (cases "kind \<noteq> bytes_of ''multipart/form-data'' \<or> \<not> (1 \<le> length ?boundary \<and> length ?boundary \<le> 200)")
    case True
    with assms o start show ?thesis by (auto simp: read_upload_def raiseE_def upload_ok_def)
  next
    case False
    show ?thesis
    proof (cases x)
      case (Inl e)
      with assms o f False fed show ?thesis by (auto simp: read_upload_def bindE_def upload_ok_def)
    next
      case (Inr p)
      with assms o f False have "u = u1 \<and> (r = Inr () \<longrightarrow> ub_complete u \<and> ub_parts u = 1)"
        by (auto simp: read_upload_def bindE_def thenE_def liftE_def guardE_def split: sum.splits if_splits)
      with fed Inr show ?thesis by (auto simp: upload_ok_def whole_def)
    qed
  qed
qed

text \<open>
  C37: an accepted upload is what was received, and a refused one is bounded. Whatever the
  parser calls back, at most \<open>max_upload_bytes\<close> are ever spooled. When \<open>read\<close> succeeds there was
  exactly one complete file part with at most 16 headers; the recorded size, the digest and the
  first eight bytes are those of the spooled bytes, and the whole body exceeded the limit by at
  most the framing allowance.
\<close>

theorem upload_is_exact_and_bounded:
  assumes "read_upload mp content_type blocks (new_upload limit) = (r, u)"
  shows "length (ub_target u) \<le> limit
    \<and> (r = Inr () \<longrightarrow> ub_size u = length (ub_target u) \<and> ub_digest u = ub_target u
        \<and> ub_prefix u = take 8 (ub_target u) \<and> ub_parts u = 1 \<and> ub_complete u \<and> ub_header_count u \<le> 16
        \<and> (\<exists>bs. blocks = map Inr bs \<and> sum_list (map length bs) \<le> limit + 16384))"
  by (rule read_upload_spec [OF assms])

definition demo_parser :: "nat multipart" where
  \<comment> \<open>the first block opens the part, the second closes it\<close>
  "demo_parser = \<lparr>mp_options = (\<lambda>h. (h, \<lambda>k. Some (bytes_of ''file''))), mp_new = (\<lambda>b. 0),
     mp_write = (\<lambda>n block. (if n = 0 then [PartBegin, HeadersFinished, PartData block]
        else [PartData block, EndOfBody], n + 1)),
     mp_finalize = (\<lambda>p. Inr ())\<rparr>"

lemma upload_is_exact_and_bounded_witness:
  "\<exists>u. read_upload demo_parser (bytes_of ''multipart/form-data'') [Inr (bytes_of ''%P''), Inr (bytes_of ''DF'')]
      (new_upload 4) = (Inr (), u)
    \<and> ub_size u = length (ub_target u) \<and> ub_prefix u = take 8 (ub_target u)"
proof -
  let ?m = "read_upload demo_parser (bytes_of ''multipart/form-data'') [Inr (bytes_of ''%P''), Inr (bytes_of ''DF'')]
      (new_upload 4)"
  have "fst ?m = Inr ()" by code_simp
  then have r: "?m = (Inr (), snd ?m)" by (simp add: prod_eq_iff)
  from upload_is_exact_and_bounded [OF r] r show ?thesis by blast
qed

end
