(* ===== verification/Ingest.thy ===== *)
theory Ingest
  imports Upload StorageGuarantees Pipeline
begin

text \<open>
  The ingest service: registration of an upload (\<open>ingest/service.py\<close>), the object stores it may
  write to, and its HTTP boundary (\<open>ingest/main.py\<close>). The object is written before the SQL
  transaction, so a failure in between leaves an object without a document, never a document
  or an event without its object.
\<close>

section \<open>Registration\<close>

record receipt =
  rc_document :: uuid
  rc_sha256 :: ustr
  rc_status :: string

record 'o ingest_world =
  iw_db :: db
  iw_objects :: 'o

definition in_db :: "(db, 'a) proc \<Rightarrow> ('o ingest_world, 'a) proc" where
  "in_db m w = (case m (iw_db w) of (r, d) \<Rightarrow> (r, w\<lparr>iw_db := d\<rparr>))"

definition in_objects :: "('o, 'a) proc \<Rightarrow> ('o ingest_world, 'a) proc" where
  "in_objects m w = (case m (iw_objects w) of (r, s) \<Rightarrow> (r, w\<lparr>iw_objects := s\<rparr>))"

record fresh =
  \<comment> \<open>\<open>uuid4()\<close> twice, the clock and the active trace\<close>
  fr_document :: uuid
  fr_event :: uuid
  fr_now :: timestamp
  fr_trace :: "ustr option"

type_synonym 'o put = "ustr \<Rightarrow> bytes \<Rightarrow> nat \<Rightarrow> string \<Rightarrow> ('o, unit) proc"

definition register ::
  "(bytes \<Rightarrow> ustr) \<Rightarrow> 'o put \<Rightarrow> fresh \<Rightarrow> ustr \<Rightarrow> upload_body \<Rightarrow> ('o ingest_world, receipt) proc" where
  "register sha256 put fr tenant u =
     bindE (liftE (media_type_of (ub_prefix u))) (\<lambda>kind.
       let digest = sha256 (ub_digest u)
       in bindE (in_db (find_by_sha256 tenant digest)) (\<lambda>previous.
            (case previous of
               Some r \<Rightarrow> returnE \<lparr>rc_document = sd_id r, rc_sha256 = digest, rc_status = ''duplicate''\<rparr>
             | None \<Rightarrow>
                 (let key = object_key tenant digest
                  in thenE (in_objects (put key (ub_target u) (ub_size u) (mime kind)))
                       (bindE (in_db (register_upload (fr_document fr) (fr_event fr) (fr_now fr) (fr_trace fr)
                            tenant (ub_filename u) digest (mime kind) (ub_size u) key)) (\<lambda>record.
                          returnE \<lparr>rc_document = sd_id record, rc_sha256 = digest,
                            rc_status = sd_status record\<rparr>))))))"

section \<open>Object stores\<close>

definition memory_put :: "(ustr \<times> bytes) list put" where
  \<comment> \<open>\<open>InMemoryObjectStore.put\<close>\<close>
  "memory_put key data n media objects =
     (if length data \<noteq> n then (Inl (ValueError ''Object size mismatch''), objects)
      else (Inr (), AList.update key data objects))"

datatype put_fault = Stored | NotStored exn | Unacknowledged exn

record flaky_store =
  fs_objects :: "(ustr \<times> bytes) list"
  fs_calls :: nat
  fs_fault :: "nat \<Rightarrow> put_fault"

definition flaky_client :: "flaky_store s3_client" where
  \<comment> \<open>an S3 client whose calls may be refused or lose their reply\<close>
  "flaky_client =
     \<lparr>s3_put_object = (\<lambda>key data n media s.
        let next = s\<lparr>fs_calls := Suc (fs_calls s)\<rparr>;
            stored = next\<lparr>fs_objects := AList.update key data (fs_objects s)\<rparr>
        in case fs_fault s (fs_calls s) of
             Stored \<Rightarrow> (Inr (), stored) | NotStored e \<Rightarrow> (Inl e, next) | Unacknowledged e \<Rightarrow> (Inl e, stored)),
      s3_get_object = (\<lambda>key s. (case map_of (fs_objects s) key of
        None \<Rightarrow> Inl (ClientError ''NoSuchKey'') | Some data \<Rightarrow> Inr [Inr data], s)),
      s3_head_object = (\<lambda>key s. (if key \<in> fst ` set (fs_objects s) then Inr () else Inl (ClientError ''404''), s))\<rparr>"

section \<open>Replies\<close>

record document_view =
  dv_document :: uuid
  dv_status :: string
  dv_filename :: ustr
  dv_page_count :: "nat option"
  dv_language :: "string option"
  dv_version :: "string option"
  dv_created :: timestamp
  dv_processed :: "timestamp option"
  dv_error :: "ustr option"

record document_item =
  di_id :: uuid
  di_filename :: ustr
  di_status :: string
  di_page_count :: "nat option"
  di_language :: "string option"
  di_created :: timestamp
  di_processed :: "timestamp option"
  di_error :: "ustr option"
  di_size :: "nat option"

datatype ingest_reply =
    IngestError nat string
  | Accepted receipt
  | DocumentView document_view
  | DocumentPage "document_item list" int int
  | IngestOk

definition tenant_of :: "ustr option \<Rightarrow> ('s, ustr) proc" where
  \<comment> \<open>the \<open>X-Tenant-Id\<close> header\<close>
  "tenant_of header =
     (case header of
        Some t \<Rightarrow> (if valid_tenant t then returnE t else raiseE (HTTPException 400 ''A valid X-Tenant-Id is required''))
      | None \<Rightarrow> raiseE (HTTPException 400 ''A valid X-Tenant-Id is required''))"

definition ingest_endpoint ::
  "(bytes \<Rightarrow> ustr) \<Rightarrow> 'o put \<Rightarrow> 'p multipart \<Rightarrow> nat \<Rightarrow> fresh \<Rightarrow> ustr option \<Rightarrow> bytes \<Rightarrow> bytes result list
   \<Rightarrow> ('o ingest_world, ingest_reply) proc" where
  "ingest_endpoint sha256 put mp limit fr header content_type blocks =
     bindE (tenant_of header) (\<lambda>owner.
       case read_upload mp content_type blocks (new_upload limit) of
         (Inl e, _) \<Rightarrow> raiseE e
       | (Inr _, u) \<Rightarrow> bindE (register sha256 put fr owner u) (\<lambda>r. returnE (Accepted r)))"

definition view_document :: "('a) doc_row_scheme \<Rightarrow> document_view" where
  "view_document r = \<lparr>dv_document = sd_id r, dv_status = sd_status r, dv_filename = sd_filename r,
     dv_page_count = sd_page_count r, dv_language = sd_language r, dv_version = sd_version r,
     dv_created = sd_created r, dv_processed = sd_processed r, dv_error = sd_error r\<rparr>"

definition list_item :: "doc_row \<Rightarrow> document_item" where
  "list_item r = \<lparr>di_id = sd_id r, di_filename = sd_filename r, di_status = sd_status r,
     di_page_count = sd_page_count r, di_language = sd_language r, di_created = sd_created r,
     di_processed = sd_processed r, di_error = sd_error r, di_size = sd_size r\<rparr>"

definition document_endpoint :: "uuid \<Rightarrow> ustr option \<Rightarrow> ('o ingest_world, ingest_reply) proc" where
  "document_endpoint doc header =
     bindE (tenant_of header) (\<lambda>t.
     bindE (in_db (get_document t doc)) (\<lambda>found.
       (case found of
          None \<Rightarrow> raiseE (HTTPException 404 ''Document not found'')
        | Some r \<Rightarrow> returnE (DocumentView (view_document r)))))"

definition documents_endpoint :: "int \<Rightarrow> int \<Rightarrow> ustr option \<Rightarrow> ('o ingest_world, ingest_reply) proc" where
  \<comment> \<open>the framework refuses parameters outside their declared range\<close>
  "documents_endpoint limit offset header =
     (if \<not> (1 \<le> limit \<and> limit \<le> 100) \<or> offset < 0 then raiseE RequestValidationError
      else
        bindE (tenant_of header) (\<lambda>t.
        bindE (in_db (list_documents t limit offset)) (\<lambda>rows.
          returnE (DocumentPage (map list_item rows) limit offset))))"

definition error_response :: "exn \<Rightarrow> ingest_reply" where
  "error_response e =
     (case e of
        HTTPException status detail \<Rightarrow> IngestError status detail
      | UnsupportedMediaType \<Rightarrow> IngestError 415 ''Expected PDF, PNG, JPEG or TIFF bytes''
      | MultipartParseError \<Rightarrow> IngestError 400 ''Invalid multipart upload''
      | RequestValidationError \<Rightarrow> IngestError 422 ''Invalid request''
      | _ \<Rightarrow> IngestError 503 ''Service dependency unavailable'')"

datatype ingest_http =
    PostIngest fresh "ustr option" bytes "bytes result list"
  | GetDocument uuid "ustr option"
  | GetDocuments int int "ustr option"
  | IngestHealth
  | IngestReady "unit result" \<comment> \<open>the outcome of the three probes\<close>

definition ingest_app ::
  "(bytes \<Rightarrow> ustr) \<Rightarrow> 'o put \<Rightarrow> 'p multipart \<Rightarrow> nat \<Rightarrow> ingest_http \<Rightarrow> 'o ingest_world
   \<Rightarrow> ingest_reply \<times> 'o ingest_world" where
  "ingest_app sha256 put mp limit http w =
     (case (case http of
              PostIngest fr header content_type blocks \<Rightarrow>
                ingest_endpoint sha256 put mp limit fr header content_type blocks w
            | GetDocument doc header \<Rightarrow> document_endpoint doc header w
            | GetDocuments n offset header \<Rightarrow> documents_endpoint n offset header w
            | IngestHealth \<Rightarrow> returnE IngestOk w
            | IngestReady probes \<Rightarrow> thenE (liftE probes) (returnE IngestOk) w) of
        (Inr r, w') \<Rightarrow> (r, w')
      | (Inl e, w') \<Rightarrow> (error_response e, w'))"

end
