(* ===== verification/IngestLaws.thy ===== *)
theory IngestLaws
  imports Ingest
begin

text \<open>
  What the ingest service promises to the worker: every event it enqueues can be processed,
  because it passes the worker's own validation and its object is stored with the announced
  digest. The promise rests on two laws of an object store, so it holds for the in-memory store
  and for an S3 store that refuses calls or loses their replies.
\<close>

section \<open>The contract of an object store\<close>

locale object_store =
  fixes put :: "'o put" and stored :: "'o \<Rightarrow> ustr \<Rightarrow> bytes option"
  assumes put_stores: "put key data n media s = (Inr (), s') \<Longrightarrow> stored s' key = Some data"
    and put_keeps: "put key data n media s = (r, s') \<Longrightarrow> stored s' k = stored s k \<or> (k = key \<and> stored s' k = Some data)"

interpretation memory: object_store memory_put map_of
  by unfold_locales (auto simp: memory_put_def update_conv' split: if_splits)

interpretation flaky: object_store "object_put flaky_client" "\<lambda>s. map_of (fs_objects s)"
  by unfold_locales (auto simp: object_put_def flaky_client_def update_conv' Let_def split: put_fault.splits if_splits)

section \<open>Events that can be processed\<close>

definition backed :: "(bytes \<Rightarrow> ustr) \<Rightarrow> (ustr \<Rightarrow> bytes option) \<Rightarrow> document_uploaded \<Rightarrow> bool" where
  "backed sha256 objects e \<longleftrightarrow> valid_worker_event e
     \<and> (\<exists>data. objects (ev_key e) = Some data \<and> sha256 data = ev_sha256 e)"

definition announces :: "document_uploaded \<Rightarrow> ustr \<Rightarrow> uuid \<Rightarrow> ustr \<Rightarrow> bool" where
  "announces e tenant doc sha \<longleftrightarrow> ev_tenant e = tenant \<and> ev_document e = doc \<and> ev_sha256 e = sha"

definition ingest_ok :: "(bytes \<Rightarrow> ustr) \<Rightarrow> (ustr \<Rightarrow> bytes option) \<Rightarrow> db \<Rightarrow> bool" where
  "ingest_ok sha256 objects d \<longleftrightarrow> db_ok 1 (\<lambda>_ _. 0) d
     \<and> (\<forall>q \<in> set (db_outbox d). backed sha256 objects (ob_payload q))
     \<and> (\<forall>r \<in> set (db_docs d). \<exists>q \<in> set (db_outbox d). announces (ob_payload q) (sd_tenant r) (sd_id r) (sd_sha256 r))"

lemma object_key_inj:
  assumes "object_key t s = object_key t' s'" and "valid_sha256 s" and "valid_sha256 s'"
  shows "s = s'"
  using assms by (simp add: object_key_def valid_sha256_def append_eq_append_conv)

lemma find_by_sha256_cases:
  assumes "docs_ok (db_docs d)" and "find_by_sha256 t sha d = (r, d')"
  shows "d' = d \<and> (\<forall>x. r = Inr x \<longrightarrow> (case x of Some row \<Rightarrow> row \<in> set (db_docs d) \<and> sd_tenant row = t \<and> sd_sha256 row = sha
    | None \<Rightarrow> t = [] \<or> \<not> list_ex (\<lambda>row. sd_tenant row = t \<and> sd_sha256 row = sha) (db_docs d)))"
proof -
  let ?rows = "filter (\<lambda>row. t \<noteq> [] \<and> sd_tenant row = t \<and> sd_tenant row = t \<and> sd_sha256 row = sha) (db_docs d)"
  have "find_by_sha256 t sha d = (one_or_none ?rows, d)"
    by (auto simp: find_by_sha256_def begin_tenant bindE_def liftE_def split: sum.splits)
  then have r: "r = one_or_none ?rows" "d' = d" using assms(2) by simp_all
  have some: "row \<in> set ?rows" if "one_or_none ?rows = Inr (Some row)" for row
    using that by (cases ?rows rule: one_or_none.cases) simp_all
  have none: "?rows = []" if "one_or_none ?rows = Inr None"
    using that by (cases ?rows rule: one_or_none.cases) simp_all
  have "case x of Some row \<Rightarrow> row \<in> set (db_docs d) \<and> sd_tenant row = t \<and> sd_sha256 row = sha
    | None \<Rightarrow> t = [] \<or> \<not> list_ex (\<lambda>row. sd_tenant row = t \<and> sd_sha256 row = sha) (db_docs d)" if "r = Inr x" for x
  proof (cases x)
    case None
    then have "?rows = []" using that r none by simp
    then show ?thesis unfolding None option.case list_ex_iff filter_empty_conv by blast
  next
    case (Some row)
    then have "row \<in> set ?rows" using that r some by simp
    with Some show ?thesis by simp
  qed
  with r show ?thesis by blast
qed

lemma register_row_cases:
  assumes "docs_ok (db_docs d)" and "register_row event_id trace rc d = (res, d')"
    and "\<not> list_ex (\<lambda>row. sd_tenant row = sd_tenant rc \<and> sd_sha256 row = sd_sha256 rc) (db_docs d)"
  shows "d' = d \<and> isl res \<or> res = Inr rc \<and> valid_event (uploaded_event event_id trace rc)
    \<and> db_docs d' = db_docs d @ [rc]
    \<and> db_outbox d' = db_outbox d @ [outbox_entry event_id trace rc]"
proof -
  have "same_key rc = (\<lambda>row. sd_tenant row = sd_tenant rc \<and> sd_sha256 row = sd_sha256 rc)"
    by (auto simp: same_key_def fun_eq_iff)
  with assms(2,3) show ?thesis by (auto simp: register_row_eq split: if_splits)
qed

context object_store
begin

lemma register_step:
  assumes ok: "ingest_ok sha256 (stored (iw_objects w)) (iw_db w)" and sha: "\<forall>d. valid_sha256 (sha256 d)"
    and whole: "ub_digest u = ub_target u" and run: "register sha256 put fr t u w = (r, w')" and t: "t \<noteq> []"
  shows "ingest_ok sha256 (stored (iw_objects w')) (iw_db w') \<and> set (db_outbox (iw_db w)) \<subseteq> set (db_outbox (iw_db w'))
    \<and> (\<forall>rc. r = Inr rc \<longrightarrow> rc_sha256 rc = sha256 (ub_target u)
        \<and> (\<exists>q \<in> set (db_outbox (iw_db w')). announces (ob_payload q) t (rc_document rc) (rc_sha256 rc)))"
proof (cases "media_type_of (ub_prefix u)")
  case (Inl e)
  with run ok show ?thesis by (auto simp: register_def bindE_def liftE_def)
next
  case kind: (Inr kind)
  let ?d = "iw_db w" and ?sha = "sha256 (ub_target u)"
  let ?key = "object_key t ?sha"
  have docs: "docs_ok (db_docs ?d)" using ok by (simp add: ingest_ok_def db_ok_def)
  obtain x d1 where find: "find_by_sha256 t ?sha ?d = (x, d1)" by fastforce
  note found = find_by_sha256_cases [OF docs find]
  consider e where "x = Inl e" | row where "x = Inr (Some row)" | "x = Inr None"
    by (cases x; cases "projr x") auto
  then show ?thesis
  proof cases
    case 1
    with run kind find found ok whole show ?thesis
      by (auto simp: register_def bindE_def liftE_def in_db_def Let_def)
  next
    case 2
    with found have row: "row \<in> set (db_docs ?d)" "sd_tenant row = t" "sd_sha256 row = ?sha" by auto
    have "\<exists>q \<in> set (db_outbox ?d). announces (ob_payload q) (sd_tenant row) (sd_id row) (sd_sha256 row)"
      using ok row(1) unfolding ingest_ok_def by blast
    then have "\<exists>q \<in> set (db_outbox ?d). announces (ob_payload q) t (sd_id row) ?sha"
      using row(2,3) by simp
    with 2 run kind find found ok whole show ?thesis
      by (auto simp: register_def bindE_def liftE_def in_db_def Let_def returnE_def)
  next
    case 3
    obtain y s1 where put: "put ?key (ub_target u) (ub_size u) (mime kind) (iw_objects w) = (y, s1)" by fastforce
    have backs: "backed sha256 (stored s1) e" if "backed sha256 (stored (iw_objects w)) e" for e
    proof -
      have "stored s1 (ev_key e) = stored (iw_objects w) (ev_key e)
          \<or> (ev_key e = ?key \<and> stored s1 (ev_key e) = Some (ub_target u))"
        using put_keeps [OF put] by blast
      moreover have "ev_sha256 e = ?sha" if "ev_key e = ?key"
        using that \<open>backed sha256 (stored (iw_objects w)) e\<close> sha object_key_inj [of "ev_tenant e" "ev_sha256 e" t ?sha]
        by (auto simp: backed_def valid_worker_event_def valid_event_def)
      ultimately show ?thesis using that by (auto simp: backed_def)
    qed
    then have kept: "ingest_ok sha256 (stored s1) ?d" using ok by (auto simp: ingest_ok_def)
    show ?thesis
    proof (cases y)
      case (Inl e)
      with 3 run kind find found whole put kept show ?thesis
        by (auto simp: register_def bindE_def thenE_def liftE_def in_db_def in_objects_def Let_def)
    next
      case (Inr z)
      let ?row = "\<lparr>sd_id = fr_document fr, sd_tenant = t, sd_filename = ub_filename u, sd_sha256 = ?sha,
        sd_media_type = mime kind, sd_page_count = None, sd_language = None,
        sd_status = ''uploaded'', sd_version = None, sd_embed_model = None,
        sd_size = Some (ub_size u), sd_key = Some ?key, sd_error = None, sd_created = fr_now fr,
        sd_processed = None\<rparr>"
      obtain res d2 where reg: "register_row (fr_event fr) (fr_trace fr) ?row ?d = (res, d2)" by fastforce
      from 3 run kind find found whole put Inr reg
      have r: "w' = w\<lparr>iw_db := d2, iw_objects := s1\<rparr>"
        "r = map_sum id (\<lambda>record. \<lparr>rc_document = sd_id record, rc_sha256 = ?sha, rc_status = sd_status record\<rparr>) res"
        by (auto simp: register_def bindE_def thenE_def liftE_def in_db_def in_objects_def Let_def
            register_upload_def returnE_def split: sum.splits)
      have "\<not> list_ex (\<lambda>row. sd_tenant row = sd_tenant ?row \<and> sd_sha256 row = sd_sha256 ?row) (db_docs ?d)"
        using found 3 t by simp
      from register_row_cases [OF docs reg this] show ?thesis
      proof
        assume "d2 = ?d \<and> isl res"
        with r kept show ?thesis by (cases res) auto
      next
        let ?e = "uploaded_event (fr_event fr) (fr_trace fr) ?row"
        assume new: "res = Inr ?row \<and> valid_event ?e \<and> db_docs d2 = db_docs ?d @ [?row]
          \<and> db_outbox d2 = db_outbox ?d @ [outbox_entry (fr_event fr) (fr_trace fr) ?row]"
        have z: "z = ()" by simp
        have "backed sha256 (stored s1) ?e"
          using new put_stores [OF put [unfolded Inr z]]
          by (cases kind) (auto simp: backed_def valid_worker_event_def uploaded_event_def mime_values_def)
        moreover have "announces ?e t (fr_document fr) ?sha" by (simp add: announces_def uploaded_event_def)
        moreover have "db_ok 1 (\<lambda>_ _. 0) d2"
          by (rule register_keeps [OF _ reg]) (use ok in \<open>simp_all add: ingest_ok_def\<close>)
        ultimately show ?thesis
          using new r kept by (auto simp: ingest_ok_def outbox_entry_def)
      qed
    qed
  qed
qed

lemma endpoint_step:
  assumes ok: "ingest_ok sha256 (stored (iw_objects w)) (iw_db w)" and sha: "\<forall>d. valid_sha256 (sha256 d)"
    and run: "ingest_endpoint sha256 put mp limit fr header ct blocks w = (r, w')"
  shows "ingest_ok sha256 (stored (iw_objects w')) (iw_db w') \<and> set (db_outbox (iw_db w)) \<subseteq> set (db_outbox (iw_db w'))
    \<and> (\<forall>rc. r = Inr (Accepted rc) \<longrightarrow> (\<exists>t. header = Some t
        \<and> (\<exists>q \<in> set (db_outbox (iw_db w')). announces (ob_payload q) t (rc_document rc) (rc_sha256 rc))))"
proof (cases "\<exists>t u. header = Some t \<and> valid_tenant t \<and> read_upload mp ct blocks (new_upload limit) = (Inr (), u)")
  case False
  then have "w' = w \<and> isl r"
    using run by (auto simp: ingest_endpoint_def tenant_of_def bindE_def returnE_def raiseE_def
        split: option.splits if_splits prod.splits sum.splits)
  with ok show ?thesis by (cases r) auto
next
  case True
  then obtain t u where tu: "header = Some t" "valid_tenant t" "read_upload mp ct blocks (new_upload limit) = (Inr (), u)"
    by blast
  then have whole: "ub_digest u = ub_target u" "t \<noteq> []"
    using read_upload_spec [OF tu(3)] by (auto simp: valid_tenant_def)
  obtain x w1 where reg: "register sha256 put fr t u w = (x, w1)" by fastforce
  have r: "w' = w1" "r = map_sum id Accepted x"
    using run tu reg by (auto simp: ingest_endpoint_def tenant_of_def bindE_def returnE_def split: sum.splits)
  from register_step [OF ok sha whole(1) reg whole(2)] r tu(1) show ?thesis by (cases x) auto
qed

lemma app_step:
  assumes ok: "ingest_ok sha256 (stored (iw_objects w)) (iw_db w)" and sha: "\<forall>d. valid_sha256 (sha256 d)"
    and run: "ingest_app sha256 put mp limit http w = (reply, w')"
  shows "ingest_ok sha256 (stored (iw_objects w')) (iw_db w') \<and> set (db_outbox (iw_db w)) \<subseteq> set (db_outbox (iw_db w'))
    \<and> (\<forall>rc. reply = Accepted rc \<longrightarrow> (\<exists>fr t ct blocks. http = PostIngest fr (Some t) ct blocks
        \<and> (\<exists>q \<in> set (db_outbox (iw_db w')). announces (ob_payload q) t (rc_document rc) (rc_sha256 rc))))"
proof -
  have not_accepted: "error_response e \<noteq> Accepted rc" for e rc
    by (simp add: error_response_def split: exn.split)
  show ?thesis
  proof (cases http)
    case (PostIngest fr header ct blocks)
    obtain x w1 where e: "ingest_endpoint sha256 put mp limit fr header ct blocks w = (x, w1)" by fastforce
    have "w' = w1" "reply = (case x of Inl e \<Rightarrow> error_response e | Inr r \<Rightarrow> r)"
      using run PostIngest e by (auto simp: ingest_app_def split: sum.splits)
    with endpoint_step [OF ok sha e] PostIngest not_accepted show ?thesis by (cases x) auto
  next
    case (GetDocument doc header)
    have "w' = w \<and> (\<forall>rc. reply \<noteq> Accepted rc)"
      using run GetDocument not_accepted
      by (auto simp: ingest_app_def document_endpoint_def tenant_of_def bindE_def returnE_def raiseE_def in_db_def
          get_document_def snapshot_def split: option.splits if_splits prod.splits sum.splits)
    with ok show ?thesis by blast
  next
    case (GetDocuments n offset header)
    have "snd (list_documents t n offset (iw_db w)) = iw_db w" for t by simp
    then have "w' = w \<and> (\<forall>rc. reply \<noteq> Accepted rc)"
      using run GetDocuments not_accepted
      by (auto simp: ingest_app_def documents_endpoint_def tenant_of_def bindE_def returnE_def raiseE_def in_db_def
          split: option.splits if_splits prod.splits sum.splits dest!: arg_cong [of "list_documents _ _ _ _" _ snd])
    with ok show ?thesis by blast
  next
    case IngestHealth
    with run ok show ?thesis by (auto simp: ingest_app_def returnE_def)
  next
    case (IngestReady probes)
    with run ok not_accepted show ?thesis
      by (auto simp: ingest_app_def thenE_def bindE_def liftE_def returnE_def split: sum.splits)
  qed
qed

end

section \<open>Histories\<close>

fun serve_requests ::
  "(bytes \<Rightarrow> ustr) \<Rightarrow> 'o put \<Rightarrow> 'p multipart \<Rightarrow> nat \<Rightarrow> ingest_http list \<Rightarrow> 'o ingest_world
   \<Rightarrow> ingest_reply list \<times> 'o ingest_world" where
  "serve_requests sha256 put mp limit [] w = ([], w)"
| "serve_requests sha256 put mp limit (r # rs) w =
     (case ingest_app sha256 put mp limit r w of (reply, w1) \<Rightarrow>
        (case serve_requests sha256 put mp limit rs w1 of (replies, w2) \<Rightarrow> (reply # replies, w2)))"

context object_store
begin

lemma serve_ok:
  assumes "ingest_ok sha256 (stored (iw_objects w)) (iw_db w)" and sha: "\<forall>d. valid_sha256 (sha256 d)"
    and "serve_requests sha256 put mp limit reqs w = (replies, w')"
  shows "ingest_ok sha256 (stored (iw_objects w')) (iw_db w') \<and> set (db_outbox (iw_db w)) \<subseteq> set (db_outbox (iw_db w'))
    \<and> (\<forall>(req, reply) \<in> set (zip reqs replies). \<forall>rc. reply = Accepted rc \<longrightarrow>
        (\<exists>fr t ct blocks. req = PostIngest fr (Some t) ct blocks
          \<and> (\<exists>q \<in> set (db_outbox (iw_db w')). announces (ob_payload q) t (rc_document rc) (rc_sha256 rc))))"
  using assms(1,3)
proof (induction reqs arbitrary: w replies)
  case Nil
  then show ?case by simp
next
  case (Cons req reqs)
  obtain reply w1 where a: "ingest_app sha256 put mp limit req w = (reply, w1)" by fastforce
  obtain rest w2 where s: "serve_requests sha256 put mp limit reqs w1 = (rest, w2)" by fastforce
  have eq: "replies = reply # rest" "w' = w2" using Cons.prems(2) a s by auto
  note first = app_step [OF Cons.prems(1) sha a]
  note others = Cons.IH [OF conjunct1 [OF first] s [folded eq(2)]]
  have sub: "set (db_outbox (iw_db w1)) \<subseteq> set (db_outbox (iw_db w'))" using others by (elim conjE)
  have here: "\<forall>rc. reply = Accepted rc \<longrightarrow> (\<exists>fr t ct blocks. req = PostIngest fr (Some t) ct blocks
      \<and> (\<exists>q \<in> set (db_outbox (iw_db w')). announces (ob_payload q) t (rc_document rc) (rc_sha256 rc)))"
  proof (intro allI impI)
    fix rc assume "reply = Accepted rc"
    with conjunct2 [OF conjunct2 [OF first]] obtain fr t ct blocks q where
      "req = PostIngest fr (Some t) ct blocks" "q \<in> set (db_outbox (iw_db w1))"
      "announces (ob_payload q) t (rc_document rc) (rc_sha256 rc)" by blast
    with sub show "\<exists>fr t ct blocks. req = PostIngest fr (Some t) ct blocks
      \<and> (\<exists>q \<in> set (db_outbox (iw_db w')). announces (ob_payload q) t (rc_document rc) (rc_sha256 rc))" by blast
  qed
  show ?case
  proof (intro conjI)
    show "ingest_ok sha256 (stored (iw_objects w')) (iw_db w')" by (rule conjunct1 [OF others])
    show "set (db_outbox (iw_db w)) \<subseteq> set (db_outbox (iw_db w'))"
      using conjunct1 [OF conjunct2 [OF first]] sub by (rule subset_trans)
    note later = conjunct2 [OF conjunct2 [OF others]]
    show "\<forall>(req, reply) \<in> set (zip (req # reqs) replies). \<forall>rc. reply = Accepted rc \<longrightarrow>
        (\<exists>fr t ct blocks. req = PostIngest fr (Some t) ct blocks
          \<and> (\<exists>q \<in> set (db_outbox (iw_db w')). announces (ob_payload q) t (rc_document rc) (rc_sha256 rc)))"
      unfolding eq(1) zip_Cons_Cons list.set ball_simps prod.case by (rule conjI [OF here later])
  qed
qed

end

section \<open>Property\<close>

definition fresh_world :: "(nat \<Rightarrow> put_fault) \<Rightarrow> flaky_store ingest_world" where
  "fresh_world faults = \<lparr>iw_db = empty_db, iw_objects = \<lparr>fs_objects = [], fs_calls = 0, fs_fault = faults\<rparr>\<rparr>"

text \<open>
  C7: what ingest announces, the worker can process. After any requests to the ingest service,
  over an object store that may refuse a write or lose its reply at any call, every event in the
  outbox passes the worker's own validation and the object under its key has the announced
  digest, every document has its event, and every accepted upload is announced for the tenant
  that sent it.
\<close>

theorem announced_uploads_are_stored:
  assumes "\<forall>d. valid_sha256 (sha256 d)"
    and "serve_requests sha256 (object_put flaky_client) mp limit reqs (fresh_world faults) = (replies, w)"
  shows "list_all (\<lambda>q. backed sha256 (map_of (fs_objects (iw_objects w))) (ob_payload q)) (db_outbox (iw_db w))
    \<and> list_all (\<lambda>r. list_ex (\<lambda>q. announces (ob_payload q) (sd_tenant r) (sd_id r) (sd_sha256 r)) (db_outbox (iw_db w)))
        (db_docs (iw_db w))
    \<and> (\<forall>(req, reply) \<in> set (zip reqs replies). \<forall>rc. reply = Accepted rc \<longrightarrow>
        (\<exists>fr t ct blocks. req = PostIngest fr (Some t) ct blocks
          \<and> list_ex (\<lambda>q. announces (ob_payload q) t (rc_document rc) (rc_sha256 rc)) (db_outbox (iw_db w))))"
proof -
  have "ingest_ok sha256 (map_of (fs_objects (iw_objects (fresh_world faults)))) (iw_db (fresh_world faults))"
    by (simp add: ingest_ok_def fresh_world_def empty_db_ok) (simp add: empty_db_def)
  from flaky.serve_ok [OF this assms] show ?thesis
    unfolding ingest_ok_def list_all_iff list_ex_iff by blast
qed

definition demo_requests :: "ingest_http list" where
  \<comment> \<open>the same upload twice, the first time with a lost reply of the store\<close>
  "demo_requests =
     (let upload = (\<lambda>n. PostIngest \<lparr>fr_document = n, fr_event = n + 10, fr_now = int n, fr_trace = None\<rparr>
        (Some (ascii ''acme'')) (bytes_of ''multipart/form-data'') [Inr (bytes_of ''%PDF-1''), Inr (bytes_of ''.4'')])
      in [upload 1, upload 2, upload 3, GetDocuments 10 0 (Some (ascii ''acme''))])"

lemma announced_uploads_are_stored_witness:
  "\<exists>replies w. serve_requests (\<lambda>d. replicate 64 48) (object_put flaky_client) demo_parser 100 demo_requests
      (fresh_world (\<lambda>n. if n = 0 then Unacknowledged BotoCoreError else Stored)) = (replies, w)
    \<and> map ev_document (map ob_payload (db_outbox (iw_db w))) = [2] \<and> length replies = 4
    \<and> list_all (\<lambda>q. backed (\<lambda>d. replicate 64 48) (map_of (fs_objects (iw_objects w))) (ob_payload q)) (db_outbox (iw_db w))"
proof -
  let ?m = "serve_requests (\<lambda>d. replicate 64 48) (object_put flaky_client) demo_parser 100 demo_requests
      (fresh_world (\<lambda>n. if n = 0 then Unacknowledged BotoCoreError else Stored))"
  have "valid_sha256 (replicate 64 48)" by code_simp
  then have "\<forall>d :: bytes. valid_sha256 ((\<lambda>d. replicate 64 48) d)" by simp
  moreover obtain replies w where m: "?m = (replies, w)" by fastforce
  moreover note announced_uploads_are_stored [of "\<lambda>d. replicate 64 48", OF _ m]
  ultimately have "list_all (\<lambda>q. backed (\<lambda>d. replicate 64 48) (map_of (fs_objects (iw_objects w))) (ob_payload q)) (db_outbox (iw_db w))"
    by blast
  moreover have "(map ev_document (map ob_payload (db_outbox (iw_db (snd ?m)))), length (fst ?m)) = ([2], 4)" by code_simp
  ultimately show ?thesis using m by simp
qed

end
