(* ===== verification/Streams.thy ===== *)
theory Streams
  imports Effects
begin

text \<open>
  The queue: the wire format of upload events (\<open>contracts/ingest.py\<close>, \<open>contracts/streams.py\<close>),
  the Redis adapter of \<open>worker/streams.py\<close> over the client it is given, and the deterministic
  \<open>InMemoryStreamConsumer\<close> of \<open>packages/testing\<close>, which states what the worker relies on:
  a read message stays pending, with a delivery count, until it is acknowledged.
\<close>

section \<open>Messages\<close>

type_synonym stream_id = "nat \<times> nat" \<comment> \<open>\<open>milliseconds-sequence\<close>\<close>
type_synonym fields = "(string \<times> ustr) list"

record stream_message =
  sm_id :: stream_id
  sm_fields :: fields

section \<open>Events on the wire\<close>

text \<open>
  Text forms of the values of an event: \<open>str\<close> of a UUID and of a timestamp, and the parsers
  pydantic applies to them.
\<close>

record wire_codec =
  wc_uuid :: "uuid \<Rightarrow> ustr"
  wc_time :: "timestamp \<Rightarrow> ustr"
  wc_parse_uuid :: "ustr \<Rightarrow> uuid option"
  wc_parse_int :: "ustr \<Rightarrow> int option"
  wc_parse_time :: "ustr \<Rightarrow> timestamp option"

definition stream_fields :: "wire_codec \<Rightarrow> document_uploaded \<Rightarrow> fields" where
  "stream_fields wc e =
     [(''event_id'', wc_uuid wc (ev_id e)), (''type'', ev_type e), (''tenant_id'', ev_tenant e),
      (''document_id'', wc_uuid wc (ev_document e)), (''sha256'', ev_sha256 e),
      (''object_key'', ev_key e), (''media_type'', ascii (ev_media_type e)),
      (''size_bytes'', str_nat (ev_size e)), (''occurred_at'', wc_time wc (ev_occurred e))]
     @ (case ev_traceparent e of None \<Rightarrow> [] | Some t \<Rightarrow> [(''traceparent'', t)])"

definition parse_media :: "ustr \<Rightarrow> string option" where
  "parse_media t = find (\<lambda>m. ascii m = t) mime_values"

definition field_option :: "fields \<Rightarrow> string \<Rightarrow> (ustr \<Rightarrow> 'a option) \<Rightarrow> 'a option" where
  "field_option fs name parse = (case map_of fs name of None \<Rightarrow> None | Some t \<Rightarrow> parse t)"

definition worker_event :: "wire_codec \<Rightarrow> fields \<Rightarrow> document_uploaded result" where
  \<comment> \<open>\<open>WorkerEvent.model_validate(fields)\<close>; other fields are ignored\<close>
  "worker_event wc fs =
     (case (field_option fs ''event_id'' (wc_parse_uuid wc), field_option fs ''type'' Some,
            field_option fs ''tenant_id'' Some, field_option fs ''document_id'' (wc_parse_uuid wc),
            field_option fs ''sha256'' Some, field_option fs ''object_key'' Some,
            field_option fs ''media_type'' parse_media,
            field_option fs ''size_bytes'' (wc_parse_int wc),
            field_option fs ''occurred_at'' (wc_parse_time wc)) of
        (Some i, Some ty, Some tenant, Some doc, Some sha, Some key, Some media, Some n, Some occurred) \<Rightarrow>
          (let e = \<lparr>ev_id = i, ev_type = ty, ev_tenant = tenant, ev_document = doc,
                 ev_sha256 = sha, ev_key = key, ev_media_type = media, ev_size = nat n,
                 ev_occurred = occurred, ev_traceparent = map_of fs ''traceparent''\<rparr>
           in if 0 \<le> n \<and> valid_worker_event e then Inr e else Inl ValidationError)
      | _ \<Rightarrow> Inl ValidationError)"

definition codec_ok :: "wire_codec \<Rightarrow> bool" where
  \<comment> \<open>each parser accepts what the corresponding \<open>str\<close> prints\<close>
  "codec_ok wc \<longleftrightarrow> (\<forall>u. wc_parse_uuid wc (wc_uuid wc u) = Some u)
     \<and> (\<forall>t. wc_parse_time wc (wc_time wc t) = Some t)
     \<and> (\<forall>n. wc_parse_int wc (str_nat n) = Some (int n))"

lemma ascii_inj [simp]: "ascii s = ascii t \<longleftrightarrow> s = t"
  by (auto simp: ascii_def inj_map_eq_map inj_on_def)

lemma parse_media_ascii: "m \<in> set mime_values \<Longrightarrow> parse_media (ascii m) = Some m"
  by (auto simp: parse_media_def mime_values_def mime_def)

lemma wire_roundtrip:
  assumes "codec_ok wc" and "valid_worker_event e"
  shows "worker_event wc (stream_fields wc e) = Inr e"
proof -
  have "parse_media (ascii (ev_media_type e)) = Some (ev_media_type e)"
    using assms(2) by (intro parse_media_ascii) (simp add: valid_worker_event_def)
  with assms show ?thesis
    by (cases e; cases "ev_traceparent e")
      (auto simp: worker_event_def stream_fields_def field_option_def codec_ok_def Let_def)
qed

section \<open>The Redis adapter\<close>

record 'r stream_client =
  rc_xgroup_create :: "string \<Rightarrow> string \<Rightarrow> ('r, unit) proc"
  rc_xreadgroup :: "string \<Rightarrow> ustr \<Rightarrow> string \<Rightarrow> nat \<Rightarrow> nat
     \<Rightarrow> ('r, (string \<times> (stream_id \<times> fields) list) list) proc"
  rc_xack :: "string \<Rightarrow> string \<Rightarrow> stream_id \<Rightarrow> ('r, unit) proc"
  rc_xadd :: "string \<Rightarrow> fields \<Rightarrow> ('r, stream_id) proc"
  rc_xautoclaim :: "string \<Rightarrow> string \<Rightarrow> ustr \<Rightarrow> nat \<Rightarrow> stream_id \<Rightarrow> nat
     \<Rightarrow> ('r, stream_id \<times> (stream_id \<times> fields) list) proc"
  rc_xpending_range :: "string \<Rightarrow> string \<Rightarrow> stream_id \<Rightarrow> ('r, nat list) proc"
  rc_set :: "ustr \<Rightarrow> ustr \<Rightarrow> nat \<Rightarrow> ('r, unit) proc"

definition redis_xgroup_create :: "'r stream_client \<Rightarrow> string \<Rightarrow> string \<Rightarrow> ('r, unit) proc" where
  "redis_xgroup_create c stream grp =
     tryE (rc_xgroup_create c stream grp)
       (\<lambda>e. case e of
          ResponseError m \<Rightarrow>
            (if take 9 m = ascii ''BUSYGROUP'' then returnE () else raiseE e)
        | _ \<Rightarrow> raiseE e)"

definition redis_xreadgroup ::
  "'r stream_client \<Rightarrow> string \<Rightarrow> string \<Rightarrow> ustr \<Rightarrow> nat \<Rightarrow> nat \<Rightarrow> ('r, stream_message list) proc" where
  "redis_xreadgroup c stream grp consumer n block_ms =
     bindE (rc_xreadgroup c grp consumer stream n block_ms) (\<lambda>rows.
       returnE (concat (map (\<lambda>(s, entries).
         map (\<lambda>(key, fs). \<lparr>sm_id = key, sm_fields = fs\<rparr>) entries) rows)))"

definition redis_xautoclaim ::
  "'r stream_client \<Rightarrow> string \<Rightarrow> string \<Rightarrow> ustr \<Rightarrow> nat \<Rightarrow> stream_id \<Rightarrow> nat
   \<Rightarrow> ('r, stream_id \<times> stream_message list) proc" where
  "redis_xautoclaim c stream grp consumer min_idle_ms start n =
     bindE (rc_xautoclaim c stream grp consumer min_idle_ms start n) (\<lambda>(cursor, entries).
       returnE (cursor, map (\<lambda>(key, fs). \<lparr>sm_id = key, sm_fields = fs\<rparr>) entries))"

definition redis_xpending :: "'r stream_client \<Rightarrow> string \<Rightarrow> string \<Rightarrow> stream_id \<Rightarrow> ('r, nat) proc" where
  "redis_xpending c stream grp message_id =
     bindE (rc_xpending_range c stream grp message_id) (\<lambda>rows.
       returnE (case rows of [] \<Rightarrow> 0 | n # _ \<Rightarrow> n))"

definition redis_heartbeat :: "'r stream_client \<Rightarrow> nat \<Rightarrow> ustr \<Rightarrow> ('r, unit) proc" where
  "redis_heartbeat c heartbeat_seconds consumer =
     rc_set c (ascii ''di:worker:'' @ consumer) (ascii ''ready'') heartbeat_seconds"

section \<open>The in-memory consumer\<close>

record pending_entry =
  pe_consumer :: ustr
  pe_delivered :: nat
  pe_attempts :: nat

record group_state =
  gr_offset :: nat
  gr_pending :: "(stream_id \<times> pending_entry) list"

record streams =
  st_now :: nat
  st_streams :: "(string \<times> stream_message list) list"
  st_groups :: "((string \<times> string) \<times> group_state) list"
  st_heartbeats :: "(ustr \<times> nat) list"

definition empty_group :: group_state where
  "empty_group = \<lparr>gr_offset = 0, gr_pending = []\<rparr>"

definition setdefault :: "'k \<Rightarrow> 'v \<Rightarrow> ('k \<times> 'v) list \<Rightarrow> ('k \<times> 'v) list" where
  "setdefault k v d = (if map_of d k = None then d @ [(k, v)] else d)"

definition entries_of :: "streams \<Rightarrow> string \<Rightarrow> stream_message list" where
  "entries_of st stream = (case map_of (st_streams st) stream of None \<Rightarrow> [] | Some es \<Rightarrow> es)"

definition xgroup_create :: "string \<Rightarrow> string \<Rightarrow> (streams, unit) proc" where
  "xgroup_create stream grp =
     writeE (\<lambda>st. st\<lparr>st_streams := setdefault stream [] (st_streams st),
                    st_groups := setdefault (stream, grp) empty_group (st_groups st)\<rparr>)"

definition xadd :: "string \<Rightarrow> fields \<Rightarrow> (streams, stream_id) proc" where
  "xadd stream fs st =
     (let entries = entries_of st stream; key = (length entries + 1, 0)
      in (Inr key, st\<lparr>st_streams :=
            AList.update stream (entries @ [\<lparr>sm_id = key, sm_fields = fs\<rparr>]) (st_streams st)\<rparr>))"

definition with_group ::
  "string \<Rightarrow> string \<Rightarrow> (group_state \<Rightarrow> streams \<Rightarrow> 'a result \<times> streams) \<Rightarrow> (streams, 'a) proc" where
  \<comment> \<open>\<open>self.groups[stream, grp]\<close>\<close>
  "with_group stream grp f st =
     (case map_of (st_groups st) (stream, grp) of
        None \<Rightarrow> (Inl KeyError, st) | Some g \<Rightarrow> f g st)"

definition set_group :: "string \<Rightarrow> string \<Rightarrow> group_state \<Rightarrow> streams \<Rightarrow> streams" where
  "set_group stream grp g st =
     st\<lparr>st_groups := AList.update (stream, grp) g (st_groups st)\<rparr>"

definition xreadgroup ::
  "string \<Rightarrow> string \<Rightarrow> ustr \<Rightarrow> nat \<Rightarrow> nat \<Rightarrow> (streams, stream_message list) proc" where
  "xreadgroup stream grp consumer n block_ms =
     with_group stream grp (\<lambda>g st.
       let entries = py_slice (gr_offset g) (gr_offset g + n) (entries_of st stream);
           pend = foldl (\<lambda>p e. AList.update (sm_id e)
             \<lparr>pe_consumer = consumer, pe_delivered = st_now st, pe_attempts = 1\<rparr> p)
             (gr_pending g) entries
       in (Inr entries, set_group stream grp
            (g\<lparr>gr_pending := pend, gr_offset := gr_offset g + length entries\<rparr>) st))"

definition xack :: "string \<Rightarrow> string \<Rightarrow> stream_id \<Rightarrow> (streams, unit) proc" where
  "xack stream grp message_id =
     with_group stream grp (\<lambda>g st.
       (Inr (), set_group stream grp
          (g\<lparr>gr_pending := AList.delete message_id (gr_pending g)\<rparr>) st))"

definition xpending :: "string \<Rightarrow> string \<Rightarrow> stream_id \<Rightarrow> (streams, nat) proc" where
  "xpending stream grp message_id =
     with_group stream grp (\<lambda>g st.
       (Inr (case map_of (gr_pending g) message_id of
               None \<Rightarrow> 0 | Some p \<Rightarrow> pe_attempts p), st))"

definition claim_entry ::
  "nat \<Rightarrow> ustr \<Rightarrow> nat \<Rightarrow> stream_message \<Rightarrow> (stream_id \<times> pending_entry) list \<Rightarrow> stream_message list
   \<Rightarrow> (stream_id \<times> pending_entry) list \<times> stream_message list" where
  \<comment> \<open>one pending entry: taken over when it has been idle for long enough\<close>
  "claim_entry now consumer min_idle e pend claimed =
     (case map_of pend (sm_id e) of
        None \<Rightarrow> (pend, claimed)
      | Some p \<Rightarrow>
          (if int now - int (pe_delivered p) \<ge> int min_idle
           then (AList.update (sm_id e) \<lparr>pe_consumer = consumer, pe_delivered = now,
                   pe_attempts = pe_attempts p + 1\<rparr> pend, claimed @ [e])
           else (pend, claimed)))"

fun claim_scan ::
  "nat \<Rightarrow> ustr \<Rightarrow> nat \<Rightarrow> nat \<Rightarrow> nat \<Rightarrow> stream_message list \<Rightarrow> (stream_id \<times> pending_entry) list
   \<Rightarrow> stream_message list \<Rightarrow> (stream_id \<times> pending_entry) list \<times> stream_message list \<times> nat" where
  \<comment> \<open>the loop of \<open>xautoclaim\<close>: entries scanned, messages claimed and pending entries so far\<close>
  "claim_scan now consumer min_idle n scanned claimed pend [] = (pend, claimed, scanned)"
| "claim_scan now consumer min_idle n scanned claimed pend (e # es) =
     (case claim_entry now consumer min_idle e pend claimed of (pend', claimed') \<Rightarrow>
        if length claimed' = n \<or> scanned + 1 = n * 10 then (pend', claimed', scanned + 1)
        else claim_scan now consumer min_idle n (scanned + 1) claimed' pend' es)"

definition xautoclaim ::
  "string \<Rightarrow> string \<Rightarrow> ustr \<Rightarrow> nat \<Rightarrow> stream_id \<Rightarrow> nat
   \<Rightarrow> (streams, stream_id \<times> stream_message list) proc" where
  "xautoclaim stream grp consumer min_idle_ms start n =
     with_group stream grp (\<lambda>g st.
       let entries = filter (\<lambda>e. map_of (gr_pending g) (sm_id e) \<noteq> None \<and> start \<le> sm_id e)
             (entries_of st stream);
           r = claim_scan (st_now st) consumer min_idle_ms n 0 [] (gr_pending g) entries;
           scanned = snd (snd r);
           cursor = (if scanned < length entries then sm_id (entries ! scanned) else (0, 0))
       in (Inr (cursor, fst (snd r)), set_group stream grp (g\<lparr>gr_pending := fst r\<rparr>) st))"

definition heartbeat :: "ustr \<Rightarrow> (streams, unit) proc" where
  "heartbeat consumer =
     writeE (\<lambda>st. st\<lparr>st_heartbeats :=
       AList.update consumer (st_now st + 30000) (st_heartbeats st)\<rparr>)"

end
