(* ===== verification/Relay.thy ===== *)
theory Relay
  imports Storage Streams Settings
begin

text \<open>
  The outbox relay (\<open>ingest/relay.py\<close>) and its Redis publisher (\<open>ingest/adapters.py\<close>). A batch
  is published inside the transaction that marks it: a failure rolls the marks back but not the
  messages, so delivery is at least once. Locks of other relays are a set of skipped events.
\<close>

section \<open>Publishing\<close>

type_synonym 'p publish = "document_uploaded \<Rightarrow> ('p, unit) proc"

definition redis_publish :: "wire_codec \<Rightarrow> (string \<Rightarrow> fields \<Rightarrow> ('p, stream_id) proc) \<Rightarrow> 'p publish" where
  \<comment> \<open>\<open>RedisPublisher.publish\<close> over the client's \<open>xadd\<close>\<close>
  "redis_publish wc stream_add event =
     thenE (stream_add ''di:documents'' (stream_fields wc event)) (returnE ())"

record 'p relay_state =
  rs_session :: session
  rs_publisher :: 'p

definition in_session :: "(session, 'a) proc \<Rightarrow> ('p relay_state, 'a) proc" where
  "in_session m s = (case m (rs_session s) of (r, x) \<Rightarrow> (r, s\<lparr>rs_session := x\<rparr>))"

definition in_publisher :: "('p, 'a) proc \<Rightarrow> ('p relay_state, 'a) proc" where
  "in_publisher m s = (case m (rs_publisher s) of (r, x) \<Rightarrow> (r, s\<lparr>rs_publisher := x\<rparr>))"

section \<open>One batch\<close>

definition unpublished :: "uuid set \<Rightarrow> ustr \<Rightarrow> nat \<Rightarrow> (session, outbox_row list) proc" where
  \<comment> \<open>the statement: oldest first, limited, locked rows skipped\<close>
  "unpublished locked tenant batch = readE (\<lambda>s.
     take batch
       (sort_key (\<lambda>q. (ob_created q, ob_id q))
         (filter (\<lambda>q. rls (se_tenant s) (ob_tenant q) \<and> ob_tenant q = tenant \<and> ob_published q = None
            \<and> ob_id q \<notin> locked) (db_outbox (se_db s)))))"

definition mark_published :: "timestamp \<Rightarrow> ustr \<Rightarrow> uuid \<Rightarrow> (session, unit) proc" where
  "mark_published clk tenant event = writeE (\<lambda>s.
     s\<lparr>se_db := se_db s\<lparr>db_outbox := map (\<lambda>q.
       if rls (se_tenant s) (ob_tenant q) \<and> ob_tenant q = tenant \<and> ob_id q = event
       then q\<lparr>ob_published := Some clk\<rparr> else q) (db_outbox (se_db s))\<rparr>\<rparr>)"

definition relay_row ::
  "'p publish \<Rightarrow> (document_uploaded \<Rightarrow> ustr option) \<Rightarrow> timestamp \<Rightarrow> ustr \<Rightarrow> outbox_row \<Rightarrow> ('p relay_state, unit) proc" where
  \<comment> \<open>\<open>trace\<close> is the \<open>traceparent\<close> of the span opened under the event's context\<close>
  "relay_row publish trace clk tenant row =
     (let event = ob_payload row
      in if \<not> valid_event event then raiseE ValidationError
         else thenE (in_publisher (publish (event\<lparr>ev_traceparent := trace event\<rparr>)))
                (in_session (mark_published clk tenant (ob_id row))))"

definition relay_once ::
  "'p publish \<Rightarrow> (document_uploaded \<Rightarrow> ustr option) \<Rightarrow> timestamp \<Rightarrow> uuid set \<Rightarrow> ustr \<Rightarrow> int
   \<Rightarrow> db \<times> 'p \<Rightarrow> nat result \<times> db \<times> 'p" where
  \<comment> \<open>\<open>run_once\<close>: the tables roll back when the body raises, the publisher does not\<close>
  "relay_once publish trace clk locked tenant batch = (\<lambda>(d, p).
     if batch < 1 then (Inl (ValueError ''Batch must be positive''), d, p)
     else
       (case thenE (in_session (set_tenant tenant))
               (bindE (in_session (unpublished locked tenant (nat batch))) (\<lambda>rows.
                 thenE (forE (relay_row publish trace clk tenant) rows) (returnE (length rows))))
               \<lparr>rs_session = \<lparr>se_db = d, se_tenant = None\<rparr>, rs_publisher = p\<rparr> of
          (Inl e, s) \<Rightarrow> (Inl e, d, rs_publisher s)
        | (Inr n, s) \<Rightarrow> (Inr n, se_db (rs_session s), rs_publisher s)))"

section \<open>The loop\<close>

fun relay_tenants ::
  "(ustr \<Rightarrow> db \<times> 'p \<Rightarrow> nat result \<times> db \<times> 'p) \<Rightarrow> ustr list \<Rightarrow> db \<times> 'p \<Rightarrow> unit result \<times> db \<times> 'p" where
  "relay_tenants once [] s = (Inr (), s)"
| "relay_tenants once (t # ts) s =
     (case once t s of (Inl e, s') \<Rightarrow> (Inl e, s') | (Inr n, s') \<Rightarrow> relay_tenants once ts s')"

record relay_round =
  \<comment> \<open>what one poll sees: the server clock, the rows other relays hold, whether to stop before it\<close>
  rr_clock :: timestamp
  rr_locked :: "uuid set"
  rr_stop :: bool

fun relay_run ::
  "'p publish \<Rightarrow> (document_uploaded \<Rightarrow> ustr option) \<Rightarrow> ustr \<Rightarrow> int \<Rightarrow> relay_round list \<Rightarrow> db \<times> 'p
   \<Rightarrow> unit result \<times> db \<times> 'p" where
  \<comment> \<open>\<open>run\<close> over the polls it makes\<close>
  "relay_run publish trace names batch [] s = (Inr (), s)"
| "relay_run publish trace names batch (r # rs) s =
     (if rr_stop r then (Inr (), s)
      else
        (case relay_tenants (\<lambda>t. relay_once publish trace (rr_clock r) (rr_locked r) t batch) (split_on comma names) s of
           (Inl e, s') \<Rightarrow> (Inl e, s')
         | (Inr _, s') \<Rightarrow> relay_run publish trace names batch rs s'))"

end
