(* ===== verification/Worker.thy ===== *)
theory Worker
  imports Pipeline Streams
begin

text \<open>
  The stream worker: \<open>processing.py\<close> and \<open>service.py\<close>. The queue, the repository, the object
  store and the clock are the calls of a \<open>services\<close> record, any of which may raise; what a
  client of those interfaces may rely on is the locale \<open>durable_services\<close>, and the handler's
  guarantees are proved once inside it.
\<close>

section \<open>What the worker is given\<close>

record 'e services =
  sv_xgroup_create :: "string \<Rightarrow> string \<Rightarrow> ('e, unit) proc"
  sv_xreadgroup :: "string \<Rightarrow> string \<Rightarrow> ustr \<Rightarrow> nat \<Rightarrow> nat \<Rightarrow> ('e, stream_message list) proc"
  sv_xack :: "string \<Rightarrow> string \<Rightarrow> stream_id \<Rightarrow> ('e, unit) proc"
  sv_xadd :: "string \<Rightarrow> fields \<Rightarrow> ('e, stream_id) proc"
  sv_xautoclaim :: "string \<Rightarrow> string \<Rightarrow> ustr \<Rightarrow> nat \<Rightarrow> stream_id \<Rightarrow> nat
     \<Rightarrow> ('e, stream_id \<times> stream_message list) proc"
  sv_xpending :: "string \<Rightarrow> string \<Rightarrow> stream_id \<Rightarrow> ('e, nat) proc"
  sv_heartbeat :: "ustr \<Rightarrow> ('e, unit) proc"
  sv_get_document :: "ustr \<Rightarrow> uuid \<Rightarrow> ('e, stored_document option) proc"
  sv_mark_status :: "ustr \<Rightarrow> uuid \<Rightarrow> string \<Rightarrow> ustr option \<Rightarrow> ('e, unit) proc"
  sv_upsert_document :: "ustr \<Rightarrow> ustr \<Rightarrow> document \<Rightarrow> ('e, stored_document) proc"
  sv_object_get :: "ustr \<Rightarrow> ('e, (bytes result) list) proc"
  sv_clock :: "('e, real) proc"
  sv_stopping :: "'e \<Rightarrow> bool"
  sv_wait :: "real \<Rightarrow> ('e, unit) proc"

record ('i, 'a) worker_config =
  wf_settings :: "'a worker_settings_scheme"
  wf_consumer :: ustr
  wf_codec :: wire_codec
  wf_pipeline :: "'i pipeline"

definition stream_name :: string where
  "stream_name = ''di:documents''"

definition dlq_name :: string where
  "dlq_name = ''di:documents:dlq''"

definition transient :: "exn \<Rightarrow> bool" where
  "transient e \<longleftrightarrow> e \<in> {StorageUnavailable, OperationalError, InterfaceError, PoolTimeout}"

definition exn_name :: "exn \<Rightarrow> ustr" where
  \<comment> \<open>\<open>type(error).__name__\<close>\<close>
  "exn_name e = ascii
     (case e of ValueError _ \<Rightarrow> ''ValueError'' | TypeError \<Rightarrow> ''TypeError'' | KeyError \<Rightarrow> ''KeyError''
      | IndexError \<Rightarrow> ''IndexError'' | AttributeError \<Rightarrow> ''AttributeError''
      | LookupError _ \<Rightarrow> ''LookupError'' | RuntimeError _ \<Rightarrow> ''RuntimeError''
      | OverflowError \<Rightarrow> ''OverflowError'' | OSError \<Rightarrow> ''OSError'' | TimeoutError \<Rightarrow> ''TimeoutError''
      | ValidationError \<Rightarrow> ''ValidationError'' | UnsupportedMediaType \<Rightarrow> ''UnsupportedMediaType''
      | MissingObject \<Rightarrow> ''MissingObject'' | StorageUnavailable \<Rightarrow> ''StorageUnavailable''
      | OtherException name \<Rightarrow> name | _ \<Rightarrow> ''Exception'')"

section \<open>Processing one document\<close>

definition lookup_document ::
  "'e services \<Rightarrow> document_uploaded \<Rightarrow> ('e, stored_document) proc" where
  \<comment> \<open>\<open>DocumentProcessor.lookup\<close>\<close>
  "lookup_document sv ev =
     bindE (sv_get_document sv (ev_tenant ev) (ev_document ev)) (\<lambda>found.
       case found of
         None \<Rightarrow> raiseE (LookupError ''Document not found for tenant'')
       | Some d \<Rightarrow>
           (if (sd_sha256 d, sd_key d, sd_media_type d, sd_size d)
               \<noteq> (ev_sha256 ev, Some (ev_key ev), ev_media_type ev, Some (ev_size ev))
            then raiseE (ValueError ''Event does not match document'')
            else returnE d))"

definition completed :: "('a) doc_row_scheme \<Rightarrow> bool" where
  "completed d \<longleftrightarrow> sd_status d = ''processed'' \<and> sd_version d = Some pipeline_version"

definition download_object ::
  "'e services \<Rightarrow> (bytes \<Rightarrow> ustr) \<Rightarrow> document_uploaded \<Rightarrow> ('e, bytes) proc" where
  "download_object sv sha256 ev e =
     (case sv_object_get sv (ev_key ev) e of (source, e') \<Rightarrow> (download sha256 source ev, e'))"

definition process_document ::
  "'e services \<Rightarrow> ('i, 'a) worker_config \<Rightarrow> document_uploaded \<Rightarrow> ('b) doc_row_scheme \<Rightarrow> ('e, unit) proc" where
  \<comment> \<open>\<open>DocumentProcessor.process\<close>\<close>
  "process_document sv cfg ev d =
     thenE (sv_mark_status sv (ev_tenant ev) (ev_document ev) ''processing'' None)
       (bindE (download_object sv (xr_sha256 (pl_extractors (wf_pipeline cfg))) ev) (\<lambda>content.
         thenE (pipeline_index (wf_pipeline cfg) (wf_settings cfg) (ascii ''original'') content
             (ev_tenant ev) (sv_upsert_document sv) (Some (sd_filename d)))
           (sv_mark_status sv (ev_tenant ev) (ev_document ev) ''processed'' None)))"

section \<open>One delivery\<close>

definition letter :: "fields \<Rightarrow> ustr \<Rightarrow> nat \<Rightarrow> fields" where
  \<comment> \<open>\<open>dict(message.fields, error=error, attempts=str(attempts))\<close>\<close>
  "letter fs err attempts =
     AList.update ''attempts'' (str_nat attempts) (AList.update ''error'' err fs)"

definition dead_letter ::
  "'e services \<Rightarrow> ('i, 'a) worker_config \<Rightarrow> stream_message \<Rightarrow> ustr \<Rightarrow> nat \<Rightarrow> ('e, unit) proc" where
  "dead_letter sv cfg msg err attempts =
     thenE (sv_xadd sv dlq_name (letter (sm_fields msg) err attempts))
       (sv_xack sv stream_name (worker_group (wf_settings cfg)) (sm_id msg))"

definition fail ::
  "'e services \<Rightarrow> ('i, 'a) worker_config \<Rightarrow> stream_message \<Rightarrow> document_uploaded \<Rightarrow> ustr \<Rightarrow> nat
   \<Rightarrow> ('e, unit) proc" where
  "fail sv cfg msg ev err attempts =
     thenE (sv_mark_status sv (ev_tenant ev) (ev_document ev) ''failed'' (Some err))
       (dead_letter sv cfg msg err attempts)"

definition handle_valid ::
  "'e services \<Rightarrow> ('i, 'a) worker_config \<Rightarrow> stream_message \<Rightarrow> document_uploaded \<Rightarrow> nat
   \<Rightarrow> ('e, unit) proc" where
  "handle_valid sv cfg msg ev attempts e =
     (case lookup_document sv ev e of
        (Inl x, e') \<Rightarrow>
          (if transient x then (Inl x, e')
           else if is_lookup_error x \<or> is_value_error x
           then dead_letter sv cfg msg (exn_name x @ ascii '': invalid document reference'') attempts e'
           else (Inl x, e'))
      | (Inr d, e') \<Rightarrow>
          (if completed d
           then sv_xack sv stream_name (worker_group (wf_settings cfg)) (sm_id msg) e'
           else if worker_max_attempts (wf_settings cfg) < attempts
           then fail sv cfg msg ev (ascii ''DeliveryLimit: retry budget exhausted'') attempts e'
           else
             (case process_document sv cfg ev d e' of
                (Inl x, e'') \<Rightarrow>
                  (if transient x then (Inl x, e'')
                   else fail sv cfg msg ev (exn_name x @ ascii '': processing failed'') attempts e'')
              | (Inr _, e'') \<Rightarrow>
                  sv_xack sv stream_name (worker_group (wf_settings cfg)) (sm_id msg) e'')))"

definition handle :: "'e services \<Rightarrow> ('i, 'a) worker_config \<Rightarrow> stream_message \<Rightarrow> ('e, unit) proc" where
  "handle sv cfg msg =
     bindE (sv_xpending sv stream_name (worker_group (wf_settings cfg)) (sm_id msg)) (\<lambda>attempts.
       if attempts = 0 then returnE ()
       else
         (case worker_event (wf_codec cfg) (sm_fields msg) of
            Inl e \<Rightarrow> dead_letter sv cfg msg (ascii ''ValidationError: invalid event'') attempts
          | Inr ev \<Rightarrow>
              tryE (handle_valid sv cfg msg ev attempts)
                (\<lambda>e. if transient e then returnE () else raiseE e)))"

section \<open>The consumer loop\<close>

record 'e worker =
  wk_env :: 'e
  wk_ready :: bool
  wk_next_reclaim :: real
  wk_cursor :: stream_id

definition callE :: "('e, 'b) proc \<Rightarrow> ('e worker, 'b) proc" where
  "callE m w = (case m (wk_env w) of (r, e) \<Rightarrow> (r, w\<lparr>wk_env := e\<rparr>))"

definition new_worker :: "'e \<Rightarrow> 'e worker" where
  "new_worker e = \<lparr>wk_env = e, wk_ready = False, wk_next_reclaim = 0, wk_cursor = (0, 0)\<rparr>"

definition reclaim ::
  "'e services \<Rightarrow> ('i, 'a) worker_config \<Rightarrow> ('e worker, stream_message list) proc" where
  "reclaim sv cfg =
     bindE (readE wk_cursor) (\<lambda>start.
       bindE (callE (sv_xautoclaim sv stream_name (worker_group (wf_settings cfg)) (wf_consumer cfg)
           (worker_claim_min_idle_ms (wf_settings cfg)) start (worker_batch (wf_settings cfg))))
         (\<lambda>(cursor, messages).
           thenE (writeE (\<lambda>w. w\<lparr>wk_cursor := cursor\<rparr>))
             (thenE
               (if cursor = (0, 0)
                then bindE (callE (sv_clock sv)) (\<lambda>now.
                       writeE (\<lambda>w. w\<lparr>wk_next_reclaim := now + worker_reclaim_seconds (wf_settings cfg)\<rparr>))
                else returnE ())
               (returnE messages))))"

fun handle_all ::
  "'e services \<Rightarrow> ('i, 'a) worker_config \<Rightarrow> stream_message list \<Rightarrow> ('e, unit) proc" where
  "handle_all sv cfg [] e = (Inr (), e)"
| "handle_all sv cfg (msg # msgs) e =
     (if sv_stopping sv e then (Inr (), e)
      else thenE (sv_heartbeat sv (wf_consumer cfg))
             (thenE (handle sv cfg msg) (handle_all sv cfg msgs)) e)"

definition fetch :: "'e services \<Rightarrow> ('i, 'a) worker_config \<Rightarrow> ('e worker, stream_message list) proc" where
  \<comment> \<open>the middle of \<open>run_once\<close>: reclaim idle work first, then read new deliveries\<close>
  "fetch sv cfg =
     bindE (readE wk_cursor) (\<lambda>cursor.
       bindE (if cursor \<noteq> (0, 0) then returnE True
              else bindE (callE (sv_clock sv)) (\<lambda>now. readE (\<lambda>w. wk_next_reclaim w \<le> now)))
         (\<lambda>due.
           bindE (if due then reclaim sv cfg else returnE []) (\<lambda>messages.
             if messages = []
             then callE (sv_xreadgroup sv stream_name (worker_group (wf_settings cfg)) (wf_consumer cfg)
                    (worker_batch (wf_settings cfg)) (worker_block_ms (wf_settings cfg)))
             else returnE messages)))"

definition run_once :: "'e services \<Rightarrow> ('i, 'a) worker_config \<Rightarrow> ('e worker, unit) proc" where
  "run_once sv cfg w =
     (if sv_stopping sv (wk_env w) then (Inr (), w)
      else
        thenE
          (if wk_ready w then returnE ()
           else thenE (callE (sv_xgroup_create sv stream_name (worker_group (wf_settings cfg))))
                  (writeE (\<lambda>w. w\<lparr>wk_ready := True\<rparr>)))
          (thenE (callE (sv_heartbeat sv (wf_consumer cfg)))
            (bindE (fetch sv cfg) (\<lambda>messages.
              thenE (callE (handle_all sv cfg messages))
                (callE (sv_heartbeat sv (wf_consumer cfg)))))) w)"

fun run :: "'e services \<Rightarrow> ('i, 'a) worker_config \<Rightarrow> nat \<Rightarrow> ('e worker, unit) proc" where
  \<comment> \<open>at most \<open>n\<close> rounds of the \<open>while not stopping\<close> loop\<close>
  "run sv cfg 0 w = (Inr (), w)"
| "run sv cfg (Suc n) w =
     (if sv_stopping sv (wk_env w) then (Inr (), w)
      else
        (case run_once sv cfg w of
           (Inr _, w') \<Rightarrow> run sv cfg n w'
         | (Inl e, w') \<Rightarrow>
             (if is_redis_error e \<or> transient e
              then (case callE (sv_wait sv (min (worker_reclaim_seconds (wf_settings cfg)) 5))
                       (w'\<lparr>wk_ready := False\<rparr>) of
                      (Inl x, w'') \<Rightarrow> (Inl x, w'') | (Inr _, w'') \<Rightarrow> run sv cfg n w'')
              else (Inl e, w'))))"

end
