(* ===== verification/WorkerLaws.thy ===== *)
theory WorkerLaws
  imports Worker
begin

text \<open>
  The interface between the worker and its services, and what the worker guarantees over any
  services that keep it. A \<open>ledger_view\<close> is all a client can rely on: which messages were
  handed out, which of them are pending with how many attempts, the dead letters, and the
  status, version and content hash of each document. Every call either fails without an
  effect, takes effect, or takes effect and loses its reply.
\<close>

section \<open>The contract of the services\<close>

type_synonym doc_state = "string \<times> string option \<times> ustr"

record ledger_view =
  vw_delivered :: "(stream_id \<times> fields) set"
  vw_attempts :: "stream_id \<Rightarrow> nat"
  vw_letters :: "fields list"
  vw_docs :: "ustr \<Rightarrow> uuid \<Rightarrow> doc_state option"

definition set_doc :: "ustr \<Rightarrow> uuid \<Rightarrow> doc_state \<Rightarrow> ledger_view \<Rightarrow> ledger_view" where
  "set_doc t i x v = v\<lparr>vw_docs := (vw_docs v)(t := (vw_docs v t)(i := Some x))\<rparr>"

definition acked :: "stream_id \<Rightarrow> ledger_view \<Rightarrow> ledger_view" where
  "acked i v = v\<lparr>vw_attempts := (vw_attempts v)(i := 0)\<rparr>"

definition lettered :: "fields \<Rightarrow> ledger_view \<Rightarrow> ledger_view" where
  "lettered f v = v\<lparr>vw_letters := vw_letters v @ [f]\<rparr>"

definition effect :: "'a result \<Rightarrow> ledger_view \<Rightarrow> ledger_view \<Rightarrow> ledger_view \<Rightarrow> bool" where
  \<comment> \<open>a call with reply \<open>r\<close> went from \<open>v\<close> to \<open>v'\<close>, where \<open>w\<close> is its effect\<close>
  "effect r v w v' \<longleftrightarrow> v' = w \<or> (isl r \<and> v' = v)"

locale durable_services =
  fixes sv :: "'e services" and grp :: string and good :: "'e \<Rightarrow> bool" and obs :: "'e \<Rightarrow> ledger_view"
  assumes unique_fields: "good e \<Longrightarrow> (i, f) \<in> vw_delivered (obs e) \<Longrightarrow> (i, f') \<in> vw_delivered (obs e)
      \<Longrightarrow> f = f'"
    and pending_law: "good e \<Longrightarrow> sv_xpending sv stream_name grp i e = (r, e') \<Longrightarrow>
      good e' \<and> obs e' = obs e \<and> (\<forall>n. r = Inr n \<longrightarrow> n = vw_attempts (obs e) i)"
    and ack_law: "good e \<Longrightarrow> sv_xack sv stream_name grp i e = (r1, e') \<Longrightarrow>
      good e' \<and> effect r1 (obs e) (acked i (obs e)) (obs e')"
    and add_law: "good e \<Longrightarrow> sv_xadd sv dlq_name f e = (r2, e') \<Longrightarrow>
      good e' \<and> effect r2 (obs e) (lettered f (obs e)) (obs e')"
    and get_law: "good e \<Longrightarrow> sv_get_document sv t d e = (r3, e') \<Longrightarrow>
      good e' \<and> obs e' = obs e \<and> (\<forall>x. r3 = Inr (Some x) \<longrightarrow>
        vw_docs (obs e) t d = Some (sd_status x, sd_version x, sd_sha256 x))"
    and mark_law: "good e \<Longrightarrow> sv_mark_status sv t d st err e = (r1, e') \<Longrightarrow>
      good e' \<and> (obs e' = obs e \<and> isl r1 \<or> (\<exists>s0 v h. vw_docs (obs e) t d = Some (s0, v, h)
        \<and> obs e' = set_doc t d (st, v, h) (obs e)))"
    and upsert_law: "good e \<Longrightarrow> sv_upsert_document sv t fn doc e = (r4, e')
      \<Longrightarrow> vw_docs (obs e) t d = Some (s0, v0, xd_sha256 doc) \<Longrightarrow>
      good e' \<and> effect r4 (obs e)
        (set_doc t d (''processed'', Some (xd_version doc), xd_sha256 doc) (obs e)) (obs e')"
    and object_law: "good e \<Longrightarrow> sv_object_get sv key e = (r5, e') \<Longrightarrow> good e' \<and> obs e' = obs e"
    and create_law: "good e \<Longrightarrow> sv_xgroup_create sv stream_name grp e = (r1, e') \<Longrightarrow>
      good e' \<and> obs e' = obs e"
    and heartbeat_law: "good e \<Longrightarrow> sv_heartbeat sv c e = (r1, e') \<Longrightarrow> good e' \<and> obs e' = obs e"
    and clock_law: "good e \<Longrightarrow> sv_clock sv e = (r6, e') \<Longrightarrow> good e' \<and> obs e' = obs e"
    and wait_law: "good e \<Longrightarrow> sv_wait sv secs e = (r1, e') \<Longrightarrow> good e' \<and> obs e' = obs e"
    and read_law: "good e \<Longrightarrow> sv_xreadgroup sv stream_name grp c n ms e = (r7, e') \<Longrightarrow>
      good e' \<and> vw_letters (obs e') = vw_letters (obs e) \<and> vw_docs (obs e') = vw_docs (obs e)
      \<and> vw_delivered (obs e) \<subseteq> vw_delivered (obs e')
      \<and> (\<forall>j. 0 < vw_attempts (obs e) j \<longrightarrow> 0 < vw_attempts (obs e') j)
      \<and> (\<forall>(j, f) \<in> vw_delivered (obs e') - vw_delivered (obs e). 0 < vw_attempts (obs e') j)
      \<and> (\<forall>ms. r7 = Inr ms \<longrightarrow> (\<forall>m \<in> set ms. (sm_id m, sm_fields m) \<in> vw_delivered (obs e')))"
    and claim_law: "good e \<Longrightarrow> sv_xautoclaim sv stream_name grp c idle start n e = (r8, e') \<Longrightarrow>
      good e' \<and> vw_letters (obs e') = vw_letters (obs e) \<and> vw_docs (obs e') = vw_docs (obs e)
      \<and> vw_delivered (obs e') = vw_delivered (obs e)
      \<and> (\<forall>j. 0 < vw_attempts (obs e) j \<longrightarrow> 0 < vw_attempts (obs e') j)
      \<and> (\<forall>cur ms. r8 = Inr (cur, ms) \<longrightarrow>
          (\<forall>m \<in> set ms. (sm_id m, sm_fields m) \<in> vw_delivered (obs e')))"

definition view_done :: "ledger_view \<Rightarrow> ustr \<Rightarrow> uuid \<Rightarrow> bool" where
  "view_done v t i \<longleftrightarrow> (\<exists>h. vw_docs v t i = Some (''processed'', Some pipeline_version, h))"

definition kept :: "ledger_view \<Rightarrow> ledger_view \<Rightarrow> bool" where
  \<comment> \<open>nothing about messages changed, and no finished document was touched\<close>
  "kept v v' \<longleftrightarrow> vw_delivered v' = vw_delivered v \<and> vw_attempts v' = vw_attempts v
     \<and> vw_letters v' = vw_letters v \<and> (\<forall>t i. view_done v t i \<longrightarrow> view_done v' t i)"

definition letters_of :: "fields \<Rightarrow> fields set" where
  "letters_of fs = {letter fs err n | err n. True}"

definition handled :: "wire_codec \<Rightarrow> stream_message \<Rightarrow> ledger_view \<Rightarrow> ledger_view \<Rightarrow> bool" where
  \<comment> \<open>what one delivery may do\<close>
  "handled wc msg v v' \<longleftrightarrow> vw_delivered v' = vw_delivered v
     \<and> (\<forall>i. i \<noteq> sm_id msg \<longrightarrow> vw_attempts v' i = vw_attempts v i)
     \<and> (\<exists>ls. vw_letters v' = vw_letters v @ ls \<and> set ls \<subseteq> letters_of (sm_fields msg)
          \<and> (vw_attempts v' (sm_id msg) = vw_attempts v (sm_id msg)
             \<or> vw_attempts v' (sm_id msg) = 0
               \<and> (ls \<noteq> [] \<or> (\<exists>ev. worker_event wc (sm_fields msg) = Inr ev
                    \<and> view_done v' (ev_tenant ev) (ev_document ev)))))
     \<and> (\<forall>t i. view_done v t i \<longrightarrow> view_done v' t i)"

lemma set_doc_done:
  "view_done (set_doc t i (s, ver, h) v) t' i' \<longleftrightarrow>
     (if t' = t \<and> i' = i then s = ''processed'' \<and> ver = Some pipeline_version else view_done v t' i')"
  by (auto simp: view_done_def set_doc_def)

lemma set_doc_frame [simp]:
  "vw_delivered (set_doc t i x v) = vw_delivered v" "vw_attempts (set_doc t i x v) = vw_attempts v"
  "vw_letters (set_doc t i x v) = vw_letters v"
  "vw_docs (set_doc t i x v) t i = Some x"
  by (simp_all add: set_doc_def)

lemma acked_frame [simp]:
  "vw_delivered (acked i v) = vw_delivered v" "vw_letters (acked i v) = vw_letters v"
  "vw_docs (acked i v) = vw_docs v" "vw_attempts (acked i v) j = (if j = i then 0 else vw_attempts v j)"
  "view_done (acked i v) t d = view_done v t d"
  by (simp_all add: acked_def view_done_def)

lemma lettered_frame [simp]:
  "vw_delivered (lettered f v) = vw_delivered v" "vw_letters (lettered f v) = vw_letters v @ [f]"
  "vw_docs (lettered f v) = vw_docs v" "vw_attempts (lettered f v) = vw_attempts v"
  "view_done (lettered f v) t d = view_done v t d"
  by (simp_all add: lettered_def view_done_def)

lemma kept_refl [simp]: "kept v v"
  by (simp add: kept_def)

context durable_services
begin

lemma dead_letter_handled:
  assumes "good e" and "dead_letter sv cfg msg err n e = (r, e')"
    and "worker_group (wf_settings cfg) = grp" and "kept v (obs e)"
  shows "good e' \<and> handled (wf_codec cfg) msg v (obs e')"
proof -
  let ?f = "letter (sm_fields msg) err n"
  have mem: "?f \<in> letters_of (sm_fields msg)" by (auto simp: letters_of_def)
  obtain r2 e1 where add: "sv_xadd sv dlq_name ?f e = (r2, e1)" by fastforce
  note A = add_law [OF assms(1) add]
  show ?thesis
  proof (cases r2)
    case (Inl x)
    then have "e' = e1" using assms(2) add by (simp add: dead_letter_def thenE_def bindE_def)
    with A assms(4) mem show ?thesis
      by (auto simp: effect_def handled_def kept_def view_done_def)
  next
    case (Inr k)
    then have ack: "sv_xack sv stream_name grp (sm_id msg) e1 = (r, e')"
      using assms(2,3) add by (simp add: dead_letter_def thenE_def bindE_def)
    from A Inr have o1: "good e1" "obs e1 = lettered ?f (obs e)" by (auto simp: effect_def)
    from ack_law [OF o1(1) ack] o1(2) assms(4) mem show ?thesis
      by (auto simp: effect_def handled_def kept_def)
  qed
qed

lemma mark_kept:
  assumes "good e" and "sv_mark_status sv t d st err e = (r, e')"
    and "kept v (obs e)" and "\<not> view_done v t d"
  shows "good e' \<and> kept v (obs e')
    \<and> (r = Inr () \<longrightarrow> (\<exists>s ver h. vw_docs (obs e) t d = Some (s, ver, h)
        \<and> obs e' = set_doc t d (st, ver, h) (obs e)))"
  using mark_law [OF assms(1,2)] assms(3,4)
  by (auto simp: kept_def set_doc_done)

lemma download_kept:
  assumes "good e" and "download_object sv sha ev e = (r, e')"
  shows "good e' \<and> obs e' = obs e \<and> (\<forall>d. r = Inr d \<longrightarrow> sha d = ev_sha256 ev)"
proof -
  obtain source e1 where g: "sv_object_get sv (ev_key ev) e = (source, e1)" by fastforce
  with assms(2) have "e' = e1" "r = download sha source ev"
    by (auto simp: download_object_def)
  with object_law [OF assms(1) g] download_ok show ?thesis by metis
qed

lemma process_kept:
  assumes good: "good e" and run: "process_document sv cfg ev d e = (r, e')"
    and doc: "vw_docs (obs e) (ev_tenant ev) (ev_document ev) = Some (s0, v0, ev_sha256 ev)"
    and open_: "\<not> view_done (obs e) (ev_tenant ev) (ev_document ev)"
  shows "good e' \<and> kept (obs e) (obs e')
    \<and> (r = Inr () \<longrightarrow> view_done (obs e') (ev_tenant ev) (ev_document ev))"
proof -
  let ?t = "ev_tenant ev" and ?i = "ev_document ev" and ?v = "obs e"
  obtain r1 e1 where m1: "sv_mark_status sv ?t ?i ''processing'' None e = (r1, e1)" by fastforce
  note M1 = mark_kept [OF good m1 kept_refl open_]
  show ?thesis
  proof (cases r1)
    case (Inl x)
    with run m1 M1 show ?thesis by (auto simp: process_document_def thenE_def bindE_def)
  next
    case (Inr u)
    then have o1: "good e1" "kept ?v (obs e1)"
      "vw_docs (obs e1) ?t ?i = Some (''processing'', v0, ev_sha256 ev)"
      using M1 doc by auto
    let ?sha = "xr_sha256 (pl_extractors (wf_pipeline cfg))"
    obtain r2 e2 where dl: "download_object sv ?sha ev e1 = (r2, e2)" by fastforce
    note D = download_kept [OF o1(1) dl]
    show ?thesis
    proof (cases r2)
      case (Inl x)
      with run m1 Inr dl D o1 show ?thesis by (auto simp: process_document_def thenE_def bindE_def)
    next
      case r2: (Inr content)
      let ?doc = "pipeline_document (wf_pipeline cfg) (wf_settings cfg) content"
      let ?fn = "case Some (sd_filename d) of None \<Rightarrow> ascii ''original''
          | Some f \<Rightarrow> if f = [] then ascii ''original'' else f"
      show ?thesis
      proof (cases ?doc)
        case (Inl x)
        with run m1 Inr dl D o1 r2 show ?thesis
          by (auto simp: process_document_def pipeline_index_def thenE_def bindE_def liftE_def)
      next
        case doc': (Inr document)
        have sha: "xd_sha256 document = ev_sha256 ev" "xd_version document = pipeline_version"
          using pipeline_document_ok [OF doc'] D r2 by auto
        obtain r3 e3 where up: "sv_upsert_document sv ?t ?fn document e2 = (r3, e3)" by fastforce
        have at: "vw_docs (obs e2) ?t ?i = Some (''processing'', v0, xd_sha256 document)"
          using D o1(3) sha by simp
        have U: "good e3 \<and> effect r3 (obs e1)
            (set_doc ?t ?i (''processed'', Some pipeline_version, ev_sha256 ev) (obs e1)) (obs e3)"
          using upsert_law [OF conjunct1 [OF D] up at] D sha by simp
        then have o3: "good e3" "kept ?v (obs e3)"
          using o1(2) open_ by (auto simp: effect_def kept_def set_doc_done)
        show ?thesis
        proof (cases r3)
          case (Inl x)
          with run m1 Inr dl D o1 r2 doc' up o3 show ?thesis
            by (auto simp: process_document_def pipeline_index_def thenE_def bindE_def liftE_def)
        next
          case r3: (Inr sd)
          then have m2: "sv_mark_status sv ?t ?i ''processed'' None e3 = (r, e')"
            using run m1 Inr dl r2 doc' up
            by (auto simp: process_document_def pipeline_index_def thenE_def bindE_def liftE_def)
          have "vw_docs (obs e3) ?t ?i = Some (''processed'', Some pipeline_version, ev_sha256 ev)"
            using U r3 by (auto simp: effect_def)
          with mark_kept [OF o3(1) m2 o3(2) open_] show ?thesis by (auto simp: set_doc_done)
        qed
      qed
    qed
  qed
qed

lemma fail_handled:
  assumes "good e" and "fail sv cfg msg ev err n e = (r, e')" and "kept v (obs e)"
    and "\<not> view_done v (ev_tenant ev) (ev_document ev)"
    and "worker_group (wf_settings cfg) = grp"
  shows "good e' \<and> handled (wf_codec cfg) msg v (obs e')"
proof -
  obtain r1 e1 where m: "sv_mark_status sv (ev_tenant ev) (ev_document ev) ''failed'' (Some err) e
      = (r1, e1)" by fastforce
  note M = mark_kept [OF assms(1) m assms(3,4)]
  show ?thesis
  proof (cases r1)
    case (Inl x)
    with m M assms(2) show ?thesis by (auto simp: fail_def thenE_def bindE_def handled_def kept_def)
  next
    case (Inr u)
    then have "dead_letter sv cfg msg err n e1 = (r, e')"
      using m assms(2) by (simp add: fail_def thenE_def bindE_def)
    with M show ?thesis using dead_letter_handled [OF _ _ assms(5)] by blast
  qed
qed

lemma kept_handled: "kept v v' \<Longrightarrow> handled wc msg v v'"
  by (auto simp: handled_def kept_def)

lemma ack_handled:
  assumes "good e" and "sv_xack sv stream_name grp (sm_id msg) e = (r, e')" and "kept v (obs e)"
    and "worker_event wc (sm_fields msg) = Inr ev"
    and "view_done (obs e) (ev_tenant ev) (ev_document ev)"
  shows "good e' \<and> handled wc msg v (obs e')"
  using ack_law [OF assms(1,2)] assms(3-5)
  by (auto simp: handled_def kept_def effect_def)

lemma lookup_view:
  assumes "good e" and "lookup_document sv ev e = (r, e')"
  shows "good e' \<and> obs e' = obs e \<and> (\<forall>d. r = Inr d \<longrightarrow>
      vw_docs (obs e) (ev_tenant ev) (ev_document ev)
        = Some (sd_status d, sd_version d, ev_sha256 ev))"
proof -
  obtain r1 e1 where g: "sv_get_document sv (ev_tenant ev) (ev_document ev) e = (r1, e1)" by fastforce
  note G = get_law [OF assms(1) g]
  from assms(2) g G show ?thesis
    by (auto simp: lookup_document_def bindE_def raiseE_def returnE_def
        split: sum.splits option.splits if_splits)
qed

lemma handle_valid_handled:
  assumes good: "good e" and run: "handle_valid sv cfg msg ev n e = (r, e')"
    and ev: "worker_event (wf_codec cfg) (sm_fields msg) = Inr ev"
    and grp: "worker_group (wf_settings cfg) = grp"
  shows "good e' \<and> handled (wf_codec cfg) msg (obs e) (obs e')"
proof -
  obtain r1 e1 where lk: "lookup_document sv ev e = (r1, e1)" by fastforce
  note L = lookup_view [OF good lk]
  show ?thesis
  proof (cases r1)
    case (Inl x)
    show ?thesis
    proof (cases "\<not> transient x \<and> (is_lookup_error x \<or> is_value_error x)")
      case True
      with Inl run lk have "dead_letter sv cfg msg
          (exn_name x @ ascii '': invalid document reference'') n e1 = (r, e')"
        by (auto simp: handle_valid_def)
      from dead_letter_handled [OF _ this grp, of "obs e"] L show ?thesis by simp
    next
      case False
      with Inl run lk L show ?thesis
        by (auto simp: handle_valid_def kept_handled split: if_splits)
    qed
  next
    case (Inr d)
    have doc: "vw_docs (obs e1) (ev_tenant ev) (ev_document ev)
        = Some (sd_status d, sd_version d, ev_sha256 ev)" and o1: "good e1" "obs e1 = obs e"
      using L Inr by auto
    show ?thesis
    proof (cases "completed d")
      case True
      have "view_done (obs e1) (ev_tenant ev) (ev_document ev)"
        using True doc by (auto simp: view_done_def completed_def)
      moreover from True Inr run lk grp have "sv_xack sv stream_name grp (sm_id msg) e1 = (r, e')"
        by (simp add: handle_valid_def)
      ultimately show ?thesis using ack_handled [OF o1(1) _ _ ev, of r e' "obs e"] o1(2) by simp
    next
      case False
      then have open_: "\<not> view_done (obs e1) (ev_tenant ev) (ev_document ev)"
        using doc by (auto simp: view_done_def completed_def)
      show ?thesis
      proof (cases "worker_max_attempts (wf_settings cfg) < n")
        case True
        with False Inr run lk have "fail sv cfg msg ev
            (ascii ''DeliveryLimit: retry budget exhausted'') n e1 = (r, e')"
          by (simp add: handle_valid_def)
        from fail_handled [OF o1(1) this, of "obs e"] open_ o1 grp show ?thesis by simp
      next
        case le: False
        obtain r2 e2 where pr: "process_document sv cfg ev d e1 = (r2, e2)" by fastforce
        note P = process_kept [OF o1(1) pr doc open_]
        show ?thesis
        proof (cases r2)
          case r2: (Inl x)
          show ?thesis
          proof (cases "transient x")
            case True
            with False Inr run lk le pr r2 P o1 show ?thesis
              by (auto simp: handle_valid_def kept_handled)
          next
            case nt: False
            with False Inr run lk le pr r2 have
              "fail sv cfg msg ev (exn_name x @ ascii '': processing failed'') n e2 = (r, e')"
              by (simp add: handle_valid_def)
            from fail_handled [OF _ this, of "obs e"] P open_ o1 grp show ?thesis by simp
          qed
        next
          case r2: (Inr u)
          with False Inr run lk le pr grp have
            "sv_xack sv stream_name grp (sm_id msg) e2 = (r, e')"
            by (simp add: handle_valid_def)
          from ack_handled [OF _ this _ ev, of "obs e"] P r2 o1 show ?thesis by simp
        qed
      qed
    qed
  qed
qed

lemma handle_handled:
  assumes good: "good e" and run: "handle sv cfg msg e = (r, e')"
    and grp: "worker_group (wf_settings cfg) = grp"
  shows "good e' \<and> handled (wf_codec cfg) msg (obs e) (obs e')"
proof -
  obtain r1 e1 where p: "sv_xpending sv stream_name grp (sm_id msg) e = (r1, e1)" by fastforce
  note P = pending_law [OF good p]
  show ?thesis
  proof (cases "\<exists>n. r1 = Inr n \<and> n \<noteq> 0")
    case False
    with run p P grp show ?thesis
      by (cases r1) (auto simp: handle_def bindE_def returnE_def kept_handled)
  next
    case True
    then obtain n where n: "r1 = Inr n" "n \<noteq> 0" by blast
    show ?thesis
    proof (cases "worker_event (wf_codec cfg) (sm_fields msg)")
      case (Inl x)
      with run p n grp have
        "dead_letter sv cfg msg (ascii ''ValidationError: invalid event'') n e1 = (r, e')"
        by (simp add: handle_def bindE_def)
      from dead_letter_handled [OF _ this grp, of "obs e"] P show ?thesis by simp
    next
      case (Inr ev)
      obtain r2 e2 where h: "handle_valid sv cfg msg ev n e1 = (r2, e2)" by fastforce
      have "e' = e2" using run p n grp Inr h
        by (auto simp: handle_def bindE_def tryE_def returnE_def raiseE_def
            split: sum.splits if_splits)
      with handle_valid_handled [OF _ h Inr grp] P show ?thesis by simp
    qed
  qed
qed

end

section \<open>No delivery is lost\<close>

definition settled :: "wire_codec \<Rightarrow> ledger_view \<Rightarrow> fields \<Rightarrow> bool" where
  \<comment> \<open>a dead letter carries the message, or its document is processed with this version\<close>
  "settled wc v f \<longleftrightarrow> (\<exists>l \<in> set (vw_letters v). l \<in> letters_of f)
     \<or> (\<exists>ev. worker_event wc f = Inr ev \<and> view_done v (ev_tenant ev) (ev_document ev))"

definition accounted :: "wire_codec \<Rightarrow> ledger_view \<Rightarrow> bool" where
  "accounted wc v \<longleftrightarrow>
     (\<forall>(i, f) \<in> vw_delivered v. 0 < vw_attempts v i \<or> settled wc v f)"

lemma handled_settled:
  "handled wc msg v v' \<Longrightarrow> settled wc v f \<Longrightarrow> settled wc v' f"
  by (auto simp: handled_def settled_def)

lemma handled_accounted:
  assumes h: "handled wc msg v v'" and acc: "accounted wc v"
    and msg: "(sm_id msg, sm_fields msg) \<in> vw_delivered v"
    and uniq: "\<And>f. (sm_id msg, f) \<in> vw_delivered v \<Longrightarrow> f = sm_fields msg"
  shows "accounted wc v'"
  unfolding accounted_def
proof (intro ballI, clarify)
  fix i1 i2 f
  assume d': "((i1, i2), f) \<in> vw_delivered v'" and ns: "\<not> settled wc v' f"
  let ?i = "(i1, i2)"
  have d: "(?i, f) \<in> vw_delivered v" using d' h by (simp add: handled_def)
  then have pos: "0 < vw_attempts v ?i"
    using acc ns handled_settled [OF h] by (auto simp: accounted_def)
  show "0 < vw_attempts v' ?i"
  proof (cases "?i = sm_id msg")
    case False
    with h pos show ?thesis by (auto simp: handled_def)
  next
    case True
    with uniq d have f: "f = sm_fields msg" by simp
    from h obtain ls where ls: "vw_letters v' = vw_letters v @ ls" "set ls \<subseteq> letters_of f"
      and alt: "vw_attempts v' ?i = vw_attempts v ?i
        \<or> ls \<noteq> [] \<or> (\<exists>ev. worker_event wc f = Inr ev \<and> view_done v' (ev_tenant ev) (ev_document ev))"
      using True f by (auto simp: handled_def)
    have "ls = []" using ns ls by (cases ls) (auto simp: settled_def)
    with alt ns pos show ?thesis by (auto simp: settled_def)
  qed
qed

context durable_services
begin

definition sound :: "wire_codec \<Rightarrow> 'e \<Rightarrow> bool" where
  "sound wc e \<longleftrightarrow> good e \<and> accounted wc (obs e)"

lemma handle_all_sound:
  assumes "sound (wf_codec cfg) e" and "handle_all sv cfg msgs e = (r, e')"
    and "\<forall>m \<in> set msgs. (sm_id m, sm_fields m) \<in> vw_delivered (obs e)"
    and grp: "worker_group (wf_settings cfg) = grp"
  shows "sound (wf_codec cfg) e'"
  using assms(1-3)
proof (induction msgs arbitrary: e)
  case Nil
  then show ?case by simp
next
  case (Cons msg msgs)
  have good: "good e" and acc: "accounted (wf_codec cfg) (obs e)"
    using Cons.prems(1) by (simp_all add: sound_def)
  show ?case
  proof (cases "sv_stopping sv e")
    case True
    with Cons.prems show ?thesis by simp
  next
    case False
    obtain r1 e1 where hb: "sv_heartbeat sv (wf_consumer cfg) e = (r1, e1)" by fastforce
    note H = heartbeat_law [OF good hb]
    obtain r2 e2 where hd: "handle sv cfg msg e1 = (r2, e2)" by fastforce
    note D = handle_handled [OF conjunct1 [OF H] hd grp]
    have s2: "sound (wf_codec cfg) e2"
    proof -
      have h: "handled (wf_codec cfg) msg (obs e) (obs e2)" using D H by simp
      have msg: "(sm_id msg, sm_fields msg) \<in> vw_delivered (obs e)" using Cons.prems(3) by simp
      have "accounted (wf_codec cfg) (obs e2)"
        by (rule handled_accounted [OF h acc msg]) (rule unique_fields [OF good _ msg])
      with D show ?thesis by (simp add: sound_def)
    qed
    have del: "vw_delivered (obs e2) = vw_delivered (obs e)"
      using D H by (simp add: handled_def)
    show ?thesis
    proof (cases r1)
      case (Inl x)
      with False hb Cons.prems(2) have "e' = e1" by (auto simp: thenE_def bindE_def)
      with H acc show ?thesis by (simp add: sound_def)
    next
      case r1: (Inr u)
      show ?thesis
      proof (cases r2)
        case (Inl x)
        with False hb hd r1 Cons.prems(2) s2 show ?thesis by (auto simp: thenE_def bindE_def)
      next
        case (Inr u2)
        with False hb hd r1 Cons.prems(2) have "handle_all sv cfg msgs e2 = (r, e')"
          by (auto simp: thenE_def bindE_def)
        from Cons.IH [OF s2 this] del Cons.prems(3) show ?thesis by simp
      qed
    qed
  qed
qed

lemma read_sound:
  assumes "sound wc e" and "sv_xreadgroup sv stream_name grp c n ms e = (r, e')"
  shows "sound wc e' \<and> (\<forall>msgs. r = Inr msgs \<longrightarrow>
    (\<forall>m \<in> set msgs. (sm_id m, sm_fields m) \<in> vw_delivered (obs e')))"
proof -
  note R = read_law [OF conjunct1 [OF assms(1) [unfolded sound_def]] assms(2)]
  have same: "settled wc (obs e') f \<longleftrightarrow> settled wc (obs e) f" for f
    using R by (simp add: settled_def view_done_def)
  have "accounted wc (obs e')"
    using R assms(1) unfolding accounted_def sound_def same by blast
  with R show ?thesis by (simp add: sound_def)
qed

lemma claim_sound:
  assumes "sound wc e" and "sv_xautoclaim sv stream_name grp c idle start n e = (r, e')"
  shows "sound wc e' \<and> (\<forall>cur msgs. r = Inr (cur, msgs) \<longrightarrow>
    (\<forall>m \<in> set msgs. (sm_id m, sm_fields m) \<in> vw_delivered (obs e')))"
proof -
  note R = claim_law [OF conjunct1 [OF assms(1) [unfolded sound_def]] assms(2)]
  have same: "settled wc (obs e') f \<longleftrightarrow> settled wc (obs e) f" for f
    using R by (simp add: settled_def view_done_def)
  have "accounted wc (obs e')"
    using R assms(1) unfolding accounted_def sound_def same by fastforce
  with R show ?thesis by (simp only: sound_def) blast
qed

lemma call_leaves:
  assumes "\<And>r e'. m (wk_env w) = (r, e') \<Longrightarrow> sound wc e' \<and> (\<forall>a. r = Inr a \<longrightarrow> Q a (w\<lparr>wk_env := e'\<rparr>))"
  shows "leaves (\<lambda>w. sound wc (wk_env w)) (callE m) Q w"
  using assms by (force simp: leaves_def callE_def split: prod.splits sum.splits)

definition known :: "stream_message list \<Rightarrow> 'e worker \<Rightarrow> bool" where
  "known msgs w \<longleftrightarrow> (\<forall>m \<in> set msgs. (sm_id m, sm_fields m) \<in> vw_delivered (obs (wk_env w)))"

lemma quiet_leaves:
  assumes "\<And>e r e'. good e \<Longrightarrow> m e = (r, e') \<Longrightarrow> good e' \<and> obs e' = obs e"
    and "sound wc (wk_env w)"
  shows "leaves (\<lambda>w. sound wc (wk_env w)) (callE m)
     (\<lambda>_ w'. known msgs w \<longrightarrow> known msgs w') w"
proof (rule call_leaves)
  fix r e'
  assume "m (wk_env w) = (r, e')"
  with assms have "good e' \<and> obs e' = obs (wk_env w)" by (auto simp: sound_def)
  with assms(2) show "sound wc e' \<and> (\<forall>a. r = Inr a \<longrightarrow> known msgs w \<longrightarrow> known msgs (w\<lparr>wk_env := e'\<rparr>))"
    by (simp add: sound_def known_def)
qed

lemma clock_leaves:
  assumes "sound wc (wk_env w)"
  shows "leaves (\<lambda>w. sound wc (wk_env w)) (callE (sv_clock sv))
    (\<lambda>_ w'. known msgs w \<longrightarrow> known msgs w') w"
  by (rule quiet_leaves [OF clock_law assms])

lemma heartbeat_leaves:
  assumes "sound wc (wk_env w)"
  shows "leaves (\<lambda>w. sound wc (wk_env w)) (callE (sv_heartbeat sv c)) (\<lambda>_ w'. True) w"
  by (rule leaves_weaken [OF quiet_leaves [OF heartbeat_law assms, where msgs = "[]"]]) auto

lemma create_leaves:
  assumes "sound wc (wk_env w)"
  shows "leaves (\<lambda>w. sound wc (wk_env w)) (callE (sv_xgroup_create sv stream_name grp)) (\<lambda>_ w'. True) w"
  by (rule leaves_weaken [OF quiet_leaves [OF create_law assms, where msgs = "[]"]]) auto

lemma autoclaim_leaves:
  assumes "sound wc (wk_env w)"
  shows "leaves (\<lambda>w. sound wc (wk_env w)) (callE (sv_xautoclaim sv stream_name grp c idle start n))
    (\<lambda>a w'. known (snd a) w') w"
proof (rule call_leaves)
  fix r e'
  assume "sv_xautoclaim sv stream_name grp c idle start n (wk_env w) = (r, e')"
  from claim_sound [OF assms this]
  show "sound wc e' \<and> (\<forall>a. r = Inr a \<longrightarrow> known (snd a) (w\<lparr>wk_env := e'\<rparr>))"
    by (auto simp: known_def)
qed

lemma readgroup_leaves:
  assumes "sound wc (wk_env w)"
  shows "leaves (\<lambda>w. sound wc (wk_env w)) (callE (sv_xreadgroup sv stream_name grp c n ms)) known w"
proof (rule call_leaves)
  fix r e'
  assume "sv_xreadgroup sv stream_name grp c n ms (wk_env w) = (r, e')"
  from read_sound [OF assms this]
  show "sound wc e' \<and> (\<forall>a. r = Inr a \<longrightarrow> known a (w\<lparr>wk_env := e'\<rparr>))"
    by (simp add: known_def)
qed

lemma reclaim_leaves:
  assumes "sound (wf_codec cfg) (wk_env w)" and grp: "worker_group (wf_settings cfg) = grp"
  shows "leaves (\<lambda>w. sound (wf_codec cfg) (wk_env w)) (reclaim sv cfg) known w"
proof -
  let ?S = "\<lambda>w. sound (wf_codec cfg) (wk_env w)"
  have tail: "leaves ?S
      (thenE (writeE (\<lambda>w. w\<lparr>wk_cursor := cursor\<rparr>))
        (thenE
          (if cursor = (0, 0)
           then bindE (callE (sv_clock sv)) (\<lambda>now.
                  writeE (\<lambda>w. w\<lparr>wk_next_reclaim := now + worker_reclaim_seconds (wf_settings cfg)\<rparr>))
           else returnE ())
          (returnE msgs))) known w1"
    if w1: "?S w1" "known msgs w1" for cursor msgs w1
  proof (rule leaves_then [where Q = "\<lambda>_ w. known msgs w"])
    show "leaves ?S (writeE (\<lambda>w. w\<lparr>wk_cursor := cursor\<rparr>)) (\<lambda>_ w. known msgs w) w1"
      using w1 by (intro leaves_write) (simp_all add: known_def)
    fix a w2
    assume w2: "?S w2" "known msgs w2"
    have clock: "leaves ?S (bindE (callE (sv_clock sv)) (\<lambda>now.
        writeE (\<lambda>w. w\<lparr>wk_next_reclaim := now + worker_reclaim_seconds (wf_settings cfg)\<rparr>)))
        (\<lambda>_ w. known msgs w) w2"
    proof (rule leaves_bind [OF clock_leaves [OF w2(1), of msgs]])
      fix now w3
      assume "?S w3" "known msgs w2 \<longrightarrow> known msgs w3"
      with w2(2) show "leaves ?S (writeE (\<lambda>w. w\<lparr>wk_next_reclaim
          := now + worker_reclaim_seconds (wf_settings cfg)\<rparr>)) (\<lambda>_ w. known msgs w) w3"
        by (intro leaves_write) (simp_all add: known_def)
    qed
    show "leaves ?S (thenE
          (if cursor = (0, 0)
           then bindE (callE (sv_clock sv)) (\<lambda>now.
                  writeE (\<lambda>w. w\<lparr>wk_next_reclaim := now + worker_reclaim_seconds (wf_settings cfg)\<rparr>))
           else returnE ())
          (returnE msgs)) known w2"
    proof (rule leaves_then [where Q = "\<lambda>_ w. known msgs w"])
      show "leaves ?S (if cursor = (0, 0)
           then bindE (callE (sv_clock sv)) (\<lambda>now.
                  writeE (\<lambda>w. w\<lparr>wk_next_reclaim := now + worker_reclaim_seconds (wf_settings cfg)\<rparr>))
           else returnE ()) (\<lambda>_ w. known msgs w) w2"
        using clock w2 by (cases "cursor = (0, 0)") (simp_all add: leaves_return)
    qed (rule leaves_return)
  qed
  have rest: "leaves ?S
      (bindE (callE (sv_xautoclaim sv stream_name grp (wf_consumer cfg)
           (worker_claim_min_idle_ms (wf_settings cfg)) start (worker_batch (wf_settings cfg))))
         (\<lambda>(cursor, messages).
           thenE (writeE (\<lambda>w. w\<lparr>wk_cursor := cursor\<rparr>))
             (thenE
               (if cursor = (0, 0)
                then bindE (callE (sv_clock sv)) (\<lambda>now.
                       writeE (\<lambda>w. w\<lparr>wk_next_reclaim := now + worker_reclaim_seconds (wf_settings cfg)\<rparr>))
                else returnE ())
               (returnE messages)))) known w1" if "?S w1" for start w1
  proof (rule leaves_bind [OF autoclaim_leaves [OF that]])
    fix a :: "stream_id \<times> stream_message list" and w2
    assume "?S w2" "known (snd a) w2"
    then show "leaves ?S (case a of (cursor, messages) \<Rightarrow>
           thenE (writeE (\<lambda>w. w\<lparr>wk_cursor := cursor\<rparr>))
             (thenE
               (if cursor = (0, 0)
                then bindE (callE (sv_clock sv)) (\<lambda>now.
                       writeE (\<lambda>w. w\<lparr>wk_next_reclaim := now + worker_reclaim_seconds (wf_settings cfg)\<rparr>))
                else returnE ())
               (returnE messages))) known w2"
      unfolding case_prod_beta by (rule tail)
  qed
  show ?thesis
    unfolding reclaim_def grp
    by (rule leaves_bind [OF leaves_read [where Q = "\<lambda>_ _. True"]], rule assms(1),
        rule TrueI, rule rest, assumption)
qed

lemma fetch_leaves:
  assumes "sound (wf_codec cfg) (wk_env w)" and grp: "worker_group (wf_settings cfg) = grp"
  shows "leaves (\<lambda>w. sound (wf_codec cfg) (wk_env w)) (fetch sv cfg) known w"
proof -
  let ?S = "\<lambda>w. sound (wf_codec cfg) (wk_env w)"
  have due: "leaves ?S (if cursor \<noteq> (0, 0) then returnE True
      else bindE (callE (sv_clock sv)) (\<lambda>now. readE (\<lambda>w. wk_next_reclaim w \<le> now))) (\<lambda>_ _. True) w1"
    if "?S w1" for cursor w1
  proof -
    have "leaves ?S (bindE (callE (sv_clock sv)) (\<lambda>now. readE (\<lambda>w. wk_next_reclaim w \<le> now)))
        (\<lambda>_ _. True) w1"
      by (rule leaves_bind [OF clock_leaves [OF that, of "[]"]]) (rule leaves_read, simp_all)
    with that show ?thesis by (cases "cursor = (0, 0)") (simp_all add: leaves_return)
  qed
  have get: "leaves ?S (if d then reclaim sv cfg else returnE []) known w1" if "?S w1" for d w1
    using that reclaim_leaves [OF that grp] by (cases d) (simp_all add: leaves_return known_def)
  have last_: "leaves ?S (if msgs = []
      then callE (sv_xreadgroup sv stream_name grp (wf_consumer cfg)
             (worker_batch (wf_settings cfg)) (worker_block_ms (wf_settings cfg)))
      else returnE msgs) known w1" if "?S w1" "known msgs w1" for msgs w1
    using that readgroup_leaves [OF that(1)] by (cases "msgs = []") (simp_all add: leaves_return)
  show ?thesis
    unfolding fetch_def grp
    by (rule leaves_bind [OF leaves_read [where Q = "\<lambda>_ _. True"]], rule assms(1),
        rule TrueI, rule leaves_bind [OF due], assumption, rule leaves_bind [OF get], assumption,
        rule last_, assumption, assumption)
qed

lemma run_once_sound:
  assumes "sound (wf_codec cfg) (wk_env w)" and "run_once sv cfg w = (r, w')"
    and grp: "worker_group (wf_settings cfg) = grp"
  shows "sound (wf_codec cfg) (wk_env w')"
proof (cases "sv_stopping sv (wk_env w)")
  case True
  with assms show ?thesis by (simp add: run_once_def)
next
  case False
  let ?S = "\<lambda>w. sound (wf_codec cfg) (wk_env w)"
  have ready: "leaves ?S (thenE (callE (sv_xgroup_create sv stream_name grp))
      (writeE (\<lambda>w. w\<lparr>wk_ready := True\<rparr>))) (\<lambda>_ _. True) w"
    by (rule leaves_then [OF create_leaves [OF assms(1)]]) (rule leaves_write, simp_all)
  have start: "leaves ?S (if wk_ready w then returnE ()
      else thenE (callE (sv_xgroup_create sv stream_name (worker_group (wf_settings cfg))))
             (writeE (\<lambda>w. w\<lparr>wk_ready := True\<rparr>))) (\<lambda>_ _. True) w"
    using ready assms(1) unfolding grp by (cases "wk_ready w") (simp_all add: leaves_return)
  note beat = heartbeat_leaves [of "wf_codec cfg" _ "wf_consumer cfg"]
  have hand: "leaves ?S (callE (handle_all sv cfg msgs)) (\<lambda>_ _. True) w1"
    if "?S w1" "known msgs w1" for w1 msgs
    using that handle_all_sound [OF _ _ _ grp] by (intro call_leaves) (simp add: known_def)
  have "leaves ?S (thenE
          (if wk_ready w then returnE ()
           else thenE (callE (sv_xgroup_create sv stream_name (worker_group (wf_settings cfg))))
                  (writeE (\<lambda>w. w\<lparr>wk_ready := True\<rparr>)))
          (thenE (callE (sv_heartbeat sv (wf_consumer cfg)))
            (bindE (fetch sv cfg) (\<lambda>messages.
              thenE (callE (handle_all sv cfg messages))
                (callE (sv_heartbeat sv (wf_consumer cfg))))))) (\<lambda>_ _. True) w"
    by (rule leaves_then [OF start], rule leaves_then [OF beat], assumption,
        rule leaves_bind [OF fetch_leaves [OF _ grp]], assumption,
        rule leaves_then [OF hand], assumption, assumption, rule beat)
  from leavesD [OF this] False assms(2) show ?thesis by (simp add: run_once_def)
qed

lemma run_sound:
  assumes "sound (wf_codec cfg) (wk_env w)" and "run sv cfg n w = (r, w')"
    and grp: "worker_group (wf_settings cfg) = grp"
  shows "sound (wf_codec cfg) (wk_env w')"
  using assms(1,2)
proof (induction n arbitrary: w)
  case 0
  then show ?case by simp
next
  case (Suc n)
  show ?case
  proof (cases "sv_stopping sv (wk_env w)")
    case True
    with Suc.prems show ?thesis by simp
  next
    case False
    obtain r1 w1 where ro: "run_once sv cfg w = (r1, w1)" by fastforce
    note S = run_once_sound [OF Suc.prems(1) ro grp]
    show ?thesis
    proof (cases r1)
      case (Inr u)
      with False ro Suc.prems(2) have "run sv cfg n w1 = (r, w')" by simp
      with Suc.IH [OF S] show ?thesis by blast
    next
      case (Inl x)
      show ?thesis
      proof (cases "is_redis_error x \<or> transient x")
        case False
        with Inl \<open>\<not> sv_stopping sv (wk_env w)\<close> ro Suc.prems(2) S show ?thesis by simp
      next
        case True
        obtain r2 e2 where wt: "sv_wait sv (min (worker_reclaim_seconds (wf_settings cfg)) 5)
            (wk_env w1) = (r2, e2)" by fastforce
        have s2: "sound (wf_codec cfg) e2"
          using wait_law [OF conjunct1 [OF S [unfolded sound_def]] wt] S by (simp add: sound_def)
        from True Inl False ro Suc.prems(2) wt show ?thesis
          using s2 Suc.IH [of "w1\<lparr>wk_ready := False, wk_env := e2\<rparr>"]
          by (cases r2) (auto simp: callE_def)
      qed
    qed
  qed
qed

end

end
