(* ===== verification/WorkerWorld.thy ===== *)
theory WorkerWorld
  imports WorkerLaws StorageGuarantees
begin

text \<open>
  The worker over the store and the queue: a world holds the database, the streams of
  \<open>InMemoryStreamConsumer\<close> and an object store, and a schedule says which external calls are
  refused and which take effect but lose their reply. The world keeps the contract of
  \<open>durable_services\<close>, so the worker's guarantees hold for every schedule of faults.
\<close>

section \<open>A world with faults\<close>

datatype fault = Works | Refused exn | Lost exn

record world =
  wd_streams :: streams
  wd_db :: db
  wd_objects :: "ustr \<Rightarrow> ((bytes result) list) result"
  wd_calls :: nat
  wd_fault :: "nat \<Rightarrow> fault"
  wd_clock :: "nat \<Rightarrow> real"
  wd_stop :: "nat \<Rightarrow> bool"
  wd_step :: nat

definition tick :: "world \<Rightarrow> world" where
  "tick w = w\<lparr>wd_calls := Suc (wd_calls w),
     wd_streams := (wd_streams w)\<lparr>st_now := st_now (wd_streams w) + wd_step w\<rparr>\<rparr>"

definition inject :: "(world, 'a) proc \<Rightarrow> (world, 'a) proc" where
  "inject m w =
     (case wd_fault w (wd_calls w) of
        Works \<Rightarrow> m (tick w)
      | Refused e \<Rightarrow> (Inl e, tick w)
      | Lost e \<Rightarrow> (Inl e, snd (m (tick w))))"

definition on_streams :: "(streams, 'a) proc \<Rightarrow> (world, 'a) proc" where
  "on_streams m w = (case m (wd_streams w) of (r, st) \<Rightarrow> (r, w\<lparr>wd_streams := st\<rparr>))"

definition on_db :: "(db, 'a) proc \<Rightarrow> (world, 'a) proc" where
  "on_db m w = (case m (wd_db w) of (r, d) \<Rightarrow> (r, w\<lparr>wd_db := d\<rparr>))"

definition world_services :: "repository \<Rightarrow> (world \<Rightarrow> uuid) \<Rightarrow> world services" where
  \<comment> \<open>\<open>fresh\<close> stands for \<open>uuid4()\<close>\<close>
  "world_services rp fresh =
     \<lparr>sv_xgroup_create = (\<lambda>s g. inject (on_streams (xgroup_create s g))),
      sv_xreadgroup = (\<lambda>s g c n ms. inject (on_streams (xreadgroup s g c n ms))),
      sv_xack = (\<lambda>s g i. inject (on_streams (xack s g i))),
      sv_xadd = (\<lambda>s fs. inject (on_streams (xadd s fs))),
      sv_xautoclaim = (\<lambda>s g c ms start n. inject (on_streams (xautoclaim s g c ms start n))),
      sv_xpending = (\<lambda>s g i. inject (on_streams (xpending s g i))),
      sv_heartbeat = (\<lambda>c. inject (on_streams (heartbeat c))),
      sv_get_document = (\<lambda>t d. inject (on_db (get_document t d))),
      sv_mark_status = (\<lambda>t d st err. inject (on_db (mark_status t d st err))),
      sv_upsert_document = (\<lambda>t fn doc. inject (\<lambda>w.
        on_db (upsert_document (rp_dimension rp) (rp_uuid5 rp) (fresh w) (int (wd_calls w))
          (int (wd_calls w)) t fn doc) w)),
      sv_object_get = (\<lambda>key. inject (\<lambda>w. (wd_objects w key, w))),
      sv_clock = (\<lambda>w. (Inr (wd_clock w (wd_calls w)), w)),
      sv_stopping = (\<lambda>w. wd_stop w (wd_calls w)),
      sv_wait = (\<lambda>seconds. inject (returnE ()))\<rparr>"

section \<open>What a client sees of it\<close>

definition group_of :: "string \<Rightarrow> streams \<Rightarrow> group_state" where
  "group_of grp st =
     (case map_of (st_groups st) (stream_name, grp) of None \<Rightarrow> empty_group | Some g \<Rightarrow> g)"

definition attempts_of :: "group_state \<Rightarrow> stream_id \<Rightarrow> nat" where
  "attempts_of g i = (case map_of (gr_pending g) i of None \<Rightarrow> 0 | Some p \<Rightarrow> pe_attempts p)"

definition delivered_of :: "string \<Rightarrow> streams \<Rightarrow> stream_message list" where
  "delivered_of grp st = take (gr_offset (group_of grp st)) (entries_of st stream_name)"

definition row_at :: "doc_row list \<Rightarrow> ustr \<Rightarrow> uuid \<Rightarrow> doc_row option" where
  "row_at docs t i = find (\<lambda>r. sd_tenant r = t \<and> sd_id r = i) docs"

definition row_state :: "doc_row \<Rightarrow> doc_state" where
  "row_state r = (sd_status r, sd_version r, sd_sha256 r)"

definition world_obs :: "string \<Rightarrow> world \<Rightarrow> ledger_view" where
  "world_obs grp w =
     \<lparr>vw_delivered = (\<lambda>m. (sm_id m, sm_fields m)) ` set (delivered_of grp (wd_streams w)),
      vw_attempts = attempts_of (group_of grp (wd_streams w)),
      vw_letters = map sm_fields (entries_of (wd_streams w) dlq_name),
      vw_docs = (\<lambda>t i. map_option row_state (row_at (db_docs (wd_db w)) t i))\<rparr>"

definition numbered :: "stream_message list \<Rightarrow> bool" where
  "numbered es \<longleftrightarrow> map sm_id es = map (\<lambda>k. (Suc k, 0)) [0 ..< length es]"

definition streams_ok :: "string \<Rightarrow> streams \<Rightarrow> bool" where
  "streams_ok grp st \<longleftrightarrow> numbered (entries_of st stream_name)
     \<and> (\<forall>(i, p) \<in> set (gr_pending (group_of grp st)). 0 < pe_attempts p
          \<and> i \<in> sm_id ` set (delivered_of grp st))"

definition world_good :: "repository \<Rightarrow> string \<Rightarrow> world \<Rightarrow> bool" where
  "world_good rp grp w \<longleftrightarrow> db_ok (rp_dimension rp) (rp_uuid5 rp) (wd_db w)
     \<and> streams_ok grp (wd_streams w)"

section \<open>Every call keeps the contract\<close>

lemma numbered_distinct: "numbered es \<Longrightarrow> distinct (map sm_id es)"
  by (simp add: numbered_def distinct_map inj_on_def)

lemma tick_obs [simp]: "world_obs grp (tick w) = world_obs grp w"
  "world_good rp grp (tick w) = world_good rp grp w"
  by (simp_all add: world_obs_def tick_def group_of_def entries_of_def delivered_of_def
      world_good_def streams_ok_def)

lemma inject_cases:
  assumes "inject m w = (r, w')"
  obtains "m (tick w) = (r, w')" | "isl r" "w' = tick w"
    | r0 where "isl r" "m (tick w) = (r0, w')"
  using assms by (cases "m (tick w)") (auto simp: inject_def split: fault.splits)

lemma inject_rule:
  assumes run: "inject m w = (r, w')" and good: "world_good rp grp w"
    and works: "\<And>u r0. world_good rp grp u \<Longrightarrow> world_obs grp u = world_obs grp w \<Longrightarrow>
      m u = (r0, w') \<Longrightarrow> P r0 w'"
    and lost: "\<And>r0 r1 u. P r0 u \<Longrightarrow> isl r1 \<Longrightarrow> P r1 u"
    and refused: "\<And>r1 u. world_good rp grp u \<Longrightarrow> world_obs grp u = world_obs grp w \<Longrightarrow>
      isl r1 \<Longrightarrow> P r1 u"
  shows "P r w'"
  using run
proof (cases rule: inject_cases)
  case 1
  with works [of "tick w"] good show ?thesis by simp
next
  case 2
  with refused [of "tick w"] good show ?thesis by simp
next
  case (3 r0)
  with works [of "tick w"] good lost show ?thesis by simp
qed

lemma entries_update [simp]:
  "entries_of (st\<lparr>st_groups := g\<rparr>) s = entries_of st s"
  "entries_of (st\<lparr>st_heartbeats := h\<rparr>) s = entries_of st s"
  "entries_of (st\<lparr>st_streams := AList.update s es (st_streams st)\<rparr>) s'
     = (if s' = s then es else entries_of st s')"
  by (simp_all add: entries_of_def update_conv')

lemma group_update [simp]:
  "group_of grp (set_group stream_name grp g st) = g"
  "group_of grp (st\<lparr>st_streams := x\<rparr>) = group_of grp st"
  "group_of grp (st\<lparr>st_heartbeats := h\<rparr>) = group_of grp st"
  "entries_of (set_group s g' gs st) s' = entries_of st s'"
  by (simp_all add: group_of_def set_group_def update_conv')

lemma with_group_cases:
  "with_group stream_name grp f st =
     (if map_of (st_groups st) (stream_name, grp) = None then (Inl KeyError, st)
      else f (group_of grp st) st)"
  by (auto simp: with_group_def group_of_def split: option.split)

lemma names_differ [simp]: "stream_name \<noteq> dlq_name" "dlq_name \<noteq> stream_name"
  by (simp_all add: stream_name_def dlq_name_def)

lemma map_of_mem: "map_of xs k = Some v \<Longrightarrow> (k, v) \<in> set xs"
  by (rule map_of_SomeD)

lemma obs_streams:
  assumes "entries_of st stream_name = entries_of (wd_streams w) stream_name"
    and "entries_of st dlq_name = entries_of (wd_streams w) dlq_name"
    and "group_of grp st = group_of grp (wd_streams w)"
  shows "world_obs grp (w\<lparr>wd_streams := st\<rparr>) = world_obs grp w"
    and "world_good rp grp (w\<lparr>wd_streams := st\<rparr>) = world_good rp grp w"
  using assms by (simp_all add: world_obs_def world_good_def streams_ok_def delivered_of_def)

lemma create_world:
  assumes "world_good rp grp w" and "on_streams (xgroup_create stream_name grp) w = (r, w')"
  shows "world_good rp grp w' \<and> world_obs grp w' = world_obs grp w"
proof -
  let ?st = "wd_streams w"
  let ?st' = "?st\<lparr>st_streams := setdefault stream_name [] (st_streams ?st),
      st_groups := setdefault (stream_name, grp) empty_group (st_groups ?st)\<rparr>"
  have "entries_of ?st' s = entries_of ?st s" for s
    by (auto simp: entries_of_def setdefault_def map_add_def split: option.split)
  moreover have "group_of grp ?st' = group_of grp ?st"
    by (auto simp: group_of_def setdefault_def map_add_def split: option.split)
  moreover have "w' = w\<lparr>wd_streams := ?st'\<rparr>"
    using assms(2) by (simp add: on_streams_def xgroup_create_def writeE_def)
  ultimately show ?thesis using assms(1) obs_streams [of ?st' w] by simp
qed

lemma heartbeat_world:
  assumes "world_good rp grp w" and "on_streams (heartbeat c) w = (r, w')"
  shows "world_good rp grp w' \<and> world_obs grp w' = world_obs grp w"
  using assms obs_streams [of "wd_streams w'" w]
  by (auto simp: on_streams_def heartbeat_def writeE_def)

lemma pending_world:
  assumes "world_good rp grp w" and "on_streams (xpending stream_name grp i) w = (r, w')"
  shows "world_good rp grp w' \<and> world_obs grp w' = world_obs grp w
    \<and> (\<forall>n. r = Inr n \<longrightarrow> n = vw_attempts (world_obs grp w) i)"
  using assms
  by (auto simp: on_streams_def xpending_def with_group_cases world_obs_def attempts_of_def
      split: if_splits)

lemma add_world:
  assumes "world_good rp grp w" and "on_streams (xadd dlq_name f) w = (r, w')"
  shows "world_good rp grp w' \<and> world_obs grp w' = lettered f (world_obs grp w)"
  using assms
  by (auto simp: on_streams_def xadd_def Let_def world_obs_def world_good_def streams_ok_def
      delivered_of_def lettered_def)

lemma ack_world:
  assumes "world_good rp grp w" and "on_streams (xack stream_name grp i) w = (r, w')"
  shows "world_good rp grp w'
    \<and> (isl r \<and> world_obs grp w' = world_obs grp w \<or> world_obs grp w' = acked i (world_obs grp w))"
proof (cases "map_of (st_groups (wd_streams w)) (stream_name, grp) = None")
  case True
  with assms show ?thesis by (auto simp: on_streams_def xack_def with_group_cases)
next
  case False
  let ?g = "group_of grp (wd_streams w)"
  let ?st' = "set_group stream_name grp (?g\<lparr>gr_pending := AList.delete i (gr_pending ?g)\<rparr>) (wd_streams w)"
  have w': "w' = w\<lparr>wd_streams := ?st'\<rparr>"
    using assms(2) False by (auto simp: on_streams_def xack_def with_group_cases)
  have "set (AList.delete i (gr_pending ?g)) \<subseteq> set (gr_pending ?g)"
    by (auto simp: AList.delete_eq)
  then have "world_good rp grp w'"
    using assms(1) w' by (auto simp: world_good_def streams_ok_def delivered_of_def)
  moreover have "world_obs grp w' = acked i (world_obs grp w)"
    using w' by (auto simp: world_obs_def acked_def delivered_of_def attempts_of_def fun_eq_iff
        delete_conv')
  ultimately show ?thesis by simp
qed

text \<open>Reading hands out the next entries and makes each of them pending.\<close>

lemma foldl_update_map:
  "map_of (foldl (\<lambda>p e. AList.update (sm_id e) x p) ps es) i
    = (if i \<in> sm_id ` set es then Some x else map_of ps i)"
  by (induction es arbitrary: ps) (auto simp: update_conv')

lemma foldl_update_set:
  "set (foldl (\<lambda>p e. AList.update (sm_id e) x p) ps es) \<subseteq> set ps \<union> (\<lambda>e. (sm_id e, x)) ` set es"
proof (induction es arbitrary: ps)
  case (Cons e es)
  have "set (AList.update (sm_id e) x ps) \<subseteq> insert (sm_id e, x) (set ps)"
    by (induction ps) auto
  with Cons [of "AList.update (sm_id e) x ps"] show ?case by auto
qed simp

lemma take_slice: "take a xs @ py_slice a (a + n) xs = take (a + n) xs"
  by (simp add: py_slice_def take_add)

lemma read_world:
  assumes good: "world_good rp grp w" and run: "on_streams (xreadgroup stream_name grp c n ms) w = (r, w')"
  shows "world_good rp grp w' \<and> vw_letters (world_obs grp w') = vw_letters (world_obs grp w)
      \<and> vw_docs (world_obs grp w') = vw_docs (world_obs grp w)
      \<and> vw_delivered (world_obs grp w) \<subseteq> vw_delivered (world_obs grp w')
      \<and> (\<forall>j. 0 < vw_attempts (world_obs grp w) j \<longrightarrow> 0 < vw_attempts (world_obs grp w') j)
      \<and> (\<forall>(j, f) \<in> vw_delivered (world_obs grp w') - vw_delivered (world_obs grp w).
           0 < vw_attempts (world_obs grp w') j)
      \<and> (\<forall>ms. r = Inr ms \<longrightarrow>
           (\<forall>m \<in> set ms. (sm_id m, sm_fields m) \<in> vw_delivered (world_obs grp w')))"
proof (cases "map_of (st_groups (wd_streams w)) (stream_name, grp) = None")
  case True
  with run have "w' = w" "isl r" by (auto simp: on_streams_def xreadgroup_def with_group_cases)
  with good show ?thesis by auto
next
  case False
  let ?st = "wd_streams w" and ?g = "group_of grp (wd_streams w)"
  let ?es = "entries_of ?st stream_name"
  let ?new = "py_slice (gr_offset ?g) (gr_offset ?g + n) ?es"
  let ?p = "\<lparr>pe_consumer = c, pe_delivered = st_now ?st, pe_attempts = 1\<rparr>"
  let ?pend = "foldl (\<lambda>p e. AList.update (sm_id e) ?p p) (gr_pending ?g) ?new"
  define st' where "st' = set_group stream_name grp
      (?g\<lparr>gr_pending := ?pend, gr_offset := gr_offset ?g + length ?new\<rparr>) ?st"
  have w': "w' = w\<lparr>wd_streams := st'\<rparr>" and r: "r = Inr ?new"
    using run False by (auto simp: on_streams_def xreadgroup_def with_group_cases Let_def st'_def)
  have es: "entries_of st' s = entries_of ?st s" for s by (simp add: st'_def)
  have tk: "take (gr_offset ?g + length ?new) ?es = take (gr_offset ?g) ?es @ ?new"
    by (cases "gr_offset ?g + n \<le> length ?es")
      (simp_all add: take_slice [symmetric] py_slice_def take_add)
  have off: "gr_offset (group_of grp st') = gr_offset ?g + length ?new"
    by (simp add: st'_def)
  have del: "delivered_of grp st' = delivered_of grp ?st @ ?new"
    unfolding delivered_of_def es off by (rule tk)
  have att: "attempts_of (group_of grp st') i
      = (if i \<in> sm_id ` set ?new then 1 else attempts_of ?g i)" for i
    by (simp add: attempts_of_def foldl_update_map st'_def)
  have pend: "set (gr_pending (group_of grp st')) \<subseteq> set (gr_pending ?g) \<union> (\<lambda>e. (sm_id e, ?p)) ` set ?new"
    using foldl_update_set [of ?p "gr_pending ?g" ?new] by (simp add: st'_def)
  have "streams_ok grp st'"
    unfolding streams_ok_def es
  proof (intro conjI ballI)
    show "numbered ?es" using good by (simp add: world_good_def streams_ok_def)
    fix x
    assume "x \<in> set (gr_pending (group_of grp st'))"
    with pend have "x \<in> set (gr_pending ?g) \<or> x \<in> (\<lambda>e. (sm_id e, ?p)) ` set ?new" by blast
    then show "case x of (i, p) \<Rightarrow> 0 < pe_attempts p \<and> i \<in> sm_id ` set (delivered_of grp st')"
    proof
      assume "x \<in> set (gr_pending ?g)"
      with good show ?thesis
        unfolding world_good_def streams_ok_def del by fastforce
    qed (auto simp: del)
  qed
  with good have "world_good rp grp w'" by (simp add: world_good_def w')
  then show ?thesis by (auto simp: w' r world_obs_def del att es)
qed

lemma update_set: "set (AList.update k x ps) \<subseteq> insert (k, x) (set ps)"
  by (induction ps) auto

lemma update_mem: "(i, p) \<in> set (AList.update k x ps) \<Longrightarrow> (i, p) = (k, x) \<or> (i, p) \<in> set ps"
  using update_set by fastforce

lemma claim_entry_ok:
  assumes "claim_entry now c idle e ps claimed = (ps', claimed')"
  shows "set claimed' \<subseteq> insert e (set claimed)
    \<and> (\<forall>i. (case map_of ps i of None \<Rightarrow> 0 | Some p \<Rightarrow> pe_attempts p) > 0 \<longrightarrow>
        (case map_of ps' i of None \<Rightarrow> 0 | Some p \<Rightarrow> pe_attempts p) > 0)
    \<and> (\<forall>(i, p) \<in> set ps'. (i, p) \<in> set ps \<or> (i = sm_id e \<and> 0 < pe_attempts p))"
  using assms
  by (auto simp: claim_entry_def update_conv' split: option.splits if_splits dest!: update_mem)

lemma claim_scan_ok:
  assumes "claim_scan now c idle n k claimed ps es = (ps', claimed', k')"
  shows "set claimed' \<subseteq> set claimed \<union> set es
    \<and> (\<forall>i. (case map_of ps i of None \<Rightarrow> 0 | Some p \<Rightarrow> pe_attempts p) > 0 \<longrightarrow>
        (case map_of ps' i of None \<Rightarrow> 0 | Some p \<Rightarrow> pe_attempts p) > 0)
    \<and> (\<forall>(i, p) \<in> set ps'. (i, p) \<in> set ps \<or> (i \<in> sm_id ` set es \<and> 0 < pe_attempts p))"
  using assms
proof (induction es arbitrary: k claimed ps)
  case Nil
  then show ?case by simp
next
  case (Cons e es)
  obtain ps1 cl1 where one: "claim_entry now c idle e ps claimed = (ps1, cl1)" by fastforce
  note step = claim_entry_ok [OF one]
  show ?case
  proof (cases "length cl1 = n \<or> k + 1 = n * 10")
    case True
    with Cons.prems one have "ps' = ps1" "claimed' = cl1" by auto
    with step show ?thesis by auto
  next
    case False
    with Cons.prems one have "claim_scan now c idle n (k + 1) cl1 ps1 es = (ps', claimed', k')" by simp
    from Cons.IH [OF this] step show ?thesis by fastforce
  qed
qed

lemma claim_world:
  assumes good: "world_good rp grp w"
    and run: "on_streams (xautoclaim stream_name grp c ms start n) w = (r, w')"
  shows "world_good rp grp w' \<and> vw_letters (world_obs grp w') = vw_letters (world_obs grp w)
      \<and> vw_docs (world_obs grp w') = vw_docs (world_obs grp w)
      \<and> vw_delivered (world_obs grp w') = vw_delivered (world_obs grp w)
      \<and> (\<forall>j. 0 < vw_attempts (world_obs grp w) j \<longrightarrow> 0 < vw_attempts (world_obs grp w') j)
      \<and> (\<forall>cur ms. r = Inr (cur, ms) \<longrightarrow>
           (\<forall>m \<in> set ms. (sm_id m, sm_fields m) \<in> vw_delivered (world_obs grp w')))"
proof (cases "map_of (st_groups (wd_streams w)) (stream_name, grp) = None")
  case True
  with run have "w' = w" "isl r" by (auto simp: on_streams_def xautoclaim_def with_group_cases)
  with good show ?thesis by auto
next
  case False
  let ?st = "wd_streams w" and ?g = "group_of grp (wd_streams w)"
  let ?es = "entries_of ?st stream_name"
  let ?sel = "filter (\<lambda>e. map_of (gr_pending ?g) (sm_id e) \<noteq> None \<and> start \<le> sm_id e) ?es"
  obtain pend claimed k where
    scan: "claim_scan (st_now ?st) c ms n 0 [] (gr_pending ?g) ?sel = (pend, claimed, k)"
    by (cases "claim_scan (st_now ?st) c ms n 0 [] (gr_pending ?g) ?sel")
  define st' where "st' = set_group stream_name grp (?g\<lparr>gr_pending := pend\<rparr>) ?st"
  have w': "w' = w\<lparr>wd_streams := st'\<rparr>" and r: "\<exists>cur. r = Inr (cur, claimed)"
    using run False scan
    by (auto simp: on_streams_def xautoclaim_def with_group_cases Let_def st'_def)
  have es: "entries_of st' s = entries_of ?st s" for s by (simp add: st'_def)
  have del: "delivered_of grp st' = delivered_of grp ?st" by (simp add: delivered_of_def st'_def)
  note S = claim_scan_ok [OF scan]
  have ok: "streams_ok grp ?st" using good by (simp add: world_good_def)
  have sel: "e \<in> set (delivered_of grp ?st)" if "e \<in> set ?sel" for e
  proof -
    from that obtain p where "(sm_id e, p) \<in> set (gr_pending ?g)" and e: "e \<in> set ?es"
      by (auto dest: map_of_SomeD)
    with ok obtain e' where e': "e' \<in> set (delivered_of grp ?st)" "sm_id e' = sm_id e"
      unfolding streams_ok_def by fastforce
    have "inj_on sm_id (set ?es)"
      using ok numbered_distinct by (auto simp: streams_ok_def distinct_map)
    moreover have "e' \<in> set ?es" using e'(1) by (auto simp: delivered_of_def dest: in_set_takeD)
    ultimately show ?thesis using e e' by (auto dest: inj_onD)
  qed
  have "streams_ok grp st'"
    unfolding streams_ok_def es del
  proof (intro conjI ballI)
    show "numbered ?es" using ok by (simp add: streams_ok_def)
    fix x
    assume "x \<in> set (gr_pending (group_of grp st'))"
    then have "x \<in> set pend" by (simp add: st'_def)
    with S have "case x of (i, p) \<Rightarrow> (i, p) \<in> set (gr_pending ?g)
        \<or> (i \<in> sm_id ` set ?sel \<and> 0 < pe_attempts p)" by blast
    with ok sel show "case x of (i, p) \<Rightarrow> 0 < pe_attempts p \<and> i \<in> sm_id ` set (delivered_of grp ?st)"
      unfolding streams_ok_def by (cases x) auto
  qed
  with good have "world_good rp grp w'" by (simp add: world_good_def w')
  moreover have "attempts_of (group_of grp st') i
      = (case map_of pend i of None \<Rightarrow> 0 | Some p \<Rightarrow> pe_attempts p)" for i
    by (simp add: attempts_of_def st'_def)
  moreover have "\<forall>m \<in> set claimed. m \<in> set (delivered_of grp ?st)" using S sel by auto
  ultimately show ?thesis
    using S r by (auto simp: w' world_obs_def es del attempts_of_def)
qed

text \<open>The repository's calls, as a client sees them.\<close>

lemma obs_db:
  "world_obs grp (w\<lparr>wd_db := d\<rparr>) = (world_obs grp w)\<lparr>vw_docs :=
     (\<lambda>t i. map_option row_state (row_at (db_docs d) t i))\<rparr>"
  by (simp add: world_obs_def)

lemma good_db: "world_good rp grp w \<Longrightarrow> db_ok (rp_dimension rp) (rp_uuid5 rp) d \<Longrightarrow>
    world_good rp grp (w\<lparr>wd_db := d\<rparr>)"
  by (simp add: world_good_def)

lemma row_at_map:
  assumes "\<And>r. sd_tenant (f r) = sd_tenant r \<and> sd_id (f r) = sd_id r"
  shows "row_at (map (\<lambda>r. if p r then f r else r) docs) t i
    = map_option (\<lambda>r. if p r then f r else r) (row_at docs t i)"
  unfolding row_at_def using assms by (induction docs) auto

lemma row_at_Some: "row_at docs t i = Some r \<Longrightarrow> r \<in> set docs \<and> sd_tenant r = t \<and> sd_id r = i"
  by (auto simp: row_at_def find_Some_iff)

lemma row_at_unique:
  assumes "docs_ok docs" and "r \<in> set docs"
  shows "row_at docs (sd_tenant r) (sd_id r) = Some r"
proof -
  have "\<exists>r'. row_at docs (sd_tenant r) (sd_id r) = Some r'"
    using assms(2) by (cases "row_at docs (sd_tenant r) (sd_id r)") (auto simp: row_at_def find_None_iff)
  then obtain r' where r': "row_at docs (sd_tenant r) (sd_id r) = Some r'" by blast
  with row_at_Some [OF r'] assms show ?thesis
    by (auto simp: docs_ok_def distinct_map dest: inj_onD)
qed

lemma get_document_none:
  assumes "docs_ok (db_docs d)" and "(i, t) \<notin> owners (db_docs d)"
  shows "get_document t i d = (Inr None, d)"
proof -
  have "filter (\<lambda>r. t \<noteq> [] \<and> sd_tenant r = t \<and> sd_id r = i) (db_docs d) = []"
    using assms(2) by (auto simp: owners_def filter_empty_conv)
  then show ?thesis
    by (simp add: get_document_def snapshot_tenant reader_get_document_def bindE_def liftE_def
        returnE_def)
qed

lemma get_world:
  assumes good: "world_good rp grp w" and run: "on_db (get_document t i) w = (r, w')"
  shows "world_good rp grp w' \<and> world_obs grp w' = world_obs grp w
    \<and> (\<forall>x. r = Inr (Some x) \<longrightarrow>
        vw_docs (world_obs grp w) t i = Some (sd_status x, sd_version x, sd_sha256 x))"
proof -
  have ok: "docs_ok (db_docs (wd_db w))"
    using good by (simp add: world_good_def db_ok_def)
  have w': "w' = w" and r: "r = fst (get_document t i (wd_db w))"
    using run by (auto simp: on_db_def get_document_def snapshot_def)
  have "vw_docs (world_obs grp w) t i = Some (sd_status x, sd_version x, sd_sha256 x)"
    if x: "r = Inr (Some x)" for x
  proof -
    have "(i, t) \<in> owners (db_docs (wd_db w))"
      using x r get_document_none [OF ok, of i t] by fastforce
    then obtain y where y: "y \<in> set (db_docs (wd_db w))" "sd_tenant y = t" "sd_id y = i"
      by (auto simp: owners_def)
    obtain cs es where "r = Inr (Some (with_children y cs es))"
      using get_document_eq [OF ok y(1)] r y by simp
    with x have "x = with_children y cs es" by simp
    with row_at_unique [OF ok y(1)] y show ?thesis
      by (simp add: world_obs_def row_state_def)
  qed
  with good w' show ?thesis by simp
qed

lemma mark_world:
  assumes good: "world_good rp grp w" and run: "on_db (mark_status t i st err) w = (r, w')"
  shows "world_good rp grp w' \<and> (isl r \<and> world_obs grp w' = world_obs grp w
    \<or> (\<exists>s0 v h. vw_docs (world_obs grp w) t i = Some (s0, v, h)
        \<and> world_obs grp w' = set_doc t i (st, v, h) (world_obs grp w)))"
proof -
  have dok: "db_ok (rp_dimension rp) (rp_uuid5 rp) (wd_db w)" and ok: "docs_ok (db_docs (wd_db w))"
    using good by (simp_all add: world_good_def db_ok_def)
  obtain d' where d': "mark_status t i st err (wd_db w) = (r, d')" "w' = w\<lparr>wd_db := d'\<rparr>"
    using run by (auto simp: on_db_def split: prod.splits)
  have "world_good rp grp w'"
    using d' good_db [OF good mark_status_keeps [OF dok d'(1)]] by simp
  moreover have "isl r \<and> d' = wd_db w
    \<or> (i, t) \<in> owners (db_docs (wd_db w)) \<and> d' = (wd_db w)\<lparr>db_docs :=
        map (\<lambda>r. if sd_tenant r = t \<and> sd_id r = i
              then r\<lparr>sd_status := st, sd_error := (if st = ''failed'' then err else None)\<rparr>
              else r) (db_docs (wd_db w))\<rparr>"
    using d'(1) by (auto simp: mark_status_eq [OF ok] split: if_splits)
  then have "isl r \<and> world_obs grp w' = world_obs grp w
    \<or> (\<exists>s0 v h. vw_docs (world_obs grp w) t i = Some (s0, v, h)
        \<and> world_obs grp w' = set_doc t i (st, v, h) (world_obs grp w))"
  proof
    assume "isl r \<and> d' = wd_db w"
    with d'(2) show ?thesis by simp
  next
    let ?f = "\<lambda>r. r\<lparr>sd_status := st, sd_error := (if st = ''failed'' then err else None)\<rparr>"
    let ?p = "\<lambda>r. sd_tenant r = t \<and> sd_id r = i"
    assume a: "(i, t) \<in> owners (db_docs (wd_db w)) \<and> d' = (wd_db w)\<lparr>db_docs :=
        map (\<lambda>r. if ?p r then ?f r else r) (db_docs (wd_db w))\<rparr>"
    then obtain r0 where r0: "row_at (db_docs (wd_db w)) t i = Some r0"
      using row_at_unique [OF ok] by (auto simp: owners_def)
    have "map_option row_state (row_at (db_docs d') t' i')
      = (if t' = t \<and> i' = i then Some (st, sd_version r0, sd_sha256 r0)
         else map_option row_state (row_at (db_docs (wd_db w)) t' i'))" for t' i'
    proof -
      have at: "row_at (db_docs d') t' i' = map_option (\<lambda>r. if ?p r then ?f r else r)
          (row_at (db_docs (wd_db w)) t' i')"
        using a row_at_map [of ?f ?p] by simp
      show ?thesis
      proof (cases "t' = t \<and> i' = i")
        case True
        with at r0 row_at_Some [OF r0] show ?thesis by (simp add: row_state_def)
      next
        case False
        have "\<not> ?p x" if "row_at (db_docs (wd_db w)) t' i' = Some x" for x
          using row_at_Some [OF that] False by auto
        with at False show ?thesis by (cases "row_at (db_docs (wd_db w)) t' i'") auto
      qed
    qed
    with r0 d'(2) show ?thesis
      by (auto simp: obs_db set_doc_def world_obs_def row_state_def fun_eq_iff)
  qed
  ultimately show ?thesis by blast
qed

lemma upsert_world:
  assumes good: "world_good rp grp w"
    and run: "on_db (upsert_document (rp_dimension rp) (rp_uuid5 rp) new now clk t fn doc) w = (r, w')"
    and known: "vw_docs (world_obs grp w) t i = Some (s0, v0, xd_sha256 doc)"
  shows "world_good rp grp w' \<and> effect r (world_obs grp w)
    (set_doc t i (''processed'', Some (xd_version doc), xd_sha256 doc) (world_obs grp w)) (world_obs grp w')"
proof -
  have dok: "db_ok (rp_dimension rp) (rp_uuid5 rp) (wd_db w)" and ok: "docs_ok (db_docs (wd_db w))"
    using good by (simp_all add: world_good_def db_ok_def)
  obtain d' where d': "upsert_document (rp_dimension rp) (rp_uuid5 rp) new now clk t fn doc (wd_db w)
      = (r, d')" "w' = w\<lparr>wd_db := d'\<rparr>"
    using run by (auto simp: on_db_def split: prod.splits)
  show ?thesis
  proof (cases r)
    case (Inl e)
    with d' have "d' = wd_db w" by (auto dest: upsert_error)
    with good d'(2) Inl show ?thesis by (simp add: effect_def)
  next
    case (Inr sd)
    note up = d'(1) [unfolded Inr]
    from known obtain r0 where r0: "row_at (db_docs (wd_db w)) t i = Some r0"
      "sd_sha256 r0 = xd_sha256 doc" by (auto simp: world_obs_def row_state_def)
    note r0' = row_at_Some [OF r0(1)]
    have docs: "\<exists>rc. prepare_document new now t fn doc = Inr rc
        \<and> db_docs d' = map (\<lambda>x. if same_key r0 x then upsert_set rc clk x else x) (db_docs (wd_db w))"
      using up ok
    proof (cases rule: upsert_cases)
      case (1 rc r1 docs cs es)
      have "same_key r1 = same_key r0"
        using 1(9,10) r0' r0(2) by (auto simp: same_key_def fun_eq_iff)
      moreover have "list_ex (same_key r0) (db_docs (wd_db w))"
        using r0' by (auto simp: list_ex_iff same_key_def)
      ultimately show ?thesis using 1(1,6,11) by auto
    qed
    then obtain rc where rc: "prepare_document new now t fn doc = Inr rc"
      and dd: "db_docs d' = map (\<lambda>x. if same_key r0 x then upsert_set rc clk x else x)
          (db_docs (wd_db w))" by blast
    note fields = prepare_fields [OF rc]
    have only: "x = r0" if "x \<in> set (db_docs (wd_db w))" "same_key r0 x" for x
      using that r0' ok by (auto simp: docs_ok_def same_key_def distinct_map dest: inj_onD)
    have "map_option row_state (row_at (db_docs d') t' i')
      = (if t' = t \<and> i' = i then Some (''processed'', Some (xd_version doc), xd_sha256 doc)
         else map_option row_state (row_at (db_docs (wd_db w)) t' i'))" for t' i'
    proof -
      have at: "row_at (db_docs d') t' i' = map_option
          (\<lambda>x. if same_key r0 x then upsert_set rc clk x else x) (row_at (db_docs (wd_db w)) t' i')"
        using dd row_at_map [of "upsert_set rc clk" "same_key r0"] by simp
      show ?thesis
      proof (cases "t' = t \<and> i' = i")
        case True
        have "same_key r0 r0" by (simp add: same_key_def)
        with True at r0 fields show ?thesis by (simp add: row_state_def upsert_set_def)
      next
        case False
        have "\<not> same_key r0 x" if "row_at (db_docs (wd_db w)) t' i' = Some x" for x
          using row_at_Some [OF that] only [of x] r0' False by auto
        with at False show ?thesis by (cases "row_at (db_docs (wd_db w)) t' i'") auto
      qed
    qed
    then have "world_obs grp w' = set_doc t i (''processed'', Some (xd_version doc), xd_sha256 doc)
        (world_obs grp w)"
      using d'(2) by (auto simp: obs_db set_doc_def world_obs_def fun_eq_iff)
    moreover have "world_good rp grp w'"
      using d'(2) good_db [OF good upsert_keeps [OF dok up]] by simp
    ultimately show ?thesis by (simp add: effect_def)
  qed
qed

lemma unique_world:
  assumes "world_good rp grp w" and "(i, f) \<in> vw_delivered (world_obs grp w)"
    and "(i, f') \<in> vw_delivered (world_obs grp w)"
  shows "f = f'"
proof -
  have "inj_on sm_id (set (entries_of (wd_streams w) stream_name))"
    using assms(1) numbered_distinct by (auto simp: world_good_def streams_ok_def distinct_map)
  with assms(2,3) show ?thesis
    by (auto simp: world_obs_def delivered_of_def dest!: in_set_takeD dest: inj_onD)
qed

lemma object_world: "(\<lambda>w. (wd_objects w key, w)) w = (r, w') \<Longrightarrow> w' = w"
  by simp

section \<open>The contract\<close>

lemma pending_call:
  assumes "world_good rp grp e" and "sv_xpending (world_services rp fresh) stream_name grp i e = (r, e')"
  shows "world_good rp grp e' \<and> world_obs grp e' = world_obs grp e
    \<and> (\<forall>n. r = Inr n \<longrightarrow> n = vw_attempts (world_obs grp e) i)"
  by (rule inject_rule [OF assms(2) [unfolded world_services_def, simplified] assms(1)])
    (auto dest: pending_world)

lemma ack_call:
  assumes "world_good rp grp e" and "sv_xack (world_services rp fresh) stream_name grp i e = (r, e')"
  shows "world_good rp grp e' \<and> effect r (world_obs grp e) (acked i (world_obs grp e)) (world_obs grp e')"
  by (rule inject_rule [OF assms(2) [unfolded world_services_def, simplified] assms(1)])
    (auto dest: ack_world simp: effect_def)

lemma add_call:
  assumes "world_good rp grp e" and "sv_xadd (world_services rp fresh) dlq_name f e = (r, e')"
  shows "world_good rp grp e' \<and> effect r (world_obs grp e) (lettered f (world_obs grp e)) (world_obs grp e')"
  by (rule inject_rule [OF assms(2) [unfolded world_services_def, simplified] assms(1)])
    (auto dest: add_world simp: effect_def)

lemma get_call:
  assumes "world_good rp grp e" and "sv_get_document (world_services rp fresh) t i e = (r, e')"
  shows "world_good rp grp e' \<and> world_obs grp e' = world_obs grp e \<and> (\<forall>x. r = Inr (Some x) \<longrightarrow>
      vw_docs (world_obs grp e) t i = Some (sd_status x, sd_version x, sd_sha256 x))"
proof (rule inject_rule [OF assms(2) [unfolded world_services_def, simplified] assms(1)], goal_cases)
  case (1 u r0)
  from get_world [OF 1(1,3)] 1(2) show ?case by simp
qed auto

lemma mark_call:
  assumes "world_good rp grp e" and "sv_mark_status (world_services rp fresh) t i st err e = (r, e')"
  shows "world_good rp grp e' \<and> (world_obs grp e' = world_obs grp e \<and> isl r
    \<or> (\<exists>s0 v h. vw_docs (world_obs grp e) t i = Some (s0, v, h)
        \<and> world_obs grp e' = set_doc t i (st, v, h) (world_obs grp e)))"
proof (rule inject_rule [OF assms(2) [unfolded world_services_def, simplified] assms(1)], goal_cases)
  case (1 u r0)
  from mark_world [OF 1(1,3)] 1(2) show ?case by auto
qed auto

lemma upsert_call:
  assumes "world_good rp grp e"
    and "sv_upsert_document (world_services rp fresh) t fn doc e = (r, e')"
    and "vw_docs (world_obs grp e) t i = Some (s0, v0, xd_sha256 doc)"
  shows "world_good rp grp e' \<and> effect r (world_obs grp e)
    (set_doc t i (''processed'', Some (xd_version doc), xd_sha256 doc) (world_obs grp e)) (world_obs grp e')"
proof (rule inject_rule [OF assms(2) [unfolded world_services_def, simplified] assms(1)], goal_cases)
  case (1 u r0)
  from upsert_world [OF 1(1,3)] 1(2) assms(3) show ?case by simp
qed (auto simp: effect_def)

lemma quiet_calls:
  assumes "world_good rp grp e"
  shows "sv_object_get (world_services rp fresh) key e = (r, e') \<Longrightarrow>
      world_good rp grp e' \<and> world_obs grp e' = world_obs grp e"
    and "sv_xgroup_create (world_services rp fresh) stream_name grp e = (r1, e') \<Longrightarrow>
      world_good rp grp e' \<and> world_obs grp e' = world_obs grp e"
    and "sv_heartbeat (world_services rp fresh) c e = (r1, e') \<Longrightarrow>
      world_good rp grp e' \<and> world_obs grp e' = world_obs grp e"
    and "sv_wait (world_services rp fresh) secs e = (r1, e') \<Longrightarrow>
      world_good rp grp e' \<and> world_obs grp e' = world_obs grp e"
    and "sv_clock (world_services rp fresh) e = (r2, e') \<Longrightarrow>
      world_good rp grp e' \<and> world_obs grp e' = world_obs grp e"
proof -
  show "world_good rp grp e' \<and> world_obs grp e' = world_obs grp e"
    if "sv_object_get (world_services rp fresh) key e = (r, e')"
    by (rule inject_rule [OF that [unfolded world_services_def, simplified] assms]) auto
  show "world_good rp grp e' \<and> world_obs grp e' = world_obs grp e"
    if "sv_xgroup_create (world_services rp fresh) stream_name grp e = (r1, e')"
    by (rule inject_rule [OF that [unfolded world_services_def, simplified] assms])
      (auto dest: create_world)
  show "world_good rp grp e' \<and> world_obs grp e' = world_obs grp e"
    if "sv_heartbeat (world_services rp fresh) c e = (r1, e')"
    by (rule inject_rule [OF that [unfolded world_services_def, simplified] assms])
      (auto dest: heartbeat_world)
  show "world_good rp grp e' \<and> world_obs grp e' = world_obs grp e"
    if "sv_wait (world_services rp fresh) secs e = (r1, e')"
    by (rule inject_rule [OF that [unfolded world_services_def, simplified] assms])
      (auto simp: returnE_def)
  show "world_good rp grp e' \<and> world_obs grp e' = world_obs grp e"
    if "sv_clock (world_services rp fresh) e = (r2, e')"
    using that assms by (auto simp: world_services_def)
qed

definition handed_out where
  "handed_out v v' ms \<longleftrightarrow> vw_letters v' = vw_letters v \<and> vw_docs v' = vw_docs v
     \<and> vw_delivered v \<subseteq> vw_delivered v'
     \<and> (\<forall>j. 0 < vw_attempts v j \<longrightarrow> 0 < vw_attempts v' j)
     \<and> (\<forall>(j, f) \<in> vw_delivered v' - vw_delivered v. 0 < vw_attempts v' j)
     \<and> (\<forall>m \<in> ms. (sm_id m, sm_fields m) \<in> vw_delivered v')"

lemma read_call:
  assumes "world_good rp grp e"
    and "sv_xreadgroup (world_services rp fresh) stream_name grp c n ms e = (r, e')"
  shows "world_good rp grp e' \<and> handed_out (world_obs grp e) (world_obs grp e')
    (case r of Inl x \<Rightarrow> {} | Inr ms \<Rightarrow> set ms)"
proof (rule inject_rule [OF assms(2) [unfolded world_services_def, simplified] assms(1)], goal_cases)
  case (1 u r0)
  from read_world [OF 1(1,3)] 1(2) show ?case by (auto simp: handed_out_def split: sum.split)
qed (auto simp: handed_out_def split: sum.splits)

lemma claim_call:
  assumes "world_good rp grp e"
    and "sv_xautoclaim (world_services rp fresh) stream_name grp c idle start n e = (r, e')"
  shows "world_good rp grp e' \<and> handed_out (world_obs grp e) (world_obs grp e')
      (case r of Inl x \<Rightarrow> {} | Inr (cur, ms) \<Rightarrow> set ms)
    \<and> vw_delivered (world_obs grp e') = vw_delivered (world_obs grp e)"
proof (rule inject_rule [OF assms(2) [unfolded world_services_def, simplified] assms(1)], goal_cases)
  case (1 u r0)
  from claim_world [OF 1(1,3)] 1(2) show ?case by (auto simp: handed_out_def split: sum.split)
qed (auto simp: handed_out_def split: sum.splits)

text \<open>The world keeps the contract of the services, whatever the schedule of faults.\<close>

interpretation world: durable_services "world_services rp fresh" grp "world_good rp grp" "world_obs grp"
  for rp fresh grp
proof (unfold_locales, goal_cases)
  case 1
  then show ?case by (rule unique_world)
next
  case 2
  then show ?case by (rule pending_call)
next
  case 3
  then show ?case by (rule ack_call)
next
  case 4
  then show ?case by (rule add_call)
next
  case 5
  then show ?case by (rule get_call)
next
  case 6
  then show ?case by (rule mark_call)
next
  case 7
  then show ?case by (rule upsert_call)
next
  case 8
  then show ?case by (rule quiet_calls(1))
next
  case 9
  then show ?case by (rule quiet_calls(2))
next
  case 10
  then show ?case by (rule quiet_calls(3))
next
  case 11
  then show ?case by (rule quiet_calls(5))
next
  case 12
  then show ?case by (rule quiet_calls(4))
next
  case (13 e c n ms r e')
  from read_call [OF this] show ?case by (auto simp: handed_out_def)
next
  case (14 e c idle start n r e')
  from claim_call [OF this] show ?case by (auto simp: handed_out_def)
qed

end
