(* ===== verification/RelayLaws.thy ===== *)
theory RelayLaws
  imports Relay WorkerWorld
begin

text \<open>
  At-least-once publication. Over any publisher that appends what it accepts, a batch is either
  published in order and marked, or rolled back with a prefix of it published; so over any
  history a row is only ever marked after its event went out.
\<close>

section \<open>The contract of a publisher\<close>

locale event_publisher =
  fixes publish :: "'p publish" and wire :: "document_uploaded \<Rightarrow> 'm" and sent :: "'p \<Rightarrow> 'm list"
  assumes publish_law: "publish e p = (r, p') \<Longrightarrow> sent p' = sent p @ [wire e] \<or> isl r \<and> sent p' = sent p"

definition record_event :: "document_uploaded list publish" where
  \<comment> \<open>\<open>RecordingPublisher.publish\<close>\<close>
  "record_event e events = (Inr (), events @ [e])"

definition queue_publish :: "wire_codec \<Rightarrow> world publish" where
  \<comment> \<open>the queue the worker reads, whose calls may be refused or lose their reply\<close>
  "queue_publish wc = redis_publish wc (\<lambda>s fs. inject (on_streams (xadd s fs)))"

definition queued :: "world \<Rightarrow> fields list" where
  "queued w = map sm_fields (entries_of (wd_streams w) stream_name)"

interpretation recording: event_publisher record_event id id
  by unfold_locales (simp add: record_event_def)

lemma queue_publish_law:
  assumes "queue_publish wc e w = (r, w')"
  shows "queued w' = queued w @ [stream_fields wc e] \<or> isl r \<and> queued w' = queued w"
proof -
  obtain r0 where run: "inject (on_streams (xadd ''di:documents'' (stream_fields wc e))) w = (r0, w')"
    and r: "isl r = isl r0"
    using assms by (auto simp: queue_publish_def redis_publish_def thenE_def bindE_def returnE_def
        split: prod.splits sum.splits)
  have tick: "queued (tick w) = queued w" by (simp add: queued_def tick_def entries_of_def)
  have add: "queued w' = queued w @ [stream_fields wc e]"
    if "on_streams (xadd ''di:documents'' (stream_fields wc e)) (tick w) = (x, w')" for x
    using that tick
    by (auto simp: on_streams_def xadd_def Let_def queued_def stream_name_def tick_def entries_of_def update_conv')
  from run show ?thesis
    by (cases rule: inject_cases) (use add r tick in auto)
qed

interpretation queue: event_publisher "queue_publish wc" "stream_fields wc" queued
  by unfold_locales (rule queue_publish_law)

section \<open>One batch\<close>

definition batch_rows :: "uuid set \<Rightarrow> ustr \<Rightarrow> int \<Rightarrow> db \<Rightarrow> outbox_row list" where
  "batch_rows locked tenant batch d = take (nat batch)
     (sort_key (\<lambda>q. (ob_created q, ob_id q))
       (filter (\<lambda>q. tenant \<noteq> [] \<and> ob_tenant q = tenant \<and> ob_published q = None \<and> ob_id q \<notin> locked) (db_outbox d)))"

definition marked :: "timestamp \<Rightarrow> ustr \<Rightarrow> uuid set \<Rightarrow> db \<Rightarrow> db" where
  "marked clk tenant ids d = d\<lparr>db_outbox := map (\<lambda>q.
     if ob_tenant q = tenant \<and> ob_id q \<in> ids then q\<lparr>ob_published := Some clk\<rparr> else q) (db_outbox d)\<rparr>"

definition traced :: "(document_uploaded \<Rightarrow> ustr option) \<Rightarrow> outbox_row \<Rightarrow> document_uploaded" where
  "traced trace q = (ob_payload q)\<lparr>ev_traceparent := trace (ob_payload q)\<rparr>"

lemma marked_none: "marked clk tenant {} d = d"
  by (simp add: marked_def)

lemma mark_published_marked:
  assumes "tenant \<noteq> []"
  shows "mark_published clk tenant i \<lparr>se_db = marked clk tenant ids d, se_tenant = Some tenant\<rparr>
    = (Inr (), \<lparr>se_db = marked clk tenant (insert i ids) d, se_tenant = Some tenant\<rparr>)"
proof -
  have eq: "map (\<lambda>q. if ob_tenant q = tenant \<and> ob_id q = i then q\<lparr>ob_published := Some clk\<rparr> else q)
      (map (\<lambda>q. if ob_tenant q = tenant \<and> ob_id q \<in> ids then q\<lparr>ob_published := Some clk\<rparr> else q) qs)
    = map (\<lambda>q. if ob_tenant q = tenant \<and> ob_id q \<in> insert i ids then q\<lparr>ob_published := Some clk\<rparr> else q) qs" for qs
    by (induction qs) auto
  have "marked clk tenant {i} (marked clk tenant ids d) = marked clk tenant (insert i ids) d"
    using arg_cong [OF eq, of "\<lambda>qs. d\<lparr>db_outbox := qs\<rparr>"] by (simp add: marked_def)
  moreover have "mark_published clk tenant i \<lparr>se_db = e, se_tenant = Some tenant\<rparr>
      = (Inr (), \<lparr>se_db = marked clk tenant {i} e, se_tenant = Some tenant\<rparr>)" for e
    using assms by (simp add: mark_published_def writeE_def marked_def rls_def)
  ultimately show ?thesis by simp
qed

context event_publisher
begin

lemma relay_rows:
  assumes "forE (relay_row publish trace clk tenant) rows
      \<lparr>rs_session = \<lparr>se_db = marked clk tenant ids d, se_tenant = Some tenant\<rparr>, rs_publisher = p\<rparr> = (r, s)"
    and "tenant \<noteq> []"
  shows "r = Inr () \<and> rs_session s = \<lparr>se_db = marked clk tenant (ids \<union> ob_id ` set rows) d, se_tenant = Some tenant\<rparr>
        \<and> sent (rs_publisher s) = sent p @ map (\<lambda>q. wire (traced trace q)) rows
    \<or> isl r \<and> (\<exists>k. sent (rs_publisher s) = sent p @ map (\<lambda>q. wire (traced trace q)) (take k rows))"
  using assms
proof (induction rows arbitrary: ids p)
  case Nil
  then show ?case by (auto simp: returnE_def)
next
  case (Cons q rows)
  show ?case
  proof (cases "valid_event (ob_payload q)")
    case False
    with Cons.prems(1) show ?thesis
      by (auto simp: relay_row_def thenE_def bindE_def raiseE_def Let_def intro!: exI [of _ 0])
  next
    case True
    obtain x p1 where pub: "publish (traced trace q) p = (x, p1)" by fastforce
    note law = publish_law [OF pub]
    show ?thesis
    proof (cases x)
      case (Inl e)
      then have "isl r \<and> rs_publisher s = p1"
        using Cons.prems(1) True pub
        by (auto simp: relay_row_def thenE_def bindE_def Let_def in_publisher_def traced_def)
      with law show ?thesis
        by (auto intro: exI [of _ 0] exI [of _ "Suc 0"])
    next
      case (Inr u)
      then have "relay_row publish trace clk tenant q
          \<lparr>rs_session = \<lparr>se_db = marked clk tenant ids d, se_tenant = Some tenant\<rparr>, rs_publisher = p\<rparr>
        = (Inr (), \<lparr>rs_session = \<lparr>se_db = marked clk tenant (insert (ob_id q) ids) d, se_tenant = Some tenant\<rparr>, rs_publisher = p1\<rparr>)"
        using True pub mark_published_marked [OF Cons.prems(2)]
        by (simp add: relay_row_def thenE_def bindE_def Let_def in_publisher_def in_session_def traced_def)
      then have run: "forE (relay_row publish trace clk tenant) rows
          \<lparr>rs_session = \<lparr>se_db = marked clk tenant (insert (ob_id q) ids) d, se_tenant = Some tenant\<rparr>, rs_publisher = p1\<rparr> = (r, s)"
        using Cons.prems(1) by (simp add: thenE_def bindE_def)
      have sent: "sent p1 = sent p @ [wire (traced trace q)]" using law Inr by simp
      from Cons.IH [OF run Cons.prems(2)] show ?thesis
      proof (elim disjE conjE exE)
        assume "r = Inr ()" "sent (rs_publisher s) = sent p1 @ map (\<lambda>q. wire (traced trace q)) rows"
          "rs_session s = \<lparr>se_db = marked clk tenant (insert (ob_id q) ids \<union> ob_id ` set rows) d, se_tenant = Some tenant\<rparr>"
        with sent show ?thesis by simp
      next
        fix k assume "isl r" "sent (rs_publisher s) = sent p1 @ map (\<lambda>q. wire (traced trace q)) (take k rows)"
        with sent show ?thesis by (auto intro: exI [of _ "Suc k"])
      qed
    qed
  qed
qed

lemma relay_once_cases:
  assumes "relay_once publish trace clk locked tenant batch (d, p) = (r, d', p')"
  shows "r = Inr (length (batch_rows locked tenant batch d))
        \<and> d' = marked clk tenant (ob_id ` set (batch_rows locked tenant batch d)) d
        \<and> sent p' = sent p @ map (\<lambda>q. wire (traced trace q)) (batch_rows locked tenant batch d)
    \<or> isl r \<and> d' = d \<and> (\<exists>k. sent p' = sent p @ map (\<lambda>q. wire (traced trace q)) (take k (batch_rows locked tenant batch d)))"
proof (cases "batch < 1")
  case True
  with assms show ?thesis by (auto simp: relay_once_def intro!: exI [of _ 0])
next
  case False
  let ?rows = "batch_rows locked tenant batch d"
  let ?s = "\<lparr>rs_session = \<lparr>se_db = d, se_tenant = Some tenant\<rparr>, rs_publisher = p\<rparr>"
  obtain x s where run: "forE (relay_row publish trace clk tenant) ?rows ?s = (x, s)" by fastforce
  have sel: "unpublished locked tenant (nat batch) \<lparr>se_db = d, se_tenant = Some tenant\<rparr>
      = (Inr ?rows, \<lparr>se_db = d, se_tenant = Some tenant\<rparr>)"
    by (simp add: unpublished_def readE_def batch_rows_def rls_def cong: conj_cong)
  have eq: "r = map_sum id (\<lambda>_. length ?rows) x" "p' = rs_publisher s"
    "d' = (case x of Inl e \<Rightarrow> d | Inr _ \<Rightarrow> se_db (rs_session s))"
    using assms False sel run
    by (auto simp: relay_once_def thenE_def bindE_def in_session_def set_tenant_def writeE_def returnE_def split: sum.splits)
  show ?thesis
  proof (cases "tenant = []")
    case True
    then have "?rows = []" by (simp add: batch_rows_def)
    with run eq show ?thesis by (auto simp: returnE_def marked_none)
  next
    case t: False
    note step = relay_rows [where ids = "{}" and d = d and p = p, unfolded marked_none, OF run t]
    from step eq show ?thesis by (cases x) auto
  qed
qed

end

section \<open>Histories\<close>

definition carries :: "(document_uploaded \<Rightarrow> 'm) \<Rightarrow> outbox_row \<Rightarrow> 'm \<Rightarrow> bool" where
  \<comment> \<open>the message is the row's event, under some trace\<close>
  "carries wire q m \<longleftrightarrow> (\<exists>t. m = wire ((ob_payload q)\<lparr>ev_traceparent := t\<rparr>))"

definition row_relayed :: "(document_uploaded \<Rightarrow> 'm) \<Rightarrow> 'm list \<Rightarrow> outbox_row \<Rightarrow> outbox_row \<Rightarrow> bool" where
  "row_relayed wire news q q' \<longleftrightarrow> q' = q\<lparr>ob_published := ob_published q'\<rparr>
     \<and> (ob_published q' = ob_published q \<or> ob_published q = None \<and> (\<exists>m \<in> set news. carries wire q m))"

definition relayed :: "(document_uploaded \<Rightarrow> 'm) \<Rightarrow> 'm list \<Rightarrow> db \<Rightarrow> db \<Rightarrow> bool" where
  \<comment> \<open>\<open>news\<close> was published while the tables went from \<open>d\<close> to \<open>d'\<close>\<close>
  "relayed wire news d d' \<longleftrightarrow> db_docs d' = db_docs d \<and> db_chunks d' = db_chunks d \<and> db_entities d' = db_entities d
     \<and> list_all2 (row_relayed wire news) (db_outbox d) (db_outbox d')
     \<and> (\<forall>m \<in> set news. \<exists>q \<in> set (db_outbox d). ob_published q = None \<and> carries wire q m)"

lemma carries_published: "carries wire (q\<lparr>ob_published := x\<rparr>) m = carries wire q m"
  by (simp add: carries_def)

lemma relayed_refl: "relayed wire [] d d"
  by (auto simp: relayed_def row_relayed_def intro: list_all2_refl)

lemma row_relayed_trans:
  assumes "row_relayed wire n1 q1 q2" and "row_relayed wire n2 q2 q3"
  shows "row_relayed wire (n1 @ n2) q1 q3"
proof -
  have q: "q2 = q1\<lparr>ob_published := ob_published q2\<rparr>" "q3 = q2\<lparr>ob_published := ob_published q3\<rparr>"
    using assms unfolding row_relayed_def by blast+
  have "carries wire q2 m = carries wire q1 m" for m by (subst q(1)) (rule carries_published)
  moreover have "q3 = q1\<lparr>ob_published := ob_published q3\<rparr>" by (subst q(2), subst q(1)) simp
  ultimately show ?thesis using assms by (auto simp: row_relayed_def)
qed

lemma relayed_news:
  "relayed wire news d d' \<Longrightarrow> m \<in> set news \<Longrightarrow> \<exists>q \<in> set (db_outbox d). ob_published q = None \<and> carries wire q m"
  by (simp add: relayed_def)

lemma list_all2_source: "list_all2 P xs ys \<Longrightarrow> y \<in> set ys \<Longrightarrow> \<exists>x \<in> set xs. P x y"
  by (induction rule: list_all2_induct) auto

lemma relayed_trans:
  assumes "relayed wire n1 d1 d2" and "relayed wire n2 d2 d3"
  shows "relayed wire (n1 @ n2) d1 d3"
proof -
  have l: "list_all2 (row_relayed wire n1) (db_outbox d1) (db_outbox d2)"
    "list_all2 (row_relayed wire n2) (db_outbox d2) (db_outbox d3)"
    and d: "db_docs d3 = db_docs d1" "db_chunks d3 = db_chunks d1" "db_entities d3 = db_entities d1"
    using assms by (simp_all add: relayed_def)
  have "list_all2 (row_relayed wire (n1 @ n2)) (db_outbox d1) (db_outbox d3)"
    by (rule list_all2_trans [OF row_relayed_trans l])
  moreover have "\<exists>q \<in> set (db_outbox d1). ob_published q = None \<and> carries wire q m" if m: "m \<in> set n2" for m
  proof -
    obtain q2 where q2: "q2 \<in> set (db_outbox d2)" "ob_published q2 = None" "carries wire q2 m"
      using relayed_news [OF assms(2) m] by blast
    then obtain q1 where q1: "q1 \<in> set (db_outbox d1)" "row_relayed wire n1 q1 q2"
      using list_all2_source [OF l(1)] by blast
    then have "q2 = q1\<lparr>ob_published := ob_published q2\<rparr>" "ob_published q1 = None"
      using q2(2) by (auto simp: row_relayed_def)
    moreover have "carries wire q1 m" using q2(3) \<open>q2 = _\<close> by (metis carries_published)
    ultimately show ?thesis using q1 by blast
  qed
  moreover have "\<exists>q \<in> set (db_outbox d1). ob_published q = None \<and> carries wire q m" if "m \<in> set n1" for m
    by (rule relayed_news [OF assms(1) that])
  ultimately show ?thesis using d by (auto simp: relayed_def)
qed

lemma relayed_ids:
  assumes "relayed wire news d d'"
  shows "map ob_id (db_outbox d') = map ob_id (db_outbox d)"
proof -
  have "ob_id q' = ob_id q" if "row_relayed wire news q q'" for q q'
    using that unfolding row_relayed_def by (metis outbox_row.select_convs(1) outbox_row.surjective outbox_row.update_convs(7))
  then show ?thesis
    using assms unfolding relayed_def list_all2_conv_all_nth by (auto intro!: nth_equalityI)
qed

lemma batch_rows_in:
  "q \<in> set (batch_rows locked tenant batch d) \<Longrightarrow> q \<in> set (db_outbox d) \<and> ob_published q = None \<and> ob_tenant q = tenant"
  unfolding batch_rows_def by (drule in_set_takeD) auto

lemma marked_relayed:
  assumes "distinct (map ob_id (db_outbox d))"
    and "news = map (\<lambda>q. wire (traced trace q)) (batch_rows locked tenant batch d)"
  shows "relayed wire news d (marked clk tenant (ob_id ` set (batch_rows locked tenant batch d)) d)"
proof -
  let ?rows = "batch_rows locked tenant batch d"
  have carried: "\<exists>m \<in> set news. carries wire q m" if "q \<in> set ?rows" for q
    using that assms(2) by (auto simp: carries_def traced_def)
  have "row_relayed wire news q (if ob_tenant q = tenant \<and> ob_id q \<in> ob_id ` set ?rows
      then q\<lparr>ob_published := Some clk\<rparr> else q)" if q: "q \<in> set (db_outbox d)" for q
  proof (cases "ob_id q \<in> ob_id ` set ?rows")
    case True
    then obtain q0 where q0: "q0 \<in> set ?rows" "ob_id q0 = ob_id q" by auto
    then have "q0 = q" using q assms(1) batch_rows_in [OF q0(1)] by (auto simp: distinct_map dest: inj_onD)
    with q0 carried [of q] batch_rows_in [of q] show ?thesis by (simp add: row_relayed_def)
  qed (simp add: row_relayed_def)
  then have "list_all2 (row_relayed wire news) (db_outbox d)
      (db_outbox (marked clk tenant (ob_id ` set ?rows) d))"
    by (simp add: marked_def list_all2_conv_all_nth)
  moreover have "\<forall>m \<in> set news. \<exists>q \<in> set (db_outbox d). ob_published q = None \<and> carries wire q m"
    using assms(2) batch_rows_in by (fastforce simp: carries_def traced_def)
  ultimately show ?thesis by (simp add: relayed_def marked_def)
qed

context event_publisher
begin

lemma once_relayed:
  assumes "relay_once publish trace clk locked tenant batch (d, p) = (r, d', p')"
    and "distinct (map ob_id (db_outbox d))"
  shows "\<exists>news. sent p' = sent p @ news \<and> relayed wire news d d'"
  using relay_once_cases [OF assms(1)]
proof (elim disjE conjE exE)
  let ?rows = "batch_rows locked tenant batch d"
  assume "d' = marked clk tenant (ob_id ` set ?rows) d" "sent p' = sent p @ map (\<lambda>q. wire (traced trace q)) ?rows"
  then show ?thesis using marked_relayed [OF assms(2) refl] by blast
next
  fix k
  let ?news = "map (\<lambda>q. wire (traced trace q)) (take k (batch_rows locked tenant batch d))"
  assume "d' = d" "sent p' = sent p @ ?news"
  moreover have "\<forall>m \<in> set ?news. \<exists>q \<in> set (db_outbox d). ob_published q = None \<and> carries wire q m"
    by (auto simp: carries_def traced_def dest!: in_set_takeD batch_rows_in)
  then have "relayed wire ?news d d" by (auto simp: relayed_def row_relayed_def intro: list_all2_refl)
  ultimately show ?thesis by blast
qed

lemma tenants_relayed:
  assumes "relay_tenants (\<lambda>t. relay_once publish trace clk locked t batch) ts (d, p) = (r, d', p')"
    and "distinct (map ob_id (db_outbox d))"
  shows "\<exists>news. sent p' = sent p @ news \<and> relayed wire news d d'"
  using assms
proof (induction ts arbitrary: d p)
  case Nil
  then show ?case by (auto intro: relayed_refl)
next
  case (Cons t ts)
  obtain x d1 p1 where once: "relay_once publish trace clk locked t batch (d, p) = (x, d1, p1)"
    by (metis prod_cases3)
  from once_relayed [OF once Cons.prems(2)] obtain n1 where n1: "sent p1 = sent p @ n1" "relayed wire n1 d d1" by blast
  show ?case
  proof (cases x)
    case (Inl e)
    with Cons.prems once n1 show ?thesis by auto
  next
    case (Inr n)
    with Cons.prems once have "relay_tenants (\<lambda>t. relay_once publish trace clk locked t batch) ts (d1, p1) = (r, d', p')" by simp
    from Cons.IH [OF this] relayed_ids [OF n1(2)] Cons.prems(2)
    obtain n2 where "sent p' = sent p1 @ n2" "relayed wire n2 d1 d'" by auto
    with n1 relayed_trans show ?thesis by (metis append_assoc)
  qed
qed

lemma run_relayed:
  assumes "relay_run publish trace names batch rounds (d, p) = (r, d', p')"
    and "distinct (map ob_id (db_outbox d))"
  shows "\<exists>news. sent p' = sent p @ news \<and> relayed wire news d d'"
  using assms
proof (induction rounds arbitrary: d p)
  case Nil
  then show ?case by (auto intro: relayed_refl)
next
  case (Cons rd rounds)
  obtain x d1 p1 where ts: "relay_tenants (\<lambda>t. relay_once publish trace (rr_clock rd) (rr_locked rd) t batch)
      (split_on comma names) (d, p) = (x, d1, p1)" by (metis prod_cases3)
  from tenants_relayed [OF ts Cons.prems(2)] obtain n1 where n1: "sent p1 = sent p @ n1" "relayed wire n1 d d1" by blast
  consider "rr_stop rd" | e where "\<not> rr_stop rd" "x = Inl e" | "\<not> rr_stop rd" "x = Inr ()"
    by (cases x) auto
  then show ?case
  proof cases
    case 1
    with Cons.prems show ?thesis by (auto intro: relayed_refl)
  next
    case 2
    with Cons.prems ts n1 show ?thesis by auto
  next
    case 3
    with Cons.prems ts have "relay_run publish trace names batch rounds (d1, p1) = (r, d', p')" by simp
    from Cons.IH [OF this] relayed_ids [OF n1(2)] Cons.prems(2)
    obtain n2 where "sent p' = sent p1 @ n2" "relayed wire n2 d1 d'" by auto
    with n1 relayed_trans show ?thesis by (metis append_assoc)
  qed
qed

end

end
