(* ===== verification/WorkerGuarantees.thy ===== *)
theory WorkerGuarantees
  imports WorkerWorld PipelineGuarantees
begin

text \<open>
  What the worker promises over the store and the queue, with a concrete deployment to apply
  it to: a registered upload, its event on the stream, and a pipeline of small functions.
\<close>

section \<open>A deployment\<close>

definition demo_parse :: "ustr \<Rightarrow> nat option" where
  "demo_parse t = (if t \<noteq> [] \<and> list_all (\<lambda>c. 48 \<le> c \<and> c \<le> 57) t then Some (nat_of_digits t) else None)"

definition demo_time :: "timestamp \<Rightarrow> ustr" where
  "demo_time t = (if t < 0 then 45 # str_nat (nat (- t)) else str_nat (nat t))"

definition demo_parse_time :: "ustr \<Rightarrow> timestamp option" where
  "demo_parse_time t =
     (case t of [] \<Rightarrow> None
      | c # cs \<Rightarrow> (if c = 45 then map_option (\<lambda>n. - int n) (demo_parse cs)
                   else map_option int (demo_parse t)))"

definition demo_codec :: wire_codec where
  "demo_codec = \<lparr>wc_uuid = str_nat, wc_time = demo_time, wc_parse_uuid = demo_parse,
     wc_parse_int = (\<lambda>t. map_option int (demo_parse t)), wc_parse_time = demo_parse_time\<rparr>"

definition demo_config :: "(unit, unit) worker_config" where
  "demo_config = \<lparr>wf_settings = demo_settings, wf_consumer = ascii ''w1'', wf_codec = demo_codec,
     wf_pipeline = demo_pipeline\<rparr>"

definition demo_upload :: db where
  "demo_upload = snd (register_upload 1 101 50 None acme (ascii ''a.pdf'') demo_sha
     ''application/pdf'' 6 (object_key acme demo_sha) empty_db)"

definition no_streams :: streams where
  "no_streams = \<lparr>st_now = 0, st_streams = [], st_groups = [], st_heartbeats = []\<rparr>"

definition demo_world :: "(nat \<Rightarrow> fault) \<Rightarrow> world" where
  \<comment> \<open>the upload is registered, its event and a malformed one are on the stream\<close>
  "demo_world faults = \<lparr>wd_streams = snd (xadd stream_name [(''type'', ascii ''x'')]
       (snd (xadd stream_name (stream_fields demo_codec demo_event) no_streams))),
     wd_db = demo_upload, wd_objects = (\<lambda>key. Inr [Inr demo_content, Inr []]), wd_calls = 0,
     wd_fault = faults, wd_clock = (\<lambda>n. 30 * real n), wd_stop = (\<lambda>n. False), wd_step = 60000\<rparr>"

definition demo_store :: repository where
  "demo_store = \<lparr>rp_dimension = 2, rp_uuid5 = (\<lambda>i n. foldl (\<lambda>k c. 256 * k + c) i n), rp_distance = (\<lambda>v w. 0),
     rp_matches = (\<lambda>t q. True), rp_rank = (\<lambda>t q. 0)\<rparr>"

definition lossy :: "nat \<Rightarrow> fault" where
  \<comment> \<open>the upsert commits but its reply is lost, and a later call is refused\<close>
  "lossy n = (if n = 9 then Lost OperationalError else if n = 15 then Refused StorageUnavailable else Works)"

abbreviation demo_run :: "(nat \<Rightarrow> fault) \<Rightarrow> nat \<Rightarrow> unit result \<times> world worker" where
  "demo_run faults n \<equiv> run (world_services demo_store (\<lambda>w. 9)) demo_config n
     (new_worker (demo_world faults))"


section \<open>Deliveries without faults\<close>

definition calm :: "string \<Rightarrow> world \<Rightarrow> bool" where
  \<comment> \<open>no call fails from outside, and the consumer group exists\<close>
  "calm grp w \<longleftrightarrow> wd_fault w = (\<lambda>n. Works) \<and> map_of (st_groups (wd_streams w)) (stream_name, grp) \<noteq> None"

lemma calm_tick [simp]: "calm grp (tick w) = calm grp w"
  by (simp add: calm_def tick_def)

lemma calm_inject: "calm grp w \<Longrightarrow> inject m w = m (tick w)"
  by (simp add: calm_def inject_def)

lemma pending_calm:
  assumes "calm grp w"
  shows "\<exists>n w1. sv_xpending (world_services rp fresh) stream_name grp i w = (Inr n, w1) \<and> calm grp w1"
  using assms by (auto simp: world_services_def calm_inject on_streams_def xpending_def with_group_cases
      calm_def tick_def inject_def)

lemma add_calm:
  assumes "calm grp w"
  shows "\<exists>n w1. sv_xadd (world_services rp fresh) dlq_name f w = (Inr n, w1) \<and> calm grp w1"
  using assms by (auto simp: world_services_def inject_def on_streams_def xadd_def Let_def calm_def tick_def)

lemma ack_calm:
  assumes "calm grp w"
  shows "\<exists>w1. sv_xack (world_services rp fresh) stream_name grp i w = (Inr (), w1) \<and> calm grp w1"
  using assms by (auto simp: world_services_def inject_def on_streams_def xack_def with_group_cases
      calm_def tick_def set_group_def update_conv')

lemma get_calm:
  assumes good: "world_good rp grp w" and calm: "calm grp w" and r: "r \<in> set (db_docs (wd_db w))"
  shows "\<exists>x w1. sv_get_document (world_services rp fresh) (sd_tenant r) (sd_id r) w = (Inr (Some x), w1)
    \<and> calm grp w1 \<and> (sd_sha256 x, sd_key x, sd_media_type x, sd_size x)
        = (sd_sha256 r, sd_key r, sd_media_type r, sd_size r)
    \<and> sd_status x = sd_status r \<and> sd_version x = sd_version r"
proof -
  have ok: "docs_ok (db_docs (wd_db w))" using good by (simp add: world_good_def db_ok_def)
  from get_document_eq [OF ok r] calm show ?thesis
    by (auto simp: world_services_def inject_def on_db_def calm_def tick_def)
qed

lemma mark_calm:
  assumes good: "world_good rp grp w" and calm: "calm grp w"
    and doc: "vw_docs (world_obs grp w) t i = Some s" and st: "document_status st"
  shows "\<exists>w1. sv_mark_status (world_services rp fresh) t i st err w = (Inr (), w1) \<and> calm grp w1"
proof -
  have ok: "docs_ok (db_docs (wd_db w))" using good by (simp add: world_good_def db_ok_def)
  have "(i, t) \<in> owners (db_docs (wd_db w))"
    using doc by (auto simp: world_obs_def owners_def dest: row_at_Some)
  with mark_status_eq [OF ok] st calm show ?thesis
    by (auto simp: world_services_def inject_def on_db_def calm_def tick_def)
qed

lemma fail_calm:
  assumes good: "world_good rp grp w" and calm: "calm grp w"
    and doc: "vw_docs (world_obs grp w) (ev_tenant ev) (ev_document ev) = Some (s, v, h)"
    and grp: "worker_group (wf_settings cfg) = grp"
  shows "\<exists>w'. fail (world_services rp fresh) cfg m ev err n w = (Inr (), w')
    \<and> world_obs grp w' = acked (sm_id m) (lettered (letter (sm_fields m) err n)
        (set_doc (ev_tenant ev) (ev_document ev) (''failed'', v, h) (world_obs grp w)))"
proof -
  let ?sv = "world_services rp fresh"
  have "document_status ''failed''" by (simp add: document_status_def)
  then obtain w1 where m1: "sv_mark_status ?sv (ev_tenant ev) (ev_document ev) ''failed'' (Some err) w
      = (Inr (), w1)" "calm grp w1" using mark_calm [OF good calm doc] by blast
  from mark_call [OF good m1(1)] doc have o1: "world_good rp grp w1"
    "world_obs grp w1 = set_doc (ev_tenant ev) (ev_document ev) (''failed'', v, h) (world_obs grp w)" by auto
  obtain k w2 where a: "sv_xadd ?sv dlq_name (letter (sm_fields m) err n) w1 = (Inr k, w2)" "calm grp w2"
    using add_calm [OF m1(2)] by blast
  from add_call [OF o1(1) a(1)] have o2: "world_good rp grp w2"
    "world_obs grp w2 = lettered (letter (sm_fields m) err n) (world_obs grp w1)" by (auto simp: effect_def)
  obtain w3 where k: "sv_xack ?sv stream_name grp (sm_id m) w2 = (Inr (), w3)"
    using ack_calm [OF a(2)] by blast
  from ack_call [OF o2(1) k] have "world_obs grp w3 = acked (sm_id m) (world_obs grp w2)"
    by (auto simp: effect_def)
  with m1 a k o1 o2 grp show ?thesis
    by (auto simp: fail_def dead_letter_def thenE_def bindE_def)
qed

section \<open>Properties\<close>

text \<open>
  An event that the ingest service publishes is read back by the worker unchanged: the
  fields of a valid event, printed for the stream and parsed again, give the same event.
\<close>

theorem event_survives_the_wire:
  assumes "codec_ok wc" and "valid_worker_event e"
  shows "worker_event wc (stream_fields wc e) = Inr e"
  by (rule wire_roundtrip [OF assms])

lemma demo_codec_ok: "codec_ok demo_codec"
proof -
  have p: "demo_parse (str_nat n) = Some n" for n
    using str_nat_digits [of n] by (simp add: demo_parse_def)
  have "demo_parse_time (str_nat n) = Some (int n)" for n
    using p [of n] str_nat_digits [of n] str_nat_nonempty [of n]
    by (cases "str_nat n") (auto simp: demo_parse_time_def)
  moreover have "demo_parse_time (45 # str_nat n) = Some (- int n)" for n
    by (simp add: demo_parse_time_def p)
  ultimately show ?thesis
    using p by (auto simp: codec_ok_def demo_codec_def demo_time_def)
qed

lemma event_survives_the_wire_witness:
  "worker_event demo_codec (stream_fields demo_codec demo_event) = Inr demo_event"
proof -
  have "valid_worker_event demo_event" by code_simp
  from event_survives_the_wire [OF demo_codec_ok this] show ?thesis .
qed

text \<open>
  C4: what one delivery may do, whatever calls fail or lose their reply on the way. Handling
  a message touches no other message; it adds only dead letters of this message; the message
  stops being pending only when a dead letter was written or its document is processed with
  the current pipeline version; and no processed document is ever taken back.
\<close>

theorem delivery_outcome:
  assumes "world_good rp grp w" and "worker_group (wf_settings cfg) = grp"
    and "handle (world_services rp fresh) cfg msg w = (r, w')"
  shows "world_good rp grp w' \<and> handled (wf_codec cfg) msg (world_obs grp w) (world_obs grp w')"
  by (rule world.handle_handled [OF assms(1,3,2)])

lemma demo_good: "world_good demo_store ''worker'' (demo_world faults)"
proof -
  have "wd_db (demo_world faults) = demo_upload" by (simp add: demo_world_def)
  moreover have "db_ok (rp_dimension demo_store) (rp_uuid5 demo_store) demo_upload"
    using repo_run_keeps [OF empty_db_ok, where c = "RegisterUpload 1 101 50 None (ascii ''a.pdf'')
      demo_sha ''application/pdf'' 6 (object_key acme demo_sha)" and t = acme and rp = demo_store]
    by (simp add: demo_upload_def)
  moreover have "streams_ok ''worker'' (wd_streams (demo_world (\<lambda>n. Works)))" 
    unfolding streams_ok_def by code_simp
  moreover have "wd_streams (demo_world faults) = wd_streams (demo_world (\<lambda>n. Works))"
    by (simp add: demo_world_def)
  ultimately show ?thesis by (simp add: world_good_def)
qed

lemma demo_group: "worker_group (wf_settings demo_config) = ''worker''"
  by code_simp

lemma delivery_outcome_witness:
  "handled demo_codec \<lparr>sm_id = (2, 0), sm_fields = []\<rparr> (world_obs ''worker'' (demo_world lossy))
     (world_obs ''worker'' (snd (handle (world_services demo_store (\<lambda>w. 9)) demo_config
        \<lparr>sm_id = (2, 0), sm_fields = []\<rparr> (demo_world lossy))))"
  using delivery_outcome [OF demo_good demo_group surjective_pairing]
  by (simp add: demo_config_def)

text \<open>
  C2: no delivery is lost. From a consistent world in which every message handed out is
  pending or settled (a dead letter carries it, or its document is processed), any number of
  rounds of the consumer loop leaves such a world, for every schedule of refused calls and
  lost replies, and whenever the loop stops.
\<close>

theorem no_delivery_lost:
  assumes "world_good rp grp (wk_env wk)" and "accounted (wf_codec cfg) (world_obs grp (wk_env wk))"
    and "worker_group (wf_settings cfg) = grp"
    and "run (world_services rp fresh) cfg n wk = (r, wk')"
  shows "world_good rp grp (wk_env wk') \<and> accounted (wf_codec cfg) (world_obs grp (wk_env wk'))"
  using world.run_sound [OF _ assms(4,3)] assms(1,2) by (simp add: world.sound_def)

lemma no_delivery_lost_witness:
  "accounted demo_codec (world_obs ''worker'' (wk_env (snd (demo_run lossy 4))))
   \<and> map sd_status (db_docs (wd_db (wk_env (snd (demo_run lossy 4))))) = [''processed'']"
proof -
  have acc: "accounted (wf_codec demo_config) (world_obs ''worker'' (wk_env (new_worker (demo_world lossy))))"
    by (simp add: accounted_def new_worker_def world_obs_def demo_world_def delivered_of_def
        group_of_def no_streams_def xadd_def Let_def empty_group_def)
  have good: "world_good demo_store ''worker'' (wk_env (new_worker (demo_world lossy)))"
    using demo_good by (simp add: new_worker_def)
  have "map sd_status (db_docs (wd_db (wk_env (snd (demo_run lossy 4))))) = [''processed'']"
    by code_simp
  with no_delivery_lost [OF good acc demo_group surjective_pairing] show ?thesis
    by (simp add: demo_config_def)
qed


definition exhausted_world :: world where
  \<comment> \<open>the event has been handed out nine times\<close>
  "exhausted_world = (demo_world (\<lambda>n. Works))\<lparr>wd_streams :=
     (wd_streams (demo_world (\<lambda>n. Works)))\<lparr>st_groups := [((stream_name, ''worker''),
       \<lparr>gr_offset = 1, gr_pending = [((1, 0), \<lparr>pe_consumer = ascii ''w1'', pe_delivered = 0,
          pe_attempts = 9\<rparr>)]\<rparr>)]\<rparr>\<rparr>"


end
