(* ===== verification/RelayGuarantees.thy ===== *)
theory RelayGuarantees
  imports RelayLaws WorkerGuarantees
begin

text \<open>From the outbox to the worker: publication is at least once and verbatim.\<close>

section \<open>Property\<close>

text \<open>
  C14: a row is marked only after the worker can read its event. Over any polls of the relay,
  on a queue whose calls may be refused or lose their reply, every new message on the stream
  parses as the event of a row that was not yet published, with only its trace context
  replaced; a row changes only by being marked, and only when its event is among the new
  messages; a failed batch publishes at most what it will publish again. Nothing else in the
  database changes.
\<close>

theorem marked_events_reach_the_worker:
  assumes "codec_ok wc" and "distinct (map ob_id (db_outbox d))"
    and "\<forall>q \<in> set (db_outbox d). valid_worker_event (ob_payload q)"
    and "relay_run (queue_publish wc) trace names batch rounds (d, w) = (r, d', w')"
  shows "\<exists>news. queued w' = queued w @ news
    \<and> list_all (\<lambda>m. \<exists>q \<in> set (db_outbox d). ob_published q = None
        \<and> (\<exists>t. worker_event wc m = Inr ((ob_payload q)\<lparr>ev_traceparent := t\<rparr>))) news
    \<and> list_all2 (\<lambda>q q'. q' = q\<lparr>ob_published := ob_published q'\<rparr> \<and> (ob_published q' = ob_published q
        \<or> ob_published q = None
          \<and> (\<exists>m \<in> set news. \<exists>t. worker_event wc m = Inr ((ob_payload q)\<lparr>ev_traceparent := t\<rparr>))))
        (db_outbox d) (db_outbox d')
    \<and> db_docs d' = db_docs d \<and> db_chunks d' = db_chunks d \<and> db_entities d' = db_entities d"
proof -
  obtain news where news: "queued w' = queued w @ news" "relayed (stream_fields wc) news d d'"
    using queue.run_relayed [OF assms(4,2)] by blast
  have parse: "\<exists>t. worker_event wc m = Inr ((ob_payload q)\<lparr>ev_traceparent := t\<rparr>)"
    if q: "q \<in> set (db_outbox d)" and m: "carries (stream_fields wc) q m" for q m
  proof -
    obtain t where "m = stream_fields wc ((ob_payload q)\<lparr>ev_traceparent := t\<rparr>)"
      using m unfolding carries_def by blast
    moreover have "valid_worker_event ((ob_payload q)\<lparr>ev_traceparent := t\<rparr>)"
      using assms(3) q by (simp add: valid_worker_event_def valid_event_def)
    ultimately show ?thesis using wire_roundtrip [OF assms(1)] by blast
  qed
  have "list_all (\<lambda>m. \<exists>q \<in> set (db_outbox d). ob_published q = None
      \<and> (\<exists>t. worker_event wc m = Inr ((ob_payload q)\<lparr>ev_traceparent := t\<rparr>))) news"
    unfolding list_all_iff using relayed_news [OF news(2)] parse by blast
  moreover have "list_all2 (\<lambda>q q'. q' = q\<lparr>ob_published := ob_published q'\<rparr> \<and> (ob_published q' = ob_published q
      \<or> ob_published q = None
        \<and> (\<exists>m \<in> set news. \<exists>t. worker_event wc m = Inr ((ob_payload q)\<lparr>ev_traceparent := t\<rparr>))))
      (db_outbox d) (db_outbox d')"
  proof (rule list.rel_mono_strong)
    show "list_all2 (row_relayed (stream_fields wc) news) (db_outbox d) (db_outbox d')"
      using news(2) by (simp add: relayed_def)
  next
    fix q q' assume "q \<in> set (db_outbox d)" "row_relayed (stream_fields wc) news q q'"
    then show "q' = q\<lparr>ob_published := ob_published q'\<rparr> \<and> (ob_published q' = ob_published q
        \<or> ob_published q = None
          \<and> (\<exists>m \<in> set news. \<exists>t. worker_event wc m = Inr ((ob_payload q)\<lparr>ev_traceparent := t\<rparr>)))"
      unfolding row_relayed_def using parse by blast
  qed
  ultimately show ?thesis using news by (auto simp: relayed_def)
qed

definition demo_polls :: "relay_round list" where
  "demo_polls = [\<lparr>rr_clock = 70, rr_locked = {}, rr_stop = False\<rparr>, \<lparr>rr_clock = 80, rr_locked = {}, rr_stop = False\<rparr>]"

lemma marked_events_reach_the_worker_witness:
  "\<exists>r d' w'. relay_run (queue_publish demo_codec) (\<lambda>e. None) acme 10 demo_polls (demo_upload, demo_world (\<lambda>n. Works))
      = (r, d', w')
    \<and> map ob_published (db_outbox d') = [Some 70] \<and> length (queued w') = 3
    \<and> (\<exists>news. queued w' = queued (demo_world (\<lambda>n. Works)) @ news)"
proof -
  let ?m = "relay_run (queue_publish demo_codec) (\<lambda>e. None) acme 10 demo_polls (demo_upload, demo_world (\<lambda>n. Works))"
  obtain r d' w' where m: "?m = (r, d', w')" by (metis prod_cases3)
  have "map ob_id (db_outbox demo_upload) = [101]" by code_simp
  then have ids: "distinct (map ob_id (db_outbox demo_upload))" by simp
  have "list_all (\<lambda>q. valid_worker_event (ob_payload q)) (db_outbox demo_upload)" by code_simp
  then have "\<forall>q \<in> set (db_outbox demo_upload). valid_worker_event (ob_payload q)" by (simp add: list_all_iff)
  from marked_events_reach_the_worker [OF demo_codec_ok ids this m]
  have "\<exists>news. queued w' = queued (demo_world (\<lambda>n. Works)) @ news" by blast
  moreover have "(map ob_published (db_outbox (fst (snd ?m))), length (queued (snd (snd ?m)))) = ([Some 70], 3)"
    by code_simp
  ultimately show ?thesis using m by simp
qed

end
