(* ===== verification/RelayLiveness.thy ===== *)
theory RelayLiveness
  imports RelayGuarantees
begin

text \<open>
  Liveness of the relay: over a publisher that accepts every event, each poll takes a batch off
  the backlog of every configured tenant, so enough polls publish everything.
\<close>

definition backlog :: "ustr \<Rightarrow> db \<Rightarrow> nat" where
  "backlog t d = length (filter (\<lambda>q. ob_tenant q = t \<and> ob_published q = None) (db_outbox d))"

definition relayable :: "db \<Rightarrow> bool" where
  "relayable d \<longleftrightarrow> distinct (map ob_id (db_outbox d)) \<and> (\<forall>q \<in> set (db_outbox d). valid_event (ob_payload q))"

section \<open>One batch\<close>

lemma batch_rows_length:
  assumes "tenant \<noteq> []"
  shows "length (batch_rows {} tenant batch d) = min (backlog tenant d) (nat batch)"
  using assms by (simp add: batch_rows_def backlog_def min.commute)

lemma marked_filter:
  "length (filter (\<lambda>q. ob_tenant q = tenant \<and> ob_published q = None)
      (map (\<lambda>q. if ob_tenant q = tenant \<and> ob_id q \<in> ids then q\<lparr>ob_published := Some clk\<rparr> else q) qs))
    = length (filter (\<lambda>q. (ob_tenant q = tenant \<and> ob_published q = None) \<and> ob_id q \<notin> ids) qs)"
  by (induction qs) auto

lemma marked_outbox: "db_outbox (marked clk tenant ids d)
    = map (\<lambda>q. if ob_tenant q = tenant \<and> ob_id q \<in> ids then q\<lparr>ob_published := Some clk\<rparr> else q) (db_outbox d)"
  by (simp add: marked_def)

lemma marked_backlog:
  assumes "distinct (map ob_id (db_outbox d))" and "tenant \<noteq> []"
  shows "backlog tenant (marked clk tenant (ob_id ` set (batch_rows {} tenant batch d)) d) = backlog tenant d - nat batch"
proof -
  let ?rows = "batch_rows {} tenant batch d" and ?P = "\<lambda>q. ob_tenant q = tenant \<and> ob_published q = None"
  let ?all = "filter ?P (db_outbox d)"
  have dist: "distinct (db_outbox d)" and inj: "inj_on ob_id (set (db_outbox d))"
    using assms(1) by (simp_all add: distinct_map)
  have "batch_rows {} tenant batch d = take (nat batch) (sort_key (\<lambda>q. (ob_created q, ob_id q)) ?all)"
    using assms(2) by (simp add: batch_rows_def)
  then have rows: "distinct ?rows" "set ?rows \<subseteq> set ?all"
    using dist set_take_subset [of "nat batch" "sort_key (\<lambda>q. (ob_created q, ob_id q)) ?all"] by simp_all
  have mem: "ob_id q \<in> ob_id ` set ?rows \<longleftrightarrow> q \<in> set ?rows" if "q \<in> set (db_outbox d)" for q
    using inj that rows(2) by (auto dest: inj_onD)
  have "backlog tenant (marked clk tenant (ob_id ` set ?rows) d)
      = length (filter (\<lambda>q. ?P q \<and> ob_id q \<notin> ob_id ` set ?rows) (db_outbox d))"
    unfolding backlog_def marked_outbox marked_filter by simp
  also have "\<dots> = length (filter (\<lambda>q. q \<notin> set ?rows) ?all)"
    unfolding filter_filter by (rule arg_cong [where f = length], rule filter_cong) (auto simp: mem)
  also have "\<dots> = card (set ?all - set ?rows)"
  proof -
    have "distinct (filter (\<lambda>q. q \<notin> set ?rows) ?all)" using dist by simp
    moreover have "set (filter (\<lambda>q. q \<notin> set ?rows) ?all) = set ?all - set ?rows" by auto
    ultimately show ?thesis using distinct_card [of "filter (\<lambda>q. q \<notin> set ?rows) ?all"] by simp
  qed
  also have "\<dots> = card (set ?all) - length ?rows"
    using rows by (simp add: card_Diff_subset distinct_card)
  also have "card (set ?all) = backlog tenant d" using dist distinct_card [of ?all] by (simp add: backlog_def)
  finally show ?thesis using batch_rows_length [OF assms(2), of batch d] by (simp add: min_def)
qed

lemma marked_other: "t \<noteq> tenant \<Longrightarrow> backlog t (marked clk tenant ids d) = backlog t d"
proof -
  assume "t \<noteq> tenant"
  then have "length (filter (\<lambda>q. ob_tenant q = t \<and> ob_published q = None)
      (map (\<lambda>q. if ob_tenant q = tenant \<and> ob_id q \<in> ids then q\<lparr>ob_published := Some clk\<rparr> else q) qs))
    = length (filter (\<lambda>q. ob_tenant q = t \<and> ob_published q = None) qs)" for qs
    by (induction qs) auto
  then show ?thesis by (simp add: backlog_def marked_def)
qed

lemma marked_relayable: "relayable d \<Longrightarrow> relayable (marked clk tenant ids d)"
proof -
  assume "relayable d"
  moreover have "map ob_id (db_outbox (marked clk tenant ids d)) = map ob_id (db_outbox d)"
    by (auto simp: marked_def)
  moreover have "\<forall>q \<in> set (db_outbox (marked clk tenant ids d)). valid_event (ob_payload q)"
    using \<open>relayable d\<close> by (auto simp: relayable_def marked_def)
  ultimately show ?thesis by (simp only: relayable_def)
qed

section \<open>A publisher that works\<close>

locale working_publisher = event_publisher +
  assumes publish_works: "valid_event e \<Longrightarrow> \<exists>p'. publish (e\<lparr>ev_traceparent := t\<rparr>) p = (Inr (), p')"
begin

lemma rows_work:
  assumes "tenant \<noteq> []" and "\<forall>q \<in> set rows. valid_event (ob_payload q)"
  shows "\<not> isl (fst (forE (relay_row publish trace clk tenant) rows
    \<lparr>rs_session = \<lparr>se_db = e, se_tenant = Some tenant\<rparr>, rs_publisher = p\<rparr>))"
  using assms(2)
proof (induction rows arbitrary: e p)
  case Nil
  then show ?case by (simp add: returnE_def)
next
  case (Cons q rows)
  obtain p1 where "publish ((ob_payload q)\<lparr>ev_traceparent := trace (ob_payload q)\<rparr>) p = (Inr (), p1)"
    using publish_works Cons.prems by (meson list.set_intros(1))
  with Cons show ?case
    by (simp add: relay_row_def thenE_def bindE_def in_publisher_def in_session_def mark_published_def writeE_def Let_def)
qed

lemma once_works:
  assumes "relay_once publish trace clk {} tenant batch (d, p) = (r, d', p')" and "relayable d" and "1 \<le> batch"
  shows "\<not> isl r \<and> relayable d' \<and> (tenant \<noteq> [] \<longrightarrow> backlog tenant d' = backlog tenant d - nat batch)
    \<and> (\<forall>t. t \<noteq> tenant \<longrightarrow> backlog t d' = backlog t d)"
proof -
  let ?rows = "batch_rows {} tenant batch d"
  let ?s = "\<lparr>rs_session = \<lparr>se_db = d, se_tenant = Some tenant\<rparr>, rs_publisher = p\<rparr>"
  have sel: "unpublished {} tenant (nat batch) \<lparr>se_db = d, se_tenant = Some tenant\<rparr>
      = (Inr ?rows, \<lparr>se_db = d, se_tenant = Some tenant\<rparr>)"
    by (simp add: unpublished_def readE_def batch_rows_def rls_def cong: conj_cong)
  obtain x s where run: "forE (relay_row publish trace clk tenant) ?rows ?s = (x, s)" by fastforce
  have "\<not> isl x"
  proof (cases "tenant = []")
    case True
    then have "?rows = []" by (simp add: batch_rows_def)
    with run show ?thesis by (auto simp: returnE_def)
  next
    case False
    have "\<forall>q \<in> set ?rows. valid_event (ob_payload q)"
      using assms(2) batch_rows_in by (fastforce simp: relayable_def)
    from rows_work [OF False this] run show ?thesis by (metis fst_conv)
  qed
  then have r: "\<not> isl r"
    using assms(1,3) sel run
    by (auto simp: relay_once_def thenE_def bindE_def in_session_def set_tenant_def writeE_def returnE_def split: sum.splits)
  with relay_once_cases [OF assms(1)] have "d' = marked clk tenant (ob_id ` set ?rows) d" by auto
  with r assms(2) marked_backlog [of d tenant] marked_other marked_relayable show ?thesis
    by (auto simp: relayable_def)
qed

lemma tenants_work:
  assumes "relay_tenants (\<lambda>t. relay_once publish trace clk {} t batch) ts (d, p) = (r, d', p')" and "relayable d" and "1 \<le> batch"
  shows "r = Inr () \<and> relayable d' \<and> (\<forall>t. backlog t d' \<le> backlog t d)
    \<and> (\<forall>t \<in> set ts. t \<noteq> [] \<longrightarrow> backlog t d' \<le> backlog t d - nat batch)"
  using assms(1,2)
proof (induction ts arbitrary: d p)
  case Nil
  then show ?case by simp
next
  case (Cons t ts)
  obtain x d1 p1 where once: "relay_once publish trace clk {} t batch (d, p) = (x, d1, p1)" by (metis prod_cases3)
  note one = once_works [OF once Cons.prems(2) assms(3)]
  then obtain n where "x = Inr n" by (cases x) auto
  with Cons.prems once have "relay_tenants (\<lambda>t. relay_once publish trace clk {} t batch) ts (d1, p1) = (r, d', p')" by simp
  from Cons.IH [OF this] one have rest: "r = Inr ()" "relayable d'" "\<And>t. backlog t d' \<le> backlog t d1"
    "\<And>t. t \<in> set ts \<Longrightarrow> t \<noteq> [] \<Longrightarrow> backlog t d' \<le> backlog t d1 - nat batch" by auto
  have first: "backlog u d1 \<le> backlog u d" for u
    using relay_once_cases [OF once] one \<open>x = Inr n\<close> by (cases "u = t"; cases "t = []") (auto simp: batch_rows_def marked_none)
  have "backlog u d' \<le> backlog u d - nat batch" if "u \<in> set (t # ts)" "u \<noteq> []" for u
  proof (cases "u = t")
    case True
    with one that rest(3) [of u] show ?thesis by auto
  next
    case False
    with that rest(4) [of u] first [of u] show ?thesis by auto
  qed
  moreover have "backlog u d' \<le> backlog u d" for u using rest(3) first order_trans by blast
  ultimately show ?case using rest by blast
qed

lemma run_drains:
  assumes "relay_run publish trace names batch rounds (d, p) = (r, d', p')" and "relayable d" and "1 \<le> batch"
    and "\<forall>x \<in> set rounds. \<not> rr_stop x \<and> rr_locked x = {}"
  shows "r = Inr () \<and> (\<forall>t \<in> set (split_on comma names). t \<noteq> [] \<longrightarrow> backlog t d' \<le> backlog t d - nat batch * length rounds)"
  using assms(1,2,4)
proof (induction rounds arbitrary: d p)
  case Nil
  then show ?case by simp
next
  case (Cons x rounds)
  obtain y d1 p1 where round: "relay_tenants (\<lambda>t. relay_once publish trace (rr_clock x) {} t batch) (split_on comma names) (d, p)
      = (y, d1, p1)" by (metis prod_cases3)
  note one = tenants_work [OF round Cons.prems(2) assms(3)]
  with Cons.prems round have "relay_run publish trace names batch rounds (d1, p1) = (r, d', p')" by simp
  from Cons.IH [OF this] one Cons.prems(3) have rest: "r = Inr ()"
    "\<And>t. t \<in> set (split_on comma names) \<Longrightarrow> t \<noteq> [] \<Longrightarrow> backlog t d' \<le> backlog t d1 - nat batch * length rounds" by auto
  have "backlog t d' \<le> backlog t d - nat batch * length (x # rounds)" if "t \<in> set (split_on comma names)" "t \<noteq> []" for t
    using rest(2) [OF that] one that by fastforce
  with rest show ?case by blast
qed

end

interpretation recorder: working_publisher record_event id id
  by unfold_locales (simp add: record_event_def)

section \<open>Property\<close>

text \<open>
  C22: the outbox drains. When the publisher accepts every event, no other relay holds rows and
  the relay is not stopped, then after as many polls as batches are needed no event of a
  configured tenant is left unpublished, and the loop did not fail.
\<close>

theorem relay_drains_outbox:
  assumes "relay_run record_event trace names batch rounds (d, events) = (r, d', events')"
    and "distinct (map ob_id (db_outbox d))" and "\<forall>q \<in> set (db_outbox d). valid_event (ob_payload q)"
    and "1 \<le> batch" and "\<forall>x \<in> set rounds. \<not> rr_stop x \<and> rr_locked x = {}"
    and "length (db_outbox d) \<le> nat batch * length rounds"
  shows "r = Inr () \<and> (\<forall>q \<in> set (db_outbox d'). ob_tenant q \<in> set (split_on comma names) \<and> ob_tenant q \<noteq> []
    \<longrightarrow> ob_published q \<noteq> None)"
proof -
  have "relayable d" using assms(2,3) by (simp add: relayable_def)
  note drained = recorder.run_drains [OF assms(1) this assms(4,5)]
  have "backlog t d \<le> length (db_outbox d)" for t by (simp add: backlog_def)
  with assms(6) drained have "backlog t d' = 0" if "t \<in> set (split_on comma names)" "t \<noteq> []" for t
    using that by (metis diff_is_0_eq le_trans le_zero_eq)
  with drained show ?thesis by (fastforce simp: backlog_def filter_empty_conv)
qed

lemma relay_drains_outbox_witness:
  "\<exists>d' events. relay_run record_event (\<lambda>e. None) acme 1 demo_polls (demo_upload, []) = (Inr (), d', events)
    \<and> list_all (\<lambda>q. ob_tenant q = acme \<longrightarrow> ob_published q \<noteq> None) (db_outbox d')"
proof -
  let ?m = "relay_run record_event (\<lambda>e. None) acme 1 demo_polls (demo_upload, [])"
  obtain r d' events where m: "?m = (r, d', events)" by (metis prod_cases3)
  have "map ob_id (db_outbox demo_upload) = [101]" by code_simp
  then have ids: "distinct (map ob_id (db_outbox demo_upload))" and short: "length (db_outbox demo_upload) = 1" by auto
  have "list_all (\<lambda>q. valid_event (ob_payload q)) (db_outbox demo_upload)" by code_simp
  then have valid: "\<forall>q \<in> set (db_outbox demo_upload). valid_event (ob_payload q)" by (simp add: list_all_iff)
  have polls: "\<forall>x \<in> set demo_polls. \<not> rr_stop x \<and> rr_locked x = {}" "length demo_polls = 2" by (simp_all add: demo_polls_def)
  have "acme \<in> set (split_on comma acme)" "acme \<noteq> []" by code_simp+
  with relay_drains_outbox [OF m ids valid _ polls(1)] short polls(2) m show ?thesis
    by (auto simp: list_all_iff)
qed

end
