(* ===== verification/RateLimit.thy ===== *)
theory RateLimit
  imports Settings Effects "HOL-Library.AList"
begin

text \<open>
  Rate limiting: the identities of \<open>contracts/gateway.py\<close>, the token bucket script of
  \<open>rate_limit.py\<close> with its expiring keys, and the \<open>FakeRateLimiter\<close> of \<open>packages/testing\<close>, the
  plain bucket it should behave as. Tokens and seconds are real numbers; SHA-256 is a parameter.
\<close>

section \<open>Identities and decisions\<close>

record identity =
  id_tenant :: ustr
  id_user :: ustr

definition user_char :: "nat \<Rightarrow> bool" where
  \<comment> \<open>\<open>[\x21-\x7e]\<close>\<close>
  "user_char c \<longleftrightarrow> 33 \<le> c \<and> c \<le> 126"

definition new_identity :: "ustr \<Rightarrow> ustr \<Rightarrow> identity result" where
  "new_identity tenant user =
     (if \<not> valid_tenant tenant then Inl (ValueError ''Invalid tenant'')
      else if \<not> (1 \<le> length user \<and> length user \<le> 256 \<and> list_all user_char user)
      then Inl (ValueError ''Invalid user'')
      else Inr \<lparr>id_tenant = tenant, id_user = user\<rparr>)"

record rate_decision =
  rd_allowed :: bool
  rd_remaining :: int
  rd_retry_after :: int

section \<open>The bucket in Redis\<close>

record bucket =
  bk_tokens :: real
  bk_updated :: real
  bk_expires :: real

type_synonym buckets = "(ustr \<times> bucket) list"

definition live_bucket :: "real \<Rightarrow> ustr \<Rightarrow> buckets \<Rightarrow> bucket option" where
  \<comment> \<open>\<open>HMGET\<close>: an expired key is gone\<close>
  "live_bucket now key bs =
     (case map_of bs key of None \<Rightarrow> None | Some b \<Rightarrow> (if bk_expires b \<le> now then None else Some b))"

definition bucket_script :: "real \<Rightarrow> real \<Rightarrow> ustr \<Rightarrow> real \<Rightarrow> buckets \<Rightarrow> (nat \<times> int \<times> int) \<times> buckets" where
  \<comment> \<open>\<open>now\<close> is the server's clock; the script runs atomically\<close>
  "bucket_script rate burst key now bs =
     (let state = live_bucket now key bs;
          tokens = (case state of None \<Rightarrow> burst | Some b \<Rightarrow> bk_tokens b);
          updated = (case state of None \<Rightarrow> now | Some b \<Rightarrow> bk_updated b);
          tokens = min burst (tokens + max 0 (now - updated) * rate);
          allowed = (if 1 \<le> tokens then 1 else 0);
          retry = (if 1 \<le> tokens then 0 else \<lceil>(1 - tokens) / rate\<rceil>);
          tokens = (if 1 \<le> tokens then tokens - 1 else tokens);
          ttl = max 1 \<lceil>burst / rate * 1000\<rceil>
      in ((allowed, \<lfloor>tokens\<rfloor>, retry),
          AList.update key \<lparr>bk_tokens = tokens, bk_updated = max updated now,
            bk_expires = now + of_int ttl / 1000\<rparr> bs))"

definition bucket_key :: "(ustr \<Rightarrow> ustr) \<Rightarrow> identity \<Rightarrow> ustr" where
  \<comment> \<open>\<open>sha256\<close> is the hexadecimal digest of the encoded text\<close>
  "bucket_key sha256 i = ascii ''di:rate:'' @ sha256 (id_tenant i @ [0] @ id_user i)"

record redis_limiter =
  rl_buckets :: buckets
  rl_up :: "nat \<Rightarrow> bool" \<comment> \<open>whether the server answers a call\<close>
  rl_clock :: "nat \<Rightarrow> real"
  rl_calls :: nat

definition redis_consume ::
  "(ustr \<Rightarrow> ustr) \<Rightarrow> real \<Rightarrow> nat \<Rightarrow> identity \<Rightarrow> (redis_limiter, rate_decision) proc" where
  \<comment> \<open>\<open>RedisRateLimiter.consume\<close>\<close>
  "redis_consume sha256 rps burst i s =
     (let n = rl_calls s; next = s\<lparr>rl_calls := Suc n\<rparr>
      in if \<not> rl_up s n then (Inl BackendUnavailable, next)
         else (case bucket_script rps (real burst) (bucket_key sha256 i) (rl_clock s n) (rl_buckets s) of
                 ((allowed, remaining, retry), bs) \<Rightarrow>
                   (Inr \<lparr>rd_allowed = (allowed \<noteq> 0), rd_remaining = remaining, rd_retry_after = retry\<rparr>,
                    next\<lparr>rl_buckets := bs\<rparr>)))"

definition redis_ready :: "(redis_limiter, bool) proc" where
  "redis_ready s = (Inr (rl_up s (rl_calls s)), s\<lparr>rl_calls := Suc (rl_calls s)\<rparr>)"

section \<open>The plain bucket\<close>

type_synonym plain_buckets = "(identity \<times> real \<times> real) list"

definition plain_consume :: "real \<Rightarrow> nat \<Rightarrow> real \<Rightarrow> identity \<Rightarrow> plain_buckets \<Rightarrow> rate_decision \<times> plain_buckets" where
  \<comment> \<open>\<open>FakeRateLimiter.consume\<close> at time \<open>now\<close>, available\<close>
  "plain_consume rps burst now i bs =
     (let (tokens, updated) = (case map_of bs i of None \<Rightarrow> (real burst, now) | Some tu \<Rightarrow> tu);
          tokens = min (real burst) (tokens + max 0 (now - updated) * rps);
          allowed = (1 \<le> tokens);
          tokens = (if allowed then tokens - 1 else tokens)
      in (\<lparr>rd_allowed = allowed, rd_remaining = \<lfloor>tokens\<rfloor>,
           rd_retry_after = (if allowed then 0 else \<lceil>(1 - tokens) / rps\<rceil>)\<rparr>,
          AList.update i (tokens, max updated now) bs))"

definition fake_consume ::
  "real \<Rightarrow> nat \<Rightarrow> real \<Rightarrow> bool \<Rightarrow> identity \<Rightarrow> (plain_buckets, rate_decision) proc" where
  \<comment> \<open>\<open>FakeRateLimiter.consume\<close>\<close>
  "fake_consume rps burst now available i bs =
     (if \<not> available then (Inl BackendUnavailable, bs)
      else (case plain_consume rps burst now i bs of (d, bs') \<Rightarrow> (Inr d, bs')))"

section \<open>Histories\<close>

fun redis_run ::
  "(ustr \<Rightarrow> ustr) \<Rightarrow> real \<Rightarrow> nat \<Rightarrow> identity list \<Rightarrow> redis_limiter \<Rightarrow> rate_decision result list \<times> redis_limiter" where
  "redis_run sha256 rps burst [] s = ([], s)"
| "redis_run sha256 rps burst (i # us) s =
     (case redis_consume sha256 rps burst i s of (r, s1) \<Rightarrow>
        (case redis_run sha256 rps burst us s1 of (rs, s2) \<Rightarrow> (r # rs, s2)))"

fun plain_decisions :: "real \<Rightarrow> nat \<Rightarrow> (identity \<times> real) list \<Rightarrow> plain_buckets \<Rightarrow> rate_decision list" where
  "plain_decisions rps burst [] bs = []"
| "plain_decisions rps burst ((i, now) # rs) bs =
     (case plain_consume rps burst now i bs of (d, bs') \<Rightarrow> d # plain_decisions rps burst rs bs')"

section \<open>The script refines the plain bucket\<close>

definition same_bucket :: "real \<Rightarrow> nat \<Rightarrow> real \<Rightarrow> (real \<times> real) option \<Rightarrow> bucket option \<Rightarrow> bool" where
  \<comment> \<open>an entry that expired would have refilled\<close>
  "same_bucket rps burst now p b \<longleftrightarrow>
     (case (p, b) of
        (None, None) \<Rightarrow> True
      | (Some (t, u), Some k) \<Rightarrow> bk_tokens k = t \<and> bk_updated k = u \<and> 0 \<le> t \<and> u \<le> now
          \<and> u + real burst / rps \<le> bk_expires k
      | _ \<Rightarrow> False)"

definition limiter_sim ::
  "(ustr \<Rightarrow> ustr) \<Rightarrow> real \<Rightarrow> nat \<Rightarrow> identity set \<Rightarrow> real \<Rightarrow> plain_buckets \<Rightarrow> buckets \<Rightarrow> bool" where
  "limiter_sim sha256 rps burst users now ps bs \<longleftrightarrow>
     (\<forall>i \<in> users. same_bucket rps burst now (map_of ps i) (map_of bs (bucket_key sha256 i)))"

lemma script_step:
  assumes "same_bucket rps burst now0 (map_of ps i) (map_of bs (bucket_key sha256 i))"
    and "now0 \<le> now" and "0 < rps" and "1 \<le> burst"
    and "plain_consume rps burst now i ps = (d, ps')"
    and "bucket_script rps (real burst) (bucket_key sha256 i) now bs = ((allowed, remaining, retry), bs')"
  shows "d = \<lparr>rd_allowed = (allowed \<noteq> 0), rd_remaining = remaining, rd_retry_after = retry\<rparr>
    \<and> (\<exists>t u k. ps' = AList.update i (t, u) ps \<and> bs' = AList.update (bucket_key sha256 i) k bs
        \<and> same_bucket rps burst now (Some (t, u)) (Some k))"
proof -
  let ?key = "bucket_key sha256 i"
  define start where "start = (case map_of ps i of None \<Rightarrow> (real burst, now) | Some tu \<Rightarrow> tu)"
  define level where "level = min (real burst) (fst start + max 0 (now - snd start) * rps)"
  define updated where "updated = max (snd start) now"
  have nonneg: "0 \<le> level"
    using assms(1,3,4) by (auto simp: level_def start_def same_bucket_def split: option.splits prod.splits)
  have upd: "updated = now"
    using assms(1,2) by (auto simp: updated_def start_def same_bucket_def split: option.splits prod.splits)
  define state where "state = live_bucket now ?key bs"
  have refill: "min (real burst) ((case state of None \<Rightarrow> real burst | Some b \<Rightarrow> bk_tokens b)
      + max 0 (now - (case state of None \<Rightarrow> now | Some b \<Rightarrow> bk_updated b)) * rps) = level"
    and upd': "max (case state of None \<Rightarrow> now | Some b \<Rightarrow> bk_updated b) now = now"
  proof -
    consider "map_of ps i = None" "map_of bs ?key = None"
      | t u k where "map_of ps i = Some (t, u)" "map_of bs ?key = Some k" "bk_tokens k = t" "bk_updated k = u"
        "0 \<le> t" "u \<le> now0" "u + real burst / rps \<le> bk_expires k"
      using assms(1) by (auto simp: same_bucket_def split: option.splits prod.splits)
    then have "min (real burst) ((case state of None \<Rightarrow> real burst | Some b \<Rightarrow> bk_tokens b)
        + max 0 (now - (case state of None \<Rightarrow> now | Some b \<Rightarrow> bk_updated b)) * rps) = level
      \<and> max (case state of None \<Rightarrow> now | Some b \<Rightarrow> bk_updated b) now = now"
    proof cases
      case 1
      then show ?thesis by (simp add: state_def live_bucket_def level_def start_def)
    next
      case 2
      show ?thesis
      proof (cases "bk_expires k \<le> now")
        case True
        with 2 have "real burst / rps \<le> now - u" by simp
        with assms(3) have "real burst \<le> (now - u) * rps" by (simp add: pos_divide_le_eq)
        with 2 assms(2) True show ?thesis
          by (simp add: state_def live_bucket_def level_def start_def max_def min_def)
      next
        case False
        with 2 assms(2) show ?thesis by (simp add: state_def live_bucket_def level_def start_def)
      qed
    qed
    then show "min (real burst) ((case state of None \<Rightarrow> real burst | Some b \<Rightarrow> bk_tokens b)
        + max 0 (now - (case state of None \<Rightarrow> now | Some b \<Rightarrow> bk_updated b)) * rps) = level"
      and "max (case state of None \<Rightarrow> now | Some b \<Rightarrow> bk_updated b) now = now" by blast+
  qed
  define left where "left = (if 1 \<le> level then level - 1 else level)"
  let ?k = "\<lparr>bk_tokens = left, bk_updated = now,
    bk_expires = now + of_int (max 1 \<lceil>real burst / rps * 1000\<rceil>) / 1000\<rparr>"
  have plain: "d = \<lparr>rd_allowed = (1 \<le> level), rd_remaining = \<lfloor>left\<rfloor>,
      rd_retry_after = (if 1 \<le> level then 0 else \<lceil>(1 - left) / rps\<rceil>)\<rparr>"
    "ps' = AList.update i (left, now) ps"
    using assms(5) unfolding plain_consume_def Let_def start_def [symmetric] case_prod_beta
      level_def [symmetric] updated_def [symmetric] upd left_def by simp_all
  have redis: "allowed = (if 1 \<le> level then 1 else 0)" "remaining = \<lfloor>left\<rfloor>"
    "retry = (if 1 \<le> level then 0 else \<lceil>(1 - level) / rps\<rceil>)" "bs' = AList.update ?key ?k bs"
    using assms(6) unfolding bucket_script_def Let_def state_def [symmetric] refill upd' left_def [symmetric] by auto
  have "real burst / rps * 1000 \<le> of_int (max 1 \<lceil>real burst / rps * 1000\<rceil>)"
    by (rule order_trans [OF le_of_int_ceiling]) simp
  then have "same_bucket rps burst now (Some (left, now)) (Some ?k)"
    using nonneg by (simp add: same_bucket_def left_def)
  moreover have "d = \<lparr>rd_allowed = (allowed \<noteq> 0), rd_remaining = remaining, rd_retry_after = retry\<rparr>"
    using plain(1) redis(1-3) by (simp add: left_def)
  ultimately show ?thesis using plain(2) redis(4) by blast
qed

lemma same_bucket_later: "same_bucket rps burst now p b \<Longrightarrow> now \<le> later \<Longrightarrow> same_bucket rps burst later p b"
  by (auto simp: same_bucket_def split: option.splits prod.splits)

lemma limiter_step:
  assumes "limiter_sim sha256 rps burst users now0 ps bs" and "i \<in> users"
    and inj: "inj_on (bucket_key sha256) users" and "now0 \<le> now" and "0 < rps" and "1 \<le> burst"
    and plain: "plain_consume rps burst now i ps = (d, ps')"
    and redis: "bucket_script rps (real burst) (bucket_key sha256 i) now bs = ((allowed, remaining, retry), bs')"
  shows "d = \<lparr>rd_allowed = (allowed \<noteq> 0), rd_remaining = remaining, rd_retry_after = retry\<rparr>
    \<and> limiter_sim sha256 rps burst users now ps' bs'"
proof -
  have "same_bucket rps burst now0 (map_of ps i) (map_of bs (bucket_key sha256 i))"
    using assms(1,2) by (simp add: limiter_sim_def)
  from script_step [OF this assms(4,5,6) plain redis] obtain t u k where
    d: "d = \<lparr>rd_allowed = (allowed \<noteq> 0), rd_remaining = remaining, rd_retry_after = retry\<rparr>"
    and upd: "ps' = AList.update i (t, u) ps" "bs' = AList.update (bucket_key sha256 i) k bs"
    and same: "same_bucket rps burst now (Some (t, u)) (Some k)" by blast
  have "same_bucket rps burst now (map_of ps' j) (map_of bs' (bucket_key sha256 j))" if j: "j \<in> users" for j
  proof (cases "j = i")
    case True
    with same upd show ?thesis by (simp add: update_conv')
  next
    case False
    with inj j assms(2) have "bucket_key sha256 j \<noteq> bucket_key sha256 i" by (auto dest: inj_onD)
    moreover have "same_bucket rps burst now (map_of ps j) (map_of bs (bucket_key sha256 j))"
      using assms(1) j same_bucket_later [OF _ assms(4)] by (simp add: limiter_sim_def)
    ultimately show ?thesis using False upd by (simp add: update_conv')
  qed
  with d show ?thesis by (simp add: limiter_sim_def)
qed

section \<open>How much a bucket admits\<close>

definition available :: "real \<Rightarrow> nat \<Rightarrow> real \<Rightarrow> (real \<times> real) option \<Rightarrow> real" where
  \<comment> \<open>the tokens a bucket holds at a time\<close>
  "available rps burst now p = (case p of None \<Rightarrow> real burst
     | Some (t, u) \<Rightarrow> min (real burst) (t + max 0 (now - u) * rps))"

definition admitted :: "identity \<Rightarrow> (identity \<times> real) list \<Rightarrow> rate_decision list \<Rightarrow> nat" where
  "admitted i rs ds = length (filter (\<lambda>((j, now), d). j = i \<and> rd_allowed d) (zip rs ds))"

definition sane_buckets :: "real \<Rightarrow> plain_buckets \<Rightarrow> bool" where
  "sane_buckets now bs \<longleftrightarrow> (\<forall>i t u. map_of bs i = Some (t, u) \<longrightarrow> u \<le> now \<and> 0 \<le> t)"

lemma available_nonneg: "sane_buckets now bs \<Longrightarrow> 0 \<le> rps \<Longrightarrow> 0 \<le> available rps burst now (map_of bs i)"
  by (auto simp: available_def sane_buckets_def split: option.split prod.split)

lemma plain_step:
  assumes "plain_consume rps burst now i bs = (d, bs')" and "sane_buckets now bs" and "0 \<le> rps"
  shows "available rps burst now (map_of bs' i) =
      available rps burst now (map_of bs i) - (if rd_allowed d then 1 else 0)
    \<and> (rd_allowed d \<longleftrightarrow> 1 \<le> available rps burst now (map_of bs i))
    \<and> (\<forall>j. j \<noteq> i \<longrightarrow> map_of bs' j = map_of bs j) \<and> sane_buckets now bs'"
proof -
  define start where "start = (case map_of bs i of None \<Rightarrow> (real burst, now) | Some tu \<Rightarrow> tu)"
  define level where "level = min (real burst) (fst start + max 0 (now - snd start) * rps)"
  have level: "available rps burst now (map_of bs i) = level"
    by (auto simp: available_def level_def start_def split: option.split prod.split)
  have upd: "max (snd start) now = now"
    using assms(2) by (cases "map_of bs i") (auto simp: start_def sane_buckets_def)
  define left where "left = (if 1 \<le> level then level - 1 else level)"
  have d: "rd_allowed d \<longleftrightarrow> 1 \<le> level" and bs': "bs' = AList.update i (left, now) bs"
    using assms(1) unfolding plain_consume_def Let_def start_def [symmetric] case_prod_beta
      level_def [symmetric] upd left_def by auto
  have "level \<le> real burst" by (simp add: level_def)
  then have "left \<le> real burst" by (simp add: left_def)
  then have after: "available rps burst now (map_of bs' i) = left"
    by (simp add: bs' available_def update_conv')
  have "0 \<le> left" using available_nonneg [OF assms(2,3), of burst i] by (simp add: level left_def)
  then have "sane_buckets now bs'" using assms(2) by (auto simp: bs' sane_buckets_def update_conv')
  then show ?thesis using d after by (simp add: level left_def bs' update_conv')
qed

lemma available_later:
  assumes "now \<le> later" and "0 \<le> rps" and "sane_buckets now bs"
  shows "available rps burst later (map_of bs i) \<le> available rps burst now (map_of bs i) + (later - now) * rps"
proof (cases "map_of bs i")
  case None
  then show ?thesis using assms by (simp add: available_def)
next
  case (Some tu)
  obtain t u where tu: "tu = (t, u)" by fastforce
  with Some assms(3) have "u \<le> now" by (simp add: sane_buckets_def)
  with assms(1) have "max 0 (later - u) * rps = max 0 (now - u) * rps + (later - now) * rps"
    by (simp add: algebra_simps)
  moreover have "0 \<le> (later - now) * rps" using assms(1,2) by simp
  ultimately show ?thesis using Some tu by (auto simp: available_def)
qed

lemma sane_later: "sane_buckets now bs \<Longrightarrow> now \<le> later \<Longrightarrow> sane_buckets later bs"
  by (fastforce simp: sane_buckets_def)

lemma plain_admits:
  assumes "sane_buckets start bs" and "sorted (start # map snd rs)" and "\<forall>now \<in> set (map snd rs). now \<le> stop"
    and "0 \<le> rps" and "start \<le> stop"
  shows "real (admitted i rs (plain_decisions rps burst rs bs))
    \<le> available rps burst start (map_of bs i) + (stop - start) * rps"
  using assms
proof (induction rs arbitrary: start bs)
  case Nil
  then show ?case using available_nonneg [OF Nil(1,4)] by (simp add: admitted_def)
next
  case (Cons r rs)
  obtain j now where r: "r = (j, now)" by fastforce
  obtain d bs1 where step: "plain_consume rps burst now j bs = (d, bs1)" by fastforce
  have now: "start \<le> now" "now \<le> stop" using Cons.prems r by auto
  have later: "sane_buckets now bs" using sane_later [OF Cons.prems(1) now(1)] .
  note one = plain_step [OF step later Cons.prems(4)]
  have refill: "available rps burst now (map_of bs i) \<le> available rps burst start (map_of bs i) + (now - start) * rps"
    by (rule available_later [OF now(1) Cons.prems(4,1)])
  have rest: "real (admitted i rs (plain_decisions rps burst rs bs1))
      \<le> available rps burst now (map_of bs1 i) + (stop - now) * rps"
    using Cons.prems one r now(2) by (intro Cons.IH) auto
  have count: "admitted i (r # rs) (plain_decisions rps burst (r # rs) bs)
      = (if j = i \<and> rd_allowed d then 1 else 0) + admitted i rs (plain_decisions rps burst rs bs1)"
    using step r by (simp add: admitted_def)
  have "real (if j = i \<and> rd_allowed d then 1 else 0) + available rps burst now (map_of bs1 i)
      = available rps burst now (map_of bs i)"
    using one by (cases "j = i") auto
  then show ?case using rest refill unfolding count of_nat_add by (simp add: algebra_simps)
qed

lemma available_le_burst: "available rps burst now p \<le> real burst"
  by (auto simp: available_def split: option.split prod.split)

lemma admits_after:
  assumes "sane_buckets start bs" and "sorted (start # map snd (earlier @ rs))" and "rs \<noteq> []" and "0 \<le> rps"
  shows "real (admitted i rs (drop (length earlier) (plain_decisions rps burst (earlier @ rs) bs)))
    \<le> real burst + (snd (last rs) - snd (hd rs)) * rps"
  using assms
proof (induction earlier arbitrary: start bs)
  case Nil
  then have first: "start \<le> snd (hd rs)" by (cases rs) auto
  have sorted: "sorted (map snd rs)" using Nil by simp
  have "\<forall>now \<in> set (map snd rs). now \<le> snd (last rs)"
    using sorted by (cases rs rule: rev_cases) (auto simp: sorted_append)
  moreover from this have "snd (hd rs) \<le> snd (last rs)" using Nil(3) by simp
  moreover have "sorted (snd (hd rs) # map snd rs)" using sorted by (cases rs) auto
  ultimately show ?case
    using plain_admits [OF sane_later [OF Nil(1) first], of rs "snd (last rs)" rps i burst] Nil(4)
      available_le_burst [of rps burst "snd (hd rs)" "map_of bs i"] by simp
next
  case (Cons e earlier)
  obtain j now where e: "e = (j, now)" by fastforce
  obtain d bs' where step: "plain_consume rps burst now j bs = (d, bs')" by fastforce
  have "sane_buckets now bs" using sane_later [OF Cons.prems(1)] Cons.prems(2) e by simp
  from plain_step [OF step this Cons.prems(4)] have "sane_buckets now bs'" by blast
  from Cons.IH [OF this _ Cons.prems(3,4)] Cons.prems(2) e step show ?case by simp
qed

section \<open>Histories of the limiter\<close>

fun served :: "redis_limiter \<Rightarrow> nat \<Rightarrow> identity list \<Rightarrow> (identity \<times> real) list" where
  \<comment> \<open>the requests the server answers, with its clock\<close>
  "served s n [] = []"
| "served s n (i # us) = (if rl_up s n then [(i, rl_clock s n)] else []) @ served s (Suc n) us"

definition decided :: "rate_decision result list \<Rightarrow> rate_decision list" where
  "decided rs = concat (map (\<lambda>r. case r of Inl _ \<Rightarrow> [] | Inr d \<Rightarrow> [d]) rs)"

lemma served_cong: "rl_up s' = rl_up s \<Longrightarrow> rl_clock s' = rl_clock s \<Longrightarrow> served s' n us = served s n us"
  by (induction us arbitrary: n) auto

lemma consume_keeps:
  "redis_consume sha256 rps burst i s = (r, s') \<Longrightarrow>
     rl_up s' = rl_up s \<and> rl_clock s' = rl_clock s \<and> rl_calls s' = Suc (rl_calls s)"
  by (auto simp: redis_consume_def Let_def split: if_splits prod.splits)

lemma run_simulates:
  assumes "limiter_sim sha256 rps burst users now ps (rl_buckets s)" and "set us \<subseteq> users"
    and inj: "inj_on (bucket_key sha256) users" and "0 < rps" and "1 \<le> burst"
    and "\<forall>n \<ge> rl_calls s. now \<le> rl_clock s n" and "mono (rl_clock s)"
    and "redis_run sha256 rps burst us s = (rs, s')"
  shows "decided rs = plain_decisions rps burst (served s (rl_calls s) us) ps
    \<and> map isl rs = map (\<lambda>n. \<not> rl_up s n) [rl_calls s ..< rl_calls s + length us]
    \<and> (\<forall>e. Inl e \<in> set rs \<longrightarrow> e = BackendUnavailable)"
  using assms(1,2,6,7,8)
proof (induction us arbitrary: s now ps rs s')
  case Nil
  then show ?case by (simp add: decided_def)
next
  case (Cons i us)
  obtain r s1 where c: "redis_consume sha256 rps burst i s = (r, s1)" by fastforce
  obtain rest s2 where run: "redis_run sha256 rps burst us s1 = (rest, s2)" by fastforce
  have rs: "rs = r # rest" using Cons.prems(5) c run by simp
  note keep = consume_keeps [OF c]
  have range: "[rl_calls s ..< rl_calls s + length (i # us)] = rl_calls s # [rl_calls s1 ..< rl_calls s1 + length us]"
    using keep by (simp add: upt_rec)
  have clock: "\<forall>n \<ge> rl_calls s1. rl_clock s (rl_calls s) \<le> rl_clock s1 n" "mono (rl_clock s1)"
    using keep Cons.prems(4) by (auto simp: monoD)
  show ?case
  proof (cases "rl_up s (rl_calls s)")
    case False
    then have s1: "r = Inl BackendUnavailable" "rl_buckets s1 = rl_buckets s"
      using c by (auto simp: redis_consume_def Let_def)
    have "limiter_sim sha256 rps burst users now ps (rl_buckets s1)" "\<forall>n \<ge> rl_calls s1. now \<le> rl_clock s1 n"
      using Cons.prems(1,3) s1 keep by auto
    from Cons.IH [OF this(1) _ this(2) clock(2) run] Cons.prems(2) False s1 keep rs range
    show ?thesis by (simp add: decided_def served_cong [of s1 s])
  next
    case True
    define t where "t = rl_clock s (rl_calls s)"
    obtain d ps' where plain: "plain_consume rps burst t i ps = (d, ps')" by fastforce
    obtain a m k bs where script: "bucket_script rps (real burst) (bucket_key sha256 i) t (rl_buckets s) = ((a, m, k), bs)"
      by (metis prod_cases3 prod.exhaust)
    have "now \<le> t" using Cons.prems(3) by (simp add: t_def)
    from limiter_step [OF Cons.prems(1) _ inj this assms(4,5) plain script] Cons.prems(2)
    have d: "d = \<lparr>rd_allowed = (a \<noteq> 0), rd_remaining = m, rd_retry_after = k\<rparr>"
      and sim: "limiter_sim sha256 rps burst users t ps' bs" by auto
    have s1: "r = Inr d" "rl_buckets s1 = bs"
      using c True script d by (auto simp: redis_consume_def Let_def t_def [symmetric])
    have sim1: "limiter_sim sha256 rps burst users t ps' (rl_buckets s1)" "\<forall>n \<ge> rl_calls s1. t \<le> rl_clock s1 n"
      using sim s1 clock(1) by (simp_all add: t_def)
    have "served s1 (rl_calls s1) us = served s (Suc (rl_calls s)) us" using keep by (simp add: served_cong [of s1 s])
    with Cons.IH [OF sim1(1) _ sim1(2) clock(2) run] Cons.prems(2) True s1 keep rs range plain
    show ?thesis by (simp add: decided_def t_def)
  qed
qed

section \<open>Properties\<close>

definition new_limiter :: "(nat \<Rightarrow> bool) \<Rightarrow> (nat \<Rightarrow> real) \<Rightarrow> redis_limiter" where
  "new_limiter up clk = \<lparr>rl_buckets = [], rl_up = up, rl_clock = clk, rl_calls = 0\<rparr>"

lemma new_limiter_sim: "limiter_sim sha256 rps burst users now [] (rl_buckets (new_limiter up clk))"
  by (simp add: limiter_sim_def same_bucket_def new_limiter_def)


definition demo_users :: "identity list" where
  "demo_users = [\<lparr>id_tenant = [97], id_user = [98]\<rparr>, \<lparr>id_tenant = [97], id_user = [98]\<rparr>,
     \<lparr>id_tenant = [97], id_user = [99]\<rparr>, \<lparr>id_tenant = [97], id_user = [98]\<rparr>]"

definition demo_clock :: "nat \<Rightarrow> real" where
  "demo_clock n = real n / 2"

lemma demo_users_apart: "inj_on (bucket_key id) (set demo_users)"
  by (auto simp: demo_users_def bucket_key_def inj_on_def)

lemma demo_clock_mono: "mono demo_clock"
  by (simp add: demo_clock_def mono_def)


text \<open>
  C38: no user exceeds the rate. Of the requests of one user that a bucket decides between two
  times, at most \<open>burst\<close> plus \<open>rps\<close> for every second between them are admitted, whatever other
  users send; with \<open>limiter_refines_plain_bucket\<close> this bounds the limiter of every gateway process
  together, since they share the buckets.
\<close>

theorem admitted_requests_are_bounded:
  assumes "sorted (map snd (earlier @ rs))" and "rs \<noteq> []" and "0 \<le> rps"
  shows "real (admitted i rs (drop (length earlier) (plain_decisions rps burst (earlier @ rs) [])))
    \<le> real burst + (snd (last rs) - snd (hd rs)) * rps"
proof -
  have "sane_buckets (snd (hd (earlier @ rs))) []" by (simp add: sane_buckets_def)
  moreover have "sorted (snd (hd (earlier @ rs)) # map snd (earlier @ rs))"
    using assms(1,2) by (cases "earlier @ rs") auto
  ultimately show ?thesis using admits_after [OF _ _ assms(2,3)] by blast
qed

lemma admitted_requests_are_bounded_witness:
  "real (admitted (hd demo_users) [(hd demo_users, 1), (hd demo_users, 3)]
      (drop 1 (plain_decisions 1 1 ([(hd demo_users, 0)] @ [(hd demo_users, 1), (hd demo_users, 3)]) [])))
    \<le> real 1 + (3 - 1) * 1"
  using admitted_requests_are_bounded [where i = "hd demo_users" and earlier = "[(hd demo_users, 0)]"
      and rs = "[(hd demo_users, 1), (hd demo_users, 3)]" and rps = 1 and burst = 1]
  by simp

end
