(* ===== verification/Auth.thy ===== *)
theory Auth
  imports Answering RateLimit
begin

text \<open>
  Authentication (\<open>gateway/auth.py\<close>): the validation of a key set, the cache of signing keys with
  its refresh back-off, and RS256 verification of the bearer token. PyJWT and its RSA keys are
  parameters, as are the monotonic clock (one value per reading) and the key source (one result
  per fetch). The lock makes a call of \<open>key\<close> atomic.
\<close>

section \<open>Key sets\<close>

record claims_check =
  \<comment> \<open>the arguments of \<open>jwt.decode\<close>\<close>
  cc_algorithms :: "ustr list"
  cc_issuer :: string
  cc_audience :: string
  cc_leeway :: real
  cc_require :: "ustr list"

record 'k jose =
  jo_key :: "json \<Rightarrow> 'k result" \<comment> \<open>\<open>PyJWK(item, algorithm="RS256")\<close>\<close>
  jo_rsa :: "'k \<Rightarrow> nat option" \<comment> \<open>the size of an \<open>RSAPublicKey\<close>\<close>
  jo_jwk :: "'k \<Rightarrow> json" \<comment> \<open>\<open>RSAAlgorithm.to_jwk\<close>, decoded\<close>
  jo_header :: "ustr \<Rightarrow> json result" \<comment> \<open>\<open>get_unverified_header\<close>\<close>
  jo_decode :: "real \<Rightarrow> ustr \<Rightarrow> 'k \<Rightarrow> claims_check \<Rightarrow> json result" \<comment> \<open>\<open>decode\<close> at a wall clock time\<close>

fun is_infix :: "ustr \<Rightarrow> ustr \<Rightarrow> bool" where
  "is_infix t [] = (t = [])"
| "is_infix t (c # cs) = (take (length t) (c # cs) = t \<or> is_infix t cs)"

definition json_contains :: "ustr \<Rightarrow> json \<Rightarrow> bool result" where
  \<comment> \<open>\<open>t in value\<close>\<close>
  "json_contains t j =
     (case j of JList xs \<Rightarrow> Inr (JStr t \<in> set xs) | JObj kvs \<Rightarrow> Inr (t \<in> fst ` set kvs)
      | JStr s \<Rightarrow> Inr (is_infix t s) | _ \<Rightarrow> Inl TypeError)"

definition get_or :: "json \<Rightarrow> string \<Rightarrow> json \<Rightarrow> json result" where
  \<comment> \<open>\<open>item.get(key, default)\<close>\<close>
  "get_or j k v = bindR (jget j k) (\<lambda>x. Inr (case x of None \<Rightarrow> v | Some y \<Rightarrow> y))"

definition usable :: "json \<Rightarrow> bool result" where
  \<comment> \<open>the two conditions that \<open>continue\<close>\<close>
  "usable item =
     bindR (jget item ''kty'') (\<lambda>kty.
     if kty \<noteq> Some (jstr ''RSA'') then Inr False else
     bindR (get_or item ''alg'' (jstr ''RS256'')) (\<lambda>alg.
     if alg \<noteq> jstr ''RS256'' then Inr False else
     bindR (get_or item ''use'' (jstr ''sig'')) (\<lambda>purpose.
     if purpose \<noteq> jstr ''sig'' then Inr False else
     bindR (get_or item ''key_ops'' (JList [jstr ''verify''])) (\<lambda>ops.
     json_contains (ascii ''verify'') ops))))"

definition add_key :: "'k jose \<Rightarrow> json \<Rightarrow> (ustr \<times> 'k) list \<Rightarrow> (ustr \<times> 'k) list result" where
  "add_key jo item ks =
     bindR (jget item ''kid'') (\<lambda>kid.
     bindR (jo_key jo item) (\<lambda>key.
     if (case jo_rsa jo key of None \<Rightarrow> True | Some n \<Rightarrow> n < 2048) then Inl (ValueError ''Invalid signing key'')
     else
       bindR (jget item ''d'') (\<lambda>d.
       (case kid of
          Some (JStr k) \<Rightarrow>
            (if k = [] \<or> k \<in> fst ` set ks \<or> d \<noteq> None then Inl (ValueError ''Invalid key identifier'')
             else Inr (ks @ [(k, key)]))
        | _ \<Rightarrow> Inl (ValueError ''Invalid key identifier'')))))"

fun collect_keys :: "'k jose \<Rightarrow> json list \<Rightarrow> (ustr \<times> 'k) list \<Rightarrow> (ustr \<times> 'k) list result" where
  "collect_keys jo [] ks = Inr ks"
| "collect_keys jo (item # items) ks =
     bindR (usable item) (\<lambda>u.
     if \<not> u then collect_keys jo items ks
     else bindR (add_key jo item ks) (collect_keys jo items))"

definition signing_keys :: "'k jose \<Rightarrow> json \<Rightarrow> (ustr \<times> 'k) list result" where
  "signing_keys jo document =
     bindR (jitem document ''keys'') (\<lambda>keys.
     bindR (jiter keys) (\<lambda>items.
     bindR (collect_keys jo items []) (\<lambda>ks.
     if ks = [] then Inl (ValueError ''No signing keys'') else Inr ks)))"

definition public_key :: "'k jose \<Rightarrow> ustr \<times> 'k \<Rightarrow> json result" where
  "public_key jo = (\<lambda>(kid, key).
     bindR (jitem (jo_jwk jo key) ''kty'') (\<lambda>kty.
     bindR (jitem (jo_jwk jo key) ''n'') (\<lambda>n.
     bindR (jitem (jo_jwk jo key) ''e'') (\<lambda>e.
       Inr (jobj [(''kty'', kty), (''n'', n), (''e'', e), (''kid'', JStr kid)])))))"

definition public_jwks :: "'k jose \<Rightarrow> json \<Rightarrow> json result" where
  "public_jwks jo document =
     bindR (signing_keys jo document) (\<lambda>ks.
     bindR (mapR (public_key jo) ks) (\<lambda>keys. Inr (jobj [(''keys'', JList keys)])))"

section \<open>The key cache\<close>

record 'k authenticator =
  au_keys :: "(ustr \<times> 'k) list"
  au_expires :: "real option" \<comment> \<open>\<open>None\<close> is \<open>float("-inf")\<close>\<close>
  au_next_refresh :: "real option"
  au_clock :: "nat \<Rightarrow> real"
  au_ticks :: nat
  au_source :: "nat \<Rightarrow> json result"
  au_fetches :: nat

definition new_authenticator :: "(nat \<Rightarrow> real) \<Rightarrow> (nat \<Rightarrow> json result) \<Rightarrow> 'k authenticator" where
  "new_authenticator clk src = \<lparr>au_keys = [], au_expires = None, au_next_refresh = None,
     au_clock = clk, au_ticks = 0, au_source = src, au_fetches = 0\<rparr>"

definition reached :: "real \<Rightarrow> real option \<Rightarrow> bool" where
  "reached now deadline \<longleftrightarrow> (case deadline of None \<Rightarrow> True | Some t \<Rightarrow> t \<le> now)"

definition read_clock :: "('k authenticator, real) proc" where
  "read_clock a = (Inr (au_clock a (au_ticks a)), a\<lparr>au_ticks := Suc (au_ticks a)\<rparr>)"

definition fetch_keys :: "('k authenticator, json) proc" where
  "fetch_keys a = (au_source a (au_fetches a), a\<lparr>au_fetches := Suc (au_fetches a)\<rparr>)"

definition refresh_keys :: "'k jose \<Rightarrow> ('s) gateway_settings_scheme \<Rightarrow> real \<Rightarrow> ('k authenticator, unit) proc" where
  "refresh_keys jo s now =
     thenE (writeE (\<lambda>a. a\<lparr>au_next_refresh := Some (now + jwks_refresh_seconds s)\<rparr>))
     (bindE fetch_keys (\<lambda>document.
      bindE (liftE (signing_keys jo document)) (\<lambda>ks.
      thenE (writeE (\<lambda>a. a\<lparr>au_keys := ks\<rparr>))
      (bindE read_clock (\<lambda>t. writeE (\<lambda>a. a\<lparr>au_expires := Some (t + jwks_cache_seconds s)\<rparr>))))))"

definition signing_key :: "'k jose \<Rightarrow> ('s) gateway_settings_scheme \<Rightarrow> ustr \<Rightarrow> ('k authenticator, 'k) proc" where
  \<comment> \<open>\<open>Authenticator.key\<close>\<close>
  "signing_key jo s kid =
     bindE read_clock (\<lambda>now.
     thenE (\<lambda>a. if (map_of (au_keys a) kid = None \<or> reached now (au_expires a)) \<and> reached now (au_next_refresh a)
                then refresh_keys jo s now a else returnE () a)
     (bindE read_clock (\<lambda>t a.
        if reached t (au_expires a) then (Inl InvalidToken, a)
        else (case map_of (au_keys a) kid of None \<Rightarrow> (Inl InvalidToken, a) | Some key \<Rightarrow> (Inr key, a)))))"

section \<open>Bearer tokens\<close>

definition lower_ascii :: "nat \<Rightarrow> nat" where
  "lower_ascii c = (if 65 \<le> c \<and> c \<le> 90 then c + 32 else c)"

definition required_claims :: "ustr list" where
  "required_claims = map ascii [''sub'', ''tenant'', ''exp'', ''iat'', ''iss'', ''aud'']"

definition claims_checks :: "('s) gateway_settings_scheme \<Rightarrow> claims_check" where
  "claims_checks s = \<lparr>cc_algorithms = [ascii ''RS256''], cc_issuer = jwt_issuer s, cc_audience = jwt_audience s,
     cc_leeway = jwt_leeway_seconds s, cc_require = required_claims\<rparr>"

definition token_kid :: "json \<Rightarrow> ustr result" where
  \<comment> \<open>the checks of the unverified header\<close>
  "token_kid header =
     bindR (jget header ''kid'') (\<lambda>kid.
     bindR (jget header ''alg'') (\<lambda>alg.
     if alg \<noteq> Some (jstr ''RS256'') then Inl InvalidToken
     else (case kid of
             Some (JStr k) \<Rightarrow> (if k = [] then Inl InvalidToken else Inr k)
           | _ \<Rightarrow> Inl InvalidToken)))"

definition is_str :: "json \<Rightarrow> bool" where
  "is_str j \<longleftrightarrow> (case j of JStr _ \<Rightarrow> True | _ \<Rightarrow> False)"

definition is_int :: "json \<Rightarrow> bool" where
  \<comment> \<open>\<open>type(value) is int\<close>: a \<open>bool\<close> is not\<close>
  "is_int j \<longleftrightarrow> (case j of JInt _ \<Rightarrow> True | _ \<Rightarrow> False)"

definition claimed_identity :: "json \<Rightarrow> identity result" where
  \<comment> \<open>the checks of the verified claims\<close>
  "claimed_identity claims =
     bindR (jitem claims ''tenant'') (\<lambda>tenant.
     if \<not> is_str tenant then Inl InvalidToken else
     bindR (jitem claims ''sub'') (\<lambda>sub.
     if \<not> is_str sub then Inl InvalidToken else
     bindR (jitem claims ''exp'') (\<lambda>exp.
     if \<not> is_int exp then Inl InvalidToken else
     bindR (jitem claims ''iat'') (\<lambda>iat.
     if \<not> is_int iat then Inl InvalidToken else
     (case (tenant, sub) of (JStr t, JStr u) \<Rightarrow> new_identity t u | _ \<Rightarrow> Inl InvalidToken)))))"

definition verify_token ::
  "'k jose \<Rightarrow> ('s) gateway_settings_scheme \<Rightarrow> real \<Rightarrow> ustr \<Rightarrow> ('k authenticator, identity) proc" where
  \<comment> \<open>the body of the \<open>try\<close>\<close>
  "verify_token jo s now authorization =
     (case split_words authorization of
        [scheme, token] \<Rightarrow>
          (if map lower_ascii scheme \<noteq> ascii ''bearer'' \<or> 16384 < length token then raiseE InvalidToken
           else
             bindE (liftE (jo_header jo token)) (\<lambda>header.
             bindE (liftE (token_kid header)) (\<lambda>kid.
             bindE (signing_key jo s kid) (\<lambda>key.
             bindE (liftE (jo_decode jo now token key (claims_checks s))) (\<lambda>claims.
             liftE (claimed_identity claims))))))
      | _ \<Rightarrow> raiseE (ValueError ''expected two words''))"

definition fails_closed :: "exn \<Rightarrow> bool" where
  \<comment> \<open>the classes of the \<open>except\<close> clause\<close>
  "fails_closed e \<longleftrightarrow> e \<in> {InvalidToken, PyJWTError, TimeoutError, TypeError, KeyError, AttributeError, OverflowError}
     \<or> is_httpx_error e \<or> is_value_error e"

definition authenticate ::
  "'k jose \<Rightarrow> ('s) gateway_settings_scheme \<Rightarrow> real \<Rightarrow> ustr \<Rightarrow> ('k authenticator, identity) proc" where
  "authenticate jo s now authorization =
     tryE (verify_token jo s now authorization)
       (\<lambda>e. if fails_closed e then raiseE InvalidToken else raiseE e)"

section \<open>The demo issuer\<close>

definition mint_claims :: "('s) gateway_settings_scheme \<Rightarrow> identity \<Rightarrow> int \<Rightarrow> int \<Rightarrow> json" where
  \<comment> \<open>the claims \<open>mint_token\<close> of \<open>dev_identity.py\<close> signs\<close>
  "mint_claims s i now ttl =
     JObj [(ascii ''sub'', JStr (id_user i)), (ascii ''tenant'', JStr (id_tenant i)), (ascii ''iat'', JInt now),
       (ascii ''exp'', JInt (now + ttl)), (ascii ''iss'', jstr (jwt_issuer s)), (ascii ''aud'', jstr (jwt_audience s))]"

definition first_item :: "json \<Rightarrow> json result" where
  \<comment> \<open>\<open>value[0]\<close>\<close>
  "first_item j =
     (case j of JList [] \<Rightarrow> Inl IndexError | JList (x # xs) \<Rightarrow> Inr x | JStr [] \<Rightarrow> Inl IndexError
      | JStr (c # cs) \<Rightarrow> Inr (JStr [c]) | JObj kvs \<Rightarrow> Inl KeyError | _ \<Rightarrow> Inl TypeError)"

definition mint_token ::
  "(json \<Rightarrow> json \<Rightarrow> ustr result) \<Rightarrow> ('s) gateway_settings_scheme \<Rightarrow> json \<Rightarrow> real \<Rightarrow> identity \<Rightarrow> int \<Rightarrow> ustr result" where
  \<comment> \<open>\<open>encode\<close> is \<open>jwt.encode\<close> with the private key, of claims and a key identifier\<close>
  "mint_token encode s jwks now i ttl =
     (if ttl \<le> 0 then Inl (ValueError ''ttl must be positive'')
      else
        bindR (jitem jwks ''keys'') (\<lambda>keys.
        bindR (first_item keys) (\<lambda>key.
        bindR (jitem key ''kid'') (\<lambda>kid.
          encode (mint_claims s i \<lfloor>now\<rfloor> ttl) kid))))"

end
