(* ===== verification/Http.thy ===== *)
theory Http
  imports Auth
begin

text \<open>
  The HTTP adapters of the gateway (\<open>gateway/http.py\<close>) and the \<open>FakeUpstream\<close> of
  \<open>packages/testing\<close>. The httpx client is a parameter: it builds a request from its defaults
  and cookies, sends it, and hands out the response in blocks, any of which may raise (the
  deadline of \<open>asyncio.timeout\<close> is one such \<open>TimeoutError\<close>). Header names are lower case.
\<close>

section \<open>The client\<close>

type_synonym headers = "(string \<times> ustr) list"

record http_request =
  rq_method :: string
  rq_url :: ustr
  rq_headers :: headers
  rq_body :: "bytes result list"
  rq_timeout :: real

record http_response =
  hr_status :: nat
  hr_content_type :: "ustr option"
  hr_blocks :: "bytes result list"

record 'h http_client =
  hc_build :: "string \<Rightarrow> ustr \<Rightarrow> real \<Rightarrow> headers \<Rightarrow> bytes result list \<Rightarrow> 'h \<Rightarrow> http_request result"
  hc_send :: "http_request \<Rightarrow> ('h, http_response) proc"
  hc_close :: "'h \<Rightarrow> 'h" \<comment> \<open>\<open>response.aclose()\<close>\<close>

definition http_stream ::
  "'h http_client \<Rightarrow> string \<Rightarrow> ustr \<Rightarrow> real \<Rightarrow> headers \<Rightarrow> bytes result list
   \<Rightarrow> (http_response \<Rightarrow> ('h, 'a) proc) \<Rightarrow> ('h, 'a) proc" where
  \<comment> \<open>\<open>stream\<close> around the body of its \<open>async with\<close>\<close>
  "http_stream hc method url timeout headers body inner h =
     (case hc_build hc method url timeout headers body h of
        Inl e \<Rightarrow> (Inl e, h)
      | Inr built \<Rightarrow>
          (let request = built\<lparr>rq_headers := filter (\<lambda>h. fst h \<noteq> ''cookie'') (rq_headers built)\<rparr>
           in bindE (hc_send hc request) (\<lambda>response. finallyE (inner response) (hc_close hc)) h))"

fun bounded_read :: "nat \<Rightarrow> bytes \<Rightarrow> bytes result list \<Rightarrow> bytes result" where
  "bounded_read limit result [] = Inr result"
| "bounded_read limit result (Inl e # blocks) = Inl e"
| "bounded_read limit result (Inr chunk # blocks) =
     (if limit < length result + length chunk then Inl (ValueError ''Response too large'')
      else bounded_read limit (result @ chunk) blocks)"

section \<open>Key sets over HTTP\<close>

definition http_fetch :: "'h http_client \<Rightarrow> (bytes \<Rightarrow> json result) \<Rightarrow> ustr \<Rightarrow> ('h, json) proc" where
  \<comment> \<open>\<open>HttpJwksSource.fetch\<close>; \<open>loads\<close> is \<open>json.loads\<close>\<close>
  "http_fetch hc loads url =
     http_stream hc ''GET'' url 5 [] [] (\<lambda>r.
       if \<not> (200 \<le> hr_status r \<and> hr_status r < 300) then raiseE (HTTPStatusError (hr_status r))
       else
         bindE (liftE (bounded_read (256 * 1024) [] (hr_blocks r))) (\<lambda>data.
         bindE (liftE (loads data)) (\<lambda>document.
           (case document of JObj kvs \<Rightarrow> returnE document | _ \<Rightarrow> raiseE TypeError))))"

section \<open>Upstreams\<close>

record upstream_reply =
  ur_status :: nat
  ur_body :: bytes
  ur_content_type :: ustr

definition application_json :: ustr where
  "application_json = ascii ''application/json''"

type_synonym 'u exchange =
  "string \<Rightarrow> ustr \<Rightarrow> headers \<Rightarrow> bytes result list \<Rightarrow> real \<Rightarrow> ('u, upstream_reply) proc"

definition rstrip_slash :: "ustr \<Rightarrow> ustr" where
  \<comment> \<open>\<open>url.rstrip("/")\<close>\<close>
  "rstrip_slash t = rev (dropWhile (\<lambda>c. c = 47) (rev t))"

definition http_exchange :: "'h http_client \<Rightarrow> ustr \<Rightarrow> nat \<Rightarrow> 'h exchange" where
  "http_exchange hc url max_response method path headers body timeout =
     http_stream hc method (rstrip_slash url @ path) timeout headers body (\<lambda>response.
       let limit = (if 200 \<le> hr_status response \<and> hr_status response < 300 then max_response else 64 * 1024)
       in case bounded_read limit [] (hr_blocks response) of
            Inl e \<Rightarrow>
              (if is_value_error e
               then returnE \<lparr>ur_status = 502, ur_body = [], ur_content_type = application_json\<rparr>
               else raiseE e)
          | Inr data \<Rightarrow> returnE \<lparr>ur_status = hr_status response, ur_body = data, ur_content_type =
              (case hr_content_type response of None \<Rightarrow> application_json
               | Some t \<Rightarrow> (if t = [] then application_json else t))\<rparr>)"

definition http_ready :: "'h http_client \<Rightarrow> ustr \<Rightarrow> ('h, bool) proc" where
  "http_ready hc url =
     tryE (http_stream hc ''GET'' (rstrip_slash url @ ascii ''/readyz'') 2 [] []
        (\<lambda>response. returnE (hr_status response = 200)))
       (\<lambda>e. if is_httpx_error e \<or> e = TimeoutError then returnE False else raiseE e)"

record fake_upstream =
  fu_reply :: upstream_reply
  fu_available :: bool
  fu_requests :: "(string \<times> ustr \<times> headers \<times> bytes \<times> real) list"

fun join_body :: "bytes result list \<Rightarrow> bytes result" where
  \<comment> \<open>\<open>b"".join([chunk async for chunk in body])\<close>\<close>
  "join_body [] = Inr []"
| "join_body (Inl e # blocks) = Inl e"
| "join_body (Inr chunk # blocks) = bindR (join_body blocks) (\<lambda>rest. Inr (chunk @ rest))"

definition fake_exchange :: "fake_upstream exchange" where
  \<comment> \<open>\<open>FakeUpstream.exchange\<close>\<close>
  "fake_exchange method path headers body timeout u =
     (case join_body body of
        Inl e \<Rightarrow> (Inl e, u)
      | Inr data \<Rightarrow> (Inr (fu_reply u), u\<lparr>fu_requests := fu_requests u @ [(method, path, headers, data, timeout)]\<rparr>))"

definition fake_ready :: "(fake_upstream, bool) proc" where
  "fake_ready u = (Inr (fu_available u), u)"

section \<open>What a read holds\<close>

lemma bounded_read_spec:
  "bounded_read limit result blocks = Inr data \<Longrightarrow>
     \<exists>chunks. blocks = map Inr chunks \<and> data = result @ concat chunks \<and> (blocks \<noteq> [] \<longrightarrow> length data \<le> limit)"
proof (induction limit result blocks rule: bounded_read.induct)
  case (3 limit result chunk blocks)
  then have fits: "\<not> limit < length result + length chunk" by (auto split: if_splits)
  with 3 obtain chunks where "blocks = map Inr chunks" "data = (result @ chunk) @ concat chunks"
    "blocks \<noteq> [] \<longrightarrow> length data \<le> limit" by auto
  with fits show ?case by (intro exI [of _ "chunk # chunks"]) auto
qed auto

lemma join_body_spec: "join_body blocks = Inr data \<longleftrightarrow> (\<exists>chunks. blocks = map Inr chunks \<and> data = concat chunks)"
proof (induction blocks arbitrary: data)
  case (Cons b blocks)
  show ?case
  proof (cases b)
    case (Inr c)
    with Cons show ?thesis
      by (auto simp: bindR_def split: sum.splits) (metis concat.simps(2) list.simps(9) sum.inject(2))+
  qed auto
qed auto

end
