(* ===== verification/Gateway.thy ===== *)
theory Gateway
  imports Http
begin

text \<open>
  The gateway: public errors (\<open>responses.py\<close>), the proxy (\<open>proxy.py\<close>), the routes (\<open>main.py\<close>) and
  the response policies (\<open>middleware.py\<close>). A request is the data the handlers read from it; the
  active trace, the wall clock and a fresh request identifier come with it. The rate limiter
  and the upstreams are the operations the gateway calls; \<open>CORSMiddleware\<close> and the routing of
  FastAPI are parameters.
\<close>

section \<open>Public responses\<close>

datatype gateway_body = JsonBody json | RawBody bytes

record gateway_response =
  gr_status :: nat
  gr_headers :: headers
  gr_body :: gateway_body

definition json_response :: "json \<Rightarrow> nat \<Rightarrow> gateway_response" where
  "json_response j status = \<lparr>gr_status = status, gr_headers = [(''content-type'', application_json)], gr_body = JsonBody j\<rparr>"

fun renders :: "json \<Rightarrow> bool" where
  \<comment> \<open>a surrogate cannot be encoded\<close>
  "renders (JStr t) = list_all (\<lambda>c. utf8_size c \<noteq> None) t"
| "renders (JList xs) = list_all renders xs"
| "renders (JObj kvs) = list_all (\<lambda>kv. list_all (\<lambda>c. utf8_size c \<noteq> None) (fst kv) \<and> renders (snd kv)) kvs"
| "renders j = True"

definition json_reply :: "json \<Rightarrow> nat \<Rightarrow> gateway_response result" where
  \<comment> \<open>\<open>JSONResponse\<close> encodes its content at once\<close>
  "json_reply j status =
     (if renders j then Inr (json_response j status) else Inl (ValueError ''surrogates not allowed''))"

definition error_reply :: "nat \<Rightarrow> string \<Rightarrow> string \<Rightarrow> gateway_response" where
  \<comment> \<open>\<open>error\<close>\<close>
  "error_reply status code message =
     json_response (jobj [(''error'', jobj [(''code'', jstr code), (''message'', jstr message)])]) status"

definition set_is :: "json \<Rightarrow> ustr list \<Rightarrow> bool result" where
  \<comment> \<open>\<open>set(value) == {...}\<close>\<close>
  "set_is j names =
     (case j of
        JObj kvs \<Rightarrow> Inr (set (map fst kvs) = set names)
      | JList xs \<Rightarrow> (if list_ex (\<lambda>x. case x of JList _ \<Rightarrow> True | JObj _ \<Rightarrow> True | _ \<Rightarrow> False) xs then Inl TypeError
                     else Inr (set xs = JStr ` set names))
      | JStr t \<Rightarrow> Inr (set (map (\<lambda>c. [c]) t) = set names)
      | _ \<Rightarrow> Inl TypeError)"

definition code_char :: "nat \<Rightarrow> bool" where
  "code_char c \<longleftrightarrow> (97 \<le> c \<and> c \<le> 122) \<or> (48 \<le> c \<and> c \<le> 57) \<or> c = 95"

definition public_code :: "ustr \<Rightarrow> bool" where
  \<comment> \<open>\<open>[a-z0-9][a-z0-9_]{0,63}\<close>\<close>
  "public_code t \<longleftrightarrow> t \<noteq> [] \<and> hd t \<noteq> 95 \<and> length t \<le> 64 \<and> list_all code_char t"

definition public_payload :: "json \<Rightarrow> bool result" where
  \<comment> \<open>the condition of the inner \<open>if\<close>\<close>
  "public_payload reply =
     bindR (jitem reply ''error'') (\<lambda>detail.
     bindR (set_is reply [ascii ''error'']) (\<lambda>one.
     if \<not> one then Inr False else
     bindR (set_is detail [ascii ''code'', ascii ''message'']) (\<lambda>two.
     if \<not> two then Inr False else
     bindR (jitem detail ''code'') (\<lambda>code.
     (case code of
        JStr c \<Rightarrow>
          (if \<not> public_code c then Inr False else
           bindR (jitem detail ''message'') (\<lambda>message.
             Inr (case message of JStr t \<Rightarrow> length t \<le> 1024 | _ \<Rightarrow> False)))
      | _ \<Rightarrow> Inr False)))))"

definition gateway_failure :: "nat \<Rightarrow> gateway_response" where
  "gateway_failure status =
     (if status = 504 then error_reply 504 ''upstream_timeout'' ''upstream timed out''
      else error_reply 502 ''bad_gateway'' ''upstream request failed'')"

definition upstream_response :: "(bytes \<Rightarrow> json result) \<Rightarrow> upstream_reply \<Rightarrow> gateway_response result" where
  "upstream_response loads reply =
     (if 200 \<le> ur_status reply \<and> ur_status reply < 300
      then (if list_all (\<lambda>c. c < 256) (ur_content_type reply)
            then Inr \<lparr>gr_status = ur_status reply, gr_headers = [(''content-type'', ur_content_type reply)],
                      gr_body = RawBody (ur_body reply)\<rparr>
            else Inl (ValueError ''latin-1''))
      else if 400 \<le> ur_status reply \<and> ur_status reply < 500
        \<and> takeWhile (\<lambda>c. c \<noteq> 59) (ur_content_type reply) = application_json
      then (case bindR (loads (ur_body reply)) (\<lambda>content. bindR (public_payload content) (\<lambda>ok.
                   if ok then bindR (json_reply content (ur_status reply)) (\<lambda>r. Inr (Some r)) else Inr None)) of
              Inl e \<Rightarrow> (if is_value_error e \<or> e = KeyError \<or> e = TypeError
                        then Inr (gateway_failure (ur_status reply)) else Inl e)
            | Inr None \<Rightarrow> Inr (gateway_failure (ur_status reply))
            | Inr (Some r) \<Rightarrow> Inr r)
      else Inr (gateway_failure (ur_status reply)))"

fun set_header :: "string \<Rightarrow> ustr \<Rightarrow> headers \<Rightarrow> headers" where
  \<comment> \<open>\<open>headers[name] = value\<close>\<close>
  "set_header name v [] = [(name, v)]"
| "set_header name v ((n, w) # hs) =
     (if n = name then (name, v) # filter (\<lambda>h. fst h \<noteq> name) hs else (n, w) # set_header name v hs)"

section \<open>Requests\<close>

record incoming =
  in_method :: string
  in_headers :: headers
  in_stream :: "bytes result list" \<comment> \<open>\<open>request.stream()\<close>, which may raise \<open>ClientDisconnect\<close>\<close>
  in_now :: real
  in_trace :: "ustr option"
  in_fresh_id :: ustr

definition getlist :: "string \<Rightarrow> headers \<Rightarrow> ustr list" where
  "getlist name hs = map snd (filter (\<lambda>h. fst h = name) hs)"

definition check_length :: "headers \<Rightarrow> nat \<Rightarrow> unit result" where
  \<comment> \<open>\<open>int\<close> refuses more than 4300 digits\<close>
  "check_length hs limit =
     (case getlist ''content-length'' hs of
        [] \<Rightarrow> Inr ()
      | [l] \<Rightarrow>
          (if l = [] \<or> \<not> list_all (\<lambda>c. 48 \<le> c \<and> c \<le> 57) l then Inl (ValueError ''Invalid content length'')
           else if 4300 < length l then Inl (ValueError ''Exceeds the limit for integer string conversion'')
           else if limit < nat_of_digits l then Inl UploadTooLarge else Inr ())
      | _ \<Rightarrow> Inl (ValueError ''Invalid content length''))"

fun limited_body :: "nat \<Rightarrow> nat \<Rightarrow> bytes result list \<Rightarrow> bytes result list" where
  \<comment> \<open>what the generator yields, up to the exception that ends it\<close>
  "limited_body limit seen [] = []"
| "limited_body limit seen (Inl e # blocks) = [Inl e]"
| "limited_body limit seen (Inr chunk # blocks) =
     (if limit < seen + length chunk then [Inl UploadTooLarge]
      else Inr chunk # limited_body limit (seen + length chunk) blocks)"

definition lower_name :: "string \<Rightarrow> string" where
  "lower_name s = map (\<lambda>c. char_of (lower_ascii (of_char c))) s"

definition inject_trace :: "ustr option \<Rightarrow> headers \<Rightarrow> headers" where
  \<comment> \<open>\<open>observability.inject\<close>; the propagator writes the active trace, if there is one\<close>
  "inject_trace trace hs =
     (let result = filter (\<lambda>h. lower_name (fst h) \<notin> {''traceparent'', ''tracestate'', ''baggage''}) hs
      in case trace of None \<Rightarrow> result | Some t \<Rightarrow> result @ [(''traceparent'', t)])"

definition request_id :: "incoming \<Rightarrow> ustr" where
  \<comment> \<open>\<open>ResponsePolicy\<close>: the caller's identifier when it is safe\<close>
  "request_id rq =
     (let given = (case getlist ''x-request-id'' (in_headers rq) of [] \<Rightarrow> [] | v # vs \<Rightarrow> v)
      in if 1 \<le> length given \<and> length given \<le> 128 \<and> list_all tenant_char given then given else in_fresh_id rq)"

definition passed_header :: "headers \<Rightarrow> string \<Rightarrow> headers" where
  "passed_header hs name = (case getlist name hs of [] \<Rightarrow> [] | v # vs \<Rightarrow> [(name, v)])"

definition forwarded_headers :: "incoming \<Rightarrow> identity \<Rightarrow> headers" where
  "forwarded_headers rq i =
     (let allowed = concat (map (passed_header (in_headers rq)) [''content-type'', ''accept''])
      in inject_trace (in_trace rq) (allowed @ [(''x-tenant-id'', id_tenant i), (''x-user-id'', id_user i),
           (''x-request-id'', request_id rq), (''accept-encoding'', ascii ''identity'')]))"

section \<open>The proxy\<close>

record ('k, 'l, 'u) gateway =
  \<comment> \<open>the collaborators: the token library, \<open>json.loads\<close>, the limiter and the two upstreams\<close>
  gw_settings :: gateway_settings
  gw_jose :: "'k jose"
  gw_loads :: "bytes \<Rightarrow> json result"
  gw_consume :: "identity \<Rightarrow> ('l, rate_decision) proc"
  gw_limiter_ready :: "('l, bool) proc"
  gw_ingest :: "'u exchange"
  gw_ingest_ready :: "('u, bool) proc"
  gw_query :: "'u exchange"
  gw_query_ready :: "('u, bool) proc"
  gw_jwks :: "json option" \<comment> \<open>\<open>app.state.jwks\<close>\<close>

record ('k, 'l, 'u) gateway_world =
  gs_auth :: "'k authenticator"
  gs_limiter :: 'l
  gs_upstream :: 'u \<comment> \<open>both upstreams: they share one HTTP client\<close>

definition on_auth :: "('k authenticator, 'a) proc \<Rightarrow> (('k, 'l, 'u) gateway_world, 'a) proc" where
  "on_auth m w = (case m (gs_auth w) of (r, x) \<Rightarrow> (r, w\<lparr>gs_auth := x\<rparr>))"

definition on_limiter :: "('l, 'a) proc \<Rightarrow> (('k, 'l, 'u) gateway_world, 'a) proc" where
  "on_limiter m w = (case m (gs_limiter w) of (r, x) \<Rightarrow> (r, w\<lparr>gs_limiter := x\<rparr>))"

definition on_upstream :: "('u, 'a) proc \<Rightarrow> (('k, 'l, 'u) gateway_world, 'a) proc" where
  "on_upstream m w = (case m (gs_upstream w) of (r, x) \<Rightarrow> (r, w\<lparr>gs_upstream := x\<rparr>))"

datatype quota = Remaining int | Refused gateway_response | FailOpen

definition rate_limited :: "rate_decision \<Rightarrow> gateway_response" where
  "rate_limited d =
     (let response = error_reply 429 ''rate_limited'' ''request rate exceeded'';
          response = response\<lparr>gr_headers := set_header ''retry-after'' (str_int (rd_retry_after d)) (gr_headers response)\<rparr>
      in response\<lparr>gr_headers := set_header ''x-ratelimit-remaining'' (str_int (rd_remaining d)) (gr_headers response)\<rparr>)"

definition gateway_quota :: "('k, 'l, 'u) gateway \<Rightarrow> identity \<Rightarrow> (('k, 'l, 'u) gateway_world, quota) proc" where
  "gateway_quota g i =
     tryE (bindE (on_limiter (gw_consume g i)) (\<lambda>d.
        returnE (if rd_allowed d then Remaining (rd_remaining d) else Refused (rate_limited d))))
       (\<lambda>e. if e = BackendUnavailable
            then returnE (if rate_limit_fail_open (gw_settings g) then FailOpen
                          else Refused (error_reply 503 ''rate_limit_unavailable'' ''rate limiter unavailable''))
            else raiseE e)"

definition forward_failure :: "exn \<Rightarrow> gateway_response result" where
  \<comment> \<open>the \<open>except\<close> clauses of \<open>forward\<close>, in order\<close>
  "forward_failure e =
     (if e = UploadTooLarge then Inr (error_reply 413 ''payload_too_large'' ''request body too large'')
      else if is_value_error e \<or> e = ClientDisconnect then Inr (error_reply 400 ''invalid_request'' ''invalid request body'')
      else if e = TimeoutException \<or> e = TimeoutError then Inr (error_reply 504 ''upstream_timeout'' ''upstream timed out'')
      else if is_httpx_error e then Inr (error_reply 502 ''bad_gateway'' ''upstream request failed'')
      else Inl e)"

definition gateway_forward ::
  "('k, 'l, 'u) gateway \<Rightarrow> incoming \<Rightarrow> ustr \<Rightarrow> bool \<Rightarrow> identity \<Rightarrow> (('k, 'l, 'u) gateway_world, gateway_response) proc" where
  "gateway_forward g rq path ingest i =
     (let s = gw_settings g;
          call = (\<lambda>exchange. exchange (in_method rq) path (forwarded_headers rq i)
            (limited_body (max_upload_bytes s) 0 (in_stream rq))
            (upstream_timeout_seconds s * (if ingest then 4 else 1)))
      in tryE
           (thenE (liftE (check_length (in_headers rq) (max_upload_bytes s)))
           (bindE (on_upstream (call (if ingest then gw_ingest g else gw_query g))) (\<lambda>reply.
             liftE (upstream_response (gw_loads g) reply))))
           (\<lambda>e. liftE (forward_failure e)))"

definition unauthorized :: gateway_response where
  "unauthorized =
     (let response = error_reply 401 ''unauthorized'' ''invalid token''
      in response\<lparr>gr_headers := set_header ''www-authenticate'' (ascii ''Bearer'') (gr_headers response)\<rparr>)"

definition request_identity :: "('k, 'l, 'u) gateway \<Rightarrow> incoming \<Rightarrow> (('k, 'l, 'u) gateway_world, identity) proc" where
  "request_identity g rq =
     (case getlist ''authorization'' (in_headers rq) of
        [authorization] \<Rightarrow> on_auth (authenticate (gw_jose g) (gw_settings g) (in_now rq) authorization)
      | _ \<Rightarrow> raiseE InvalidToken)"

definition provisioned :: "('k, 'l, 'u) gateway \<Rightarrow> identity \<Rightarrow> bool" where
  "provisioned g i \<longleftrightarrow> tenants (gw_settings g) = []
     \<or> id_tenant i \<in> set (split_on comma (tenants (gw_settings g)))"

definition proxy_charged ::
  "('k, 'l, 'u) gateway \<Rightarrow> incoming \<Rightarrow> ustr \<Rightarrow> bool \<Rightarrow> identity \<Rightarrow> quota
   \<Rightarrow> (('k, 'l, 'u) gateway_world, gateway_response) proc" where
  \<comment> \<open>the end of \<open>proxy\<close>, once the quota is known\<close>
  "proxy_charged g rq path ingest i q =
     (case q of
        Refused response \<Rightarrow> returnE response
      | FailOpen \<Rightarrow> gateway_forward g rq path ingest i
      | Remaining n \<Rightarrow>
          bindE (gateway_forward g rq path ingest i) (\<lambda>response.
            returnE (response\<lparr>gr_headers := set_header ''x-ratelimit-remaining'' (str_int n) (gr_headers response)\<rparr>)))"

definition proxy ::
  "('k, 'l, 'u) gateway \<Rightarrow> incoming \<Rightarrow> ustr \<Rightarrow> bool \<Rightarrow> (('k, 'l, 'u) gateway_world, gateway_response) proc" where
  "proxy g rq path ingest =
     bindE (tryE (bindE (request_identity g rq) (\<lambda>i. returnE (Some i)))
              (\<lambda>e. if e = InvalidToken then returnE None else raiseE e)) (\<lambda>found.
     (case found of
        None \<Rightarrow> returnE unauthorized
      | Some i \<Rightarrow>
          if \<not> provisioned g i then returnE (error_reply 403 ''tenant_unavailable'' ''tenant is not provisioned'')
          else
            bindE (gateway_quota g i) (proxy_charged g rq path ingest i)))"

section \<open>Routes\<close>

datatype gateway_route =
    Health | Ready | Jwks | PostToIngest | DocumentById uuid | Documents int int | Usage | PostQuery
  | NoRoute nat \<comment> \<open>the status the framework refuses an unknown route or method with\<close>

definition gateway_ready :: "('k, 'l, 'u) gateway \<Rightarrow> (('k, 'l, 'u) gateway_world, gateway_response) proc" where
  \<comment> \<open>\<open>gather\<close> with the exceptions as results\<close>
  "gateway_ready g w =
     (case on_limiter (gw_limiter_ready g) w of (a, w1) \<Rightarrow>
     (case on_upstream (gw_ingest_ready g) w1 of (b, w2) \<Rightarrow>
     (case on_upstream (gw_query_ready g) w2 of (c, w3) \<Rightarrow>
        (Inr (if list_all (\<lambda>r. r = Inr True) [a, b, c] then json_response (jobj [(''status'', jstr ''ready'')]) 200
              else error_reply 503 ''not_ready'' ''dependencies unavailable''), w3))))"

definition gateway_route ::
  "(uuid \<Rightarrow> ustr) \<Rightarrow> ('k, 'l, 'u) gateway \<Rightarrow> gateway_route \<Rightarrow> incoming \<Rightarrow> (('k, 'l, 'u) gateway_world, gateway_response) proc" where
  \<comment> \<open>\<open>uuid_text\<close> is the canonical spelling\<close>
  "gateway_route uuid_text g route rq =
     (case route of
        Health \<Rightarrow> returnE (json_response (jobj [(''status'', jstr ''ok'')]) 200)
      | Ready \<Rightarrow> gateway_ready g
      | Jwks \<Rightarrow> liftE (case gw_jwks g of None \<Rightarrow> Inr (error_reply 404 ''not_found'' ''not found'') | Some j \<Rightarrow> json_reply j 200)
      | PostToIngest \<Rightarrow> proxy g rq (ascii ''/ingest'') True
      | DocumentById d \<Rightarrow> proxy g rq (ascii ''/documents/'' @ uuid_text d) True
      | Documents limit offset \<Rightarrow>
          (if \<not> (1 \<le> limit \<and> limit \<le> 100) \<or> offset < 0 then raiseE RequestValidationError
           else proxy g rq (ascii ''/documents?limit='' @ str_int limit @ ascii ''&offset='' @ str_int offset) True)
      | Usage \<Rightarrow> proxy g rq (ascii ''/usage'') False
      | PostQuery \<Rightarrow> proxy g rq (ascii ''/query'') False
      | NoRoute status \<Rightarrow> raiseE (HTTPException status []))"

definition handled_errors :: "exn \<Rightarrow> gateway_response result" where
  \<comment> \<open>the registered exception handlers\<close>
  "handled_errors e =
     (case e of
        RequestValidationError \<Rightarrow> Inr (error_reply 422 ''validation_error'' ''invalid request'')
      | HTTPException status detail \<Rightarrow> Inr (error_reply status ''http_error'' ''request rejected'')
      | _ \<Rightarrow> Inl e)"

section \<open>The production gateway\<close>

definition configured_jwks :: "'k jose \<Rightarrow> (bytes \<Rightarrow> json result) \<Rightarrow> bytes option \<Rightarrow> json option result" where
  \<comment> \<open>\<open>configure_runtime\<close>: the content of the file at \<open>dev_jwks_path\<close>\<close>
  "configured_jwks jo loads content =
     (case content of None \<Rightarrow> Inr None
      | Some text \<Rightarrow> bindR (loads text) (\<lambda>document. bindR (public_jwks jo document) (\<lambda>j. Inr (Some j))))"

definition production_gateway ::
  "gateway_settings \<Rightarrow> 'k jose \<Rightarrow> (bytes \<Rightarrow> json result) \<Rightarrow> (ustr \<Rightarrow> ustr) \<Rightarrow> 'h http_client \<Rightarrow> json option
   \<Rightarrow> ('k, redis_limiter, 'h) gateway" where
  "production_gateway s jo loads sha256 hc jwks =
     (let upstream = (\<lambda>url. http_exchange hc (ascii url) (max_upstream_response_bytes s))
      in \<lparr>gw_settings = s, gw_jose = jo, gw_loads = loads,
          gw_consume = redis_consume sha256 (rate_limit_rps s) (rate_limit_burst s), gw_limiter_ready = redis_ready,
          gw_ingest = upstream (ingest_url s), gw_ingest_ready = http_ready hc (ascii (ingest_url s)),
          gw_query = upstream (query_url s), gw_query_ready = http_ready hc (ascii (query_url s)), gw_jwks = jwks\<rparr>)"

section \<open>Response policies\<close>

datatype message = ResponseStart nat headers | ResponseBody gateway_body

type_synonym sent = "message list \<times> exn option" \<comment> \<open>what an application sends before it returns or raises\<close>

fun is_start :: "message \<Rightarrow> bool" where
  "is_start (ResponseStart status hs) = True"
| "is_start (ResponseBody b) = False"

definition respond :: "gateway_response \<Rightarrow> message list" where
  "respond r = [ResponseStart (gr_status r) (gr_headers r), ResponseBody (gr_body r)]"

definition replaced_failure :: "sent \<Rightarrow> sent" where
  \<comment> \<open>a failure becomes a response while none has started\<close>
  "replaced_failure = (\<lambda>(ms, failure).
     (case failure of
        None \<Rightarrow> (ms, None)
      | Some e \<Rightarrow>
          (if list_ex is_start ms then (ms, Some e)
           else (ms @ respond (error_reply 500 ''internal_error'' ''request failed''), None))))"

record cors =
  \<comment> \<open>\<open>CORSMiddleware\<close> for the allowed origins: the answer to a preflight request, the headers it adds\<close>
  co_preflight :: "ustr list \<Rightarrow> incoming \<Rightarrow> gateway_response option"
  co_headers :: "ustr list \<Rightarrow> incoming \<Rightarrow> headers \<Rightarrow> headers"

definition allowed_origins :: "('s) gateway_settings_scheme \<Rightarrow> ustr list" where
  "allowed_origins s =
     map (\<lambda>t. rstrip_slash (strip t)) (filter (\<lambda>t. strip t \<noteq> []) (split_on comma (ascii (cors_origins s))))"

lemma allowed_origins_explicit:
  assumes "explicit_origins parse (ascii (cors_origins s))" and "allowed \<in> set (allowed_origins s)"
  shows "\<exists>t u. allowed = rstrip_slash t \<and> parse t = Inr u \<and> explicit_origin u"
proof -
  obtain t where t: "t \<in> set (split_on comma (ascii (cors_origins s)))" "strip t \<noteq> []"
    and allowed: "allowed = rstrip_slash (strip t)"
    using assms(2) by (auto simp: allowed_origins_def)
  have "t \<noteq> []" using t(2) by (auto simp: strip_def)
  with t(1) assms(1) obtain u where "parse (strip t) = Inr u" "explicit_origin u"
    by (cases "parse (strip t)") (auto simp: explicit_origins_def list_all_iff)
  with allowed show ?thesis by blast
qed

fun with_headers :: "(headers \<Rightarrow> headers) \<Rightarrow> message \<Rightarrow> message" where
  "with_headers f (ResponseStart status hs) = ResponseStart status (f hs)"
| "with_headers f (ResponseBody b) = ResponseBody b"

definition cors_policy ::
  "cors \<Rightarrow> ('s) gateway_settings_scheme \<Rightarrow> incoming \<Rightarrow> ('w \<Rightarrow> sent \<times> 'w) \<Rightarrow> 'w \<Rightarrow> sent \<times> 'w" where
  \<comment> \<open>\<open>CorsPolicy\<close> around \<open>ErrorPolicy\<close>\<close>
  "cors_policy co s rq app w =
     (if cors_origins s = [] then (case app w of (out, w') \<Rightarrow> (replaced_failure out, w'))
      else
        (case co_preflight co (allowed_origins s) rq of
           Some response \<Rightarrow> ((respond response, None), w)
         | None \<Rightarrow>
             (case app w of (out, w') \<Rightarrow>
                (case replaced_failure out of (ms, failure) \<Rightarrow>
                   ((map (with_headers (co_headers co (allowed_origins s) rq)) ms, failure), w')))))"

definition policy_headers :: "ustr \<Rightarrow> headers \<Rightarrow> headers" where
  "policy_headers rid hs =
     set_header ''x-request-id'' rid
       (set_header ''x-content-type-options'' (ascii ''nosniff'')
         (set_header ''cache-control'' (ascii ''no-store'') hs))"

definition response_policy :: "incoming \<Rightarrow> ('w \<Rightarrow> sent \<times> 'w) \<Rightarrow> 'w \<Rightarrow> sent \<times> 'w" where
  \<comment> \<open>\<open>ResponsePolicy\<close> of an HTTP request\<close>
  "response_policy rq app w =
     (case app w of (out, w') \<Rightarrow>
        (case replaced_failure out of (ms, failure) \<Rightarrow>
           ((map (with_headers (policy_headers (request_id rq))) ms, failure), w')))"

definition routed ::
  "(uuid \<Rightarrow> ustr) \<Rightarrow> ('k, 'l, 'u) gateway \<Rightarrow> gateway_route \<Rightarrow> incoming \<Rightarrow> ('k, 'l, 'u) gateway_world
   \<Rightarrow> sent \<times> ('k, 'l, 'u) gateway_world" where
  "routed uuid_text g route rq w =
     (case tryE (gateway_route uuid_text g route rq) (\<lambda>e. liftE (handled_errors e)) w of
        (Inl e, w') \<Rightarrow> (([], Some e), w')
      | (Inr response, w') \<Rightarrow> ((respond response, None), w'))"

definition gateway_app ::
  "cors \<Rightarrow> (uuid \<Rightarrow> ustr) \<Rightarrow> ('k, 'l, 'u) gateway \<Rightarrow> gateway_route \<Rightarrow> incoming \<Rightarrow> ('k, 'l, 'u) gateway_world
   \<Rightarrow> sent \<times> ('k, 'l, 'u) gateway_world" where
  "gateway_app co uuid_text g route rq =
     response_policy rq (cors_policy co (gw_settings g) rq (routed uuid_text g route rq))"

end
