(* ===== verification/GatewayLaws.thy ===== *)
theory GatewayLaws
  imports Gateway
begin

text \<open>
  What the gateway guarantees: an upstream only ever receives requests of an authenticated,
  provisioned and admitted identity, with that identity in their headers and a bounded body;
  and every client gets one complete response with the policy headers.
\<close>

section \<open>Headers\<close>

lemma getlist_simps [simp]:
  "getlist n [] = []"
  "getlist n ((m, v) # hs) = (if m = n then v # getlist n hs else getlist n hs)"
  "getlist n (hs @ hs') = getlist n hs @ getlist n hs'"
  by (simp_all add: getlist_def)

lemma getlist_filter_in: "(\<And>v. P (n, v)) \<Longrightarrow> getlist n (filter P hs) = getlist n hs"
  by (induction hs) auto

lemma getlist_filter_out: "(\<And>v. \<not> P (n, v)) \<Longrightarrow> getlist n (filter P hs) = []"
  by (induction hs) auto

lemmas getlist_filter = getlist_filter_in getlist_filter_out

lemma getlist_set: "getlist n (set_header m v hs) = (if n = m then [v] else getlist n hs)"
proof (induction m v hs rule: set_header.induct)
  case (2 name v k w hs)
  then show ?case by (auto simp: getlist_filter)
qed simp

lemma getlist_none: "getlist n hs = [] \<longleftrightarrow> n \<notin> fst ` set hs"
  by (force simp: getlist_def filter_empty_conv)

section \<open>The contract of an upstream\<close>

definition delivered :: "bytes result list \<Rightarrow> bytes" where
  \<comment> \<open>the bytes a body yields before it raises\<close>
  "delivered body = concat (map (\<lambda>b. case b of Inl e \<Rightarrow> [] | Inr c \<Rightarrow> c) (takeWhile (\<lambda>b. \<not> isl b) body))"

definition carries_headers :: "headers \<Rightarrow> headers \<Rightarrow> headers \<Rightarrow> bool" where
  \<comment> \<open>the headers of the caller are sent as they are, others only from the client's defaults, never a cookie\<close>
  "carries_headers defaults hs sent \<longleftrightarrow> (\<forall>(n, v) \<in> set hs. getlist n sent = [v])
     \<and> (\<forall>(n, v) \<in> set sent. (n, v) \<in> set hs \<or> (n, v) \<in> set defaults) \<and> getlist ''cookie'' sent = []"

locale upstream =
  fixes exchange :: "'u exchange" and received :: "'u \<Rightarrow> (string \<times> ustr \<times> headers \<times> bytes) list"
    and address :: "ustr \<Rightarrow> ustr" and defaults :: headers
  assumes exchange_law: "exchange method path hs body timeout u = (r, u') \<Longrightarrow> distinct (map fst hs)
    \<Longrightarrow> getlist ''cookie'' hs = []
    \<Longrightarrow> received u' = received u
      \<or> (\<exists>sent. received u' = received u @ [(method, address path, sent, delivered body)]
           \<and> carries_headers defaults hs sent)"

definition fake_received :: "fake_upstream \<Rightarrow> (string \<times> ustr \<times> headers \<times> bytes) list" where
  "fake_received u = map (\<lambda>(method, path, hs, data, timeout). (method, path, hs, data)) (fu_requests u)"

lemma delivered_whole: "delivered (map Inr chunks) = concat chunks"
  by (simp add: delivered_def takeWhile_eq_all_conv [THEN iffD2] comp_def)

lemma getlist_distinct: "distinct (map fst hs) \<Longrightarrow> (n, v) \<in> set hs \<Longrightarrow> getlist n hs = [v]"
proof (induction hs)
  case (Cons h hs)
  obtain m w where h: "h = (m, w)" by fastforce
  with Cons show ?case by (cases "m = n") (auto simp: getlist_none image_iff)
qed simp

interpretation fake: upstream fake_exchange fake_received id "[]"
proof unfold_locales
  fix verb :: string and path hs body timeout u r u'
  assume run: "fake_exchange verb path hs body timeout u = (r, u')"
    and hs: "distinct (map fst hs)" "getlist ''cookie'' hs = []"
  then show "fake_received u' = fake_received u
      \<or> (\<exists>sent. fake_received u' = fake_received u @ [(verb, id path, sent, delivered body)] \<and> carries_headers [] hs sent)"
    by (auto simp: fake_exchange_def fake_received_def carries_headers_def join_body_spec delivered_whole
        getlist_distinct split: sum.splits)
qed

section \<open>A client that keeps what it sends\<close>

record scripted =
  sc_cookies :: "ustr list" \<comment> \<open>the jar of the shared client\<close>
  sc_reply :: "nat \<Rightarrow> http_response result"
  sc_sent :: "http_request list"
  sc_open :: nat \<comment> \<open>responses not closed\<close>

definition scripted_client :: "headers \<Rightarrow> scripted http_client" where
  \<comment> \<open>header values are ASCII; those of a request override the defaults; a body that raises ends the request\<close>
  "scripted_client defaults =
     \<lparr>hc_build = (\<lambda>method url timeout hs body h.
        if \<not> list_all (\<lambda>(n, v). list_all (\<lambda>c. c < 128) v) hs then Inl (ValueError ''ascii'')
        else Inr \<lparr>rq_method = method, rq_url = url,
          rq_headers = filter (\<lambda>h. fst h \<notin> fst ` set hs) defaults @ hs @ map (\<lambda>v. (''cookie'', v)) (sc_cookies h),
        rq_body = body, rq_timeout = timeout\<rparr>),
      hc_send = (\<lambda>rq h.
        let h' = h\<lparr>sc_sent := sc_sent h @ [rq]\<rparr>
        in case join_body (rq_body rq) of
             Inl e \<Rightarrow> (Inl e, h')
           | Inr data \<Rightarrow>
               (case sc_reply h (length (sc_sent h)) of
                  Inl e \<Rightarrow> (Inl e, h') | Inr response \<Rightarrow> (Inr response, h'\<lparr>sc_open := Suc (sc_open h)\<rparr>))),
      hc_close = (\<lambda>h. h\<lparr>sc_open := sc_open h - 1\<rparr>)\<rparr>"

definition client_received :: "scripted \<Rightarrow> (string \<times> ustr \<times> headers \<times> bytes) list" where
  "client_received h = map (\<lambda>rq. (rq_method rq, rq_url rq, rq_headers rq, delivered (rq_body rq))) (sc_sent h)"

definition sent_headers :: "headers \<Rightarrow> headers \<Rightarrow> headers" where
  "sent_headers defaults hs =
     filter (\<lambda>h. fst h \<noteq> ''cookie'') (filter (\<lambda>h. fst h \<notin> fst ` set hs) defaults @ hs)"

lemma sent_headers_carry:
  assumes "distinct (map fst hs)" and "getlist ''cookie'' hs = []"
  shows "carries_headers defaults hs (sent_headers defaults hs)"
proof -
  have "getlist n (sent_headers defaults hs) = [v]" if "(n, v) \<in> set hs" for n v
  proof -
    have "n \<in> fst ` set hs" using that by force
    moreover have "n \<noteq> ''cookie''" using that assms(2) by (force simp: getlist_none)
    ultimately show ?thesis
      using getlist_distinct [OF assms(1) that] by (simp add: sent_headers_def getlist_filter filter_append)
  qed
  then show ?thesis by (auto simp: carries_headers_def sent_headers_def getlist_filter)
qed

lemma stream_sent:
  assumes "http_stream (scripted_client defaults) method url timeout hs body inner h = (r, h')"
    and inner: "\<And>response k x k'. inner response k = (x, k') \<Longrightarrow> k' = k"
  shows "sc_open h' = sc_open h \<and> (sc_sent h' = sc_sent h \<or> sc_sent h' = sc_sent h @ [\<lparr>rq_method = method, rq_url = url,
      rq_headers = sent_headers defaults hs, rq_body = body, rq_timeout = timeout\<rparr>])"
proof -
  have cookies: "filter (\<lambda>h. fst h \<noteq> ''cookie'') (map (\<lambda>v. (''cookie'', v)) vs) = []" for vs :: "ustr list"
    by (simp add: filter_empty_conv)
  show ?thesis
    using assms(1)
    by (auto simp: http_stream_def scripted_client_def bindE_def finallyE_def Let_def sent_headers_def cookies
        split: sum.splits prod.splits if_splits dest!: inner)
qed

lemma http_exchange_sent:
  assumes "http_exchange (scripted_client defaults) url limit method path hs body timeout h = (r, h')"
  shows "sc_open h' = sc_open h \<and> (sc_sent h' = sc_sent h \<or> sc_sent h' = sc_sent h @ [\<lparr>rq_method = method,
      rq_url = rstrip_slash url @ path, rq_headers = sent_headers defaults hs, rq_body = body, rq_timeout = timeout\<rparr>])"
  using assms unfolding http_exchange_def
  by (rule stream_sent) (auto simp: Let_def returnE_def raiseE_def split: sum.splits if_splits)

interpretation internal: upstream "http_exchange (scripted_client defaults) url limit" client_received
  "\<lambda>path. rstrip_slash url @ path" defaults
proof unfold_locales
  fix verb :: string and path hs body timeout u r u'
  assume run: "http_exchange (scripted_client defaults) url limit verb path hs body timeout u = (r, u')"
    and hs: "distinct (map fst hs)" "getlist ''cookie'' hs = []"
  show "client_received u' = client_received u
      \<or> (\<exists>sent. client_received u' = client_received u @ [(verb, rstrip_slash url @ path, sent, delivered body)]
           \<and> carries_headers defaults hs sent)"
    using http_exchange_sent [OF run] sent_headers_carry [OF hs] by (auto simp: client_received_def)
qed

section \<open>Bodies and headers the gateway forwards\<close>

lemma limited_body_bound: "seen \<le> limit \<Longrightarrow> seen + length (delivered (limited_body limit seen blocks)) \<le> limit"
  by (induction limit seen blocks rule: limited_body.induct) (auto simp: delivered_def)

definition forwarded_names :: "string list" where
  "forwarded_names = [''content-type'', ''accept'', ''x-tenant-id'', ''x-user-id'', ''x-request-id'', ''accept-encoding'',
     ''traceparent'']"

definition header_values :: "incoming \<Rightarrow> identity \<Rightarrow> headers" where
  "header_values rq i = passed_header (in_headers rq) ''content-type'' @ passed_header (in_headers rq) ''accept'' @ [(''x-tenant-id'', id_tenant i), (''x-user-id'', id_user i),
       (''x-request-id'', request_id rq), (''accept-encoding'', ascii ''identity'')]
     @ (case in_trace rq of None \<Rightarrow> [] | Some t \<Rightarrow> [(''traceparent'', t)])"

lemma passed_header_names: "fst ` set (passed_header hs name) \<subseteq> {name}"
  and passed_header_distinct: "distinct (map fst (passed_header hs name))"
  by (auto simp: passed_header_def split: list.splits)

lemma forwarded_names_plain:
  "list_all (\<lambda>n. lower_name n \<notin> {''traceparent'', ''tracestate'', ''baggage''}) (butlast forwarded_names)"
  by code_simp

lemma forwarded_headers_eq: "forwarded_headers rq i = header_values rq i"
proof -
  define own where "own = passed_header (in_headers rq) ''content-type'' @ passed_header (in_headers rq) ''accept'' @ [(''x-tenant-id'', id_tenant i), (''x-user-id'', id_user i),
       (''x-request-id'', request_id rq), (''accept-encoding'', ascii ''identity'')]"
  have "fst ` set own \<subseteq> set (butlast forwarded_names)"
    using passed_header_names [of "in_headers rq" "''content-type''"] passed_header_names [of "in_headers rq" "''accept''"]
    unfolding own_def forwarded_names_def by fastforce
  with forwarded_names_plain have "filter (\<lambda>h. lower_name (fst h) \<notin> {''traceparent'', ''tracestate'', ''baggage''}) own = own"
    unfolding filter_id_conv list_all_iff by blast
  then have "inject_trace (in_trace rq) own = own @ (case in_trace rq of None \<Rightarrow> [] | Some t \<Rightarrow> [(''traceparent'', t)])"
    by (simp only: inject_trace_def Let_def) (simp split: option.split)
  moreover have "forwarded_headers rq i = inject_trace (in_trace rq) own"
    by (simp add: forwarded_headers_def own_def)
  moreover have "header_values rq i = own @ (case in_trace rq of None \<Rightarrow> [] | Some t \<Rightarrow> [(''traceparent'', t)])"
    by (simp add: header_values_def own_def)
  ultimately show ?thesis by simp
qed

lemma header_values_ok:
  "distinct (map fst (header_values rq i)) \<and> fst ` set (header_values rq i) \<subseteq> set forwarded_names
    \<and> {(''x-tenant-id'', id_tenant i), (''x-user-id'', id_user i), (''x-request-id'', request_id rq)}
        \<subseteq> set (header_values rq i)"
proof -
  let ?c = "passed_header (in_headers rq) ''content-type''" and ?a = "passed_header (in_headers rq) ''accept''"
  let ?t = "case in_trace rq of None \<Rightarrow> [] | Some t \<Rightarrow> [(''traceparent'', t)]"
  have n: "fst ` set ?c \<subseteq> {''content-type''}" "fst ` set ?a \<subseteq> {''accept''}" "fst ` set ?t \<subseteq> {''traceparent''}"
    by (rule passed_header_names)+ (cases "in_trace rq"; simp)
  have d: "distinct (map fst ?c)" "distinct (map fst ?a)" "distinct (map fst ?t)"
    by (rule passed_header_distinct)+ (cases "in_trace rq"; simp)
  have "fst ` set (header_values rq i) \<subseteq> set forwarded_names"
    using n unfolding header_values_def forwarded_names_def by fastforce
  moreover have "distinct (map fst (header_values rq i))"
    using n d unfolding header_values_def by fastforce
  moreover have "{(''x-tenant-id'', id_tenant i), (''x-user-id'', id_user i), (''x-request-id'', request_id rq)}
      \<subseteq> set (header_values rq i)"
    by (simp add: header_values_def)
  ultimately show ?thesis by blast
qed

definition verified_headers :: "headers \<Rightarrow> incoming \<Rightarrow> identity \<Rightarrow> headers \<Rightarrow> bool" where
  "verified_headers defaults rq i hs \<longleftrightarrow> getlist ''x-tenant-id'' hs = [id_tenant i] \<and> getlist ''x-user-id'' hs = [id_user i]
     \<and> getlist ''x-request-id'' hs = [request_id rq] \<and> getlist ''cookie'' hs = []
     \<and> (\<forall>(n, v) \<in> set hs. n \<in> set forwarded_names \<or> (n, v) \<in> set defaults)"

lemma verified_headersI:
  assumes "carries_headers defaults (header_values rq i) hs"
  shows "verified_headers defaults rq i hs"
proof -
  have c: "getlist n hs = [v]" if "(n, v) \<in> set (header_values rq i)" for n v
    using assms that unfolding carries_headers_def by blast
  have o: "n \<in> set forwarded_names \<or> (n, v) \<in> set defaults" if "(n, v) \<in> set hs" for n v
  proof -
    have "(n, v) \<in> set (header_values rq i) \<or> (n, v) \<in> set defaults"
      using assms that unfolding carries_headers_def by blast
    then show ?thesis using header_values_ok [of rq i] by force
  qed
  have m: "(''x-tenant-id'', id_tenant i) \<in> set (header_values rq i)" "(''x-user-id'', id_user i) \<in> set (header_values rq i)"
    "(''x-request-id'', request_id rq) \<in> set (header_values rq i)"
    by (simp_all add: header_values_def)
  have "getlist ''cookie'' hs = []" using assms unfolding carries_headers_def by blast
  moreover have "\<forall>(n, v) \<in> set hs. n \<in> set forwarded_names \<or> (n, v) \<in> set defaults" using o by fast
  ultimately show ?thesis unfolding verified_headers_def using c [OF m(1)] c [OF m(2)] c [OF m(3)] by simp
qed

context upstream
begin

lemma forward_received:
  assumes "exchange (in_method rq) path (forwarded_headers rq i) (limited_body limit 0 (in_stream rq)) timeout u = (r, u')"
  shows "received u' = received u
    \<or> (\<exists>hs data. received u' = received u @ [(in_method rq, address path, hs, data)]
         \<and> verified_headers defaults rq i hs \<and> length data \<le> limit)"
proof -
  note ok = header_values_ok [of rq i]
  have "getlist ''cookie'' (header_values rq i) = []"
    using ok by (auto simp: getlist_none forwarded_names_def)
  from exchange_law [OF assms [unfolded forwarded_headers_eq] conjunct1 [OF ok] this] show ?thesis
  proof
    assume "\<exists>sent. received u' = received u @ [(in_method rq, address path, sent, delivered (limited_body limit 0 (in_stream rq)))]
      \<and> carries_headers defaults (header_values rq i) sent"
    then obtain hs where hs: "received u' = received u @ [(in_method rq, address path, hs, delivered (limited_body limit 0 (in_stream rq)))]"
      "carries_headers defaults (header_values rq i) hs" by blast
    have "verified_headers defaults rq i hs" by (rule verified_headersI [OF hs(2)])
    with hs(1) limited_body_bound [of 0 limit "in_stream rq"] show ?thesis by auto
  qed simp
qed

end

end
