(* ===== verification/AuthLaws.thy ===== *)
theory AuthLaws
  imports Auth AnsweringLaws
begin

text \<open>
  What authentication guarantees: a validated key set holds only strong public keys with one
  identifier each, the cache holds the last valid key set fetched and forgets it in time, and
  the number of fetches is bounded by the clock, whatever tokens arrive.
\<close>

section \<open>Key sets\<close>

definition strong_key :: "'k jose \<Rightarrow> json list \<Rightarrow> ustr \<times> 'k \<Rightarrow> bool" where
  "strong_key jo items = (\<lambda>(kid, key). kid \<noteq> [] \<and> (\<exists>n. jo_rsa jo key = Some n \<and> 2048 \<le> n)
     \<and> (\<exists>item \<in> set items. usable item = Inr True \<and> jget item ''kid'' = Inr (Some (JStr kid))
          \<and> jget item ''d'' = Inr None \<and> jo_key jo item = Inr key))"

lemma add_key_spec:
  assumes "add_key jo item ks = Inr ks'" and "usable item = Inr True"
  shows "\<exists>kid key. ks' = ks @ [(kid, key)] \<and> kid \<notin> fst ` set ks \<and> strong_key jo [item] (kid, key)"
proof -
  obtain kid key d where k: "jget item ''kid'' = Inr kid" "jo_key jo item = Inr key" "jget item ''d'' = Inr d"
    and strong: "\<not> (case jo_rsa jo key of None \<Rightarrow> True | Some n \<Rightarrow> n < 2048)"
    and kid: "(case kid of
        Some (JStr k) \<Rightarrow> (if k = [] \<or> k \<in> fst ` set ks \<or> d \<noteq> None then Inl (ValueError ''Invalid key identifier'')
          else Inr (ks @ [(k, key)]))
      | _ \<Rightarrow> Inl (ValueError ''Invalid key identifier'')) = Inr ks'"
    using assms(1) unfolding add_key_def bindR_Inr by (auto simp only: bindR_Inr split: if_splits)
  obtain n where n: "jo_rsa jo key = Some n" "2048 \<le> n"
    using strong by (cases "jo_rsa jo key") (auto simp: not_less)
  obtain name where name: "kid = Some (JStr name)"
    using kid by (cases kid; cases "the kid") simp_all
  with kid have "name \<noteq> []" "name \<notin> fst ` set ks" "d = None" "ks' = ks @ [(name, key)]"
    by (simp_all split: if_splits)
  with n name k assms(2) show ?thesis by (auto simp: strong_key_def)
qed

lemma strong_key_mono: "strong_key jo items k \<Longrightarrow> set items \<subseteq> set items' \<Longrightarrow> strong_key jo items' k"
  by (fastforce simp: strong_key_def)

lemma collect_keys_spec:
  assumes "collect_keys jo items ks = Inr ks'" and "distinct (map fst ks)"
  shows "distinct (map fst ks') \<and> (\<exists>new. ks' = ks @ new \<and> list_all (strong_key jo items) new)"
  using assms
proof (induction items arbitrary: ks)
  case Nil
  then show ?case by simp
next
  case (Cons item items)
  obtain u where u: "usable item = Inr u" using Cons.prems(1) by (auto simp: bindR_Inr)
  show ?case
  proof (cases u)
    case False
    with Cons.prems u have "collect_keys jo items ks = Inr ks'" by (simp add: bindR_def)
    from Cons.IH [OF this Cons.prems(2)] show ?thesis
      by (fastforce simp: list_all_iff elim: strong_key_mono)
  next
    case True
    with Cons.prems u obtain ks1 where add: "add_key jo item ks = Inr ks1" and rest: "collect_keys jo items ks1 = Inr ks'"
      by (auto simp: bindR_def split: sum.splits)
    from add_key_spec [OF add] u True obtain k where
      k: "ks1 = ks @ [k]" "fst k \<notin> fst ` set ks" "strong_key jo [item] k" by fastforce
    have "distinct (map fst ks1)" using k Cons.prems(2) by simp
    from Cons.IH [OF rest this] obtain new where
      new: "distinct (map fst ks')" "ks' = ks1 @ new" "list_all (strong_key jo items) new" by blast
    have "list_all (strong_key jo (item # items)) (k # new)"
      using k(3) new(3) by (fastforce simp: list_all_iff elim: strong_key_mono)
    with new k(1) show ?thesis by auto
  qed
qed

lemma mapR_Inr: "mapR f xs = Inr ys \<Longrightarrow> list_all2 (\<lambda>x y. f x = Inr y) xs ys"
  by (induction xs arbitrary: ys) (auto simp: bindR_Inr)

lemma signing_keys_spec:
  assumes "signing_keys jo document = Inr ks"
  shows "\<exists>keys items. jitem document ''keys'' = Inr keys \<and> jiter keys = Inr items \<and> ks \<noteq> []
    \<and> distinct (map fst ks) \<and> list_all (strong_key jo items) ks"
  using assms collect_keys_spec [of jo _ "[]" ks]
  by (fastforce simp: signing_keys_def bindR_Inr split: if_splits)

section \<open>The cache\<close>

definition valid_fetch :: "'k jose \<Rightarrow> 'k authenticator \<Rightarrow> nat \<Rightarrow> (ustr \<times> 'k) list \<Rightarrow> bool" where
  "valid_fetch jo a n ks \<longleftrightarrow> (\<exists>document. au_source a n = Inr document \<and> signing_keys jo document = Inr ks)"

definition latest_keys :: "'k jose \<Rightarrow> 'k authenticator \<Rightarrow> nat \<Rightarrow> (ustr \<times> 'k) list \<Rightarrow> bool" where
  \<comment> \<open>the last valid key set among the fetches made, and which fetch it was\<close>
  "latest_keys jo a n ks \<longleftrightarrow> n < au_fetches a \<and> valid_fetch jo a n ks
     \<and> (\<forall>n' ks'. n < n' \<and> n' < au_fetches a \<longrightarrow> \<not> valid_fetch jo a n' ks')"

definition cache_ok :: "'k jose \<Rightarrow> ('s) gateway_settings_scheme \<Rightarrow> 'k authenticator \<Rightarrow> bool" where
  "cache_ok jo s a \<longleftrightarrow> au_expires a = None \<and> au_keys a = []
     \<or> (\<exists>n m. latest_keys jo a n (au_keys a) \<and> m < au_ticks a
          \<and> au_expires a = Some (au_clock a m + jwks_cache_seconds s))"

definition fetches_ok :: "('s) gateway_settings_scheme \<Rightarrow> 'k authenticator \<Rightarrow> bool" where
  \<comment> \<open>the refresh deadline paces the fetches\<close>
  "fetches_ok s a \<longleftrightarrow>
     (case au_next_refresh a of
        None \<Rightarrow> au_fetches a = 0
      | Some t \<Rightarrow> (\<exists>m < au_ticks a. t = au_clock a m + jwks_refresh_seconds s)
          \<and> au_clock a 0 + real (au_fetches a) * jwks_refresh_seconds s \<le> t)"

definition auth_ok :: "'k jose \<Rightarrow> ('s) gateway_settings_scheme \<Rightarrow> (nat \<Rightarrow> real) \<Rightarrow> (nat \<Rightarrow> json result) \<Rightarrow> 'k authenticator \<Rightarrow> bool" where
  "auth_ok jo s clk src a \<longleftrightarrow> au_clock a = clk \<and> au_source a = src \<and> cache_ok jo s a \<and> fetches_ok s a"

lemma new_authenticator_ok: "auth_ok jo s clk src (new_authenticator clk src)"
  by (simp add: auth_ok_def cache_ok_def fetches_ok_def new_authenticator_def)

lemma tick_ok: "auth_ok jo s clk src a \<Longrightarrow> auth_ok jo s clk src (a\<lparr>au_ticks := Suc (au_ticks a)\<rparr>)"
  by (auto simp: auth_ok_def cache_ok_def fetches_ok_def latest_keys_def valid_fetch_def less_Suc_eq split: option.splits)

lemma fetches_ok_later:
  assumes "fetches_ok s a" and "au_clock b = au_clock a" and "au_next_refresh b = au_next_refresh a"
    and "au_fetches b = au_fetches a" and "au_ticks a \<le> au_ticks b"
  shows "fetches_ok s b"
proof (cases "au_next_refresh a")
  case None
  with assms show ?thesis by (simp add: fetches_ok_def)
next
  case (Some t)
  with assms(1) obtain m where "m < au_ticks a" "t = au_clock a m + jwks_refresh_seconds s"
    by (auto simp: fetches_ok_def)
  moreover from this(1) have "m < au_ticks b" using assms(5) by simp
  ultimately show ?thesis using assms(1-4) Some by (auto simp: fetches_ok_def)
qed

lemma refresh_ok:
  assumes "auth_ok jo s clk src a" and "mono clk" and "m < au_ticks a" and "now = clk m"
    and "reached now (au_next_refresh a)" and "refresh_keys jo s now a = (r, a')"
  shows "auth_ok jo s clk src a' \<and> au_ticks a \<le> au_ticks a'"
proof -
  define b where "b = a\<lparr>au_next_refresh := Some (now + jwks_refresh_seconds s), au_fetches := Suc (au_fetches a)\<rparr>"
  have a: "au_clock a = clk" "au_source a = src" "cache_ok jo s a" "fetches_ok s a"
    using assms(1) by (simp_all add: auth_ok_def)
  have first: "clk 0 \<le> clk m" using assms(2) by (simp add: monoD)
  have paced: "fetches_ok s b"
    using a assms(3-5) first
    by (auto simp: fetches_ok_def b_def reached_def algebra_simps split: option.splits)
  have run: "(r, a') = (case au_source a (au_fetches a) of
      Inl e \<Rightarrow> (Inl e, b)
    | Inr document \<Rightarrow>
        (case signing_keys jo document of
           Inl e \<Rightarrow> (Inl e, b)
         | Inr ks \<Rightarrow> (Inr (), b\<lparr>au_keys := ks, au_ticks := Suc (au_ticks b),
             au_expires := Some (au_clock b (au_ticks b) + jwks_cache_seconds s)\<rparr>)))"
    using assms(6) by (auto simp: refresh_keys_def fetch_keys_def read_clock_def effect_defs b_def split: sum.splits)
  show ?thesis
  proof (cases "\<exists>ks. valid_fetch jo a (au_fetches a) ks")
    case False
    with run have a': "a' = b" by (auto simp: valid_fetch_def split: sum.splits)
    have "cache_ok jo s b"
      using a(3) False by (auto simp: cache_ok_def latest_keys_def valid_fetch_def b_def less_Suc_eq)
    with a' a paced show ?thesis by (simp add: auth_ok_def b_def)
  next
    case True
    then obtain document ks where doc: "au_source a (au_fetches a) = Inr document" "signing_keys jo document = Inr ks"
      by (auto simp: valid_fetch_def)
    with run have a': "a' = b\<lparr>au_keys := ks, au_ticks := Suc (au_ticks b),
        au_expires := Some (au_clock b (au_ticks b) + jwks_cache_seconds s)\<rparr>" by simp
    have "latest_keys jo a' (au_fetches a) ks"
      using doc by (auto simp: a' b_def latest_keys_def valid_fetch_def less_Suc_eq)
    then have "cache_ok jo s a'" by (auto simp: cache_ok_def a' b_def)
    moreover have "fetches_ok s a'" by (rule fetches_ok_later [OF paced]) (simp_all add: a')
    ultimately show ?thesis using a by (simp add: auth_ok_def a' b_def)
  qed
qed

lemma signing_key_ok:
  assumes "auth_ok jo s clk src a" and "mono clk" and "signing_key jo s kid a = (r, a')"
  shows "auth_ok jo s clk src a'
    \<and> (\<forall>key. r = Inr key \<longrightarrow> map_of (au_keys a') kid = Some key \<and> 0 < au_ticks a'
        \<and> \<not> reached (clk (au_ticks a' - 1)) (au_expires a'))"
proof -
  define a1 where "a1 = a\<lparr>au_ticks := Suc (au_ticks a)\<rparr>"
  let ?now = "clk (au_ticks a)"
  have clk: "au_clock a = clk" using assms(1) by (simp add: auth_ok_def)
  have ok1: "auth_ok jo s clk src a1" using tick_ok [OF assms(1)] by (simp add: a1_def)
  let ?c = "(map_of (au_keys a) kid = None \<or> reached ?now (au_expires a)) \<and> reached ?now (au_next_refresh a)"
  obtain r2 a2 where step: "(if ?c then refresh_keys jo s ?now a1 else (Inr (), a1)) = (r2, a2)" by fastforce
  have ok2: "auth_ok jo s clk src a2"
  proof (cases ?c)
    case True
    with step have "refresh_keys jo s ?now a1 = (r2, a2)" by simp
    from refresh_ok [OF ok1 assms(2) _ refl _ this] True show ?thesis by (simp add: a1_def)
  next
    case False
    with step ok1 show ?thesis by simp
  qed
  define a3 where "a3 = a2\<lparr>au_ticks := Suc (au_ticks a2)\<rparr>"
  have clk2: "au_clock a2 = clk" using ok2 by (simp add: auth_ok_def)
  have run: "(r, a') = (case r2 of Inl e \<Rightarrow> (Inl e, a2) | Inr _ \<Rightarrow>
      (if reached (clk (au_ticks a2)) (au_expires a2) then (Inl InvalidToken, a3)
       else (case map_of (au_keys a2) kid of None \<Rightarrow> (Inl InvalidToken, a3) | Some key \<Rightarrow> (Inr key, a3))))"
  proof -
    have "signing_key jo s kid a = (case (if ?c then refresh_keys jo s ?now a1 else (Inr (), a1)) of
        (Inl e, a2) \<Rightarrow> (Inl e, a2)
      | (Inr _, a2) \<Rightarrow> (let a3 = a2\<lparr>au_ticks := Suc (au_ticks a2)\<rparr> in
          if reached (au_clock a2 (au_ticks a2)) (au_expires a3) then (Inl InvalidToken, a3)
          else (case map_of (au_keys a3) kid of None \<Rightarrow> (Inl InvalidToken, a3) | Some key \<Rightarrow> (Inr key, a3))))"
      by (simp add: signing_key_def read_clock_def bindE_def thenE_def returnE_def a1_def clk Let_def split: sum.split prod.split)
    then show ?thesis unfolding assms(3) step by (cases r2) (auto simp: a3_def clk2 Let_def split: option.split)
  qed
  have "auth_ok jo s clk src a3" using tick_ok [OF ok2] by (simp add: a3_def)
  with run ok2 show ?thesis by (auto simp: a3_def split: sum.splits if_splits option.splits)
qed

lemma verify_token_ok:
  assumes "auth_ok jo s clk src a" and "mono clk" and "verify_token jo s now authorization a = (r, a')"
  shows "auth_ok jo s clk src a'
    \<and> (\<forall>i. r = Inr i \<longrightarrow> (\<exists>scheme token kid key claims. split_words authorization = [scheme, token] \<and> length token \<le> 16384
          \<and> map_of (au_keys a') kid = Some key \<and> 0 < au_ticks a' \<and> \<not> reached (clk (au_ticks a' - 1)) (au_expires a')
          \<and> jo_decode jo now token key (claims_checks s) = Inr claims \<and> claimed_identity claims = Inr i))"
proof (cases "\<exists>scheme token header kid. split_words authorization = [scheme, token] \<and> map lower_ascii scheme = ascii ''bearer''
    \<and> length token \<le> 16384 \<and> jo_header jo token = Inr header \<and> token_kid header = Inr kid")
  case False
  with assms(3) have "a' = a \<and> isl r"
    by (auto simp: verify_token_def effect_defs split: list.splits sum.splits if_splits)
  with assms(1) show ?thesis by auto
next
  case True
  then obtain scheme token header kid where t: "split_words authorization = [scheme, token]"
    "map lower_ascii scheme = ascii ''bearer''" "length token \<le> 16384" "jo_header jo token = Inr header" "token_kid header = Inr kid"
    by blast
  obtain k a1 where key: "signing_key jo s kid a = (k, a1)" by fastforce
  note ok = signing_key_ok [OF assms(1,2) key]
  have "(r, a') = (case k of Inl e \<Rightarrow> (Inl e, a1) | Inr key \<Rightarrow>
      (case jo_decode jo now token key (claims_checks s) of Inl e \<Rightarrow> (Inl e, a1) | Inr claims \<Rightarrow> (claimed_identity claims, a1)))"
    using assms(3) t key by (auto simp: verify_token_def liftE_def bindE_def split: sum.splits)
  with ok t show ?thesis by (auto split: sum.splits)
qed

lemma authenticate_cases:
  assumes "authenticate jo s now authorization a = (r, a')"
  shows "\<exists>r0. verify_token jo s now authorization a = (r0, a')
    \<and> r = (case r0 of Inl e \<Rightarrow> Inl (if fails_closed e then InvalidToken else e) | Inr i \<Rightarrow> Inr i)"
  using assms by (auto simp: authenticate_def tryE_def raiseE_def split: prod.splits sum.splits if_splits)

lemma claimed_identity_spec:
  assumes "claimed_identity claims = Inr i"
  shows "jitem claims ''tenant'' = Inr (JStr (id_tenant i)) \<and> jitem claims ''sub'' = Inr (JStr (id_user i))
    \<and> valid_tenant (id_tenant i) \<and> 1 \<le> length (id_user i) \<and> length (id_user i) \<le> 256
    \<and> list_all user_char (id_user i)"
proof -
  obtain tenant sub where c: "jitem claims ''tenant'' = Inr tenant" "jitem claims ''sub'' = Inr sub"
    and str: "is_str tenant" "is_str sub"
    and new: "(case (tenant, sub) of (JStr t, JStr u) \<Rightarrow> new_identity t u | _ \<Rightarrow> Inl InvalidToken) = Inr i"
    using assms unfolding claimed_identity_def bindR_Inr by (auto simp only: bindR_Inr sum.distinct split: if_splits)
  obtain t u where "tenant = JStr t" "sub = JStr u" using str by (auto simp: is_str_def split: json.splits)
  with c new show ?thesis by (auto simp: new_identity_def split: if_splits)
qed

lemma minted_claims_identify:
  "new_identity tenant user = Inr i \<Longrightarrow> claimed_identity (mint_claims s i now ttl) = Inr i"
  by (auto simp: claimed_identity_def mint_claims_def jitem_def ascii_def bindR_def is_str_def is_int_def new_identity_def
      split: if_splits)

fun auth_run ::
  "'k jose \<Rightarrow> ('s) gateway_settings_scheme \<Rightarrow> (real \<times> ustr) list \<Rightarrow> 'k authenticator
   \<Rightarrow> identity result list \<times> 'k authenticator" where
  \<comment> \<open>a history of requests: the wall clock and the authorization header of each\<close>
  "auth_run jo s [] a = ([], a)"
| "auth_run jo s ((now, authorization) # rs) a =
     (case authenticate jo s now authorization a of (r, a1) \<Rightarrow>
        (case auth_run jo s rs a1 of (xs, a2) \<Rightarrow> (r # xs, a2)))"

lemma authenticate_ok:
  "auth_ok jo s clk src a \<Longrightarrow> mono clk \<Longrightarrow> authenticate jo s now authorization a = (r, a') \<Longrightarrow> auth_ok jo s clk src a'"
  using authenticate_cases verify_token_ok by blast

lemma auth_run_ok:
  "auth_ok jo s clk src a \<Longrightarrow> mono clk \<Longrightarrow> auth_run jo s rs a = (xs, a') \<Longrightarrow> auth_ok jo s clk src a'"
proof (induction rs arbitrary: a xs)
  case (Cons r rs)
  then show ?case by (cases r) (auto split: prod.splits dest: authenticate_ok)
qed simp

lemma authenticated_identity:
  assumes "auth_ok jo s clk src a" and "mono clk" and "authenticate jo s now authorization a = (Inr i, a')"
  shows "\<exists>scheme token kid key claims ks items n m. split_words authorization = [scheme, token] \<and> length token \<le> 16384
    \<and> jo_decode jo now token key (claims_checks s) = Inr claims \<and> claimed_identity claims = Inr i
    \<and> latest_keys jo a' n ks \<and> (kid, key) \<in> set ks \<and> strong_key jo items (kid, key)
    \<and> m < au_ticks a' \<and> clk (au_ticks a' - 1) < clk m + jwks_cache_seconds s"
proof -
  obtain scheme token kid key claims where t: "split_words authorization = [scheme, token]" "length token \<le> 16384"
      "map_of (au_keys a') kid = Some key" "\<not> reached (clk (au_ticks a' - 1)) (au_expires a')"
      "jo_decode jo now token key (claims_checks s) = Inr claims" "claimed_identity claims = Inr i"
    and ok: "auth_ok jo s clk src a'"
    using authenticate_cases [OF assms(3)] verify_token_ok [OF assms(1,2)] by (fastforce split: sum.splits)
  have clk: "au_clock a' = clk" and cache: "cache_ok jo s a'" using ok by (simp_all add: auth_ok_def)
  from cache t(3) obtain n m where c: "latest_keys jo a' n (au_keys a')" "m < au_ticks a'"
      "au_expires a' = Some (clk m + jwks_cache_seconds s)"
    by (auto simp: cache_ok_def clk)
  have key: "(kid, key) \<in> set (au_keys a')" using t(3) by (rule map_of_SomeD)
  from c(1) obtain document where "signing_keys jo document = Inr (au_keys a')"
    by (auto simp: latest_keys_def valid_fetch_def)
  from signing_keys_spec [OF this] key obtain items where "strong_key jo items (kid, key)"
    by (fastforce simp: list_all_iff)
  with t c key show ?thesis by (fastforce simp: reached_def)
qed

section \<open>Properties\<close>

definition demo_document :: json where
  \<comment> \<open>a key for another algorithm, and the one that signs\<close>
  "demo_document = jobj [(''keys'', JList
     [jobj [(''kty'', jstr ''EC''), (''kid'', jstr ''e'')], jobj [(''kty'', jstr ''RSA''), (''kid'', jstr ''k'')]])]"

definition demo_jose :: "nat jose" where
  \<comment> \<open>one key, and a token \<open>t\<close> it signed that expires at 100\<close>
  "demo_jose = \<lparr>jo_key = (\<lambda>item. Inr 7), jo_rsa = (\<lambda>k. if k = 7 then Some 2048 else None),
     jo_jwk = (\<lambda>k. jobj [(''kty'', jstr ''RSA''), (''n'', jstr ''m''), (''e'', jstr ''AQAB''), (''use'', jstr ''sig'')]),
     jo_header = (\<lambda>t. Inr (jobj [(''alg'', jstr ''RS256''), (''kid'', jstr ''k'')])),
     jo_decode = (\<lambda>now t k cc. if t = ascii ''t'' \<and> k = 7 \<and> now < 100
       then Inr (jobj [(''sub'', jstr ''alice''), (''tenant'', jstr ''acme''), (''exp'', JInt 100), (''iat'', JInt 0)])
       else Inl PyJWTError)\<rparr>"

definition demo_source :: "nat \<Rightarrow> json result" where
  \<comment> \<open>the first fetch fails\<close>
  "demo_source n = (if n = 0 then Inl TransportError else Inr demo_document)"

definition demo_time :: "nat \<Rightarrow> real" where
  "demo_time n = 6 * real n"

lemma demo_time_mono: "mono demo_time"
  by (simp add: demo_time_def mono_def)



text \<open>
  C39: tokens do not amplify traffic to the identity provider. Over any history of requests,
  with any key identifiers and any outcomes of the fetches, the gateway fetches the key set at
  most once per refresh interval.
\<close>

theorem key_fetches_are_bounded:
  assumes "mono clk" and "0 < jwks_refresh_seconds s"
    and "auth_run jo s rs (new_authenticator clk src) = (xs, a)"
  shows "real (au_fetches a) \<le> 1 + (clk (au_ticks a - 1) - clk 0) / jwks_refresh_seconds s"
proof -
  let ?d = "jwks_refresh_seconds s"
  have ok: "au_clock a = clk" "fetches_ok s a"
    using auth_run_ok [OF new_authenticator_ok assms(1,3)] by (simp_all add: auth_ok_def)
  have first: "clk 0 \<le> clk m" for m using assms(1) by (simp add: monoD)
  show ?thesis
  proof (cases "au_next_refresh a")
    case None
    with ok first [of "au_ticks a - 1"] assms(2) show ?thesis by (simp add: fetches_ok_def)
  next
    case (Some t)
    with ok obtain m where m: "m < au_ticks a" "clk 0 + real (au_fetches a) * ?d \<le> clk m + ?d"
      by (auto simp: fetches_ok_def)
    then have "clk m \<le> clk (au_ticks a - 1)" using assms(1) by (simp add: monoD)
    with m(2) have "(real (au_fetches a) - 1) * ?d \<le> clk (au_ticks a - 1) - clk 0" by (simp add: algebra_simps)
    then have "real (au_fetches a) - 1 \<le> (clk (au_ticks a - 1) - clk 0) / ?d"
      using assms(2) by (simp add: pos_le_divide_eq)
    then show ?thesis by simp
  qed
qed

lemma key_fetches_are_bounded_witness:
  "\<exists>xs a. auth_run demo_jose default_gateway [(0, ascii ''Bearer t''), (1, ascii ''Bearer t''), (2, ascii ''Bearer u'')]
      (new_authenticator demo_time demo_source) = (xs, a)
    \<and> au_fetches a = 2 \<and> real (au_fetches a) \<le> 1 + (demo_time (au_ticks a - 1) - demo_time 0) / 5"
proof -
  let ?r = "auth_run demo_jose default_gateway [(0, ascii ''Bearer t''), (1, ascii ''Bearer t''), (2, ascii ''Bearer u'')]
      (new_authenticator demo_time demo_source)"
  obtain xs a where r: "?r = (xs, a)" by fastforce
  have "au_fetches (snd ?r) = 2" by code_simp
  then have two: "au_fetches a = 2" unfolding r by simp
  have five: "jwks_refresh_seconds default_gateway = 5" by (simp add: default_gateway_def)
  then have "0 < jwks_refresh_seconds default_gateway" by simp
  from key_fetches_are_bounded [OF demo_time_mono this r] two
  have "au_fetches a = 2 \<and> real (au_fetches a) \<le> 1 + (demo_time (au_ticks a - 1) - demo_time 0) / 5"
    unfolding five by blast
  with r show ?thesis by blast
qed

text \<open>
  C40: only public RSA parameters are published. A key set that validates has at least one key,
  distinct non-empty identifiers, and every key comes from an item of the document that is an
  RS256 verification key without a private exponent; the document served is a list of objects
  with exactly the type, the modulus, the exponent and the identifier of those keys, in order.
\<close>

theorem published_keys_are_public:
  assumes "public_jwks jo document = Inr published"
  shows "\<exists>ks items. signing_keys jo document = Inr ks \<and> ks \<noteq> [] \<and> distinct (map fst ks) \<and> list_all (strong_key jo items) ks
    \<and> bindR (jitem document ''keys'') jiter = Inr items
    \<and> (\<exists>views. published = jobj [(''keys'', JList views)]
        \<and> list_all2 (\<lambda>(kid, key) view. \<exists>kty n e.
              view = jobj [(''kty'', kty), (''n'', n), (''e'', e), (''kid'', JStr kid)]
            \<and> jitem (jo_jwk jo key) ''kty'' = Inr kty \<and> jitem (jo_jwk jo key) ''n'' = Inr n
            \<and> jitem (jo_jwk jo key) ''e'' = Inr e) ks views)"
proof -
  obtain ks views where k: "signing_keys jo document = Inr ks" and v: "mapR (public_key jo) ks = Inr views"
    and p: "published = jobj [(''keys'', JList views)]"
    using assms by (auto simp: public_jwks_def bindR_Inr)
  have "list_all2 (\<lambda>k view. public_key jo k = Inr view) ks views" using v by (rule mapR_Inr)
  then have "list_all2 (\<lambda>(kid, key) view. \<exists>kty n e.
              view = jobj [(''kty'', kty), (''n'', n), (''e'', e), (''kid'', JStr kid)]
            \<and> jitem (jo_jwk jo key) ''kty'' = Inr kty \<and> jitem (jo_jwk jo key) ''n'' = Inr n
            \<and> jitem (jo_jwk jo key) ''e'' = Inr e) ks views"
    by (rule list_all2_mono) (auto simp: public_key_def bindR_Inr)
  with signing_keys_spec [OF k] k p show ?thesis by (fastforce simp: bindR_def)
qed

lemma published_keys_are_public_witness:
  "\<exists>published ks. public_jwks demo_jose demo_document = Inr published \<and> signing_keys demo_jose demo_document = Inr ks
    \<and> map fst ks = [ascii ''k''] \<and> distinct (map fst ks)"
proof -
  have run: "public_jwks demo_jose demo_document = Inr (jobj [(''keys'', JList [jobj [(''kty'', jstr ''RSA''),
      (''n'', jstr ''m''), (''e'', jstr ''AQAB''), (''kid'', jstr ''k'')]])])" by code_simp
  have "signing_keys demo_jose demo_document = Inr [(ascii ''k'', 7)]" by code_simp
  with published_keys_are_public [OF run] run show ?thesis by auto
qed

end
