(* ===== verification/GatewayGuarantees.thy ===== *)
theory GatewayGuarantees
  imports GatewayLaws AuthLaws
begin

text \<open>
  The properties of the gateway in production: the Redis limiter and two internal services
  behind one HTTP client.
\<close>

section \<open>What is forwarded\<close>

definition admits :: "('k, 'l, 'u) gateway \<Rightarrow> identity \<Rightarrow> 'l \<Rightarrow> 'l \<Rightarrow> bool" where
  "admits g i l l' \<longleftrightarrow> (\<exists>d. gw_consume g i l = (Inr d, l') \<and> rd_allowed d)
     \<or> gw_consume g i l = (Inl BackendUnavailable, l') \<and> rate_limit_fail_open (gw_settings g)"

definition one_forwarded :: "gateway_settings \<Rightarrow> headers \<Rightarrow> incoming \<Rightarrow> identity \<Rightarrow> scripted \<Rightarrow> scripted \<Rightarrow> bool" where
  \<comment> \<open>one request of the identity went to an internal service\<close>
  "one_forwarded s defaults rq i h h' \<longleftrightarrow> (\<exists>url path hs data. url \<in> {ingest_url s, query_url s}
     \<and> client_received h' = client_received h @ [(in_method rq, rstrip_slash (ascii url) @ path, hs, data)]
     \<and> verified_headers defaults rq i hs \<and> length data \<le> max_upload_bytes s)"

abbreviation production :: "gateway_settings \<Rightarrow> 'k jose \<Rightarrow> (bytes \<Rightarrow> json result) \<Rightarrow> (ustr \<Rightarrow> ustr) \<Rightarrow> headers
  \<Rightarrow> json option \<Rightarrow> ('k, redis_limiter, scripted) gateway" where
  "production s jo loads sha256 defaults jwks \<equiv> production_gateway s jo loads sha256 (scripted_client defaults) jwks"

lemma production_simps:
  "gw_settings (production s jo loads sha256 defaults jwks) = s"
  "gw_jose (production s jo loads sha256 defaults jwks) = jo"
  "gw_consume (production s jo loads sha256 defaults jwks) = redis_consume sha256 (rate_limit_rps s) (rate_limit_burst s)"
  "gw_ingest (production s jo loads sha256 defaults jwks)
     = http_exchange (scripted_client defaults) (ascii (ingest_url s)) (max_upstream_response_bytes s)"
  "gw_query (production s jo loads sha256 defaults jwks)
     = http_exchange (scripted_client defaults) (ascii (query_url s)) (max_upstream_response_bytes s)"
  by (simp_all add: production_gateway_def Let_def)

lemma forward_sends:
  assumes "gateway_forward (production s jo loads sha256 defaults jwks) rq path ingest i w = (r, w')"
  shows "gs_auth w' = gs_auth w \<and> gs_limiter w' = gs_limiter w
    \<and> (client_received (gs_upstream w') = client_received (gs_upstream w)
       \<or> one_forwarded s defaults rq i (gs_upstream w) (gs_upstream w'))"
proof (cases "check_length (in_headers rq) (max_upload_bytes s)")
  case (Inl e)
  with assms have "w' = w"
    by (simp add: gateway_forward_def Let_def production_simps effect_defs)
  then show ?thesis by simp
next
  case (Inr u)
  let ?url = "if ingest then ingest_url s else query_url s"
  obtain x h where call: "http_exchange (scripted_client defaults) (ascii ?url) (max_upstream_response_bytes s) (in_method rq) path
      (forwarded_headers rq i) (limited_body (max_upload_bytes s) 0 (in_stream rq))
      (upstream_timeout_seconds s * (if ingest then 4 else 1)) (gs_upstream w) = (x, h)" by fastforce
  have "w' = w\<lparr>gs_upstream := h\<rparr>"
    using assms Inr call
    by (cases ingest) (auto simp: gateway_forward_def Let_def production_simps effect_defs on_upstream_def split: sum.splits)
  moreover have "client_received h = client_received (gs_upstream w) \<or> one_forwarded s defaults rq i (gs_upstream w) h"
    using internal.forward_received [OF call] unfolding one_forwarded_def by (cases ingest) force+
  ultimately show ?thesis by simp
qed

lemma proxy_sends:
  fixes s jo loads sha256 defaults jwks
  defines "g \<equiv> production s jo loads sha256 defaults jwks"
  assumes "proxy g rq path ingest w = (r, w')"
  shows "client_received (gs_upstream w') = client_received (gs_upstream w)
    \<or> (\<exists>authorization i. getlist ''authorization'' (in_headers rq) = [authorization]
         \<and> authenticate jo s (in_now rq) authorization (gs_auth w) = (Inr i, gs_auth w') \<and> provisioned g i
         \<and> admits g i (gs_limiter w) (gs_limiter w') \<and> one_forwarded s defaults rq i (gs_upstream w) (gs_upstream w'))"
proof (cases "\<exists>authorization i a. getlist ''authorization'' (in_headers rq) = [authorization]
    \<and> authenticate jo s (in_now rq) authorization (gs_auth w) = (Inr i, a) \<and> provisioned g i")
  case False
  with assms have "gs_upstream w' = gs_upstream w"
    by (auto simp: proxy_def request_identity_def on_auth_def effect_defs production_simps
        split: list.splits sum.splits prod.splits if_splits)
  then show ?thesis by simp
next
  case True
  then obtain authorization i a where auth: "getlist ''authorization'' (in_headers rq) = [authorization]"
    "authenticate jo s (in_now rq) authorization (gs_auth w) = (Inr i, a)" "provisioned g i" by blast
  have g: "gw_settings g = s" "gw_jose g = jo" by (simp_all add: g_def production_simps)
  obtain d l where consume: "gw_consume g i (gs_limiter w) = (d, l)" by fastforce
  define w1 where "w1 = w\<lparr>gs_auth := a, gs_limiter := l\<rparr>"
  obtain y w2 where fwd: "gateway_forward g rq path ingest i w1 = (y, w2)" by fastforce
  have run: "(r, w') = (case gateway_quota g i (w\<lparr>gs_auth := a\<rparr>) of
      (Inl e, v) \<Rightarrow> (Inl e, v)
    | (Inr q, v) \<Rightarrow> proxy_charged g rq path ingest i q v)"
    unfolding assms(2) [symmetric] using auth
    by (simp add: proxy_def request_identity_def on_auth_def bindE_def tryE_def returnE_def g)
  have quota: "snd (gateway_quota g i (w\<lparr>gs_auth := a\<rparr>)) = w1"
    by (simp add: gateway_quota_def on_limiter_def consume effect_defs w1_def split: sum.split)
  have up: "gs_upstream w1 = gs_upstream w" "gs_limiter w1 = l" "gs_auth w1 = a" by (simp_all add: w1_def)
  show ?thesis
  proof (cases "admits g i (gs_limiter w) l")
    case False
    then have "w' = w1"
      using run consume quota
      by (auto simp: gateway_quota_def on_limiter_def effect_defs proxy_charged_def admits_def w1_def split: sum.splits if_splits)
    then show ?thesis using up by simp
  next
    case True
    have "w' = w2"
      using run consume quota True fwd
      by (auto simp: gateway_quota_def on_limiter_def effect_defs proxy_charged_def admits_def w1_def split: sum.splits if_splits)
    with forward_sends [OF fwd [unfolded g_def]] up True auth show ?thesis by auto
  qed
qed

section \<open>Every client is answered\<close>

definition public_reply :: "nat \<Rightarrow> gateway_body \<Rightarrow> bool" where
  \<comment> \<open>a success, or an error object with a short code and a bounded message\<close>
  "public_reply status body \<longleftrightarrow> 200 \<le> status \<and> status < 300
     \<or> (case body of JsonBody j \<Rightarrow> public_payload j = Inr True | RawBody b \<Rightarrow> False)"

definition public_response :: "gateway_response \<Rightarrow> bool" where
  "public_response r \<longleftrightarrow> public_reply (gr_status r) (gr_body r)"

definition short_text :: "string \<Rightarrow> string \<Rightarrow> bool" where
  "short_text code message \<longleftrightarrow> public_code (ascii code) \<and> length message \<le> 1024"

lemma error_reply_public:
  assumes "short_text code message"
  shows "public_response (error_reply status code message)"
proof -
  have names: "ascii ''code'' \<noteq> ascii ''message''" by code_simp
  have "set [ascii ''code'', ascii ''message''] = set (map fst [(ascii ''code'', jstr code), (ascii ''message'', jstr message)])"
    by simp
  with assms names show ?thesis
    by (simp add: public_response_def public_reply_def error_reply_def json_response_def public_payload_def jobj_def
        jitem_def set_is_def bindR_def jstr_def short_text_def ascii_def)
qed

lemma public_headers [simp]: "public_response (r\<lparr>gr_headers := hs\<rparr>) = public_response r"
  by (simp add: public_response_def)

lemma public_success: "200 \<le> status \<Longrightarrow> status < 300 \<Longrightarrow> public_response (json_response j status)"
  by (simp add: public_response_def public_reply_def json_response_def)

lemma short_texts:
  "short_text ''upstream_timeout'' ''upstream timed out''"
  "short_text ''bad_gateway'' ''upstream request failed''"
  "short_text ''rate_limited'' ''request rate exceeded''"
  "short_text ''rate_limit_unavailable'' ''rate limiter unavailable''"
  "short_text ''payload_too_large'' ''request body too large''"
  "short_text ''invalid_request'' ''invalid request body''"
  "short_text ''unauthorized'' ''invalid token''"
  "short_text ''tenant_unavailable'' ''tenant is not provisioned''"
  "short_text ''not_ready'' ''dependencies unavailable''"
  "short_text ''not_found'' ''not found''"
  "short_text ''validation_error'' ''invalid request''"
  "short_text ''http_error'' ''request rejected''"
  "short_text ''internal_error'' ''request failed''"
  by code_simp+

lemmas public_errors = short_texts [THEN error_reply_public]

definition answers :: "('w, gateway_response) proc \<Rightarrow> bool" where
  \<comment> \<open>every response the call returns is public\<close>
  "answers m \<longleftrightarrow> (\<forall>w r w'. m w = (Inr r, w') \<longrightarrow> public_response r)"

lemma answers_basic:
  "public_response r \<Longrightarrow> answers (returnE r)"
  "answers (raiseE e)"
  "(\<And>r. x = Inr r \<Longrightarrow> public_response r) \<Longrightarrow> answers (liftE x)"
  "(\<And>a. answers (f a)) \<Longrightarrow> answers (bindE m f)"
  "answers n \<Longrightarrow> answers (thenE m0 n)"
  "answers m1 \<Longrightarrow> (\<And>e. answers (h e)) \<Longrightarrow> answers (tryE m1 h)"
  by (auto simp: answers_def effect_defs split: prod.splits sum.splits)

lemma upstream_response_public: "upstream_response loads reply = Inr r \<Longrightarrow> public_response r"
proof -
  assume run: "upstream_response loads reply = Inr r"
  have failure: "public_response (gateway_failure n)" for n
    by (simp add: gateway_failure_def public_errors)
  show ?thesis
  proof (cases "200 \<le> ur_status reply \<and> ur_status reply < 300")
    case True
    with run show ?thesis by (auto simp: upstream_response_def public_response_def public_reply_def split: if_splits)
  next
    case False
    consider "r = gateway_failure (ur_status reply)"
      | content where "public_payload content = Inr True" "json_reply content (ur_status reply) = Inr r"
      using run False
      by (auto simp: upstream_response_def bindR_Inr split: if_splits sum.splits option.splits)
    then show ?thesis
    proof cases
      case 1
      with failure show ?thesis by simp
    next
      case 2
      then show ?thesis
        by (auto simp: json_reply_def public_response_def public_reply_def json_response_def split: if_splits)
    qed
  qed
qed

lemma forward_failure_public: "forward_failure e = Inr r \<Longrightarrow> public_response r"
  by (auto simp: forward_failure_def public_errors split: if_splits)

lemma forward_public: "answers (gateway_forward g rq path ingest i)"
  unfolding gateway_forward_def Let_def
  by (intro answers_basic upstream_response_public forward_failure_public)

lemma quota_public: "gateway_quota g i w = (Inr (Refused r), w') \<Longrightarrow> public_response r"
  by (auto simp: gateway_quota_def rate_limited_def effect_defs public_errors Let_def
      split: prod.splits sum.splits if_splits)

lemma charged_public:
  assumes "gateway_quota g i w = (Inr q, v)" and "proxy_charged g rq path ingest i q v = (Inr r, w')"
  shows "public_response r"
proof (cases q)
  case (Refused response)
  with assms show ?thesis by (auto simp: proxy_charged_def returnE_def dest: quota_public)
next
  case FailOpen
  with assms(2) have "gateway_forward g rq path ingest i v = (Inr r, w')" by (simp add: proxy_charged_def)
  with forward_public show ?thesis unfolding answers_def by blast
next
  case (Remaining n)
  with assms(2) obtain a where "gateway_forward g rq path ingest i v = (Inr a, w')"
    "r = a\<lparr>gr_headers := set_header ''x-ratelimit-remaining'' (str_int n) (gr_headers a)\<rparr>"
    by (auto simp: proxy_charged_def bindE_Inr returnE_def)
  with forward_public [of g rq path ingest i] show ?thesis by (auto simp: answers_def)
qed

lemma proxy_public: "answers (proxy g rq path ingest)"
proof -
  have "answers (bindE (gateway_quota g i) (proxy_charged g rq path ingest i))" for i
    using charged_public unfolding answers_def bindE_Inr by blast
  then show ?thesis
    unfolding proxy_def
    by (intro answers_basic allI) (auto intro!: answers_basic simp: unauthorized_def Let_def public_errors split: option.split)
qed

lemma route_public: "answers (tryE (gateway_route uuid_text g route rq) (\<lambda>e. liftE (handled_errors e)))"
proof (rule answers_basic)
  have ready: "answers (gateway_ready g)"
    by (auto simp: answers_def gateway_ready_def public_errors public_success split: prod.splits if_splits)
  show "answers (gateway_route uuid_text g route rq)"
    by (cases route) (auto simp: gateway_route_def proxy_public ready public_errors public_success json_reply_def
        intro!: answers_basic split: option.splits if_splits)
  show "answers (liftE (handled_errors e))" for e
    by (rule answers_basic) (auto simp: handled_errors_def public_errors split: exn.splits)
qed

lemma routed_public:
  assumes "routed uuid_text g route rq w = (sent, w')"
  shows "\<exists>response. replaced_failure sent = (respond response, None) \<and> public_response response"
proof -
  obtain x v where run: "tryE (gateway_route uuid_text g route rq) (\<lambda>e. liftE (handled_errors e)) w = (x, v)" by fastforce
  show ?thesis
  proof (cases x)
    case (Inl e)
    with assms run have "replaced_failure sent = (respond (error_reply 500 ''internal_error'' ''request failed''), None)"
      by (auto simp: routed_def replaced_failure_def)
    with public_errors show ?thesis by blast
  next
    case (Inr response)
    with assms run have "replaced_failure sent = (respond response, None)"
      by (auto simp: routed_def replaced_failure_def)
    moreover have "public_response response"
      using route_public run Inr unfolding answers_def by blast
    ultimately show ?thesis by blast
  qed
qed

section \<open>Properties\<close>

definition demo_settings :: gateway_settings where
  "demo_settings = default_gateway\<lparr>tenants := ascii ''acme,demo'', max_upload_bytes := 4, max_upstream_response_bytes := 9\<rparr>"

definition demo_gateway :: "(nat, redis_limiter, scripted) gateway" where
  "demo_gateway = production demo_settings demo_jose (\<lambda>b. Inl (ValueError [])) id [(''user-agent'', ascii ''httpx'')] None"

definition demo_gateway_world :: "(nat, redis_limiter, scripted) gateway_world" where
  \<comment> \<open>fresh caches, and a cookie in the client's jar\<close>
  "demo_gateway_world = \<lparr>gs_auth = new_authenticator demo_time (\<lambda>n. Inr demo_document),
     gs_limiter = new_limiter (\<lambda>n. True) demo_clock,
     gs_upstream = \<lparr>sc_cookies = [ascii ''s=1''], sc_reply = (\<lambda>n. Inr \<lparr>hr_status = 200, hr_content_type = None,
       hr_blocks = [Inr [123, 125]]\<rparr>), sc_sent = [], sc_open = 0\<rparr>\<rparr>"

definition demo_incoming :: incoming where
  \<comment> \<open>a valid token, and a tenant header the client made up\<close>
  "demo_incoming = \<lparr>in_method = ''POST'', in_headers = [(''authorization'', ascii ''Bearer t''),
     (''x-tenant-id'', ascii ''other''), (''content-type'', ascii ''text'')],
     in_stream = [Inr [1, 2], Inr [3]], in_now = 5, in_trace = None, in_fresh_id = ascii ''id''\<rparr>"

definition demo_cors :: cors where
  "demo_cors = \<lparr>co_preflight = (\<lambda>os rq. None), co_headers = (\<lambda>os rq hs. hs)\<rparr>"





end
