(* ===== verification/Provenance.thy ===== *)
theory Provenance
  imports QueryLaws RelayGuarantees IngestLaws
begin

text \<open>
  The four services together. A platform is the database, the streams and the object store they
  share; a step is a request to ingest, some polls of a relay, some rounds of a worker, or
  anything the environment does outside the database. The theory shows where an answer comes
  from: through every history, with any failures, any content of the streams and an object
  store that may return anything, the passages of an answer are slices of pages extracted from
  bytes whose digest is that of a file the same tenant uploaded.
\<close>

section \<open>Tables rooted in uploads\<close>

definition keys_of :: "doc_row list \<Rightarrow> (uuid \<times> ustr \<times> ustr) set" where
  "keys_of docs = (\<lambda>r. (sd_id r, sd_tenant r, sd_sha256 r)) ` set docs"

definition rooted_rows ::
  "(document \<Rightarrow> bool) \<Rightarrow> (document \<Rightarrow> 'a list) \<Rightarrow> (uuid \<times> ustr \<times> ustr) set \<Rightarrow> 'a child_row list \<Rightarrow> bool" where
  \<comment> \<open>every row is an item of a genuine document with the digest of the row it belongs to\<close>
  "rooted_rows genuine items keys rows \<longleftrightarrow> (\<forall>c \<in> set rows. \<exists>doc. genuine doc
     \<and> (cd_document c, cd_tenant c, xd_sha256 doc) \<in> keys \<and> cd_item c \<in> set (items doc))"

definition rooted :: "(ustr \<Rightarrow> ustr \<Rightarrow> bool) \<Rightarrow> (document \<Rightarrow> bool) \<Rightarrow> db \<Rightarrow> bool" where
  \<comment> \<open>\<open>known t h\<close>: tenant \<open>t\<close> uploaded a file with digest \<open>h\<close>\<close>
  "rooted known genuine d \<longleftrightarrow> (\<forall>(i, t, h) \<in> keys_of (db_docs d). known t h)
     \<and> rooted_rows genuine dc_chunks (keys_of (db_docs d)) (db_chunks d)
     \<and> rooted_rows genuine dc_entities (keys_of (db_docs d)) (db_entities d)"

definition sound_db :: "repository \<Rightarrow> (ustr \<Rightarrow> ustr \<Rightarrow> bool) \<Rightarrow> (document \<Rightarrow> bool) \<Rightarrow> db \<Rightarrow> bool" where
  "sound_db rp known genuine d \<longleftrightarrow> db_ok (rp_dimension rp) (rp_uuid5 rp) d \<and> rooted known genuine d"

lemma keys_of_ident: "keys_of docs = (\<lambda>(i, t, h, rest). (i, t, h)) ` set (map ident docs)"
  by (simp add: keys_of_def ident_def image_image)

lemma keys_of_same: "map ident docs' = map ident docs \<Longrightarrow> keys_of docs' = keys_of docs"
  by (simp only: keys_of_ident)

lemma keys_of_append [simp]:
  "keys_of (docs @ [r]) = insert (sd_id r, sd_tenant r, sd_sha256 r) (keys_of docs)"
  by (auto simp: keys_of_def)

lemma rooted_rows_mono:
  "rooted_rows genuine items keys rows \<Longrightarrow> keys \<subseteq> keys' \<Longrightarrow> rooted_rows genuine items keys' rows"
  unfolding rooted_rows_def by blast

lemma sound_db_mono:
  "sound_db rp known genuine d \<Longrightarrow> (\<And>t h. known t h \<Longrightarrow> known' t h) \<Longrightarrow> sound_db rp known' genuine d"
  unfolding sound_db_def rooted_def by blast

lemma empty_db_sound: "sound_db rp known genuine empty_db"
  by (simp add: sound_db_def empty_db_ok rooted_def rooted_rows_def keys_of_def) (simp add: empty_db_def)

lemma replaced_rooted:
  assumes "replace_rows uuid5 table (Some t) t i (items doc) rows = Inr rows'"
    and "rooted_rows genuine items keys rows" and "genuine doc" and "(i, t, xd_sha256 doc) \<in> keys"
  shows "rooted_rows genuine items keys rows'"
proof -
  have "c \<in> set rows \<or> cd_document c = i \<and> cd_tenant c = t \<and> cd_item c \<in> set (items doc)" if "c \<in> set rows'" for c
    using that replace_rows_spec(1) [OF assms(1)] child_rows_member [of c uuid5 table t i "items doc"]
    by (auto simp: other_rows_def)
  with assms(2-4) show ?thesis unfolding rooted_rows_def by metis
qed

lemma upsert_sound:
  assumes sound: "sound_db rp known genuine d"
    and run: "upsert_document (rp_dimension rp) (rp_uuid5 rp) new now clk t filename doc d = (r, d')"
    and "known t (xd_sha256 doc)" and "genuine doc"
  shows "sound_db rp known genuine d'"
proof (cases r)
  case (Inl e)
  with run sound show ?thesis by (auto dest: upsert_error)
next
  case (Inr sd)
  have ok: "db_ok (rp_dimension rp) (rp_uuid5 rp) d" using sound by (simp add: sound_db_def)
  from run [unfolded Inr] db_ok_docsD [OF ok] show ?thesis
  proof (cases rule: upsert_cases)
    case (1 rc x docs cs es)
    note fields = prepare_fields [OF 1(1)]
    let ?K = "keys_of (db_docs d)" and ?K' = "keys_of docs"
    have keys: "?K' = ?K \<or> ?K' = insert (sd_id x, t, xd_sha256 doc) ?K"
      using 1(11)
    proof
      assume "\<not> list_ex (same_key x) (db_docs d) \<and> x = upsert_row rc clk
        \<and> new \<notin> set (map sd_id (db_docs d)) \<and> docs = db_docs d @ [x]"
      then have "docs = db_docs d @ [x]" by blast
      with 1(9,10) show ?thesis by simp
    next
      assume "\<exists>r0 \<in> set (db_docs d). same_key x r0 \<and> x = upsert_set rc clk r0
        \<and> docs = map (\<lambda>y. if same_key x y then upsert_set rc clk y else y) (db_docs d)"
      then have docs: "docs = map (\<lambda>y. if same_key x y then upsert_set rc clk y else y) (db_docs d)" by blast
      have "map ident docs = map ident (db_docs d)" unfolding docs by (rule map_ident) simp
      from keys_of_same [OF this] show ?thesis by (rule disjI1)
    qed
    then have sub: "?K \<subseteq> ?K'" by blast
    have mem: "(sd_id x, t, xd_sha256 doc) \<in> ?K'" using 1(8-10) by (force simp: keys_of_def)
    have roots: "\<forall>(i, u, h) \<in> ?K. known u h" "rooted_rows genuine dc_chunks ?K (db_chunks d)"
      "rooted_rows genuine dc_entities ?K (db_entities d)"
      using sound by (simp_all add: sound_db_def rooted_def)
    have "rooted_rows genuine dc_chunks ?K' cs"
    proof (rule replaced_rooted)
      show "replace_rows (rp_uuid5 rp) ''chunks'' (Some t) t (sd_id x) (dc_chunks doc) (db_chunks d) = Inr cs"
        using 1(4) fields(5) by simp
      show "rooted_rows genuine dc_chunks ?K' (db_chunks d)" by (rule rooted_rows_mono [OF roots(2) sub])
    qed (use assms mem in auto)
    moreover have "rooted_rows genuine dc_entities ?K' es"
    proof (rule replaced_rooted)
      show "replace_rows (rp_uuid5 rp) ''entities'' (Some t) t (sd_id x) (dc_entities doc) (db_entities d) = Inr es"
        using 1(5) fields(6) by simp
      show "rooted_rows genuine dc_entities ?K' (db_entities d)" by (rule rooted_rows_mono [OF roots(3) sub])
    qed (use assms mem in auto)
    moreover have "\<forall>(i, u, h) \<in> ?K'. known u h" using keys
    proof
      assume "?K' = ?K"
      with roots(1) show ?thesis by simp
    next
      assume "?K' = insert (sd_id x, t, xd_sha256 doc) ?K"
      with roots(1) assms(3) show ?thesis by simp
    qed
    ultimately have "rooted known genuine d'" using 1(6) by (simp add: rooted_def)
    with upsert_keeps [OF ok run [unfolded Inr]] show ?thesis by (simp add: sound_db_def)
  qed
qed

lemma mark_sound:
  assumes sound: "sound_db rp known genuine d" and run: "mark_status t i st err d = (r, d')"
  shows "sound_db rp known genuine d'"
proof -
  have ok: "db_ok (rp_dimension rp) (rp_uuid5 rp) d" using sound by (simp add: sound_db_def)
  from run have "d' = d \<or> d' = d\<lparr>db_docs := map (\<lambda>r. if sd_tenant r = t \<and> sd_id r = i
      then r\<lparr>sd_status := st, sd_error := (if st = ''failed'' then err else None)\<rparr> else r) (db_docs d)\<rparr>"
    by (auto simp: mark_status_eq [OF db_ok_docsD [OF ok]] split: if_splits)
  moreover have "keys_of (map (\<lambda>r. if sd_tenant r = t \<and> sd_id r = i
      then r\<lparr>sd_status := st, sd_error := (if st = ''failed'' then err else None)\<rparr> else r) docs) = keys_of docs" for docs
    by (rule keys_of_same) (simp add: map_ident ident_def)
  ultimately have "rooted known genuine d'" using sound by (auto simp: sound_db_def rooted_def)
  with mark_status_keeps [OF ok run] show ?thesis by (simp add: sound_db_def)
qed

lemma register_row_shape:
  assumes "register_row event_id trace row d = (r, d')"
  shows "d' = d \<or> (\<exists>q. d' = d\<lparr>db_docs := db_docs d @ [row], db_outbox := db_outbox d @ [q]\<rparr>)"
  using assms by (auto simp: register_row_eq split: if_splits)

lemma register_sound:
  assumes sound: "sound_db rp known genuine d" and known: "known t sha"
    and run: "register_upload new event_id now trace t filename sha media n key d = (r, d')"
  shows "sound_db rp known genuine d'"
proof -
  have ok: "db_ok (rp_dimension rp) (rp_uuid5 rp) d" using sound by (simp add: sound_db_def)
  have ok': "db_ok (rp_dimension rp) (rp_uuid5 rp) d'"
    using register_keeps [OF ok run [unfolded register_upload_def]] by simp
  have "d' = d \<or> (\<exists>row q. sd_tenant row = t \<and> sd_sha256 row = sha
      \<and> d' = d\<lparr>db_docs := db_docs d @ [row], db_outbox := db_outbox d @ [q]\<rparr>)"
    using register_row_shape [OF run [unfolded register_upload_def]] by (auto intro!: exI)
  moreover have "rooted known genuine (d\<lparr>db_docs := db_docs d @ [row], db_outbox := out\<rparr>)"
    if "sd_tenant row = t" "sd_sha256 row = sha" for row out
    using sound known that by (auto simp: sound_db_def rooted_def intro: rooted_rows_mono)
  ultimately show ?thesis using sound ok' by (auto simp: sound_db_def)
qed

lemma one_or_none_mem: "one_or_none xs = Inr (Some x) \<Longrightarrow> x \<in> set xs"
  by (cases xs rule: one_or_none.cases) simp_all

lemma get_sound:
  assumes "sound_db rp known genuine d" and "get_document t i d = (Inr (Some x), d')"
  shows "known t (sd_sha256 x)"
proof -
  obtain s where "reader_get_document t i (in_tenant t d) = (Inr (Some x), s)"
    using assms(2) by (auto simp: get_document_def snapshot_tenant prod_eq_iff)
  then obtain r where "r \<in> set (db_docs d)" "sd_tenant r = t" "sd_sha256 x = sd_sha256 r"
    by (auto simp: reader_get_document_def bindE_def liftE_def readE_def returnE_def
        split: sum.splits option.splits prod.splits dest!: one_or_none_mem)
  with assms(1) show ?thesis by (force simp: sound_db_def rooted_def keys_of_def)
qed

section \<open>Services that keep the tables sound\<close>

text \<open>
  All the worker needs for provenance: no call but an upsert can hurt the state, an upsert of a
  genuine document for an uploaded digest does not, and what is read was uploaded.
\<close>

locale traced_services =
  fixes sv :: "'e services" and good :: "'e \<Rightarrow> bool" and known :: "ustr \<Rightarrow> ustr \<Rightarrow> bool"
    and genuine :: "document \<Rightarrow> bool"
  assumes create_keeps: "keeps good (sv_xgroup_create sv s g)"
    and read_keeps: "keeps good (sv_xreadgroup sv s g c n ms)"
    and ack_keeps: "keeps good (sv_xack sv s g i)"
    and add_keeps: "keeps good (sv_xadd sv s fs)"
    and claim_keeps: "keeps good (sv_xautoclaim sv s g c ms start n)"
    and pending_keeps: "keeps good (sv_xpending sv s g i)"
    and heartbeat_keeps: "keeps good (sv_heartbeat sv c)"
    and get_keeps: "keeps good (sv_get_document sv t d)"
    and mark_keeps: "keeps good (sv_mark_status sv t d st err)"
    and object_keeps: "keeps good (sv_object_get sv key)"
    and clock_keeps: "keeps good (sv_clock sv)"
    and wait_keeps: "keeps good (sv_wait sv secs)"
    and upsert_keeps: "known t (xd_sha256 doc) \<Longrightarrow> genuine doc \<Longrightarrow> keeps good (sv_upsert_document sv t fn doc)"
    and get_known: "good e \<Longrightarrow> sv_get_document sv t d e = (Inr (Some x), e') \<Longrightarrow> known t (sd_sha256 x)"
begin

lemmas calls_keep = create_keeps read_keeps ack_keeps add_keeps claim_keeps pending_keeps heartbeat_keeps
  get_keeps mark_keeps object_keeps clock_keeps wait_keeps

lemma download_keeps: "keeps good (download_object sv sha ev)"
  using object_keeps [of "ev_key ev"] by (auto simp: keeps_def download_object_def split: prod.split)

definition authentic :: "('i, 'a) worker_config \<Rightarrow> bool" where
  \<comment> \<open>what the pipeline of this worker produces is genuine\<close>
  "authentic cfg \<longleftrightarrow> (\<forall>content doc. pipeline_document (wf_pipeline cfg) (wf_settings cfg) content = Inr doc \<longrightarrow> genuine doc)"

lemma index_keeps:
  assumes "authentic cfg" and "xr_sha256 (pl_extractors (wf_pipeline cfg)) content = h" and "known t h"
  shows "keeps good (pipeline_index (wf_pipeline cfg) (wf_settings cfg) name content t (sv_upsert_document sv) fn)"
proof (cases "pipeline_document (wf_pipeline cfg) (wf_settings cfg) content")
  case (Inl e)
  then show ?thesis by (simp add: pipeline_index_def keeps_def bindE_def liftE_def)
next
  case (Inr doc)
  then have "keeps good (sv_upsert_document sv t name' doc)" for name'
    using assms pipeline_document_ok [OF Inr] by (intro upsert_keeps) (auto simp: authentic_def)
  with Inr show ?thesis by (simp add: pipeline_index_def keeps_def bindE_def liftE_def)
qed

lemma process_keeps:
  assumes "authentic cfg" and known: "known (ev_tenant ev) (ev_sha256 ev)"
  shows "keeps good (process_document sv cfg ev d)"
proof -
  let ?sha = "xr_sha256 (pl_extractors (wf_pipeline cfg))"
  let ?rest = "\<lambda>content. thenE (pipeline_index (wf_pipeline cfg) (wf_settings cfg) (ascii ''original'') content
             (ev_tenant ev) (sv_upsert_document sv) (Some (sd_filename d)))
           (sv_mark_status sv (ev_tenant ev) (ev_document ev) ''processed'' None)"
  have rest: "keeps good (?rest content)" if "?sha content = ev_sha256 ev" for content
    by (intro keeps_then index_keeps [OF assms(1) that known] mark_keeps)
  have "good (snd (bindE (download_object sv ?sha ev) ?rest e))" if e: "good e" for e
  proof -
    obtain r e1 where dl: "download_object sv ?sha ev e = (r, e1)" by fastforce
    have e1: "good e1" by (rule keepsD [OF download_keeps dl e])
    show ?thesis
    proof (cases r)
      case (Inl x)
      with dl e1 show ?thesis by (simp add: bindE_def)
    next
      case (Inr content)
      have "?sha content = ev_sha256 ev"
        using dl Inr by (auto simp: download_object_def dest: download_ok split: prod.splits)
      with dl Inr e1 rest show ?thesis by (simp add: bindE_def keeps_def)
    qed
  qed
  then have "keeps good (bindE (download_object sv ?sha ev) ?rest)" by (simp add: keeps_def)
  then show ?thesis unfolding process_document_def by (intro keeps_then mark_keeps)
qed

lemma dead_letter_keeps: "keeps good (dead_letter sv cfg msg err n)"
  unfolding dead_letter_def by (intro keeps_then calls_keep)

lemma fail_keeps: "keeps good (fail sv cfg msg ev err n)"
  unfolding fail_def by (intro keeps_then calls_keep dead_letter_keeps)

lemma lookup_known:
  assumes "good e" and "lookup_document sv ev e = (r, e')"
  shows "good e' \<and> (\<forall>d. r = Inr d \<longrightarrow> known (ev_tenant ev) (ev_sha256 ev))"
proof -
  obtain x e1 where g: "sv_get_document sv (ev_tenant ev) (ev_document ev) e = (x, e1)" by fastforce
  have e1: "good e1" by (rule keepsD [OF get_keeps g assms(1)])
  have "known (ev_tenant ev) (sd_sha256 d)" if "x = Inr (Some d)" for d
    using get_known [OF assms(1) g [unfolded that]] .
  with e1 g assms(2) show ?thesis
    by (auto simp: lookup_document_def bindE_def raiseE_def returnE_def split: sum.splits option.splits if_splits)
qed

lemma valid_keeps:
  assumes "authentic cfg"
  shows "keeps good (handle_valid sv cfg msg ev n)"
  unfolding keeps_def
proof (intro allI impI)
  fix e assume e: "good e"
  obtain r e1 where lk: "lookup_document sv ev e = (r, e1)" by fastforce
  note L = lookup_known [OF e lk]
  have step: "good (snd (m e1))" if "keeps good m" for m :: "('e, unit) proc"
    using that L by (simp add: keeps_def)
  show "good (snd (handle_valid sv cfg msg ev n e))"
  proof (cases r)
    case (Inl x)
    with lk L step [OF dead_letter_keeps [where cfg = cfg]] show ?thesis by (simp add: handle_valid_def)
  next
    case (Inr d)
    obtain y e2 where p: "process_document sv cfg ev d e1 = (y, e2)" by fastforce
    have "keeps good (process_document sv cfg ev d)"
      using process_keeps [OF assms] L Inr by blast
    from keepsD [OF this p] L have e2: "good e2" by blast
    have later: "good (snd (m e2))" if "keeps good m" for m :: "('e, unit) proc"
      using that e2 by (simp add: keeps_def)
    show ?thesis
      using Inr lk p e2 step [OF ack_keeps] step [OF fail_keeps [where cfg = cfg]]
        later [OF ack_keeps] later [OF fail_keeps [where cfg = cfg]]
      by (cases y) (simp_all add: handle_valid_def)
  qed
qed

lemma handle_keeps:
  assumes "authentic cfg"
  shows "keeps good (handle sv cfg msg)"
proof -
  have "keeps good (if n = 0 then returnE ()
       else (case worker_event (wf_codec cfg) (sm_fields msg) of
            Inl e \<Rightarrow> dead_letter sv cfg msg (ascii ''ValidationError: invalid event'') n
          | Inr ev \<Rightarrow> tryE (handle_valid sv cfg msg ev n) (\<lambda>e. if transient e then returnE () else raiseE e)))" for n
    by (cases "worker_event (wf_codec cfg) (sm_fields msg)")
      (auto intro!: keeps_return keeps_raise dead_letter_keeps keeps_try valid_keeps [OF assms])
  then show ?thesis unfolding handle_def by (intro keeps_bind calls_keep)
qed

lemma handle_all_keeps: "authentic cfg \<Longrightarrow> keeps good (handle_all sv cfg msgs)"
proof (induction msgs)
  case Nil
  show ?case by (simp add: keeps_def)
next
  case (Cons msg msgs)
  then have "keeps good (thenE (sv_heartbeat sv (wf_consumer cfg)) (thenE (handle sv cfg msg) (handle_all sv cfg msgs)))"
    by (intro keeps_then calls_keep handle_keeps) simp_all
  then show ?case by (simp add: keeps_def)
qed

abbreviation safe :: "'e worker \<Rightarrow> bool" where
  "safe wk \<equiv> good (wk_env wk)"

lemma call_safe: "keeps good m \<Longrightarrow> keeps safe (callE m)"
  by (force simp: keeps_def callE_def split: prod.split)

lemma write_safe: "(\<And>wk. wk_env (f wk) = wk_env wk) \<Longrightarrow> keeps safe (writeE f)"
  by (rule keeps_write) simp

lemma fetch_safe: "keeps safe (fetch sv cfg)"
proof -
  have "keeps safe (reclaim sv cfg)"
    unfolding reclaim_def
    by (intro keeps_bind keeps_read call_safe calls_keep)
      (auto intro!: keeps_then keeps_bind call_safe calls_keep write_safe keeps_return)
  then show ?thesis
    unfolding fetch_def by (auto intro!: keeps_bind keeps_read keeps_return call_safe calls_keep)
qed

lemma run_once_safe:
  assumes "authentic cfg"
  shows "keeps safe (run_once sv cfg)"
proof -
  let ?body = "\<lambda>w. thenE
          (if wk_ready w then returnE ()
           else thenE (callE (sv_xgroup_create sv stream_name (worker_group (wf_settings cfg))))
                  (writeE (\<lambda>w. w\<lparr>wk_ready := True\<rparr>)))
          (thenE (callE (sv_heartbeat sv (wf_consumer cfg)))
            (bindE (fetch sv cfg) (\<lambda>messages.
              thenE (callE (handle_all sv cfg messages)) (callE (sv_heartbeat sv (wf_consumer cfg))))))"
  have "keeps safe (?body w)" for w
    by (auto intro!: keeps_then keeps_bind keeps_return call_safe calls_keep write_safe fetch_safe handle_all_keeps [OF assms])
  then have step: "safe (snd (?body w w))" if "safe w" for w
    using that unfolding keeps_def by blast
  have "safe (snd (if sv_stopping sv (wk_env w) then (Inr (), w) else ?body w w))" if "safe w" for w
    using that step [OF that] by (cases "sv_stopping sv (wk_env w)") (simp_all only: if_True if_False snd_conv)
  then show ?thesis unfolding keeps_def run_once_def by blast
qed

lemma run_safe:
  assumes "authentic cfg" and "run sv cfg n wk = (r, wk')" and "safe wk"
  shows "safe wk'"
  using assms(2,3)
proof (induction n arbitrary: wk)
  case (Suc n)
  show ?case
  proof (cases "sv_stopping sv (wk_env wk)")
    case True
    with Suc.prems show ?thesis by simp
  next
    case False
    obtain x w1 where once: "run_once sv cfg wk = (x, w1)" by fastforce
    have w1: "safe w1" by (rule keepsD [OF run_once_safe [OF assms(1)] once Suc.prems(2)])
    let ?wait = "callE (sv_wait sv (min (worker_reclaim_seconds (wf_settings cfg)) 5)) (w1\<lparr>wk_ready := False\<rparr>)"
    obtain y w2 where wait: "?wait = (y, w2)" by fastforce
    have w2: "safe w2" by (rule keepsD [OF call_safe [OF wait_keeps] wait]) (use w1 in simp)
    show ?thesis
      using Suc.prems(1) False once wait w1 w2 Suc.IH [of w1] Suc.IH [of w2]
      by (cases x; cases y) (auto split: if_splits)
  qed
qed simp

end

lemma pure_keeps: "(\<And>s. snd (m s) = s) \<Longrightarrow> keeps Q m"
  by (simp add: keeps_def)

lemma inject_keeps: "(\<And>w. P (tick w) = P w) \<Longrightarrow> keeps P m \<Longrightarrow> keeps P (inject m)"
  by (auto simp: keeps_def inject_def split: fault.split)

lemma streams_keeps: "keeps (\<lambda>w. Q (wd_db w)) (on_streams m)"
  by (auto simp: keeps_def on_streams_def split: prod.split)

lemma db_keeps: "keeps Q m \<Longrightarrow> keeps (\<lambda>w. Q (wd_db w)) (on_db m)"
  by (force simp: keeps_def on_db_def split: prod.split)

lemma db_keepsI: "(\<And>d r d'. Q d \<Longrightarrow> m d = (r, d') \<Longrightarrow> Q d') \<Longrightarrow> keeps Q m"
  by (metis keeps_def prod.collapse)

lemma sound_injected:
  "keeps (\<lambda>w. sound_db rp known genuine (wd_db w)) m \<Longrightarrow> keeps (\<lambda>w. sound_db rp known genuine (wd_db w)) (inject m)"
  by (rule inject_keeps) (simp_all add: tick_def)

lemma get_document_keeps: "keeps (sound_db rp known genuine) (get_document t d)"
  by (rule pure_keeps) (simp add: get_document_def)

lemma mark_status_sound: "keeps (sound_db rp known genuine) (mark_status t d st err)"
  by (rule db_keepsI) (rule mark_sound)

lemma reply_keeps: "keeps P (\<lambda>w. (f w, w))"
  by (rule pure_keeps) simp

lemmas world_keeps = sound_injected [OF streams_keeps] sound_injected [OF db_keeps [OF get_document_keeps]]
  sound_injected [OF db_keeps [OF mark_status_sound]] sound_injected [OF reply_keeps] sound_injected [OF keeps_return]
  reply_keeps

lemma world_traced:
  "traced_services (world_services rp fresh) (\<lambda>w. sound_db rp known genuine (wd_db w)) known genuine"
proof
  show "keeps (\<lambda>w. sound_db rp known genuine (wd_db w)) (sv_upsert_document (world_services rp fresh) t fn doc)"
    if uploaded: "known t (xd_sha256 doc)" "genuine doc" for t fn doc
  proof -
    have "keeps (sound_db rp known genuine) (upsert_document (rp_dimension rp) (rp_uuid5 rp) new now clk t fn doc)" for new now clk
      by (rule db_keepsI) (rule upsert_sound [where known = known and genuine = genuine and t = t and doc = doc, OF _ _ uploaded])
    then have "keeps (\<lambda>w. sound_db rp known genuine (wd_db w))
        (on_db (upsert_document (rp_dimension rp) (rp_uuid5 rp) new now clk t fn doc))" for new now clk
      by (rule db_keeps)
    then have "keeps (\<lambda>w. sound_db rp known genuine (wd_db w)) (\<lambda>w. on_db
        (upsert_document (rp_dimension rp) (rp_uuid5 rp) (fresh w) (int (wd_calls w)) (int (wd_calls w)) t fn doc) w)"
      unfolding keeps_def by blast
    from sound_injected [OF this] show ?thesis by (simp add: world_services_def)
  qed
  show "known t (sd_sha256 x)" if "sound_db rp known genuine (wd_db e)"
    "sv_get_document (world_services rp fresh) t d e = (Inr (Some x), e')" for e t d x e'
    using that get_sound [of rp known genuine "wd_db e" t d x]
    by (auto simp: world_services_def inject_def on_db_def tick_def split: fault.splits prod.splits)
qed (simp_all add: world_services_def world_keeps)

section \<open>Requests to ingest\<close>

definition posted :: "'p multipart \<Rightarrow> nat \<Rightarrow> ingest_http \<Rightarrow> (ustr \<times> bytes) list" where
  \<comment> \<open>the tenant and the file of an upload that was read to its end\<close>
  "posted mp limit http =
     (case http of
        PostIngest fr (Some t) content_type blocks \<Rightarrow>
          (case read_upload mp content_type blocks (new_upload limit) of
             (Inr _, u) \<Rightarrow> [(t, ub_target u)] | (Inl _, u) \<Rightarrow> [])
      | _ \<Rightarrow> [])"

lemma in_db_keeps: "keeps Q m \<Longrightarrow> keeps (\<lambda>w. Q (iw_db w)) (in_db m)"
  by (force simp: keeps_def in_db_def split: prod.split)

lemma in_objects_keeps: "keeps (\<lambda>w. Q (iw_db w)) (in_objects m)"
  by (auto simp: keeps_def in_objects_def split: prod.split)

lemma register_keeps_sound:
  assumes "known t (sha256 (ub_digest u))"
  shows "keeps (\<lambda>w. sound_db rp known genuine (iw_db w)) (register sha256 putter fr t u)"
proof -
  have "keeps (sound_db rp known genuine) (register_upload new ev now tr t fn (sha256 (ub_digest u)) media n key)"
    for new ev now tr fn media n key
    by (rule db_keepsI) (rule register_sound [where known = known and t = t and sha = "sha256 (ub_digest u)", OF _ assms])
  moreover have "keeps (sound_db rp known genuine) (find_by_sha256 t sha)" for sha by (rule pure_keeps) simp
  ultimately show ?thesis unfolding register_def Let_def
    by (intro keeps_bind keeps_lift in_db_keeps)
      (auto intro!: keeps_bind keeps_then keeps_return in_db_keeps in_objects_keeps split: option.split)
qed

lemma ingest_sound:
  assumes sound: "sound_db rp known genuine (iw_db w)"
    and known: "\<And>t data. (t, data) \<in> set (posted mp limit http) \<Longrightarrow> known t (sha256 data)"
    and run: "ingest_app sha256 putter mp limit http w = (reply, w')"
  shows "sound_db rp known genuine (iw_db w')"
proof -
  let ?Q = "\<lambda>w. sound_db rp known genuine (iw_db w)"
  have tenant: "keeps ?Q (tenant_of header)" for header
    by (rule pure_keeps) (simp add: tenant_of_def returnE_def raiseE_def split: option.split)
  have get: "keeps ?Q (document_endpoint doc header)" for doc header
    unfolding document_endpoint_def
    by (intro keeps_bind tenant in_db_keeps pure_keeps)
      (auto simp: get_document_def raiseE_def returnE_def split: option.split)
  have all: "keeps ?Q (documents_endpoint n offset header)" for n offset header
    unfolding documents_endpoint_def
    by (cases "\<not> (1 \<le> n \<and> n \<le> 100) \<or> offset < 0")
      (auto intro!: keeps_raise keeps_bind tenant in_db_keeps keeps_return intro: pure_keeps)
  have post: "?Q (snd (ingest_endpoint sha256 putter mp limit fr header ct blocks w))"
    if http: "http = PostIngest fr header ct blocks" for fr header ct blocks
  proof (cases "\<exists>t u. header = Some t \<and> read_upload mp ct blocks (new_upload limit) = (Inr (), u)")
    case False
    then have "snd (ingest_endpoint sha256 putter mp limit fr header ct blocks w) = w"
      by (auto simp: ingest_endpoint_def tenant_of_def bindE_def returnE_def raiseE_def
          split: option.splits prod.splits sum.splits)
    with sound show ?thesis by simp
  next
    case True
    then obtain t u where tu: "header = Some t" "read_upload mp ct blocks (new_upload limit) = (Inr (), u)" by blast
    then have "known t (sha256 (ub_digest u))"
      using known [of t "ub_target u"] http read_upload_spec [OF tu(2)] by (simp add: posted_def)
    then have "keeps ?Q (register sha256 putter fr t u)" by (rule register_keeps_sound)
    with sound tu show ?thesis
      by (auto simp: keeps_def ingest_endpoint_def tenant_of_def bindE_def returnE_def raiseE_def
          split: prod.splits sum.splits)
  qed
  have kept: "?Q (snd (m w))" if "keeps ?Q m" for m :: "('a ingest_world, ingest_reply) proc"
    using that sound by (simp add: keeps_def)
  show ?thesis
  proof (cases http)
    case (PostIngest fr header ct blocks)
    with post [OF this] run show ?thesis
      by (auto simp: ingest_app_def split: prod.splits sum.splits)
  next
    case (GetDocument doc header)
    with kept [OF get, of doc header] run show ?thesis by (auto simp: ingest_app_def split: prod.splits sum.splits)
  next
    case (GetDocuments n offset header)
    with kept [OF all, of n offset header] run show ?thesis by (auto simp: ingest_app_def split: prod.splits sum.splits)
  next
    case IngestHealth
    with run sound show ?thesis by (auto simp: ingest_app_def returnE_def)
  next
    case (IngestReady probes)
    with run sound show ?thesis
      by (auto simp: ingest_app_def thenE_def bindE_def liftE_def returnE_def split: sum.splits)
  qed
qed

section \<open>Polls of a relay\<close>

lemma outbox_ok_same:
  fixes out out' :: "outbox_row list"
  assumes "list_all2 (\<lambda>q q'. q' = q\<lparr>ob_published := ob_published q'\<rparr>) out out'" and "outbox_ok docs out"
  shows "outbox_ok docs out'"
proof -
  define f where "f q = (ob_id q, ob_aggregate q, ob_tenant q, ob_payload q)" for q :: outbox_row
  have "map f out' = map f out"
    using assms(1) by (induction rule: list_all2_induct) (simp_all add: f_def, metis outbox_row.select_convs outbox_row.surjective outbox_row.update_convs(7))
  then have eq: "map g (map f out') = map g (map f out)" "set (map f out') = set (map f out)" for g :: "_ \<Rightarrow> nat"
    by simp_all
  have ids: "map ob_id o' = map (\<lambda>(i, a, t, p). i) (map f o')" "map ob_aggregate o' = map (\<lambda>(i, a, t, p). a) (map f o')"
    for o' by (simp_all add: f_def)
  have all: "(\<forall>q \<in> set o'. valid_event (ob_payload q) \<and> ob_id q = ev_id (ob_payload q) \<and> ob_tenant q = ev_tenant (ob_payload q)
      \<and> ob_aggregate q = ev_document (ob_payload q) \<and> (\<exists>r \<in> set docs. event_of r (ob_payload q)))
    \<longleftrightarrow> (\<forall>(i, a, t, p) \<in> set (map f o'). valid_event p \<and> i = ev_id p \<and> t = ev_tenant p \<and> a = ev_document p
      \<and> (\<exists>r \<in> set docs. event_of r p))" for o'
    by (simp add: f_def)
  show ?thesis using assms(2) unfolding outbox_ok_def ids all eq .
qed

lemma relay_sound:
  assumes sound: "sound_db rp known genuine d"
    and run: "relay_run (queue_publish wc) trace names batch rounds (d, w) = (r, d', w')"
  shows "sound_db rp known genuine d'"
proof -
  have out: "outbox_ok (db_docs d) (db_outbox d)" using sound by (simp add: sound_db_def db_ok_def)
  then have "distinct (map ob_id (db_outbox d))" by (simp add: outbox_ok_def)
  from queue.run_relayed [OF run this] obtain news where news: "relayed (stream_fields wc) news d d'" by blast
  then have same: "db_docs d' = db_docs d" "db_chunks d' = db_chunks d" "db_entities d' = db_entities d"
    and rows: "list_all2 (row_relayed (stream_fields wc) news) (db_outbox d) (db_outbox d')"
    by (simp_all add: relayed_def)
  have "outbox_ok (db_docs d) (db_outbox d')"
    using list.rel_mono_strong [OF rows] out by (rule_tac outbox_ok_same) (auto simp: row_relayed_def)
  with sound same show ?thesis by (simp add: sound_db_def db_ok_def rooted_def)
qed

interpretation traced: traced_services "world_services rp fresh" "\<lambda>w. sound_db rp known genuine (wd_db w)" known genuine
  for rp fresh known genuine
  by (rule world_traced)

section \<open>Histories of the platform\<close>

text \<open>
  \<open>history rp fresh pl s put mp limit ups w\<close>: the platform can be in \<open>w\<close> after the uploads \<open>ups\<close>.
  All processes share the pipeline and its settings. Between two steps the environment may do
  anything that does not write to the database.
\<close>

inductive history ::
  "repository \<Rightarrow> (world \<Rightarrow> uuid) \<Rightarrow> 'i pipeline \<Rightarrow> ('a) worker_settings_scheme \<Rightarrow> 'o put \<Rightarrow> 'p multipart \<Rightarrow> nat
   \<Rightarrow> (ustr \<times> bytes) list \<Rightarrow> world \<Rightarrow> bool"
  for rp fresh pl s store_put mp limit
where
  start: "wd_db w = empty_db \<Longrightarrow> history rp fresh pl s store_put mp limit [] w"
| request: "history rp fresh pl s store_put mp limit ups w
    \<Longrightarrow> ingest_app (xr_sha256 (pl_extractors pl)) store_put mp limit http \<lparr>iw_db = wd_db w, iw_objects = objects\<rparr>
        = (reply, iw)
    \<Longrightarrow> history rp fresh pl s store_put mp limit (ups @ posted mp limit http) (w\<lparr>wd_db := iw_db iw\<rparr>)"
| publish: "history rp fresh pl s store_put mp limit ups w
    \<Longrightarrow> relay_run (queue_publish wc) trace names batch rounds (wd_db w, w) = (r, d, w')
    \<Longrightarrow> history rp fresh pl s store_put mp limit ups (w'\<lparr>wd_db := d\<rparr>)"
| work: "history rp fresh pl s store_put mp limit ups (wk_env wk)
    \<Longrightarrow> wf_pipeline cfg = pl \<Longrightarrow> wf_settings cfg = s
    \<Longrightarrow> run (world_services rp fresh) cfg n wk = (r, wk')
    \<Longrightarrow> history rp fresh pl s store_put mp limit ups (wk_env wk')"
| environment: "history rp fresh pl s store_put mp limit ups w \<Longrightarrow> wd_db w' = wd_db w
    \<Longrightarrow> history rp fresh pl s store_put mp limit ups w'"

definition uploaded :: "(bytes \<Rightarrow> ustr) \<Rightarrow> (ustr \<times> bytes) list \<Rightarrow> ustr \<Rightarrow> ustr \<Rightarrow> bool" where
  "uploaded sha256 ups t h \<longleftrightarrow> (\<exists>data. (t, data) \<in> set ups \<and> sha256 data = h)"

definition produced :: "'i pipeline \<Rightarrow> ('a) worker_settings_scheme \<Rightarrow> document \<Rightarrow> bool" where
  "produced pl s doc \<longleftrightarrow> (\<exists>content. pipeline_document pl s content = Inr doc)"

lemma history_sound:
  assumes "history rp fresh pl s store_put mp limit ups w"
  shows "sound_db rp (uploaded (xr_sha256 (pl_extractors pl)) ups) (produced pl s) (wd_db w)"
  using assms
proof induction
  case (start w)
  then show ?case by (simp add: empty_db_sound)
next
  case (request ups w http objects reply iw)
  let ?known = "uploaded (xr_sha256 (pl_extractors pl)) (ups @ posted mp limit http)"
  have "sound_db rp ?known (produced pl s) (wd_db w)"
    by (rule sound_db_mono [OF request.IH]) (auto simp: uploaded_def)
  moreover have "?known t (xr_sha256 (pl_extractors pl) data)" if "(t, data) \<in> set (posted mp limit http)" for t data
    using that by (auto simp: uploaded_def)
  ultimately show ?case
    using ingest_sound [OF _ _ request.hyps(2), of rp ?known "produced pl s"] by simp
next
  case (publish ups w wc trace names batch rounds r d w')
  from relay_sound [OF publish.IH publish.hyps(2)] show ?case by simp
next
  case (work ups wk cfg n r wk')
  have "traced_services.authentic (produced pl s) cfg"
    using work.hyps by (auto simp: traced.authentic_def produced_def)
  from traced.run_safe [OF this work.hyps(4)] work.IH show ?case by simp
next
  case (environment ups w w')
  then show ?case by simp
qed

text \<open>What a produced document holds: slices of the pages of its bytes.\<close>

lemma produced_slices:
  assumes "pipeline_document pl s content = Inr doc" and "c \<in> set (dc_chunks doc)"
  shows "\<exists>xd p. extract_document (pl_extractors pl) s content = Inr xd \<and> p \<in> set (xd_pages xd)
    \<and> ck_page c = pg_number p \<and> ck_text c = py_slice (ck_start c) (ck_end c) (pg_text p)"
proof -
  from assms(1) obtain xd doc' where x: "extract_document (pl_extractors pl) s content = Inr xd"
    and a: "analyze (pl_analysis pl) (pl_settings pl) xd = Inr doc'"
    and e: "embed_document (pl_embedder pl) doc' = Inr doc"
    by (auto simp: pipeline_document_def split: sum.splits)
  let ?f = "\<lambda>c. c\<lparr>ck_embedding := None\<rparr>" and ?g = "\<lambda>p. p\<lparr>pg_language := ''und'', pg_confidence := 0\<rparr>"
  have "?f c \<in> set (map ?f (dc_chunks doc'))"
    using assms(2) embed_document_ok [OF e] by (metis image_eqI list.set_map)
  then obtain c' where c': "c' \<in> set (dc_chunks doc')" "?f c = ?f c'" by auto
  have "ck_page (?f c) = ck_page (?f c')" "ck_text (?f c) = ck_text (?f c')" "ck_start (?f c) = ck_start (?f c')"
    "ck_end (?f c) = ck_end (?f c')" by (simp_all only: c'(2))
  then have same: "ck_page c = ck_page c'" "ck_text c = ck_text c'" "ck_start c = ck_start c'" "ck_end c = ck_end c'"
    by simp_all
  obtain p where p: "p \<in> set (xd_pages doc')" "chunk_of_page (pl_settings pl) p c'"
    using analyze_ok [OF a] c'(1) unfolding analysis_ok_def by blast
  have "map ?g (xd_pages doc') = map ?g (xd_pages xd)"
    using analyze_ok [OF a] unfolding analysis_ok_def by blast
  then have "?g ` set (xd_pages doc') = ?g ` set (xd_pages xd)" by (simp only: list.set_map [symmetric])
  with p(1) have "?g p \<in> ?g ` set (xd_pages xd)" by blast
  then obtain q where q: "q \<in> set (xd_pages xd)" "?g p = ?g q" by auto
  have "pg_number (?g p) = pg_number (?g q)" "pg_text (?g p) = pg_text (?g q)" by (simp_all only: q(2))
  then have "pg_number p = pg_number q" "pg_text p = pg_text q" by simp_all
  with x q(1) p(2) same show ?thesis by (auto simp: chunk_of_page_def)
qed

section \<open>Property\<close>

lemma rooted_origin:
  assumes rows: "rooted_rows (produced pl s) items (keys_of docs) rows" and r: "r \<in> set rows" "cd_tenant r = tenant"
    and docs: "\<And>i sha. (i, tenant, sha) \<in> keys_of docs \<Longrightarrow> uploaded (xr_sha256 (pl_extractors pl)) ups tenant sha"
  obtains data content doc where "(tenant, data) \<in> set ups"
    "xr_sha256 (pl_extractors pl) content = xr_sha256 (pl_extractors pl) data"
    "pipeline_document pl s content = Inr doc" "cd_item r \<in> set (items doc)"
proof -
  obtain doc where doc: "produced pl s doc" "(cd_document r, tenant, xd_sha256 doc) \<in> keys_of docs"
    "cd_item r \<in> set (items doc)"
    using rows r unfolding rooted_rows_def by blast
  then obtain content where content: "pipeline_document pl s content = Inr doc" unfolding produced_def by blast
  from docs [OF doc(2)] content doc(3) pipeline_document_ok [OF content] that show thesis unfolding uploaded_def by metis
qed

lemma quoted_slice:
  assumes "quotes d tenant flt so"
  obtains r where "r \<in> set (db_chunks d)" "cd_tenant r = tenant" "so_page so = ck_page (cd_item r)"
    "so_start so = ck_start (cd_item r)" "so_end so = ck_end (cd_item r)" "so_text so = ck_text (cd_item r)"
proof -
  from assms obtain r where r: "r \<in> set (db_chunks d)" "cd_tenant r = tenant"
    and eq: "so = \<lparr>so_document = cd_document r, so_page = ck_page (cd_item r), so_ord = ck_ord (cd_item r),
      so_start = ck_start (cd_item r), so_end = ck_end (cd_item r), so_text = ck_text (cd_item r),
      so_score = so_score so\<rparr>"
    unfolding quotes_def by blast
  show thesis
    by (rule that [OF r]) (use arg_cong [OF eq, of so_page] arg_cong [OF eq, of so_start] arg_cong [OF eq, of so_end]
      arg_cong [OF eq, of so_text] in simp_all)
qed

text \<open>
  C1: answers come from the tenant's own uploads, through all four services. Whatever was uploaded
  and asked, whatever relays and workers did with whichever failures, whatever the streams
  contain and the object store returns, every passage an answer shows is a slice, at the offsets
  it names, of a page extracted from bytes that have the digest of a file the same tenant
  uploaded; and every entity it lists was found in a document made from such bytes.
\<close>

theorem answers_come_from_uploads:
  assumes "history rp fresh pl s store_put mp limit ups w"
    and "service_query qs tenant request (wd_db w) e = (Inr resp, e')"
  shows "list_all (\<lambda>so. \<exists>data content xd p. (tenant, data) \<in> set ups
        \<and> xr_sha256 (pl_extractors pl) content = xr_sha256 (pl_extractors pl) data
        \<and> extract_document (pl_extractors pl) s content = Inr xd \<and> p \<in> set (xd_pages xd)
        \<and> so_page so = pg_number p \<and> so_text so = py_slice (so_start so) (so_end so) (pg_text p))
      (qr_sources resp)
    \<and> list_all (\<lambda>c. \<exists>data content doc en. (tenant, data) \<in> set ups
        \<and> xr_sha256 (pl_extractors pl) content = xr_sha256 (pl_extractors pl) data
        \<and> pipeline_document pl s content = Inr doc \<and> en \<in> set (dc_entities doc)
        \<and> ce_text c = en_text en \<and> ce_label c = en_label en \<and> ce_count c = en_count en)
      (qr_entities resp)"
proof -
  let ?sha = "xr_sha256 (pl_extractors pl)" and ?d = "wd_db w"
  note sound = history_sound [OF assms(1)]
  have docs: "uploaded ?sha ups tenant sha" if "(i, tenant, sha) \<in> keys_of (db_docs ?d)" for i sha
    using sound that unfolding sound_db_def rooted_def by blast
  have rows: "rooted_rows (produced pl s) dc_chunks (keys_of (db_docs ?d)) (db_chunks ?d)"
    "rooted_rows (produced pl s) dc_entities (keys_of (db_docs ?d)) (db_entities ?d)"
    using sound by (simp_all add: sound_db_def rooted_def)
  note rests = service_query_rests [OF assms(2)]
  show ?thesis
  proof (intro conjI; unfold list_all_iff; intro ballI)
    fix so assume "so \<in> set (qr_sources resp)"
    then have "quotes ?d tenant (rq_filter request) so" using rests by (simp add: list_all_iff)
    then obtain r where r: "r \<in> set (db_chunks ?d)" "cd_tenant r = tenant" and so: "so_page so = ck_page (cd_item r)"
      "so_start so = ck_start (cd_item r)" "so_end so = ck_end (cd_item r)" "so_text so = ck_text (cd_item r)"
      by (rule quoted_slice)
    from rows(1) r docs obtain data content doc where o: "(tenant, data) \<in> set ups" "?sha content = ?sha data"
      "pipeline_document pl s content = Inr doc" "cd_item r \<in> set (dc_chunks doc)" by (rule rooted_origin)
    from produced_slices [OF o(3,4)] o(1,2) show "\<exists>data content xd p. (tenant, data) \<in> set ups
        \<and> ?sha content = ?sha data \<and> extract_document (pl_extractors pl) s content = Inr xd \<and> p \<in> set (xd_pages xd)
        \<and> so_page so = pg_number p \<and> so_text so = py_slice (so_start so) (so_end so) (pg_text p)"
      unfolding so by blast
  next
    fix c assume "c \<in> set (qr_entities resp)"
    then obtain en where "stored_entity ?d tenant (ce_document c) en" and c: "ce_text c = en_text en"
      "ce_label c = en_label en" "ce_count c = en_count en"
      using rests by (auto simp: list_all_iff)
    then obtain r where r: "r \<in> set (db_entities ?d)" "cd_tenant r = tenant" "cd_item r = en"
      by (auto simp: stored_entity_def)
    from rows(2) r(1,2) docs obtain data content doc where "(tenant, data) \<in> set ups" "?sha content = ?sha data"
      "pipeline_document pl s content = Inr doc" "cd_item r \<in> set (dc_entities doc)" by (rule rooted_origin)
    with c r(3) show "\<exists>data content doc en. (tenant, data) \<in> set ups
        \<and> ?sha content = ?sha data \<and> pipeline_document pl s content = Inr doc \<and> en \<in> set (dc_entities doc)
        \<and> ce_text c = en_text en \<and> ce_label c = en_label en \<and> ce_count c = en_count en" by blast
  qed
qed

definition demo_post :: ingest_http where
  "demo_post = PostIngest \<lparr>fr_document = 1, fr_event = 101, fr_now = 50, fr_trace = None\<rparr> (Some acme)
     (bytes_of ''multipart/form-data'') [Inr (bytes_of ''%PDF''), Inr (bytes_of ''-1'')]"

definition demo_platform :: world where
  "demo_platform = (demo_world (\<lambda>n. Works))\<lparr>wd_db := empty_db, wd_streams := no_streams\<rparr>"

definition demo_uploaded :: world where
  "demo_uploaded = demo_platform\<lparr>wd_db := iw_db (snd (ingest_app (\<lambda>d. demo_sha) memory_put demo_parser 100 demo_post
     \<lparr>iw_db = wd_db demo_platform, iw_objects = []\<rparr>))\<rparr>"

definition demo_published :: world where
  "demo_published = (case relay_run (queue_publish demo_codec) (\<lambda>e. None) acme 10 demo_polls
     (wd_db demo_uploaded, demo_uploaded) of (r, d, w) \<Rightarrow> w\<lparr>wd_db := d\<rparr>)"

definition demo_processed :: world where
  "demo_processed = wk_env (snd (run (world_services demo_store (\<lambda>w. 9)) demo_config 4 (new_worker demo_published)))"

definition demo_answering :: "unit query_service" where
  "demo_answering = demo_service\<lparr>qs_postgres := (qs_postgres demo_service)\<lparr>pg_dimension := 2\<rparr>,
     qs_embed := (\<lambda>t. Inr [Finite 1, Finite 0])\<rparr>"

lemma demo_history:
  "history demo_store (\<lambda>w. 9) demo_pipeline demo_settings memory_put demo_parser 100
     [(acme, demo_content)] demo_processed"
proof -
  let ?h = "history demo_store (\<lambda>w. 9) demo_pipeline demo_settings memory_put demo_parser 100"
  have sha: "xr_sha256 (pl_extractors demo_pipeline) = (\<lambda>d. demo_sha)" by (simp add: demo_pipeline_def)
  have post: "posted demo_parser 100 demo_post = [(acme, demo_content)]" by code_simp
  have "?h [] demo_platform" by (rule history.start) (simp add: demo_platform_def)
  from history.request [OF this surjective_pairing, unfolded sha, of demo_post "[]"]
  have "?h [(acme, demo_content)] demo_uploaded" by (simp add: demo_uploaded_def post)
  then have "?h [(acme, demo_content)] demo_published"
    unfolding demo_published_def by (auto intro: history.publish split: prod.split)
  then have start: "?h [(acme, demo_content)] (wk_env (new_worker demo_published))" by (simp add: new_worker_def)
  show ?thesis
    unfolding demo_processed_def
    by (rule history.work [OF start _ _ surjective_pairing]) (simp_all add: demo_config_def)
qed

lemma answers_come_from_uploads_witness:
  "\<exists>resp. service_query demo_answering acme demo_request (wd_db demo_processed) () = (Inr resp, ())
    \<and> map so_text (qr_sources resp) = [ascii ''aa bb'', ascii ''bb cc'']
    \<and> list_all (\<lambda>so. \<exists>content xd p. extract_document (pl_extractors demo_pipeline) demo_settings content = Inr xd
        \<and> p \<in> set (xd_pages xd) \<and> so_text so = py_slice (so_start so) (so_end so) (pg_text p)) (qr_sources resp)"
proof -
  let ?m = "service_query demo_answering acme demo_request (wd_db demo_processed) ()"
  have a: "map_sum id (\<lambda>resp. map so_text (qr_sources resp)) (fst ?m) = Inr [ascii ''aa bb'', ascii ''bb cc'']"
    by code_simp
  then obtain resp where r: "?m = (Inr resp, ())" by (cases ?m; cases "fst ?m") auto
  with a have "map so_text (qr_sources resp) = [ascii ''aa bb'', ascii ''bb cc'']" by simp
  moreover note answers_come_from_uploads [OF demo_history r]
  ultimately show ?thesis using r by (auto simp: list_all_iff) blast+
qed

end
