(* ===== verification/Lifecycle.thy ===== *)
theory Lifecycle
  imports Worker
begin

text \<open>
  The life of a process: \<open>worker_cli.py\<close> around the consumer loop, \<open>cli.py\<close> and \<open>runtime.py\<close> of
  ingest, and the container health check. An operation on the outside world is an entry of a
  log; a schedule decides, from the log so far, whether the operation raises and how many stop
  signals arrive while it runs. The second signal ends the process at once (\<open>os._exit\<close>).
\<close>

section \<open>Processes\<close>

datatype held_item = RedisClient real | Engine | ObjectClient | HttpClient nat | Handler nat
  \<comment> \<open>a Redis client with its socket timeout, a database engine, an S3 client, one of the HTTP clients, a
      signal handler\<close>

datatype life = Open held_item | Close held_item | LoadModels | RunWorker | RunRelay | Pause real | Probe held_item

type_synonym schedule = "(life \<times> bool) list \<Rightarrow> exn option \<times> nat"

record process =
  pc_log :: "(life \<times> bool) list" \<comment> \<open>what was done, and whether it succeeded\<close>
  pc_stopping :: bool
  pc_gone :: bool

definition new_process :: process where
  "new_process = \<lparr>pc_log = [], pc_stopping = False, pc_gone = False\<rparr>"

definition stop_signal :: "process \<Rightarrow> process" where
  \<comment> \<open>\<open>stop\<close>\<close>
  "stop_signal p = (if pc_stopping p then p\<lparr>pc_gone := True\<rparr> else p\<lparr>pc_stopping := True\<rparr>)"

definition set_stop :: "process \<Rightarrow> process" where
  \<comment> \<open>\<open>lambda *_: stop.set()\<close>\<close>
  "set_stop p = p\<lparr>pc_stopping := True\<rparr>"

definition act_with :: "(process \<Rightarrow> process) \<Rightarrow> schedule \<Rightarrow> life \<Rightarrow> (process, unit) proc" where
  \<comment> \<open>one operation under a signal handler\<close>
  "act_with handler sch a p =
     (if pc_gone p then (Inr (), p)
      else (case sch (pc_log p) of (err, signals) \<Rightarrow>
        (case err of None \<Rightarrow> Inr () | Some e \<Rightarrow> Inl e,
         (handler ^^ signals) (p\<lparr>pc_log := pc_log p @ [(a, err = None)]\<rparr>))))"

definition act :: "schedule \<Rightarrow> life \<Rightarrow> (process, unit) proc" where
  "act = act_with stop_signal"

definition serving :: "schedule \<Rightarrow> life \<Rightarrow> (process, unit) proc" where
  \<comment> \<open>under a handler that only asks for the stop, as the relay's and the server's\<close>
  "serving = act_with set_stop"

definition wait_for :: "schedule \<Rightarrow> real \<Rightarrow> (process, unit) proc" where
  \<comment> \<open>\<open>stopping.wait(t)\<close>\<close>
  "wait_for sch t p = (Inr (), snd (act sch (Pause t) p))"

section \<open>Exit stacks\<close>

record 's stacked =
  sk_state :: 's
  sk_callbacks :: "('s, unit) proc list" \<comment> \<open>the last one registered first\<close>

definition inside :: "('s, 'a) proc \<Rightarrow> ('s stacked, 'a) proc" where
  "inside m k = (case m (sk_state k) of (r, s) \<Rightarrow> (r, k\<lparr>sk_state := s\<rparr>))"

definition callback :: "('s, unit) proc \<Rightarrow> ('s stacked, unit) proc" where
  "callback cb = writeE (\<lambda>k. k\<lparr>sk_callbacks := cb # sk_callbacks k\<rparr>)"

fun unwind :: "('s, unit) proc list \<Rightarrow> 'a result \<Rightarrow> ('s, 'a) proc" where
  \<comment> \<open>\<open>ExitStack.__exit__\<close>: every callback runs, an exception of one replaces the pending one\<close>
  "unwind [] r s = (r, s)"
| "unwind (cb # cbs) r s =
     (case cb s of (Inl e, s') \<Rightarrow> unwind cbs (Inl e) s' | (Inr _, s') \<Rightarrow> unwind cbs r s')"

definition with_stack :: "('s stacked, 'a) proc \<Rightarrow> ('s, 'a) proc" where
  "with_stack body s =
     (case body \<lparr>sk_state = s, sk_callbacks = []\<rparr> of (r, k) \<Rightarrow> unwind (sk_callbacks k) r (sk_state k))"

definition entering :: "schedule \<Rightarrow> held_item \<Rightarrow> (process stacked, unit) proc" where
  \<comment> \<open>make a client, then register its \<open>close\<close>\<close>
  "entering sch i = thenE (inside (act sch (Open i))) (callback (act sch (Close i)))"

section \<open>The worker process\<close>

definition build_objects :: "schedule \<Rightarrow> (process stacked, unit) proc" where
  "build_objects sch = entering sch ObjectClient"

definition build_worker :: "schedule \<Rightarrow> ('a) worker_settings_scheme \<Rightarrow> (process stacked, unit) proc" where
  "build_worker sch s =
     thenE (entering sch (RedisClient (real (worker_block_ms s) / 1000 + 5)))
      (thenE (entering sch Engine)
        (thenE (build_objects sch)
          (inside (act sch LoadModels))))"

definition sigterm :: nat where "sigterm = 15"

definition sigint :: nat where "sigint = 2"

definition install_signals :: "schedule \<Rightarrow> (process stacked, unit) proc" where
  "install_signals sch = forE (\<lambda>signum. entering sch (Handler signum)) [sigterm, sigint]"

definition serve_once :: "schedule \<Rightarrow> ('a) worker_settings_scheme \<Rightarrow> (process, unit) proc" where
  \<comment> \<open>the body of the \<open>try\<close>: new clients, one run of the worker, and the clients closed again\<close>
  "serve_once sch s = with_stack (thenE (build_worker sch s) (inside (act sch RunWorker)))"

fun serve_loop :: "schedule \<Rightarrow> ('a) worker_settings_scheme \<Rightarrow> nat \<Rightarrow> (process, bool) proc" where
  \<comment> \<open>at most \<open>n\<close> rounds of the \<open>while not stopping.is_set()\<close> loop; True when the loop is left\<close>
  "serve_loop sch s 0 p = (Inr (pc_stopping p), p)"
| "serve_loop sch s (Suc n) p =
     (if pc_stopping p then (Inr True, p)
      else (case serve_once sch s p of
          (Inr _, p') \<Rightarrow> (Inr True, p')
        | (Inl e, p') \<Rightarrow>
            if transient e
            then thenE (wait_for sch (min (worker_reclaim_seconds s) 5)) (serve_loop sch s n) p'
            else (Inl e, p')))"

definition serve :: "schedule \<Rightarrow> ('a) worker_settings_scheme \<Rightarrow> nat \<Rightarrow> process \<Rightarrow> unit result option \<times> process" where
  \<comment> \<open>None when the loop goes on after \<open>n\<close> rounds\<close>
  "serve sch s n p =
     (case thenE (install_signals sch) (inside (serve_loop sch s n)) \<lparr>sk_state = p, sk_callbacks = []\<rparr> of
        (Inr False, k) \<Rightarrow> (None, sk_state k)
      | (r, k) \<Rightarrow>
          (case unwind (sk_callbacks k) r (sk_state k) of
             (Inl e, p') \<Rightarrow> (Some (Inl e), p') | (Inr _, p') \<Rightarrow> (Some (Inr ()), p')))"

datatype command_end = Finished | UsageError ustr | ExitWith nat ustr | Crashed exn

definition startup_error :: "exn \<Rightarrow> bool" where
  \<comment> \<open>\<open>except (SQLAlchemyError, BotoCoreError, ClientError, RedisError, ValueError, OSError)\<close>\<close>
  "startup_error e \<longleftrightarrow> is_sqlalchemy_error e \<or> e = BotoCoreError
     \<or> (case e of ClientError _ \<Rightarrow> True | _ \<Rightarrow> False) \<or> is_redis_error e \<or> is_value_error e \<or> is_os_error e"

definition worker_command ::
  "worker_settings result \<Rightarrow> unit result \<Rightarrow> schedule \<Rightarrow> nat \<Rightarrow> process \<Rightarrow> command_end option \<times> process" where
  \<comment> \<open>\<open>run\<close>: the outcomes of \<open>get_settings()\<close> and \<open>configure("worker")\<close> are arguments\<close>
  "worker_command settings configured sch n p =
     (case (case settings of Inl e \<Rightarrow> (Some (Inl e), p)
            | Inr s \<Rightarrow> (case configured of Inl e \<Rightarrow> (Some (Inl e), p) | Inr _ \<Rightarrow> serve sch s n p)) of
        (None, p') \<Rightarrow> (None, p')
      | (Some (Inr _), p') \<Rightarrow> (Some Finished, p')
      | (Some (Inl e), p') \<Rightarrow>
          (Some (if e = ValidationError then UsageError (ascii ''Invalid worker settings'')
                 else if startup_error e then UsageError (ascii ''Worker startup failed ('' @ exn_name e @ ascii '')'')
                 else Crashed e), p'))"

section \<open>The ingest processes\<close>

record resources =
  rs_open :: "held_item list" \<comment> \<open>what \<open>close\<close> closes, in its order\<close>

definition ingest_redis :: held_item where "ingest_redis = RedisClient 5"

definition close_resources :: "schedule \<Rightarrow> resources \<Rightarrow> (process, unit) proc" where
  "close_resources sch r = forE (\<lambda>i. serving sch (Close i)) (rs_open r)"

definition create_resources :: "unit result \<Rightarrow> schedule \<Rightarrow> (process, resources) proc" where
  \<comment> \<open>\<open>built\<close> is the outcome of constructing \<open>Resources\<close> itself, all that the \<open>try\<close> guards\<close>
  "create_resources built sch =
     thenE (serving sch (Open Engine))
      (thenE (serving sch (Open ObjectClient))
        (thenE (serving sch (Open ingest_redis))
          (let r = \<lparr>rs_open = [ingest_redis, ObjectClient, Engine]\<rparr>
           in tryE (thenE (liftE built) (returnE r)) (\<lambda>e. thenE (close_resources sch r) (raiseE e)))))"

definition resources_ready :: "schedule \<Rightarrow> (process, unit) proc" where
  \<comment> \<open>\<open>SELECT 1\<close>, \<open>head_bucket\<close>, \<open>ping\<close>\<close>
  "resources_ready sch = forE (\<lambda>i. serving sch (Probe i)) [Engine, ObjectClient, ingest_redis]"

definition and_finally :: "('s, 'a) proc \<Rightarrow> ('s, unit) proc \<Rightarrow> ('s, 'a) proc" where
  \<comment> \<open>\<open>finally\<close> with a block that may raise\<close>
  "and_finally m f s =
     (case m s of (r, s') \<Rightarrow> (case f s' of (Inl e, s'') \<Rightarrow> (Inl e, s'') | (Inr _, s'') \<Rightarrow> (r, s'')))"

definition relay_process :: "unit result \<Rightarrow> schedule \<Rightarrow> (process, unit) proc" where
  \<comment> \<open>\<open>relay\<close> after \<open>get_settings()\<close>; the outcome of \<open>configure\<close> is an argument\<close>
  "relay_process configured sch =
     (let run = serving sch
      in thenE (liftE configured)
          (thenE (forE (\<lambda>signum. run (Open (Handler signum))) [sigterm, sigint])
            (thenE (run (Open Engine))
              (thenE (run (Open ingest_redis))
                (and_finally (run RunRelay)
                  (thenE (run (Close ingest_redis))
                    (thenE (run (Close Engine))
                      (forE (\<lambda>signum. run (Close (Handler signum))) [sigterm, sigint]))))))))"

definition relay_arguments :: "ustr \<Rightarrow> bool" where
  "relay_arguments names \<longleftrightarrow> list_all valid_tenant (split_on comma names)"

datatype ingest_command = ServeHttp "unit result" | RelayOutbox ustr
  \<comment> \<open>\<open>serve\<close> with the outcome of \<open>uvicorn.run\<close>, \<open>relay --tenant\<close>\<close>

definition ingest_main :: "unit result \<Rightarrow> unit result \<Rightarrow> ingest_command \<Rightarrow> schedule \<Rightarrow> process \<Rightarrow> command_end \<times> process" where
  "ingest_main settings configured command sch p =
     (let refused = (case command of RelayOutbox t \<Rightarrow> \<not> relay_arguments t | ServeHttp _ \<Rightarrow> False)
      in if refused then (UsageError (ascii ''Invalid tenant''), p)
         else
           (case thenE (liftE settings)
                 (case command of ServeHttp served \<Rightarrow> liftE served | RelayOutbox t \<Rightarrow> relay_process configured sch) p of
              (Inr _, p') \<Rightarrow> (Finished, p')
            | (Inl e, p') \<Rightarrow>
                (if startup_error e
                 then ExitWith 1 (ascii ''Ingest command failed ('' @ exn_name e @ ascii '')'')
                 else Crashed e, p')))"

section \<open>Health of a container\<close>

record container =
  ct_app :: "string option"
  ct_role :: "string option"
  ct_ttls :: "int list result" \<comment> \<open>\<open>ttl\<close> of the keys that match the heartbeat pattern of this host\<close>
  ct_cmdline :: "string list" \<comment> \<open>the words of process 1\<close>
  ct_http :: "nat \<Rightarrow> string \<Rightarrow> nat result" \<comment> \<open>the status of a route of a local port\<close>

definition container_port :: "string \<Rightarrow> nat result" where
  "container_port app =
     (case map_of [(''gateway'', 8000), (''ingest'', 8001), (''query'', 8002)] app of
        None \<Rightarrow> Inl KeyError | Some n \<Rightarrow> Inr n)"

definition container_check :: "container \<Rightarrow> unit result" where
  "container_check c =
     (case ct_app c of
        None \<Rightarrow> Inl KeyError
      | Some app \<Rightarrow>
          if app = ''worker''
          then (case ct_ttls c of
              Inl e \<Rightarrow> Inl e
            | Inr ttls \<Rightarrow> if list_ex (\<lambda>ttl. 0 < ttl) ttls then Inr ()
                else Inl (RuntimeError ''Worker heartbeat expired''))
          else if ct_role c = Some ''relay''
          then if ''relay'' \<in> set (ct_cmdline c) then Inr () else Inl (RuntimeError ''Relay process is absent'')
          else
            (case container_port app of
               Inl e \<Rightarrow> Inl e
             | Inr port \<Rightarrow>
                 (case ct_http c port (if app = ''query'' then ''readyz'' else ''healthz'') of
                    Inl e \<Rightarrow> Inl e
                  | Inr status \<Rightarrow> if status = 200 then Inr () else Inl (RuntimeError ''HTTP process is unhealthy''))))"

section \<open>What is open\<close>

fun hold :: "held_item list option \<Rightarrow> life \<times> bool \<Rightarrow> held_item list option" where
  \<comment> \<open>None: something was opened twice, or closed without being the last thing opened\<close>
  "hold (Some h) (Open i, True) = (if i \<in> set h then None else Some (i # h))"
| "hold (Some (j # h)) (Close i, ok) = (if i = j then Some h else None)"
| "hold (Some []) (Close i, ok) = None"
| "hold h e = h"

definition held :: "process \<Rightarrow> held_item list option" where
  "held p = foldl hold (Some []) (pc_log p)"

definition holds :: "held_item list \<Rightarrow> process \<Rightarrow> bool" where
  "holds h p \<longleftrightarrow> pc_gone p \<or> held p = Some h"

text \<open>What holds under any signal handler that keeps the log.\<close>

locale signal_handler =
  fixes handler :: "process \<Rightarrow> process"
  assumes log: "pc_log (handler p) = pc_log p"
begin

lemma signals_log: "pc_log ((handler ^^ n) p) = pc_log p"
  by (induction n) (simp_all add: log)

lemma cases:
  assumes "act_with handler sch a p = (r, p')"
  obtains "pc_gone p" "r = Inr ()" "p' = p"
  | "\<not> pc_gone p" "pc_log p' = pc_log p @ [(a, r = Inr ())]"
proof (cases "pc_gone p")
  case True
  moreover from this assms have "r = Inr ()" "p' = p" by (simp_all add: act_with_def)
  ultimately show thesis by (rule that(1))
next
  case False
  obtain err n where "sch (pc_log p) = (err, n)" by fastforce
  with assms False have "r = (case err of None \<Rightarrow> Inr () | Some e \<Rightarrow> Inl e)"
    "p' = (handler ^^ n) (p\<lparr>pc_log := pc_log p @ [(a, err = None)]\<rparr>)"
    by (auto simp: act_with_def)
  with False show thesis by (intro that(2)) (auto simp: signals_log split: option.splits)
qed

lemma opens:
  assumes "act_with handler sch (Open i) p = (r, p')" and "holds h p" and "i \<notin> set h"
  shows "holds (if r = Inr () then i # h else h) p'"
  using assms(1) by (cases rule: cases)
    (use assms(2,3) in \<open>auto simp: holds_def held_def\<close>)

lemma closes: "act_with handler sch (Close i) p = (r, p') \<Longrightarrow> holds (i # h) p \<Longrightarrow> holds h p'"
  by (erule cases) (auto simp: holds_def held_def)

lemma other:
  assumes "act_with handler sch a p = (r, p')" and "holds h p" and "\<And>i. a \<noteq> Open i \<and> a \<noteq> Close i"
  shows "holds h p'"
proof -
  have "hold (Some h) (a, ok) = Some h" for ok
  proof (cases a)
    case (Open i)
    with assms(3) [of i] show ?thesis by simp
  next
    case (Close i)
    with assms(3) [of i] show ?thesis by simp
  qed (cases h; simp)+
  note stays = this
  from assms(1) show ?thesis
  proof (cases rule: cases)
    case 2
    with assms(2) stays [of "r = Inr ()"] show ?thesis by (simp add: holds_def held_def)
  qed (use assms(2) in simp)
qed

end

interpretation worker_signals: signal_handler stop_signal
  by unfold_locales (simp_all add: stop_signal_def)

interpretation server_signals: signal_handler set_stop
  by unfold_locales (simp_all add: set_stop_def)

lemmas act_cases [consumes 1] = worker_signals.cases [folded act_def]
lemmas act_open = worker_signals.opens [folded act_def]
lemmas act_close = worker_signals.closes [folded act_def]
lemmas act_other = worker_signals.other [folded act_def]
lemmas serving_open = server_signals.opens [folded serving_def]
lemmas serving_close = server_signals.closes [folded serving_def]
lemmas serving_other = server_signals.other [folded serving_def]

lemma gone_stopping:
  assumes "pc_gone p \<longrightarrow> pc_stopping p"
  shows "pc_gone ((stop_signal ^^ n) p) \<longrightarrow> pc_stopping ((stop_signal ^^ n) p)"
  using assms by (induction n) (auto simp: stop_signal_def)

lemma unwind_holds:
  assumes "unwind (map (\<lambda>i. act sch (Close i)) items) r p = (r', p')" and "holds (items @ h) p"
  shows "holds h p'"
  using assms
proof (induction items arbitrary: r p)
  case (Cons i items)
  obtain x q where q: "act sch (Close i) p = (x, q)" by fastforce
  with Cons.prems(2) have "holds (items @ h) q" by (simp add: act_close)
  moreover obtain r1 where "unwind (map (\<lambda>i. act sch (Close i)) items) r1 q = (r', p')"
    using Cons.prems(1) q by (cases x) auto
  ultimately show ?case using Cons.IH by blast
qed simp

definition stage :: "schedule \<Rightarrow> held_item list \<Rightarrow> held_item list \<Rightarrow> process stacked \<Rightarrow> bool" where
  "stage sch h items k \<longleftrightarrow> sk_callbacks k = map (\<lambda>i. act sch (Close i)) items \<and> holds (items @ h) (sk_state k)"

lemma entering_stage:
  assumes "entering sch i k = (r, k')" and "stage sch h items k" and "i \<notin> set (items @ h)"
  shows "stage sch h (if r = Inr () then i # items else items) k'"
proof -
  obtain x p where a: "act sch (Open i) (sk_state k) = (x, p)" by fastforce
  have "holds (items @ h) (sk_state k)" using assms(2) by (simp add: stage_def)
  from act_open [OF a this assms(3)] assms(1,2) a show ?thesis
    by (cases x) (auto simp: entering_def thenE_def bindE_def inside_def callback_def writeE_def stage_def)
qed

lemma entering_cases:
  assumes "thenE (entering sch i) n k = (r, k')" and "stage sch h items k" and "i \<notin> set (items @ h)"
  obtains e where "r = Inl e" "stage sch h items k'"
  | k1 where "entering sch i k = (Inr (), k1)" "n k1 = (r, k')" "stage sch h (i # items) k1"
proof -
  obtain x k1 where e: "entering sch i k = (x, k1)" by fastforce
  from entering_stage [OF this assms(2,3)] assms(1) e that show thesis
    by (cases x) (auto simp: thenE_def bindE_def)
qed

lemma entering_then:
  assumes "thenE (entering sch i) n k = (r, k')" and "stage sch h items k" and "i \<notin> set (items @ h)"
    and "\<And>k1. n k1 = (r, k') \<Longrightarrow> stage sch h (i # items) k1 \<Longrightarrow> \<exists>items. stage sch h items k'"
  shows "\<exists>items. stage sch h items k'"
  using entering_cases [OF assms(1-3)] assms(4) by metis

lemma then_assoc: "thenE (thenE a b) c = thenE a (thenE b c)"
  by (auto simp: thenE_def bindE_def fun_eq_iff split: prod.split sum.split)

lemma then_return: "thenE (returnE ()) m = m"
  by (simp add: thenE_def bindE_def returnE_def fun_eq_iff)

lemma inside_stage:
  assumes "inside (act sch a) k = (r, k')" and "stage sch h items k" and "\<And>i. a \<noteq> Open i \<and> a \<noteq> Close i"
  shows "stage sch h items k'"
proof -
  obtain x p where x: "act sch a (sk_state k) = (x, p)" by fastforce
  from act_other [OF this _ assms(3)] assms(1,2) x show ?thesis
    by (auto simp: inside_def stage_def)
qed

lemma serve_once_holds:
  assumes run: "serve_once sch s p = (r, p')" and "holds h p" and h: "\<forall>i \<in> set h. \<exists>n. i = Handler n"
  shows "holds h p'"
proof -
  let ?t = "real (worker_block_ms s) / 1000 + 5"
  obtain x k where body: "thenE (build_worker sch s) (inside (act sch RunWorker)) \<lparr>sk_state = p, sk_callbacks = []\<rparr> = (x, k)"
    by fastforce
  have start: "stage sch h [] \<lparr>sk_state = p, sk_callbacks = []\<rparr>" using assms(2) by (simp add: stage_def)
  have free: "RedisClient t \<notin> set h" "Engine \<notin> set h" "ObjectClient \<notin> set h" for t
    using h by blast+
  have flat: "thenE (entering sch (RedisClient ?t)) (thenE (entering sch Engine) (thenE (entering sch ObjectClient)
      (thenE (inside (act sch LoadModels)) (inside (act sch RunWorker))))) \<lparr>sk_state = p, sk_callbacks = []\<rparr> = (x, k)"
    using body by (simp add: build_worker_def build_objects_def then_assoc)
  have last: "\<exists>items. stage sch h items k"
    if "thenE (inside (act sch LoadModels)) (inside (act sch RunWorker)) k3 = (x, k)" "stage sch h items k3" for k3 items
  proof -
    obtain y k4 where y: "inside (act sch LoadModels) k3 = (y, k4)" by fastforce
    from inside_stage [OF y that(2)] have k4: "stage sch h items k4" by simp
    show ?thesis
    proof (cases y)
      case (Inl e)
      with y that(1) k4 show ?thesis by (auto simp: thenE_def bindE_def)
    next
      case (Inr u)
      with y that(1) have "inside (act sch RunWorker) k4 = (x, k)" by (simp add: thenE_def bindE_def)
      from inside_stage [OF this k4] show ?thesis by auto
    qed
  qed
  have "\<exists>items. stage sch h items k"
    using flat start
  proof (rule entering_then)
    fix k1
    assume "thenE (entering sch Engine) (thenE (entering sch ObjectClient)
      (thenE (inside (act sch LoadModels)) (inside (act sch RunWorker)))) k1 = (x, k)"
      and "stage sch h [RedisClient ?t] k1"
    then show "\<exists>items. stage sch h items k"
    proof (rule entering_then)
      fix k2
      assume "thenE (entering sch ObjectClient)
        (thenE (inside (act sch LoadModels)) (inside (act sch RunWorker))) k2 = (x, k)"
        and "stage sch h [Engine, RedisClient ?t] k2"
      then show "\<exists>items. stage sch h items k"
        by (rule entering_then) (use free last in auto)
    qed (use free in auto)
  qed (use free in auto)
  then obtain items where "stage sch h items k" by blast
  with run body show ?thesis
    by (auto simp: serve_once_def with_stack_def stage_def intro: unwind_holds)
qed

lemma serve_loop_holds:
  assumes "serve_loop sch s n p = (r, p')" and "holds h p" and "\<forall>i \<in> set h. \<exists>n. i = Handler n"
  shows "holds h p'"
  using assms(1,2)
proof (induction n arbitrary: p)
  case (Suc n)
  show ?case
  proof (cases "pc_stopping p")
    case True
    with Suc.prems show ?thesis by simp
  next
    case False
    obtain x q where q: "serve_once sch s p = (x, q)" by fastforce
    have hq: "holds h q" by (rule serve_once_holds [OF q Suc.prems(2) assms(3)])
    show ?thesis
    proof (cases "\<exists>e. x = Inl e \<and> transient e")
      case True
      let ?t = "min (worker_reclaim_seconds s) 5"
      obtain y q' where y: "act sch (Pause ?t) q = (y, q')" by fastforce
      then have "holds h q'" using hq by (rule act_other) simp
      moreover have "serve_loop sch s n q' = (r, p')"
        using True False Suc.prems(1) q y by (auto simp: wait_for_def thenE_def bindE_def)
      ultimately show ?thesis using Suc.IH by blast
    next
      case other: False
      with False Suc.prems(1) q hq show ?thesis by (cases x) (auto split: if_splits)
    qed
  qed
qed simp

text \<open>What is left to say when the loop goes on.\<close>

definition pauses :: "process \<Rightarrow> nat" where
  "pauses p = length (filter (\<lambda>(a, ok). case a of Pause t \<Rightarrow> True | _ \<Rightarrow> False) (pc_log p))"


lemma keeps_inside: "keeps P m \<Longrightarrow> keeps (\<lambda>k. P (sk_state k) \<and> C (sk_callbacks k)) (inside m)"
  by (force simp: keeps_def inside_def split: prod.split)

lemma keeps_unwind: "\<forall>cb \<in> set cbs. keeps P cb \<Longrightarrow> keeps P (unwind cbs r)"
proof (induction cbs arbitrary: r)
  case (Cons cb cbs)
  then have "P s \<Longrightarrow> P (snd (cb s))" for s by (simp add: keeps_def)
  with Cons show ?case
    by (auto simp: keeps_def split: prod.split sum.split) (metis snd_conv)+
qed (simp add: keeps_def)

lemma keeps_once:
  assumes step: "\<And>a. (\<And>t. a \<noteq> Pause t) \<Longrightarrow> keeps P (act sch a)"
  shows "keeps P (serve_once sch s)"
proof -
  let ?Q = "\<lambda>k. P (sk_state k) \<and> (\<forall>cb \<in> set (sk_callbacks k). keeps P cb)"
  have ins: "keeps ?Q (inside (act sch a))" if "\<And>t. a \<noteq> Pause t" for a
    by (rule keeps_inside [where C = "\<lambda>cs. \<forall>cb \<in> set cs. keeps P cb"]) (rule step [OF that])
  have enter: "keeps ?Q (entering sch i)" for i
  proof -
    have "keeps ?Q (callback (act sch (Close i)))"
      using step [of "Close i"] by (simp add: callback_def keeps_def writeE_def)
    with ins [of "Open i"] show ?thesis unfolding entering_def by (intro keeps_then) auto
  qed
  have all: "keeps ?Q (thenE (build_worker sch s) (inside (act sch RunWorker)))"
    unfolding build_worker_def build_objects_def by (intro keeps_then enter ins) auto
  then have "?Q (snd (thenE (build_worker sch s) (inside (act sch RunWorker)) \<lparr>sk_state = p, sk_callbacks = []\<rparr>))"
    if "P p" for p
  proof -
    have "?Q \<lparr>sk_state = p, sk_callbacks = []\<rparr>" using that by simp
    with all show ?thesis unfolding keeps_def by blast
  qed
  then show ?thesis
    unfolding keeps_def with_stack_def serve_once_def
    by (auto split: prod.split) (metis keeps_def keeps_unwind snd_conv)
qed

definition sane :: "process \<Rightarrow> bool" where
  "sane p \<longleftrightarrow> (pc_gone p \<longrightarrow> pc_stopping p)"

lemma act_sane: "keeps sane (act sch a)"
  using gone_stopping by (auto simp: keeps_def sane_def act_def act_with_def split: prod.split)

lemma act_pauses:
  assumes "\<And>t. a \<noteq> Pause t"
  shows "keeps (\<lambda>p. sane p \<and> pauses p = c) (act sch a)"
proof -
  have "pauses p' = pauses p" if "act sch a p = (r, p')" for r p p'
    using that assms by (cases rule: act_cases) (auto simp: pauses_def split: life.split)
  with act_sane [of sch a] show ?thesis
    by (auto simp: keeps_def) (metis prod.collapse)
qed

lemma loop_goes_on:
  assumes "serve_loop sch s n p = (Inr False, p')" and "sane p"
  shows "\<not> pc_stopping p' \<and> \<not> pc_gone p' \<and> pauses p' = pauses p + n"
  using assms
proof (induction n arbitrary: p)
  case 0
  then show ?case by (auto simp: sane_def)
next
  case (Suc n)
  obtain x q where q: "serve_once sch s p = (x, q)" by fastforce
  have "keeps (\<lambda>p'. sane p' \<and> pauses p' = pauses p) (serve_once sch s)"
    by (rule keeps_once) (rule act_pauses)
  with Suc.prems(2) have q_ok: "sane q" "pauses q = pauses p"
    unfolding keeps_def using q by (metis snd_conv)+
  let ?t = "min (worker_reclaim_seconds s) 5"
  obtain y q' where y: "act sch (Pause ?t) q = (y, q')" by fastforce
  have loop: "serve_loop sch s n q' = (Inr False, p')"
    using Suc.prems(1) q y by (auto simp: wait_for_def thenE_def bindE_def split: if_splits sum.splits)
  have "sane q'" using act_sane [of sch "Pause ?t"] q_ok(1) y keepsD by metis
  from Suc.IH [OF loop this] have IH: "\<not> pc_stopping p'" "\<not> pc_gone p'" "pauses p' = pauses q' + n" by blast+
  from y show ?case
  proof (cases rule: act_cases)
    case 1
    then have "pc_stopping q'" using q_ok(1) by (simp add: sane_def)
    then have "p' = q'" using loop by (cases n) auto
    with IH \<open>pc_stopping q'\<close> show ?thesis by simp
  next
    case 2
    then have "pauses q' = pauses q + 1" by (simp add: pauses_def)
    with IH q_ok(2) show ?thesis by simp
  qed
qed


lemma serve_stage:
  assumes run: "thenE (install_signals sch) (inside (serve_loop sch s n)) \<lparr>sk_state = p, sk_callbacks = []\<rparr> = (r, k)"
    and p: "holds [] p" "sane p"
  shows "(\<exists>items. stage sch [] items k) \<and> (r = Inr False \<longrightarrow> \<not> pc_stopping (sk_state k)
    \<and> held (sk_state k) = Some [Handler sigint, Handler sigterm] \<and> pauses (sk_state k) = pauses p + n)"
proof -
  let ?Q = "\<lambda>k. sane (sk_state k) \<and> pauses (sk_state k) = pauses p"
  have keep: "keeps ?Q (entering sch i)" for i
  proof -
    have "keeps ?Q (inside (act sch (Open i)))"
      using keeps_inside [OF act_pauses, of "Open i" "pauses p" "\<lambda>_. True" sch] by simp
    then show ?thesis
      unfolding entering_def callback_def by (intro keeps_then keeps_write) simp_all
  qed
  have flat: "thenE (entering sch (Handler sigterm)) (thenE (entering sch (Handler sigint))
      (inside (serve_loop sch s n))) \<lparr>sk_state = p, sk_callbacks = []\<rparr> = (r, k)"
    using run by (simp add: install_signals_def then_assoc then_return)
  have start: "stage sch [] [] \<lparr>sk_state = p, sk_callbacks = []\<rparr>" using p(1) by (simp add: stage_def)
  have apart: "Handler sigint \<notin> set ([Handler sigterm] @ [])" by (simp add: sigint_def sigterm_def)
  show ?thesis
  proof (rule entering_cases [OF flat start])
    fix k1
    assume k1: "entering sch (Handler sigterm) \<lparr>sk_state = p, sk_callbacks = []\<rparr> = (Inr (), k1)"
      "thenE (entering sch (Handler sigint)) (inside (serve_loop sch s n)) k1 = (r, k)"
      "stage sch [] [Handler sigterm] k1"
    have q1: "?Q k1" using keepsD [OF keep k1(1)] p(2) by simp
    show ?thesis
    proof (rule entering_cases [OF k1(2,3) apart])
      fix k2
      assume k2: "entering sch (Handler sigint) k1 = (Inr (), k2)" "inside (serve_loop sch s n) k2 = (r, k)"
        "stage sch [] [Handler sigint, Handler sigterm] k2"
      have q2: "?Q k2" using keepsD [OF keep k2(1) q1] .
      obtain p' where loop: "serve_loop sch s n (sk_state k2) = (r, p')" and k: "k = k2\<lparr>sk_state := p'\<rparr>"
        using k2(2) by (auto simp: inside_def split: prod.splits)
      have "holds [Handler sigint, Handler sigterm] (sk_state k2)" using k2(3) by (simp add: stage_def)
      then have h: "holds [Handler sigint, Handler sigterm] p'" by (rule serve_loop_holds [OF loop]) auto
      then have "stage sch [] [Handler sigint, Handler sigterm] k" using k2(3) k by (simp add: stage_def)
      moreover have "\<not> pc_stopping p' \<and> held p' = Some [Handler sigint, Handler sigterm] \<and> pauses p' = pauses p + n"
        if "r = Inr False"
        using loop_goes_on [OF loop [unfolded that]] q2 h by (auto simp: holds_def)
      ultimately show ?thesis using k by auto
    qed auto
  qed (auto)
qed

lemma new_process_fresh: "holds [] new_process" "sane new_process" "pauses new_process = 0"
  by (simp_all add: holds_def held_def new_process_def sane_def pauses_def)

section \<open>Properties\<close>

text \<open>
  C23: whatever fails and whenever stop signals arrive, the worker process releases what it opened.
  When \<open>serve\<close> ends, by a signal or by an error that is not transient, every client is closed and
  every signal handler is restored, in reverse order and with at most one client of a kind open
  at any time, unless a second signal ended the process. While it does not end, no signal has
  arrived, every attempt so far failed with a transient error and was followed by one pause,
  and between attempts only the signal handlers are held.
\<close>

theorem serve_releases_clients:
  "case serve sch s n new_process of
     (None, p) \<Rightarrow> \<not> pc_stopping p \<and> pauses p = n \<and> held p = Some [Handler sigint, Handler sigterm]
   | (Some r, p) \<Rightarrow> pc_gone p \<or> held p = Some []"
proof -
  obtain r k where run: "thenE (install_signals sch) (inside (serve_loop sch s n))
      \<lparr>sk_state = new_process, sk_callbacks = []\<rparr> = (r, k)" by fastforce
  note stage = serve_stage [OF run new_process_fresh(1,2), unfolded new_process_fresh(3)]
  obtain items where items: "stage sch [] items k" using stage by blast
  obtain x p where un: "unwind (sk_callbacks k) r (sk_state k) = (x, p)" by fastforce
  from un items have "holds [] p" by (auto simp: stage_def intro: unwind_holds)
  moreover have "serve sch s n new_process = (if r = Inr False then (None, sk_state k)
      else (Some (map_sum id (\<lambda>_. ()) x), p))"
    using run un by (cases x) (auto simp: serve_def split: sum.splits bool.splits)
  ultimately show ?thesis using stage by (auto simp: holds_def)
qed


text \<open>
  The clean-up of \<open>create_resources\<close> covers only the construction of the dataclass: when the S3 or
  the Redis client cannot be made, the engine made before it is left open.
\<close>

lemma failed_start_leaves_engine:
  "\<exists>sch. fst (create_resources (Inr ()) sch new_process) = Inl (ValueError ''endpoint'')
     \<and> held (snd (create_resources (Inr ()) sch new_process)) = Some [Engine]"
  by (rule exI [of _ "\<lambda>log. (if length log = 1 then Some (ValueError ''endpoint'') else None, 0)"])
    (simp add: create_resources_def thenE_def bindE_def serving_def act_with_def held_def new_process_def)

lemma started_resources_close:
  assumes "\<And>log. fst (sch log) = None" and "create_resources (Inr ()) sch p = (Inr r, p')" and "holds [] p"
  shows "holds [] (snd (close_resources sch r p'))"
proof -
  have ok: "fst (serving sch a q) = Inr ()" for a q
    using assms(1) by (auto simp: serving_def act_with_def split: prod.split) (metis fst_conv option.simps(4))
  have step: "serving sch a q = (Inr (), snd (serving sch a q))" for a q
    using ok [of a q] by (metis prod.collapse)
  have distinct: "Engine \<noteq> ObjectClient" "ingest_redis \<noteq> Engine" "ingest_redis \<noteq> ObjectClient"
    by (simp_all add: ingest_redis_def)
  let ?p1 = "snd (serving sch (Open Engine) p)"
  let ?p2 = "snd (serving sch (Open ObjectClient) ?p1)"
  let ?p3 = "snd (serving sch (Open ingest_redis) ?p2)"
  have open1: "holds [Engine] ?p1" using serving_open [OF step assms(3), of Engine] by simp
  have open2: "holds [ObjectClient, Engine] ?p2" using serving_open [OF step open1, of ObjectClient] distinct by simp
  have open3: "holds [ingest_redis, ObjectClient, Engine] ?p3"
    using serving_open [OF step open2, of ingest_redis] distinct by simp
  have seq: "thenE (serving sch a) m q = m (snd (serving sch a q))" for a q and m :: "(process, 'z) proc"
    using step [of a q] by (auto simp: thenE_def bindE_def split: prod.split sum.split)
  have lifted: "thenE (liftE (Inr ())) m q = m q" for q and m :: "(process, 'z) proc"
    by (simp add: thenE_def bindE_def liftE_def)
  have p': "p' = ?p3" and r: "rs_open r = [ingest_redis, ObjectClient, Engine]"
    using assms(2) by (auto simp: create_resources_def seq lifted Let_def returnE_def tryE_def)
  let ?q1 = "snd (serving sch (Close ingest_redis) ?p3)"
  let ?q2 = "snd (serving sch (Close ObjectClient) ?q1)"
  have "holds [ObjectClient, Engine] ?q1" by (rule serving_close [OF step open3])
  then have "holds [Engine] ?q2" by (rule serving_close [OF step])
  then have "holds [] (snd (serving sch (Close Engine) ?q2))" by (rule serving_close [OF step])
  then show ?thesis by (simp add: close_resources_def r p' seq returnE_def)
qed

end
