(* ===== verification/Applications.thy ===== *)
theory Applications
  imports Lifecycle
begin

text \<open>
  The lifespans of the three HTTP applications (\<open>create_app\<close> of ingest and gateway, \<open>lifespan\<close> of
  query): what each process opens before it serves and closes when it stops. The body is what
  happens between start and stop. The server handles the signals; the outcomes of
  \<open>configure\<close>, of \<open>get_settings\<close> and of reading the development key set are arguments.
\<close>

section \<open>Managed clients\<close>

definition managed :: "schedule \<Rightarrow> held_item \<Rightarrow> (process, 'a) proc \<Rightarrow> (process, 'a) proc" where
  \<comment> \<open>\<open>async with client\<close>\<close>
  "managed sch i body = thenE (serving sch (Open i)) (and_finally body (serving sch (Close i)))"

definition ingest_lifespan ::
  "resources option \<Rightarrow> unit result \<Rightarrow> unit result \<Rightarrow> unit result \<Rightarrow> schedule \<Rightarrow> (process, 'a) proc \<Rightarrow> (process, 'a) proc" where
  \<comment> \<open>resources that are supplied are not closed\<close>
  "ingest_lifespan supplied configured settings built sch body =
     thenE (liftE configured) (thenE (liftE settings)
       (case supplied of
          Some r \<Rightarrow> body
        | None \<Rightarrow> bindE (create_resources built sch) (\<lambda>r. and_finally body (close_resources sch r))))"

definition open_runtime :: "schedule \<Rightarrow> (process, unit) proc" where
  \<comment> \<open>\<open>Runtime.__init__\<close>: the engine and the HTTP client; the ledger and the embedder hold nothing yet\<close>
  "open_runtime sch = thenE (serving sch (Open Engine)) (serving sch (Open (HttpClient 0)))"

definition close_runtime :: "schedule \<Rightarrow> (process, unit) proc" where
  \<comment> \<open>\<open>Runtime.close\<close>\<close>
  "close_runtime sch = thenE (serving sch (Close (HttpClient 0))) (serving sch (Close Engine))"

definition query_lifespan :: "unit result \<Rightarrow> unit result \<Rightarrow> schedule \<Rightarrow> (process, 'a) proc \<Rightarrow> (process, 'a) proc" where
  "query_lifespan configured settings sch body =
     thenE (liftE configured) (thenE (liftE settings)
       (thenE (open_runtime sch) (and_finally body (close_runtime sch))))"

definition gateway_clients :: "real \<Rightarrow> schedule \<Rightarrow> (process, 'a) proc \<Rightarrow> (process, 'a) proc" where
  \<comment> \<open>the clients of the upstreams, of the identity provider and of Redis, with its timeout\<close>
  "gateway_clients timeout sch body =
     managed sch (HttpClient 0) (managed sch (HttpClient 1) (managed sch (RedisClient timeout) body))"

definition gateway_lifespan ::
  "bool \<Rightarrow> real result \<Rightarrow> unit result \<Rightarrow> 'j result \<Rightarrow> schedule \<Rightarrow> ('j \<Rightarrow> (process, 'a) proc) \<Rightarrow> (process, 'a) proc" where
  \<comment> \<open>\<open>settings\<close> gives the Redis timeout; \<open>jwks\<close> is what \<open>configure_runtime\<close> makes of the key set\<close>
  "gateway_lifespan supplied settings configured jwks sch body =
     (let inner = thenE (liftE configured) (bindE (liftE jwks) body)
      in if supplied then inner
         else bindE (liftE settings) (\<lambda>timeout. gateway_clients timeout sch inner))"

section \<open>What a lifespan leaves open\<close>

definition balanced :: "held_item list \<Rightarrow> (process, 'a) proc \<Rightarrow> bool" where
  \<comment> \<open>an operation under which what is open stays open, and nothing else\<close>
  "balanced h m \<longleftrightarrow> (\<forall>p. holds h p \<longrightarrow> holds h (snd (m p)))"

lemma balancedD: "balanced h m \<Longrightarrow> m p = (r, p') \<Longrightarrow> holds h p \<Longrightarrow> holds h p'"
  unfolding balanced_def by (metis snd_conv)

lemma balanced_lift: "balanced h (liftE r)"
  by (simp add: balanced_def liftE_def)

lemma balanced_bind:
  assumes "balanced h m" and "\<And>a. balanced h (f a)"
  shows "balanced h (bindE m f)"
  using assms by (force simp: balanced_def bindE_def split: prod.split sum.split)

lemma balanced_then: "balanced h m \<Longrightarrow> balanced h n \<Longrightarrow> balanced h (thenE m n)"
  unfolding thenE_def by (rule balanced_bind)

lemma finally_cases:
  assumes "and_finally m f p = (r, p')"
  obtains r1 p1 r2 where "m p = (r1, p1)" "f p1 = (r2, p')"
  using assms by (auto simp: and_finally_def split: prod.splits sum.splits)

lemma open_cases:
  assumes "thenE (serving sch (Open i)) n p = (r, p')" and "holds h p" and "i \<notin> set h"
  obtains e where "r = Inl e" "holds h p'" | p1 where "n p1 = (r, p')" "holds (i # h) p1"
proof -
  obtain x p1 where x: "serving sch (Open i) p = (x, p1)" by fastforce
  from serving_open [OF this assms(2,3)] assms(1) x that show thesis
    by (cases x) (auto simp: thenE_def bindE_def)
qed

lemma managed_balanced:
  assumes "balanced (i # h) body" and "i \<notin> set h"
  shows "balanced h (managed sch i body)"
proof (unfold balanced_def, intro allI impI)
  fix p
  assume h: "holds h p"
  obtain r p' where run: "managed sch i body p = (r, p')" by fastforce
  from run [unfolded managed_def] h assms(2) show "holds h (snd (managed sch i body p))"
  proof (cases rule: open_cases)
    case (2 p1)
    from 2(1) obtain r1 p2 r2 where "body p1 = (r1, p2)" and c: "serving sch (Close i) p2 = (r2, p')"
      by (rule finally_cases)
    with assms(1) 2(2) have "holds (i # h) p2" by (metis balancedD)
    from serving_close [OF c this] run show ?thesis by simp
  qed (use run in simp)
qed

theorem gateway_releases_clients:
  assumes "\<And>j. balanced [RedisClient timeout, HttpClient 1, HttpClient 0] (body j)"
  shows "balanced [] (gateway_lifespan False (Inr timeout) configured jwks sch body)"
proof -
  let ?inner = "thenE (liftE configured) (bindE (liftE jwks) body)"
  have "balanced [RedisClient timeout, HttpClient 1, HttpClient 0] ?inner"
    by (intro balanced_then balanced_bind balanced_lift assms)
  then have "balanced [] (gateway_clients timeout sch ?inner)"
    unfolding gateway_clients_def by (intro managed_balanced) simp_all
  then show ?thesis by (simp add: gateway_lifespan_def Let_def bindE_def [of "liftE (Inr timeout)"] liftE_def [of "Inr timeout"] balanced_def)
qed

text \<open>
  The ingest and query processes close their clients in a plain sequence: a client that cannot be
  closed leaves the ones after it open, and one that cannot be opened those before it.
\<close>

definition refused :: "process \<Rightarrow> bool" where
  "refused p \<longleftrightarrow> (\<exists>i. (Open i, False) \<in> set (pc_log p) \<or> (Close i, False) \<in> set (pc_log p))"

lemma serving_failed: "serving sch a p = (Inl e, p') \<Longrightarrow> (a, False) \<in> set (pc_log p')"
  unfolding serving_def by (erule server_signals.cases) auto

lemma close_all:
  assumes "forE (\<lambda>i. serving sch (Close i)) items p = (r, p')" and "holds (items @ h) p"
  shows "holds h p' \<or> refused p'"
  using assms
proof (induction items arbitrary: p)
  case (Cons i items)
  obtain x q where q: "serving sch (Close i) p = (x, q)" by fastforce
  have h: "holds (items @ h) q" using serving_close [OF q] Cons.prems(2) by simp
  show ?case
  proof (cases x)
    case (Inl e)
    with Cons.prems(1) q have "p' = q" by (auto simp: thenE_def bindE_def)
    with serving_failed [OF q [unfolded Inl]] show ?thesis by (auto simp: refused_def)
  next
    case (Inr u)
    with Cons.prems(1) q have "forE (\<lambda>i. serving sch (Close i)) items q = (r, p')" by (simp add: thenE_def bindE_def)
    from Cons.IH [OF this h] show ?thesis .
  qed
qed (simp add: returnE_def)

lemma open_all:
  assumes "thenE (forE (\<lambda>i. serving sch (Open i)) items) n p = (r, p')" and "holds h p" and "distinct (rev items @ h)"
  shows "refused p' \<or> (\<exists>p1. n p1 = (r, p') \<and> holds (rev items @ h) p1)"
  using assms
proof (induction items arbitrary: p h)
  case Nil
  then show ?case by (auto simp: then_return)
next
  case (Cons i items)
  have run: "thenE (serving sch (Open i)) (thenE (forE (\<lambda>i. serving sch (Open i)) items) n) p = (r, p')"
    using Cons.prems(1) by (simp add: then_assoc)
  obtain x q where q: "serving sch (Open i) p = (x, q)" by fastforce
  show ?case
  proof (cases x)
    case (Inl e)
    with run q have "p' = q" by (auto simp: thenE_def bindE_def)
    with serving_failed [OF q [unfolded Inl]] show ?thesis by (auto simp: refused_def)
  next
    case (Inr u)
    have h: "holds (i # h) q" using serving_open [OF q Cons.prems(2)] Cons.prems(3) Inr by simp
    have "thenE (forE (\<lambda>i. serving sch (Open i)) items) n q = (r, p')"
      using run q Inr by (simp add: thenE_def bindE_def)
    from Cons.IH [OF this h] Cons.prems(3) show ?thesis by simp
  qed
qed

lemma finally_closes:
  assumes "and_finally body (forE (\<lambda>i. serving sch (Close i)) items) p = (r, p')" and "holds items p" and "balanced items body"
  shows "holds [] p' \<or> refused p'"
  using assms(1)
proof (rule finally_cases)
  fix r1 p1 r2
  assume b: "body p = (r1, p1)" and c: "forE (\<lambda>i. serving sch (Close i)) items p1 = (r2, p')"
  have "holds (items @ []) p1" using balancedD [OF assms(3) b assms(2)] by simp
  from close_all [OF c this] show ?thesis .
qed

lemma then_unit: "thenE m (returnE ()) = m"
  by (auto simp: thenE_def bindE_def returnE_def fun_eq_iff split: prod.split sum.split)

theorem query_releases_clients:
  assumes "query_lifespan (Inr ()) (Inr ()) sch body p = (r, p')" and "holds [] p" and "balanced [HttpClient 0, Engine] body"
  shows "holds [] p' \<or> refused p'"
proof -
  let ?fin = "and_finally body (forE (\<lambda>i. serving sch (Close i)) [HttpClient 0, Engine])"
  have "thenE (forE (\<lambda>i. serving sch (Open i)) [Engine, HttpClient 0]) ?fin p = (r, p')"
    using assms(1) by (simp add: query_lifespan_def open_runtime_def close_runtime_def then_unit
        thenE_def [of "liftE (Inr ())"] bindE_def [of "liftE (Inr ())"] liftE_def)
  from open_all [OF this assms(2)] obtain p1 where "refused p' \<or> ?fin p1 = (r, p') \<and> holds [HttpClient 0, Engine] p1"
    by auto
  with finally_closes [OF _ _ assms(3)] show ?thesis by blast
qed

theorem ingest_releases_clients:
  assumes "ingest_lifespan None (Inr ()) (Inr ()) built sch body p = (r, p')" and "holds [] p"
    and "balanced [ingest_redis, ObjectClient, Engine] body"
  shows "holds [] p' \<or> refused p'"
proof -
  let ?items = "[ingest_redis, ObjectClient, Engine]"
  let ?r = "\<lparr>rs_open = ?items\<rparr>"
  let ?made = "tryE (thenE (liftE built) (returnE ?r)) (\<lambda>e. thenE (close_resources sch ?r) (raiseE e))"
  let ?rest = "bindE ?made (\<lambda>r. and_finally body (close_resources sch r))"
  have assoc: "bindE (thenE a b) f = thenE a (bindE b f)" for a :: "(process, unit) proc" and b :: "(process, 'b) proc"
    and f :: "'b \<Rightarrow> (process, 'a) proc"
    by (auto simp: thenE_def bindE_def fun_eq_iff split: prod.split sum.split)
  have "thenE (forE (\<lambda>i. serving sch (Open i)) [Engine, ObjectClient, ingest_redis]) ?rest p = (r, p')"
    using assms(1) by (simp add: ingest_lifespan_def create_resources_def Let_def assoc then_assoc then_return
        thenE_def [of "liftE (Inr ())"] bindE_def [of "liftE (Inr ())"] liftE_def [of "Inr ()"])
  from open_all [OF this assms(2)] have "refused p' \<or> (\<exists>p1. ?rest p1 = (r, p') \<and> holds ?items p1)"
    by (simp add: ingest_redis_def)
  then show ?thesis
  proof
    assume "\<exists>p1. ?rest p1 = (r, p') \<and> holds ?items p1"
    then obtain p1 where rest: "?rest p1 = (r, p')" and h: "holds ?items p1" by blast
    show ?thesis
    proof (cases built)
      case (Inr u)
      with rest have "and_finally body (forE (\<lambda>i. serving sch (Close i)) ?items) p1 = (r, p')"
        by (simp add: tryE_def thenE_def bindE_def liftE_def returnE_def close_resources_def)
      then show ?thesis using h assms(3) by (rule finally_closes)
    next
      case (Inl e)
      obtain x q where c: "forE (\<lambda>i. serving sch (Close i)) ?items p1 = (x, q)" by fastforce
      have "p' = q" using rest Inl c
        by (cases x) (auto simp: tryE_def thenE_def bindE_def liftE_def raiseE_def close_resources_def)
      with close_all [OF c, of "[]"] h show ?thesis by simp
    qed
  qed simp
qed

end
