(* ===== verification/Telemetry.thy ===== *)
theory Telemetry
  imports Worker Gateway
begin

text \<open>
  \<open>packages/observability\<close>: stages, the request middleware, header filtering and the one-time
  configuration, with the recording observer of \<open>testing/telemetry.py\<close>. Spans and measurements
  are lists; exporters only send them on. Readings of \<open>perf_counter()\<close> are \<open>clock n\<close> for the
  \<open>n\<close>-th reading. The promise of \<open>contracts/telemetry.py\<close>, that observing an operation leaves its
  result and its errors unchanged, is the locale \<open>stage_observer\<close>.
\<close>

section \<open>Stages\<close>

datatype attribute = Text ustr | Number nat

record trace_span =
  sn_name :: ustr
  sn_remote :: "ustr option" \<comment> \<open>the remote trace context of a request; a stage continues the ambient one\<close>
  sn_attributes :: "(string \<times> attribute) list"
  sn_failed :: bool

record telemetry =
  tm_service :: ustr
  tm_ticks :: nat
  tm_spans :: "trace_span list"
  tm_stages :: "(real \<times> string \<times> ustr) list" \<comment> \<open>duration, stage, service\<close>
  tm_documents :: "string list"
  tm_requests :: "(real \<times> ustr \<times> ustr) list" \<comment> \<open>duration, route, status\<close>

definition new_telemetry :: "ustr \<Rightarrow> telemetry" where
  "new_telemetry service = \<lparr>tm_service = service, tm_ticks = 0, tm_spans = [], tm_stages = [],
     tm_documents = [], tm_requests = []\<rparr>"

definition next_reading :: "telemetry \<Rightarrow> telemetry" where
  "next_reading t = t\<lparr>tm_ticks := tm_ticks t + 1\<rparr>"

definition close_stage :: "(nat \<Rightarrow> real) \<Rightarrow> string \<Rightarrow> real \<Rightarrow> exn option \<Rightarrow> telemetry \<Rightarrow> telemetry" where
  \<comment> \<open>the \<open>except\<close> and \<open>finally\<close> blocks of \<open>stage\<close>, and the end of the span\<close>
  "close_stage clock name started failure t =
     (let measured = t\<lparr>tm_stages := tm_stages t @ [(clock (tm_ticks t) - started, name, tm_service t)]\<rparr>;
          counted = (if name = ''process''
            then measured\<lparr>tm_documents := tm_documents measured
              @ [if failure = None then ''processed'' else ''failed'']\<rparr> else measured)
      in next_reading (counted\<lparr>tm_spans := tm_spans counted @
           [\<lparr>sn_name = ascii name, sn_remote = None,
             sn_attributes = (case failure of None \<Rightarrow> [] | Some e \<Rightarrow> [(''error.type'', Text (exn_name e))]),
             sn_failed = (failure \<noteq> None)\<rparr>]\<rparr>))"

definition failure_of :: "'a result \<Rightarrow> exn option" where
  "failure_of r = (case r of Inl e \<Rightarrow> Some e | Inr _ \<Rightarrow> None)"

definition telemetry_stage :: "(nat \<Rightarrow> real) \<Rightarrow> string \<Rightarrow> ('s, 'a) proc \<Rightarrow> ('s \<times> telemetry, 'a) proc" where
  \<comment> \<open>\<open>Telemetry.stage\<close> around a block\<close>
  "telemetry_stage clock name body =
     (\<lambda>(s, t). let started = clock (tm_ticks t); (r, s') = body s
        in (r, s', close_stage clock name started (failure_of r) (next_reading t)))"

definition fake_stage :: "string \<Rightarrow> ('s, 'a) proc \<Rightarrow> ('s \<times> (string \<times> string) list, 'a) proc" where
  \<comment> \<open>\<open>FakeStageObserver.stage\<close>\<close>
  "fake_stage name body =
     (\<lambda>(s, completed). let (r, s') = body s
        in (r, s', completed @ [(name, if failure_of r = None then ''processed'' else ''failed'')]))"

locale stage_observer =
  fixes stage :: "string \<Rightarrow> ('s, unit) proc \<Rightarrow> ('s \<times> 'o, unit) proc"
  assumes same_result: "fst (stage name body (s, obs)) = fst (body s)"
    and same_state: "fst (snd (stage name body (s, obs))) = snd (body s)"
begin

lemma transparent: "\<exists>obs'. stage name body (s, obs) = (fst (body s), snd (body s), obs')"
  using same_result same_state by (metis prod.collapse)

lemma stages_transparent:
  "\<exists>obs'. forE (\<lambda>(name, body). stage name body) steps (s, obs)
     = (fst (forE snd steps s), snd (forE snd steps s), obs')"
proof (induction steps arbitrary: s obs)
  case (Cons x steps)
  obtain name body where x: "x = (name, body)" by (cases x)
  obtain obs1 where "stage name body (s, obs) = (fst (body s), snd (body s), obs1)"
    using transparent by blast
  with Cons.IH [of "snd (body s)" obs1] show ?case
    by (cases "body s") (auto simp: x thenE_def bindE_def split: sum.split)
qed (simp add: returnE_def)

end

interpretation telemetry: stage_observer "telemetry_stage clock" for clock
  by unfold_locales (simp_all add: telemetry_stage_def Let_def split: prod.split)

interpretation fake_observer: stage_observer fake_stage
  by unfold_locales (simp_all add: fake_stage_def Let_def split: prod.split)

section \<open>Trace headers\<close>

definition dict_of :: "('k \<times> 'v) list \<Rightarrow> ('k \<times> 'v) list" where
  \<comment> \<open>a dict comprehension: a repeated key keeps its first place and takes its last value\<close>
  "dict_of xs = foldl (\<lambda>d (k, v). AList.update k v d) [] xs"

definition carrier :: "(string \<times> ustr) list \<Rightarrow> (string \<times> ustr) list" where
  \<comment> \<open>what \<open>extract\<close> hands to the propagator\<close>
  "carrier hs = dict_of (map (\<lambda>(k, v). (lower_name k, v))
     (filter (\<lambda>(k, v). lower_name k = ''traceparent'') hs))"

definition remote_parent :: "(string \<times> ustr) list \<Rightarrow> ustr option" where
  \<comment> \<open>the middleware's \<open>headers\<close>, then \<open>extract\<close>\<close>
  "remote_parent hs =
     map_of (carrier (dict_of (filter (\<lambda>(k, v). lower_name k = ''traceparent'') hs))) ''traceparent''"

section \<open>The request middleware\<close>

datatype asgi_message = ResponseStart nat | ResponseBody | OtherMessage string

record http_scope =
  hs_type :: string
  hs_path :: ustr \<comment> \<open>the raw path\<close>
  hs_headers :: "(string \<times> ustr) list"
  hs_route :: "ustr option" \<comment> \<open>the route template that dispatch leaves in the scope\<close>

type_synonym app_run = "asgi_message list \<times> exn option"
  \<comment> \<open>the messages an application sends, and the exception it ends with\<close>

fun sent_status :: "nat \<times> bool \<Rightarrow> asgi_message list \<Rightarrow> nat \<times> bool" where
  \<comment> \<open>\<open>status\<close> and \<open>sent\<close> after \<open>send_response\<close> of the messages\<close>
  "sent_status st [] = st"
| "sent_status st (m # ms) =
     sent_status (case m of ResponseStart n \<Rightarrow> (n, True) | _ \<Rightarrow> st) ms"

definition route_label :: "http_scope \<Rightarrow> ustr" where
  "route_label scope = (case hs_route scope of None \<Rightarrow> ascii ''unmatched'' | Some r \<Rightarrow> r)"

definition finish_request ::
  "(nat \<Rightarrow> real) \<Rightarrow> http_scope \<Rightarrow> trace_span \<Rightarrow> nat \<Rightarrow> real \<Rightarrow> telemetry \<Rightarrow> telemetry" where
  \<comment> \<open>\<open>_finish\<close>, and the end of the span\<close>
  "finish_request clock scope sp status started t =
     (let route = route_label scope;
          named = sp\<lparr>sn_name := route, sn_attributes := sn_attributes sp
            @ [(''http.route'', Text route), (''http.response.status_code'', Number status)],
            sn_failed := sn_failed sp \<or> 500 \<le> status\<rparr>
      in next_reading (t\<lparr>tm_requests := tm_requests t @ [(clock (tm_ticks t) - started, route, str_nat status)],
                 tm_spans := tm_spans t @ [named]\<rparr>))"

definition request_telemetry ::
  "(nat \<Rightarrow> real) \<Rightarrow> http_scope \<Rightarrow> app_run \<Rightarrow> telemetry \<Rightarrow> app_run \<times> telemetry" where
  \<comment> \<open>\<open>RequestTelemetry.__call__\<close>\<close>
  "request_telemetry clock scope outcome t =
     (if hs_type scope \<noteq> ''http'' then (outcome, t)
      else
        let started = clock (tm_ticks t);
            sp = \<lparr>sn_name = ascii ''http.request'', sn_remote = remote_parent (hs_headers scope),
              sn_attributes = [], sn_failed = False\<rparr>;
            (messages, failure) = outcome;
            (status, sent) = sent_status (500, False) messages
        in (outcome,
            (case failure of
               None \<Rightarrow> finish_request clock scope sp status started (next_reading t)
             | Some e \<Rightarrow> finish_request clock scope
                 (sp\<lparr>sn_failed := True, sn_attributes := [(''error.type'', Text (exn_name e))]\<rparr>)
                 (if sent then status else 500) started (next_reading t))))"

record asgi_app =
  as_instrumented :: bool
  as_middleware :: nat \<comment> \<open>how many \<open>RequestTelemetry\<close> layers the application has\<close>

definition instrument_app :: "asgi_app \<Rightarrow> asgi_app" where
  "instrument_app app =
     (if as_instrumented app then app
      else app\<lparr>as_middleware := as_middleware app + 1, as_instrumented := True\<rparr>)"

section \<open>Configuration\<close>

record otel_settings =
  ot_endpoint :: "ustr option"
  ot_service :: "ustr option"
  ot_timeout :: real
  ot_env :: ustr

definition blank_means_disabled :: "ustr option \<Rightarrow> ustr option" where
  "blank_means_disabled v = (case v of None \<Rightarrow> None | Some t \<Rightarrow> if strip t = [] then None else Some t)"

definition valid_otel :: "otel_settings \<Rightarrow> bool" where
  "valid_otel s \<longleftrightarrow> (case ot_service s of None \<Rightarrow> True | Some n \<Rightarrow> 1 \<le> length n \<and> length n \<le> 64)
     \<and> 0 < ot_timeout s \<and> ot_timeout s \<le> 60 \<and> 1 \<le> length (ot_env s) \<and> length (ot_env s) \<le> 64"

datatype providers =
    NoProviders ustr
  | Exporting ustr ustr ustr ustr real int
    \<comment> \<open>service, environment, trace URL, metric URL, timeout, flush timeout in milliseconds\<close>

record telemetry_runtime =
  rt_configured :: bool
  rt_current :: providers

definition initial_runtime :: telemetry_runtime where
  "initial_runtime = \<lparr>rt_configured = False, rt_current = NoProviders []\<rparr>"

definition exporting :: "ustr \<Rightarrow> ustr \<Rightarrow> otel_settings \<Rightarrow> providers" where
  "exporting service url s =
     (let endpoint = rstrip_slash url
      in Exporting service (ot_env s) (endpoint @ ascii ''/v1/traces'') (endpoint @ ascii ''/v1/metrics'')
           (ot_timeout s) \<lfloor>ot_timeout s * 1000\<rfloor>)"

definition configure :: "otel_settings result \<Rightarrow> ustr \<Rightarrow> (telemetry_runtime, unit) proc" where
  \<comment> \<open>the outcome of reading the environment is an argument\<close>
  "configure settings service_name rt =
     (if rt_configured rt then (Inr (), rt)
      else
        (case settings of
           Inl e \<Rightarrow> (Inl e, rt)
         | Inr s \<Rightarrow>
             (let service = (case ot_service s of Some n \<Rightarrow> if n = [] then service_name else n | None \<Rightarrow> service_name)
              in if strip service = [] \<or> 64 < length service
                 then (Inl (ValueError ''Service name must contain 1-64 characters''), rt)
                 else (Inr (), \<lparr>rt_configured = True,
                   rt_current = (case ot_endpoint s of None \<Rightarrow> NoProviders service
                     | Some url \<Rightarrow> exporting service url s)\<rparr>))))"

lemma configure_once:
  assumes "configure settings service rt = (Inr (), rt')"
  shows "configure settings' service' rt' = (Inr (), rt')"
  using assms by (auto simp: configure_def Let_def split: if_splits sum.splits)

lemma instrument_once: "instrument_app (instrument_app app) = instrument_app app"
  by (simp add: instrument_app_def)

section \<open>Properties\<close>

fun start_statuses :: "asgi_message list \<Rightarrow> nat list" where
  "start_statuses [] = []"
| "start_statuses (ResponseStart n # ms) = n # start_statuses ms"
| "start_statuses (m # ms) = start_statuses ms"

definition client_status :: "asgi_message list \<Rightarrow> nat" where
  \<comment> \<open>the status the client was sent last, or 500 when it was sent none\<close>
  "client_status ms = (if start_statuses ms = [] then 500 else List.last (start_statuses ms))"

lemma sent_status_starts:
  "sent_status st ms = (if start_statuses ms = [] then st else (List.last (start_statuses ms), True))"
  by (induction ms arbitrary: st rule: start_statuses.induct) auto

text \<open>
  The middleware observes and does not interfere. The messages of the application and the
  exception it ends with pass unchanged. An HTTP request adds exactly one span and one
  measurement, with the status the client was sent, or 500 when the application failed before
  the start line; the span is marked failed exactly when the application raised or the status
  is 500 or more. The labels depend on the route template and the status only, never on the
  raw path, and of the headers only \<open>traceparent\<close> is read. Other scopes add nothing.
\<close>

theorem requests_observed_once:
  "case request_telemetry clock scope (messages, failure) t of (outcome, t') \<Rightarrow>
     outcome = (messages, failure)
     \<and> t' = (if hs_type scope \<noteq> ''http'' then t
        else t\<lparr>tm_ticks := tm_ticks t + 2,
          tm_requests := tm_requests t @ [(clock (tm_ticks t + 1) - clock (tm_ticks t), route_label scope,
            str_nat (client_status messages))],
          tm_spans := tm_spans t @ [\<lparr>sn_name = route_label scope, sn_remote = remote_parent (hs_headers scope),
            sn_attributes = (case failure of None \<Rightarrow> [] | Some e \<Rightarrow> [(''error.type'', Text (exn_name e))])
              @ [(''http.route'', Text (route_label scope)),
                 (''http.response.status_code'', Number (client_status messages))],
            sn_failed = (failure \<noteq> None \<or> 500 \<le> client_status messages)\<rparr>]\<rparr>)"
proof (cases "hs_type scope = ''http''")
  case True
  then show ?thesis
    by (cases failure) (simp_all add: request_telemetry_def Let_def finish_request_def next_reading_def
        sent_status_starts client_status_def)
qed (simp add: request_telemetry_def)

end
