(* ===== verification/Fakes.thy ===== *)
theory Fakes
  imports Analysis QueryData
begin

text \<open>
  The deterministic providers of \<open>packages/testing\<close> (\<open>embedding.py\<close>, \<open>structure.py\<close>). What the
  pipeline needs of an embedder is the locale \<open>embedding_provider\<close>: one vector for each text,
  finite, not zero and of the declared dimension. Both fakes are interpretations, so a document
  embedded by one is always accepted by the store. The digests of \<open>hashlib\<close> are parameters.
\<close>

section \<open>Embedders\<close>

definition norm_of :: "real list \<Rightarrow> real" where
  "norm_of vs = sqrt (sum_list (map (\<lambda>v. v * v) vs))"

definition unit_vector :: "real list \<Rightarrow> real list" where
  \<comment> \<open>\<open>unit\<close>\<close>
  "unit_vector vs =
     (let n = norm_of vs
      in if n \<noteq> 0 then map (\<lambda>v. v / n) vs else 1 # replicate (length vs - 1) 0)"

fun big_endian_pairs :: "nat list \<Rightarrow> nat list" where
  \<comment> \<open>\<open>struct.unpack("!...H")\<close>\<close>
  "big_endian_pairs (hi # lo # rest) = (256 * hi + lo) # big_endian_pairs rest"
| "big_endian_pairs rest = []"

definition big_endian :: "nat list \<Rightarrow> nat" where
  \<comment> \<open>\<open>int.from_bytes\<close>\<close>
  "big_endian bytes = foldl (\<lambda>n b. 256 * n + b) 0 bytes"

record digests =
  dg_shake :: "ustr \<Rightarrow> nat \<Rightarrow> nat list" \<comment> \<open>\<open>shake_256\<close> of the encoded text, by output length\<close>
  dg_blake :: "ustr \<Rightarrow> nat list" \<comment> \<open>\<open>blake2b\<close> of the encoded word, eight bytes\<close>

definition digests_ok :: "digests \<Rightarrow> bool" where
  "digests_ok dg \<longleftrightarrow> (\<forall>t n. length (dg_shake dg t n) = n)"

definition hash_vector :: "digests \<Rightarrow> nat \<Rightarrow> ustr \<Rightarrow> real list" where
  "hash_vector dg dimension t =
     unit_vector (map (\<lambda>v. real v / (65535 / 2) - 1) (big_endian_pairs (dg_shake dg t (2 * dimension))))"

definition is_word_char :: "unicode \<Rightarrow> nat \<Rightarrow> bool" where
  \<comment> \<open>\<open>\w\<close>\<close>
  "is_word_char un c \<longleftrightarrow> un_word un c \<or> c = 95"

definition count_words :: "digests \<Rightarrow> nat \<Rightarrow> ustr list \<Rightarrow> real list" where
  "count_words dg dimension ws =
     foldl (\<lambda>counts w. let i = big_endian (dg_blake dg w) mod dimension in counts[i := counts ! i + 1])
       (replicate dimension 0) ws"

definition keyword_vector :: "unicode \<Rightarrow> digests \<Rightarrow> nat \<Rightarrow> ustr \<Rightarrow> real list" where
  "keyword_vector un dg dimension t =
     unit_vector (count_words dg dimension (find_runs (is_word_char un) (un_casefold un t)))"

definition deterministic_embedder :: "string \<Rightarrow> (ustr \<Rightarrow> real list) \<Rightarrow> nat \<Rightarrow> embedder" where
  "deterministic_embedder name vector dimension =
     \<lparr>em_passages = (\<lambda>texts. Inr (map (\<lambda>t. map Finite (vector t)) texts)),
      em_query = (\<lambda>t. Inr (map Finite (vector t))), em_dimension = dimension, em_model = name\<rparr>"

definition fake_embedder :: "digests \<Rightarrow> nat \<Rightarrow> embedder result" where
  "fake_embedder dg dimension =
     (if dimension < 1 then Inl (ValueError ''Embedding dimension must be positive'')
      else Inr (deterministic_embedder ''fake/hash'' (hash_vector dg dimension) dimension))"

definition keyword_embedder :: "unicode \<Rightarrow> digests \<Rightarrow> nat \<Rightarrow> embedder result" where
  "keyword_embedder un dg dimension =
     (if dimension < 1 then Inl (ValueError ''Embedding dimension must be positive'')
      else Inr (deterministic_embedder ''baseline/keywords'' (keyword_vector un dg dimension) dimension))"

section \<open>Language, names and words\<close>

record fake_detector =
  fd_language :: string
  fd_confidence :: real

definition fake_detect :: "fake_detector \<Rightarrow> ustr \<Rightarrow> language_guess" where
  "fake_detect d t =
     (if strip t \<noteq> [] then \<lparr>lg_language = fd_language d, lg_confidence = fd_confidence d\<rparr>
      else \<lparr>lg_language = ''und'', lg_confidence = 0\<rparr>)"

function find_all :: "ustr \<Rightarrow> nat \<Rightarrow> ustr \<Rightarrow> nat list" where
  \<comment> \<open>the starts of \<open>re.finditer(re.escape(name), text)\<close>: leftmost, not overlapping\<close>
  "find_all name pos t =
     (if t = [] \<or> name = [] then []
      else if take (length name) t = name
      then pos # find_all name (pos + length name) (drop (length name) t)
      else find_all name (pos + 1) (drop 1 t))"
  by pat_completeness auto

termination
  by (relation "measure (\<lambda>(name, pos, t). length t)") (auto simp: Suc_le_eq)

declare find_all.simps [simp del]

definition known_names :: "(ustr \<times> string) list" where
  "known_names = [(ascii ''Alice Johnson'', ''PER''), (ascii ''London'', ''LOC''),
     (ascii ''Marko Mari'' @ [263], ''PER''), (ascii ''Zagrebu'', ''LOC'')]"

definition fake_entities :: "page \<Rightarrow> entity list" where
  \<comment> \<open>\<open>FakeNerExtractor.extract\<close>\<close>
  "fake_entities p =
     (if pg_language p \<notin> {''en'', ''hr''} then []
      else concat (map (\<lambda>(name, label). map (\<lambda>start.
        \<lparr>en_text = name, en_label = label, en_page = pg_number p, en_start = start,
         en_end = start + length name, en_count = 1\<rparr>) (find_all name 0 (pg_text p))) known_names))"

section \<open>What the fakes promise\<close>

locale embedding_provider =
  fixes em :: embedder
  assumes total: "\<exists>vs. em_passages em texts = Inr vs"
    and usable: "em_passages em texts = Inr vs \<Longrightarrow>
      length vs = length texts \<and> (\<forall>v \<in> set vs. vector_ok (em_dimension em) v)"
    and positive: "0 < em_dimension em"
begin

lemma document_embedded: "\<exists>d'. embed_document em d = Inr d' \<and> length (dc_chunks d') = length (dc_chunks d)
  \<and> (\<forall>c \<in> set (dc_chunks d'). validate_vector (chunk_vector c) (em_dimension em) = Inr ())"
proof -
  obtain vs where vs: "em_passages em (map ck_text (dc_chunks d)) = Inr vs" using total by blast
  note ok = usable [OF vs]
  have "\<not> list_ex (\<lambda>v. \<not> vector_ok (em_dimension em) v) vs" using ok by (simp add: list_ex_iff)
  moreover have "validate_vector (chunk_vector (c\<lparr>ck_embedding := Some v\<rparr>)) (em_dimension em) = Inr ()"
    if "v \<in> set vs" for c v
    using ok that by (auto simp: vector_ok_def validate_vector_def chunk_vector_def)
  ultimately show ?thesis
    using vs ok by (auto simp: embed_document_def dest: set_zip_rightD)
qed

end

lemma unit_vector_ok:
  assumes "vs \<noteq> []"
  shows "vector_ok (length vs) (map Finite (unit_vector vs))"
proof (cases "norm_of vs = 0")
  case True
  with assms show ?thesis
    by (simp add: unit_vector_def vector_ok_def truthy_def isfinite_def list_all_iff)
next
  case False
  then have "sum_list (map (\<lambda>v. v * v) vs) \<noteq> 0" by (auto simp: norm_of_def)
  moreover have "sum_list (map (\<lambda>v. v * v) vs) = 0" if "\<forall>v \<in> set vs. v = 0"
    using that by (induction vs) auto
  ultimately have "\<exists>v \<in> set vs. v \<noteq> 0" by blast
  with False show ?thesis
    by (auto simp: unit_vector_def Let_def vector_ok_def truthy_def isfinite_def list_all_iff list_ex_iff)
qed


lemma provider_of_vectors:
  assumes "0 < dimension" and "\<And>t. vector_ok dimension (map Finite (vector t))"
  shows "embedding_provider (deterministic_embedder name vector dimension)"
  by unfold_locales (use assms in \<open>auto simp: deterministic_embedder_def\<close>)

lemma length_pairs: "length bs = 2 * n \<Longrightarrow> length (big_endian_pairs bs) = n"
  by (induction bs arbitrary: n rule: big_endian_pairs.induct) (auto, arith)

lemma hash_vector_ok:
  assumes "digests_ok dg" and "0 < dimension"
  shows "vector_ok dimension (map Finite (hash_vector dg dimension t))"
proof -
  have n: "length (big_endian_pairs (dg_shake dg t (2 * dimension))) = dimension"
    using assms(1) by (intro length_pairs) (simp add: digests_ok_def)
  with unit_vector_ok [of "map (\<lambda>v. real v / (65535 / 2) - 1) (big_endian_pairs (dg_shake dg t (2 * dimension)))"] assms(2)
  show ?thesis by (cases "big_endian_pairs (dg_shake dg t (2 * dimension))") (auto simp: hash_vector_def)
qed

lemma count_words_length: "length (count_words dg dimension ws) = dimension"
proof -
  have "length (foldl (\<lambda>counts w. let i = big_endian (dg_blake dg w) mod dimension in counts[i := counts ! i + 1]) counts ws)
      = length counts" for counts :: "real list"
    by (induction ws arbitrary: counts) (simp_all add: Let_def)
  then show ?thesis by (simp add: count_words_def)
qed

lemma keyword_vector_ok:
  assumes "0 < dimension"
  shows "vector_ok dimension (map Finite (keyword_vector un dg dimension t))"
  using unit_vector_ok [of "count_words dg dimension (find_runs (is_word_char un) (un_casefold un t))"]
    count_words_length [of dg dimension "find_runs (is_word_char un) (un_casefold un t)"] assms
  by (fastforce simp: keyword_vector_def)

lemma fakes_provide:
  "digests_ok dg \<Longrightarrow> fake_embedder dg dimension = Inr em \<Longrightarrow> embedding_provider em"
  "keyword_embedder un dg dimension = Inr em \<Longrightarrow> embedding_provider em"
  by (auto simp: fake_embedder_def keyword_embedder_def hash_vector_ok keyword_vector_ok
      intro!: provider_of_vectors split: if_splits)

definition zero_digests :: digests where
  "zero_digests = \<lparr>dg_shake = (\<lambda>t n. replicate n 0), dg_blake = (\<lambda>w. replicate 8 0)\<rparr>"

interpretation fake_hash: embedding_provider
  "deterministic_embedder ''fake/hash'' (hash_vector zero_digests 384) 384"
  by (rule provider_of_vectors) (simp_all add: hash_vector_ok digests_ok_def zero_digests_def)

interpretation baseline: embedding_provider
  "deterministic_embedder ''baseline/keywords'' (keyword_vector un dg (Suc dimension)) (Suc dimension)"
  for un dg dimension
  by (rule provider_of_vectors) (simp_all add: keyword_vector_ok)

lemma fake_entities_are_slices:
  assumes "e \<in> set (fake_entities p)"
  shows "en_end e \<le> length (pg_text p) \<and> en_text e = take (en_end e - en_start e) (drop (en_start e) (pg_text p))"
proof -
  have found: "pos \<le> i \<and> i - pos + length name \<le> length t \<and> take (length name) (drop (i - pos) t) = name"
    if "i \<in> set (find_all name pos t)" for name pos t i
    using that
  proof (induction name pos t rule: find_all.induct)
    case (1 name pos t)
    have ne: "t \<noteq> []" "name \<noteq> []" using "1.prems" by (auto simp: find_all.simps [of name pos t] split: if_splits)
    show ?case
    proof (cases "take (length name) t = name")
      case True
      then have len: "length name \<le> length t" by (metis length_take min.cobounded1 min.commute)
      have "i = pos \<or> i \<in> set (find_all name (pos + length name) (drop (length name) t))"
        using "1.prems" True ne by (simp add: find_all.simps [of name pos t])
      then show ?thesis
      proof
        assume "i = pos"
        with True len show ?thesis by simp
      next
        assume later: "i \<in> set (find_all name (pos + length name) (drop (length name) t))"
        have "\<not> (t = [] \<or> name = [])" using ne by simp
        from "1.IH"(1) [OF this True later] len show ?thesis
          by (auto simp: add.commute)
      qed
    next
      case False
      have later: "i \<in> set (find_all name (pos + 1) (drop 1 t))"
        using "1.prems" False ne by (simp add: find_all.simps [of name pos t])
      have "\<not> (t = [] \<or> name = [])" using ne by simp
      note step = "1.IH"(2) [OF this False later]
      then have "pos + 1 \<le> i" by blast
      then have "Suc (i - Suc pos) = i - pos" by simp
      moreover have "drop (i - Suc pos) (drop 1 t) = drop (Suc (i - Suc pos)) t" by simp
      ultimately have "take (length name) (drop (i - pos) t) = name" using step by (metis Suc_eq_plus1)
      moreover have "i - (pos + 1) + length name \<le> length (drop 1 t)" using step by blast
      moreover have "length (drop 1 t) = length t - 1" by simp
      moreover have "0 < length t" using ne by simp
      ultimately show ?thesis using \<open>pos + 1 \<le> i\<close> by linarith
    qed
  qed
  from assms obtain name label i where "i \<in> set (find_all name 0 (pg_text p))"
    "e = \<lparr>en_text = name, en_label = label, en_page = pg_number p, en_start = i, en_end = i + length name, en_count = 1\<rparr>"
    by (auto simp: fake_entities_def split: if_splits)
  with found [of i name 0 "pg_text p"] show ?thesis by auto
qed

end
