(* ===== verification/Tools.thy ===== *)
theory Tools
  imports Pipeline StorageGuarantees Ranking Worker
begin

text \<open>
  The operator's tools: the store commands of \<open>store_cli.py\<close> and the summary \<open>cli.py\<close> prints, the
  file commands of \<open>main\<close>, the one-time credentials of \<open>configure_local.py\<close>, and the measurements of \<open>eval_query.py\<close>,
  \<open>load_test.py\<close> and \<open>benchmark_chunker.py\<close>. Printing is the list of lines; the formats of numbers
  and identifiers are parameters.
\<close>

section \<open>Store commands\<close>

datatype store_command = IndexFile ustr "bytes result" | ShowDocument uuid | SearchFor ustr

record store_args =
  sa_command :: store_command
  sa_tenant :: ustr
  sa_k :: int

record cli_env =
  ce_configured :: "unit result" \<comment> \<open>\<open>configure("worker")\<close>\<close>
  ce_engine :: "unit result" \<comment> \<open>\<open>create_engine\<close>, which refuses a malformed URL\<close>
  ce_embedder :: embedder
  ce_fixed3 :: "real \<Rightarrow> ustr" \<comment> \<open>\<open>{:.3f}\<close>\<close>
  ce_uuid :: "uuid \<Rightarrow> ustr"
  ce_json :: "stored_document \<Rightarrow> ustr"
  ce_message :: "exn \<Rightarrow> ustr" \<comment> \<open>\<open>str(error)\<close>\<close>

datatype cli_end = Printed "ustr list" | Refused ustr | Escaped exn

definition print_hit :: "cli_env \<Rightarrow> search_hit \<Rightarrow> ustr" where
  "print_hit ce h = ce_uuid ce (sh_document h) @ ascii '' | Page '' @ str_nat (ck_page (sh_chunk h))
     @ ascii '' | cosine='' @ ce_fixed3 ce (sh_score h) @ [10] @ ck_text (sh_chunk h)"

definition print_indexed :: "cli_env \<Rightarrow> stored_document \<Rightarrow> ustr" where
  "print_indexed ce sd = ascii ''Document: '' @ ce_uuid ce (sd_id sd) @ ascii '' | Chunks: ''
     @ str_nat (length (sd_chunks sd)) @ ascii '' | Tenant: '' @ sd_tenant sd"

definition args_refused :: "store_args \<Rightarrow> ustr option" where
  "args_refused a =
     (if strip (sa_tenant a) = [] then Some (ascii ''tenant must be nonblank'')
      else
        (case sa_command a of
           SearchFor t \<Rightarrow>
             (if sa_k a < 1 then Some (ascii ''k must be positive'')
              else if strip t = [] then Some (ascii ''search text must be nonblank'') else None)
         | _ \<Rightarrow> None))"

definition store_command_body ::
  "cli_env \<Rightarrow> repository \<Rightarrow> 'i pipeline \<Rightarrow> worker_settings \<Rightarrow> uuid \<Rightarrow> timestamp \<Rightarrow> timestamp \<Rightarrow> store_args
   \<Rightarrow> (db, cli_end) proc" where
  \<comment> \<open>the \<open>try\<close> block; \<open>new\<close>, \<open>now\<close> and \<open>clk\<close> are what \<open>uuid4()\<close> and the clocks give an index\<close>
  "store_command_body ce rp pl s new now clk a =
     thenE (liftE (ce_configured ce)) (thenE (liftE (ce_engine ce))
       (case sa_command a of
          SearchFor t \<Rightarrow>
            bindE (liftE (em_query (ce_embedder ce) t)) (\<lambda>vector.
              bindE (nearest_chunks (rp_dimension rp) (rp_distance rp) (sa_tenant a) vector (sa_k a) None) (\<lambda>hits.
                returnE (Printed (map (print_hit ce) hits))))
        | IndexFile name data \<Rightarrow>
            bindE (liftE data) (\<lambda>content.
              bindE (pipeline_index pl s name content (sa_tenant a)
                  (upsert_document (rp_dimension rp) (rp_uuid5 rp) new now clk) None) (\<lambda>stored.
                returnE (Printed [print_indexed ce stored])))
        | ShowDocument doc \<Rightarrow>
            bindE (get_document (sa_tenant a) doc) (\<lambda>found.
              returnE (case found of
                 None \<Rightarrow> Refused (ascii ''Document not found for tenant'')
               | Some sd \<Rightarrow> Printed [ce_json ce sd]))))"

definition store_run ::
  "cli_env \<Rightarrow> repository \<Rightarrow> 'i pipeline \<Rightarrow> worker_settings \<Rightarrow> uuid \<Rightarrow> timestamp \<Rightarrow> timestamp \<Rightarrow> store_args
   \<Rightarrow> db \<Rightarrow> cli_end \<times> db" where
  \<comment> \<open>\<open>run\<close>\<close>
  "store_run ce rp pl s new now clk a d =
     (case args_refused a of
        Some m \<Rightarrow> (Refused m, d)
      | None \<Rightarrow>
          (case store_command_body ce rp pl s new now clk a d of
             (Inr out, d') \<Rightarrow> (out, d')
           | (Inl e, d') \<Rightarrow>
               (if is_sqlalchemy_error e
                then Refused (ascii ''Database operation failed; check configuration and migrations'')
                else if is_value_error e \<or> is_os_error e then Refused (ce_message ce e)
                else Escaped e, d')))"

definition print_analysis :: "(real \<Rightarrow> ustr) \<Rightarrow> document \<Rightarrow> ustr list" where
  "print_analysis fixed3 d =
     [ascii ''Language: '' @ ascii (document_language d) @ ascii '' | Pages: '' @ str_nat (page_count d)]
     @ map (\<lambda>p. ascii ''Page '' @ str_nat (pg_number p) @ ascii '' | '' @ ascii (pg_language p)
         @ ascii '' | confidence='' @ fixed3 (pg_confidence p)) (xd_pages d)
     @ [ascii ''Entity | Label | Page | Count'']
     @ map (\<lambda>e. en_text e @ ascii '' | '' @ ascii (en_label e) @ ascii '' | '' @ str_nat (en_page e)
         @ ascii '' | '' @ str_nat (en_count e)) (dc_entities d)
     @ (let sizes = map ck_tokens (dc_chunks d)
        in [ascii ''Chunks: '' @ str_nat (length sizes) @ ascii '' | Tokens min/max: ''
            @ str_int (if sizes = [] then 0 else Min (set sizes)) @ ascii ''/''
            @ str_int (if sizes = [] then 0 else Max (set sizes))])
     @ (case dc_embed_model d of
          None \<Rightarrow> []
        | Some m \<Rightarrow> (if m = [] then [] else
            [ascii ''Embeddings: '' @ (case dc_embed_dimension d of None \<Rightarrow> ascii ''None'' | Some n \<Rightarrow> str_nat n)
             @ ascii '' dimensions | '' @ ascii m]))"

definition source_text :: "page_source \<Rightarrow> string" where
  "source_text src = (case src of TextLayer \<Rightarrow> ''text_layer'' | OCR \<Rightarrow> ''ocr'')"

definition print_extracted :: "extracted_document \<Rightarrow> ustr list" where
  \<comment> \<open>the \<open>extract\<close> command without \<open>--json\<close>\<close>
  "print_extracted d =
     (ascii ''Pages: '' @ str_nat (page_count d) @ ascii '' | '' @ ascii (mime (xd_media_type d)))
     # concat (map (\<lambda>p.
         [ascii ''Page '' @ str_nat (pg_number p) @ ascii '' | '' @ ascii (source_text (pg_source p))
            @ ascii '' | '' @ str_nat (char_count p) @ ascii '' chars'',
          take 200 (pg_text p)]) (xd_pages d))"

definition analyze_file :: "'i pipeline \<Rightarrow> bytes result \<Rightarrow> bool \<Rightarrow> document result" where
  \<comment> \<open>the providers are those of a pipeline; \<open>data\<close> is what reading the path gives\<close>
  "analyze_file pl data with_embeddings =
     (case data of
        Inl e \<Rightarrow> Inl e
      | Inr content \<Rightarrow>
          (case extract_document (pl_extractors pl) (pl_settings pl) content of
             Inl e \<Rightarrow> Inl e
           | Inr extracted \<Rightarrow>
               (case analyze (pl_analysis pl) (pl_settings pl) extracted of
                  Inl e \<Rightarrow> Inl e
                | Inr doc \<Rightarrow> if with_embeddings then embed_document (pl_embedder pl) doc else Inr doc)))"

datatype file_command = ExtractFile | AnalyzeFile bool

definition file_command_run ::
  "(real \<Rightarrow> ustr) \<Rightarrow> (extracted_document \<Rightarrow> ustr) \<Rightarrow> (document \<Rightarrow> ustr) \<Rightarrow> 'i pipeline \<Rightarrow> file_command \<Rightarrow> bool
   \<Rightarrow> bytes result \<Rightarrow> cli_end" where
  \<comment> \<open>the end of \<open>main\<close>; the two JSON printers are arguments\<close>
  "file_command_run fixed3 json_extracted json_document pl command as_json data =
     (case command of
        AnalyzeFile with_embeddings \<Rightarrow>
          (case analyze_file pl data with_embeddings of
             Inl e \<Rightarrow> Escaped e
           | Inr d \<Rightarrow> Printed (if as_json then [json_document d] else print_analysis fixed3 d))
      | ExtractFile \<Rightarrow>
          (case (case data of Inl e \<Rightarrow> Inl e | Inr content \<Rightarrow>
                   extract_document (pl_extractors pl) (pl_settings pl) content) of
             Inl e \<Rightarrow> Escaped e
           | Inr d \<Rightarrow> Printed (if as_json then [json_extracted d] else print_extracted d)))"

section \<open>Local credentials\<close>

record secrets =
  sx_postgres :: ustr
  sx_runtime :: ustr
  sx_access :: ustr
  sx_secret :: ustr
  sx_grafana :: ustr

definition database_urls :: "secrets \<Rightarrow> string \<Rightarrow> string \<Rightarrow> (ustr \<times> ustr) list" where
  \<comment> \<open>\<open>DATABASE_URL\<close> and \<open>MIGRATION_DATABASE_URL\<close> for a host under a prefix\<close>
  "database_urls x prefix host =
     map (\<lambda>(key, user, password).
       (ascii prefix @ ascii key,
        ascii ''postgresql+psycopg://'' @ ascii user @ ascii '':'' @ password @ ascii ''@'' @ ascii host @ ascii '':5432/di''))
       [(''DATABASE_URL'', ''di_app'', sx_runtime x), (''MIGRATION_DATABASE_URL'', ''di'', sx_postgres x)]"

definition local_values :: "secrets \<Rightarrow> (ustr \<times> ustr) list" where
  "local_values x =
     [(ascii ''POSTGRES_PASSWORD'', sx_postgres x), (ascii ''DI_DB_RUNTIME_PASSWORD'', sx_runtime x),
      (ascii ''DI_S3_ACCESS_KEY'', ascii ''di'' @ sx_access x), (ascii ''DI_S3_SECRET_KEY'', sx_secret x),
      (ascii ''GRAFANA_ADMIN_PASSWORD'', sx_grafana x)]
     @ database_urls x ''DI_'' ''127.0.0.1'' @ database_urls x ''DI_CONTAINER_'' ''db''"

definition line_key :: "ustr \<Rightarrow> ustr" where
  \<comment> \<open>\<open>line.split("=", 1)[0]\<close>\<close>
  "line_key line = takeWhile (\<lambda>c. c \<noteq> 61) line"

definition configured_line :: "secrets \<Rightarrow> ustr \<Rightarrow> ustr" where
  "configured_line x line =
     (case map_of (local_values x) (line_key line) of
        Some v \<Rightarrow> line_key line @ ascii ''='' @ v | None \<Rightarrow> line)"

definition configure_local :: "secrets \<Rightarrow> ustr list result \<Rightarrow> bool \<Rightarrow> (ustr option, bool) proc" where
  \<comment> \<open>the state is the content of \<open>.env\<close>; \<open>template\<close> is the lines of \<open>.env.example\<close>; \<open>raced\<close> says that
      another process creates \<open>.env\<close> after the test, so that \<open>O_EXCL\<close> refuses\<close>
  "configure_local x template raced target =
     (if target \<noteq> None then (Inr False, target)
      else
        (case template of
           Inl e \<Rightarrow> (Inl e, target)
         | Inr lines \<Rightarrow>
             if raced then (Inl OSError, target)
             else (Inr True, Some (join_with [10] (map (configured_line x) lines) @ [10]))))"

lemma configure_local_safe:
  "configure_local x template raced (Some content) = (Inr False, Some content)"
  "configure_local x template True target = (r, target') \<Longrightarrow> target' = target"
  by (auto simp: configure_local_def split: sum.splits if_splits)

lemma configured_line_key: "line_key (configured_line x line) = line_key line"
proof -
  have "takeWhile (\<lambda>c. c \<noteq> 61) (line_key line @ ascii ''='' @ v) = line_key line" for v
    using set_takeWhileD [of _ "\<lambda>c. c \<noteq> 61" line]
    by (subst takeWhile_append2) (auto simp: line_key_def ascii_def)
  then show ?thesis by (simp add: configured_line_def line_key_def split: option.split)
qed

section \<open>Measurements\<close>

definition hit_rank :: "ustr \<Rightarrow> search_hit list \<Rightarrow> nat" where
  "hit_rank expected hits =
     (case find (\<lambda>(i, h). contains (ck_text (sh_chunk h)) expected) (enumerate_from 1 hits) of
        None \<Rightarrow> 0 | Some (i, h) \<Rightarrow> i)"

definition rank_metrics :: "nat list \<Rightarrow> (real \<times> real) result" where
  \<comment> \<open>recall at five and mean reciprocal rank\<close>
  "rank_metrics ranks =
     (if ranks = [] then Inl (OtherException ''ZeroDivisionError'')
      else Inr (real (length (filter (\<lambda>r. 0 < r \<and> r \<le> 5) ranks)) / real (length ranks),
                sum_list (map (\<lambda>r. if r \<noteq> 0 then 1 / real r else 0) ranks) / real (length ranks)))"

definition case_ranks :: "repository \<Rightarrow> ustr \<Rightarrow> embedder \<Rightarrow> int \<Rightarrow> db \<Rightarrow> ustr \<times> ustr \<Rightarrow> (nat \<times> nat \<times> nat) result" where
  \<comment> \<open>the ranks of one case by vectors, by text and fused, all read from one snapshot\<close>
  "case_ranks rp tenant em k d = (\<lambda>(question, expected).
     case em_query em question of
       Inl e \<Rightarrow> Inl e
     | Inr vector \<Rightarrow>
         (case fst (nearest_chunks (rp_dimension rp) (rp_distance rp) tenant vector k None d) of
            Inl e \<Rightarrow> Inl e
          | Inr knn \<Rightarrow>
              (case fst (search_text (rp_matches rp) (rp_rank rp) tenant question k None d) of
                 Inl e \<Rightarrow> Inl e
               | Inr lexical \<Rightarrow>
                   (case fuse [knn, lexical] 60 of
                      Inl e \<Rightarrow> Inl e
                    | Inr both \<Rightarrow> Inr (hit_rank expected knn, hit_rank expected lexical, hit_rank expected both)))))"

fun all_ranks :: "('c \<Rightarrow> 'r result) \<Rightarrow> 'c list \<Rightarrow> ('r list) result" where
  "all_ranks f [] = Inr []"
| "all_ranks f (c # cs) =
     (case f c of Inl e \<Rightarrow> Inl e | Inr r \<Rightarrow> (case all_ranks f cs of Inl e \<Rightarrow> Inl e | Inr rs \<Rightarrow> Inr (r # rs)))"

definition measure_search ::
  "repository \<Rightarrow> ustr \<Rightarrow> embedder \<Rightarrow> (ustr \<times> ustr) list \<Rightarrow> int \<Rightarrow> db
   \<Rightarrow> ((real \<times> real) \<times> (real \<times> real) \<times> (real \<times> real)) result" where
  \<comment> \<open>\<open>measure\<close> of \<open>eval_query.py\<close>\<close>
  "measure_search rp tenant em cases k d =
     (case all_ranks (case_ranks rp tenant em k d) cases of
        Inl e \<Rightarrow> Inl e
      | Inr rs \<Rightarrow>
          (case (rank_metrics (map fst rs), rank_metrics (map (fst \<circ> snd) rs), rank_metrics (map (snd \<circ> snd) rs)) of
             (Inr a, Inr b, Inr c) \<Rightarrow> Inr (a, b, c)
           | (Inl e, _) \<Rightarrow> Inl e | (_, Inl e, _) \<Rightarrow> Inl e | (_, _, Inl e) \<Rightarrow> Inl e))"

definition fused_regressed :: "(real \<times> real) \<times> (real \<times> real) \<times> (real \<times> real) \<Rightarrow> bool" where
  "fused_regressed = (\<lambda>(knn, lexical, both). fst both < fst knn \<or> snd both < snd knn)"

definition percentile :: "(real \<Rightarrow> real) \<Rightarrow> real list \<Rightarrow> real \<Rightarrow> real" where
  \<comment> \<open>\<open>percentile\<close> of \<open>load_test.py\<close>; \<open>round2\<close> is \<open>round(x, 2)\<close>\<close>
  "percentile round2 xs p =
     (let ordered = sort xs
      in if ordered = [] then 0
         else round2 (ordered ! min (length ordered - 1) (nat \<lfloor>real (length ordered - 1) * p\<rfloor>)))"

definition load_arguments :: "int \<Rightarrow> int list \<Rightarrow> string list \<Rightarrow> bool" where
  "load_arguments seconds rates modes \<longleftrightarrow> \<not> (seconds < 1 \<or> 1800 < seconds
     \<or> list_ex (\<lambda>r. r < 1 \<or> 200 < r) rates \<or> \<not> set modes \<subseteq> {''documents'', ''query''})"

fun chunk_pages ::
  "(page \<Rightarrow> nat \<Rightarrow> (chunk list) result) \<Rightarrow> page list \<Rightarrow> chunk list \<Rightarrow> (chunk list) result" where
  \<comment> \<open>\<open>chunk_pages\<close> of \<open>benchmark_chunker.py\<close> with the chunks so far\<close>
  "chunk_pages implementation [] chunks = Inr chunks"
| "chunk_pages implementation (p # ps) chunks =
     (case implementation p (length chunks) of
        Inl e \<Rightarrow> Inl e | Inr cs \<Rightarrow> chunk_pages implementation ps (chunks @ cs))"


definition fixture_document ::
  "(ustr \<Rightarrow> (nat \<times> nat) list) \<Rightarrow> ('a) worker_settings_scheme \<Rightarrow> extracted_document \<Rightarrow> document result" where
  \<comment> \<open>\<open>fixture\<close> of \<open>eval_query.py\<close> before embedding: English pages, chunked, without entities\<close>
  "fixture_document enc s d =
     (let pages = map (\<lambda>p. p\<lparr>pg_language := ''en''\<rparr>) (xd_pages d)
      in case chunk_pages (\<lambda>p n. chunk_page p enc s n) pages [] of
           Inl e \<Rightarrow> Inl e
         | Inr chunks \<Rightarrow>
             Inr \<lparr>xd_version = xd_version d, xd_sha256 = xd_sha256 d, xd_media_type = xd_media_type d,
                  xd_pages = pages, dc_chunks = chunks, dc_entities = [], dc_embed_model = None,
                  dc_embed_dimension = None\<rparr>)"


section \<open>What the tools keep\<close>

lemma args_accepted:
  assumes "args_refused a = None"
  shows "sa_tenant a \<noteq> []" and "sa_command a = SearchFor t \<Longrightarrow> 1 \<le> sa_k a"
proof -
  have "strip (sa_tenant a) \<noteq> []" using assms by (auto simp: args_refused_def split: if_splits)
  then show "sa_tenant a \<noteq> []" by (auto simp: strip_def)
  show "1 \<le> sa_k a" if "sa_command a = SearchFor t"
    using assms that by (auto simp: args_refused_def split: if_splits)
qed

lemma search_prints_own:
  assumes run: "store_run ce rp pl s new now clk a d = (Printed lines, d')" and "sa_command a = SearchFor t"
  shows "d' = d \<and> (\<forall>line \<in> set lines. \<exists>score. \<exists>r \<in> set (eligible (sa_tenant a) None d).
    line = print_hit ce (hit_of score r))"
proof -
  have ok: "args_refused a = None" using run by (auto simp: store_run_def split: option.splits)
  note args = args_accepted [OF ok]
  obtain v hits where v: "em_query (ce_embedder ce) t = Inr v"
    and hits: "nearest_chunks (rp_dimension rp) (rp_distance rp) (sa_tenant a) v (sa_k a) None d = (Inr hits, d')"
    and lines: "lines = map (print_hit ce) hits"
    using run ok assms(2)
    by (auto simp: store_run_def store_command_body_def thenE_def bindE_def liftE_def returnE_def
        split: sum.splits prod.splits if_splits)
  have valid: "validate_vector v (rp_dimension rp) = Inr ()"
    using hits by (cases "validate_vector v (rp_dimension rp)")
      (auto simp: nearest_chunks_def snapshot_tenant reader_nearest_chunks_def thenE_def bindE_def liftE_def)
  let ?score = "\<lambda>r. 1 - rp_distance rp (chunk_vector (cd_item r)) v"
  let ?sorted = "sort_key (\<lambda>r. (rp_distance rp (chunk_vector (cd_item r)) v, cd_document r, ck_ord (cd_item r)))
    (eligible (sa_tenant a) None d)"
  have "nearest_chunks (rp_dimension rp) (rp_distance rp) (sa_tenant a) v (sa_k a) None d
      = (Inr (map (hit_of ?score) (take (nat (sa_k a)) ?sorted)), d)"
    using args(1) args(2) [OF assms(2)] valid by (simp add: nearest_chunks_def snapshot_tenant
        reader_nearest_chunks_def thenE_def bindE_def liftE_def read_hits_in)
  then have "(Inr hits, d') = (Inr (map (hit_of ?score) (take (nat (sa_k a)) ?sorted)) :: search_hit list result, d)"
    unfolding hits .
  then have "hits = map (hit_of ?score) (take (nat (sa_k a)) ?sorted)" "d' = d" by blast+
  moreover have "set (take (nat (sa_k a)) ?sorted) \<subseteq> set (eligible (sa_tenant a) None d)"
    using set_take_subset [of "nat (sa_k a)" ?sorted] by simp
  ultimately show ?thesis unfolding lines by auto
qed

lemma database_errors_hidden:
  assumes "store_command_body ce rp pl s new now clk a d = (Inl e, d')" and "is_sqlalchemy_error e"
    and "args_refused a = None"
  shows "fst (store_run ce rp pl s new now clk a d)
    = Refused (ascii ''Database operation failed; check configuration and migrations'')"
  using assms by (simp add: store_run_def)

lemma percentile_mono:
  assumes "\<And>x y. x \<le> y \<Longrightarrow> round2 x \<le> round2 y" and "0 \<le> p" and "p \<le> q" and "q \<le> 1"
  shows "percentile round2 xs p \<le> percentile round2 xs q"
proof (cases "xs = []")
  case False
  let ?n = "length xs - 1"
  let ?i = "\<lambda>p. min ?n (nat \<lfloor>real ?n * p\<rfloor>)"
  have "real ?n * p \<le> real ?n * q" using assms(3) by (intro mult_left_mono) simp_all
  then have "?i p \<le> ?i q" by (intro min.mono nat_mono floor_mono order_refl)
  moreover have "?i q < length (sort xs)"
  proof -
    have "?i q \<le> ?n" by (rule min.cobounded1)
    moreover have "0 < length xs" using False by simp
    ultimately show ?thesis unfolding length_sort by linarith
  qed
  ultimately have "sort xs ! ?i p \<le> sort xs ! ?i q" by (rule sorted_nth_mono [OF sorted_sort])
  from assms(1) [OF this] False show ?thesis by (simp only: percentile_def Let_def length_sort) simp
qed (simp add: percentile_def)

lemma rank_metrics_proportions:
  assumes "rank_metrics ranks = Inr (recall, mrr)"
  shows "0 \<le> recall \<and> recall \<le> 1 \<and> 0 \<le> mrr \<and> mrr \<le> 1"
proof -
  have ne: "ranks \<noteq> []" using assms by (auto simp: rank_metrics_def)
  have "sum_list (map (\<lambda>r. if r \<noteq> 0 then 1 / real r else 0) rs) \<le> real (length rs)" for rs :: "nat list"
    by (induction rs) (auto simp: field_simps intro!: add_mono)
  moreover have "0 \<le> sum_list (map (\<lambda>r. if r \<noteq> 0 then 1 / real r else 0) rs)" for rs :: "nat list"
    by (intro sum_list_nonneg) auto
  ultimately show ?thesis using assms ne by (auto simp: rank_metrics_def divide_le_eq_1)
qed

lemma analysis_is_pipeline:
  "analyze_file pl (Inr content) True = pipeline_document pl (pl_settings pl) content"
  by (simp add: analyze_file_def pipeline_document_def split: sum.split)

lemma benchmark_outputs_equal:
  assumes "word_tokenizer enc"
  shows "chunk_pages (\<lambda>p n. chunk_page p enc s n) ps cs = chunk_pages (\<lambda>p n. reference_chunk_page p enc s n) ps cs"
  by (simp add: word_tokenizer.equivalent [OF assms])

end
