(* ===== verification/LoadTest.thy ===== *)
theory LoadTest
  imports Tools
begin

text \<open>
  The open-loop load driver \<open>scenario\<close> of \<open>load_test.py\<close> and the accounting \<open>delivery_counts\<close> of
  \<open>plot_results.py\<close> that reads its reports. The driver is a loop that sleeps between dispatches
  while the tasks it made go on; a run is the sequence of these events, each with the reading
  of \<open>perf_counter\<close> it takes, and an event that cannot happen in a state has no successor.
\<close>

section \<open>Tasks and samples\<close>

record sample =
  sm_status :: string
  sm_latency :: real
  sm_lag :: real

record load_task =
  lt_index :: nat
  lt_scheduled :: real
  lt_started :: "real option"
  lt_end :: "unit result option" \<comment> \<open>how \<open>send\<close> ended\<close>

record load =
  ld_next :: nat
  ld_active :: "load_task list" \<comment> \<open>the set \<open>active\<close>, oldest first\<close>
  ld_rows :: "sample list"
  ld_unretrieved :: "exn list" \<comment> \<open>exceptions of tasks discarded before anything awaited them\<close>
  ld_gathering :: "exn option option" \<comment> \<open>once \<open>gather\<close> runs: the exception it raises, if any yet\<close>

definition new_load :: load where
  "new_load = \<lparr>ld_next = 0, ld_active = [], ld_rows = [], ld_unretrieved = [], ld_gathering = None\<rparr>"

definition load_limit :: nat where "load_limit = 256"

definition client_dropped :: sample where
  "client_dropped = \<lparr>sm_status = ''client_dropped'', sm_latency = 0, sm_lag = 0\<rparr>"

definition send_status :: "nat result \<Rightarrow> string result" where
  \<comment> \<open>the answer of the client: the status of a response, or what it raises\<close>
  "send_status reply =
     (case reply of
        Inr code \<Rightarrow> Inr (map (\<lambda>c. char_of c) (str_nat code))
      | Inl e \<Rightarrow> if is_httpx_error e then Inr ''transport_error'' else Inl e)"

definition task_at :: "nat \<Rightarrow> load \<Rightarrow> load_task option" where
  "task_at i l = find (\<lambda>t. lt_index t = i) (ld_active l)"

definition set_task :: "load_task \<Rightarrow> load \<Rightarrow> load" where
  "set_task t l = l\<lparr>ld_active := map (\<lambda>u. if lt_index u = lt_index t then t else u) (ld_active l)\<rparr>"

definition task_failure :: "load_task \<Rightarrow> exn option" where
  "task_failure t = (case lt_end t of Some (Inl e) \<Rightarrow> Some e | _ \<Rightarrow> None)"

section \<open>The driver\<close>

datatype load_event =
    Dispatch                   \<comment> \<open>the loop body after its \<open>sleep\<close>\<close>
  | Begin nat real             \<comment> \<open>a task starts\<close>
  | Answer nat real "nat result" \<comment> \<open>its request ends\<close>
  | Discard nat                \<comment> \<open>the done callback of a task\<close>
  | Gather                     \<comment> \<open>the loop is over and \<open>gather\<close> starts to wait\<close>

definition dispatch :: "nat \<Rightarrow> real \<Rightarrow> load \<Rightarrow> load" where
  "dispatch rate t0 l =
     (let l' = l\<lparr>ld_next := ld_next l + 1\<rparr>
      in if load_limit \<le> length (ld_active l) then l'\<lparr>ld_rows := ld_rows l @ [client_dropped]\<rparr>
         else l'\<lparr>ld_active := ld_active l
           @ [\<lparr>lt_index = ld_next l, lt_scheduled = t0 + real (ld_next l) / real rate, lt_started = None, lt_end = None\<rparr>]\<rparr>)"

definition send_end :: "load_task \<Rightarrow> real \<Rightarrow> real \<Rightarrow> nat result \<Rightarrow> load \<Rightarrow> load" where
  \<comment> \<open>the end of \<open>send\<close>, at the reading \<open>now\<close>\<close>
  "send_end t started now reply l =
     (case send_status reply of
        Inr status \<Rightarrow> set_task (t\<lparr>lt_end := Some (Inr ())\<rparr>)
          (l\<lparr>ld_rows := ld_rows l @ [\<lparr>sm_status = status, sm_latency = (now - lt_scheduled t) * 1000,
             sm_lag = (started - lt_scheduled t) * 1000\<rparr>]\<rparr>)
      | Inl e \<Rightarrow> set_task (t\<lparr>lt_end := Some (Inl e)\<rparr>)
          (l\<lparr>ld_gathering := (case ld_gathering l of Some None \<Rightarrow> Some (Some e) | g \<Rightarrow> g)\<rparr>))"

definition discard :: "load_task \<Rightarrow> load \<Rightarrow> load" where
  "discard t l = l\<lparr>ld_active := filter (\<lambda>u. lt_index u \<noteq> lt_index t) (ld_active l),
     ld_unretrieved := ld_unretrieved l @
       (if ld_gathering l = None then (case task_failure t of None \<Rightarrow> [] | Some e \<Rightarrow> [e]) else [])\<rparr>"

definition first_failure :: "load_task list \<Rightarrow> exn option" where
  "first_failure ts = (case List.map_filter task_failure ts of [] \<Rightarrow> None | e # _ \<Rightarrow> Some e)"

fun load_step :: "nat \<Rightarrow> nat \<Rightarrow> real \<Rightarrow> load_event \<Rightarrow> load \<Rightarrow> load option" where
  "load_step rate seconds t0 Dispatch l =
     (if ld_next l < rate * seconds then Some (dispatch rate t0 l) else None)"
| "load_step rate seconds t0 (Begin i now) l =
     (case task_at i l of
        Some t \<Rightarrow> if lt_started t = None then Some (set_task (t\<lparr>lt_started := Some now\<rparr>) l) else None
      | None \<Rightarrow> None)"
| "load_step rate seconds t0 (Answer i now reply) l =
     (case task_at i l of
        Some t \<Rightarrow>
          (case (lt_started t, lt_end t) of
             (Some started, None) \<Rightarrow> Some (send_end t started now reply l)
           | _ \<Rightarrow> None)
      | None \<Rightarrow> None)"
| "load_step rate seconds t0 (Discard i) l =
     (case task_at i l of
        Some t \<Rightarrow> if lt_end t \<noteq> None then Some (discard t l) else None
      | None \<Rightarrow> None)"
| "load_step rate seconds t0 Gather l =
     (if ld_next l = rate * seconds \<and> ld_gathering l = None
      then Some (l\<lparr>ld_gathering := Some (first_failure (ld_active l))\<rparr>) else None)"

fun load_run :: "nat \<Rightarrow> nat \<Rightarrow> real \<Rightarrow> load_event list \<Rightarrow> load \<Rightarrow> load option" where
  "load_run rate seconds t0 [] l = Some l"
| "load_run rate seconds t0 (e # es) l =
     (case load_step rate seconds t0 e l of None \<Rightarrow> None | Some l' \<Rightarrow> load_run rate seconds t0 es l')"

definition gathered :: "load \<Rightarrow> (sample list) result option" where
  \<comment> \<open>how \<open>gather\<close> ends; None while it waits\<close>
  "gathered l =
     (case ld_gathering l of
        None \<Rightarrow> None
      | Some (Some e) \<Rightarrow> Some (Inl e)
      | Some None \<Rightarrow>
          if list_all (\<lambda>t. lt_end t \<noteq> None) (ld_active l) then Some (Inr (ld_rows l)) else None)"

section \<open>Reports\<close>

record load_report =
  lr_mode :: string
  lr_offered :: nat
  lr_duration :: nat
  lr_elapsed :: real
  lr_completed :: real
  lr_statuses :: "(string \<times> nat) list"
  lr_success :: real
  lr_p50 :: real
  lr_p95 :: real
  lr_p99 :: real
  lr_dispatch_p99 :: real
  lr_samples :: "sample list"

definition counter :: "'a list \<Rightarrow> ('a \<times> nat) list" where
  \<comment> \<open>\<open>dict(Counter(xs))\<close>\<close>
  "counter xs = map (\<lambda>x. (x, count_list xs x)) (fromkeys xs)"

definition load_report_of ::
  "(real \<Rightarrow> real) \<Rightarrow> string \<Rightarrow> nat \<Rightarrow> nat \<Rightarrow> real \<Rightarrow> sample list \<Rightarrow> load_report result" where
  \<comment> \<open>\<open>scenario\<close> after the client is closed; \<open>round2\<close> is \<open>round(x, 2)\<close>\<close>
  "load_report_of round2 mode rate seconds elapsed rows =
     (let successful = map sm_latency (filter (\<lambda>r. sm_status r = ''200'') rows)
      in if elapsed = 0 \<or> rows = [] then Inl (OtherException ''ZeroDivisionError'')
         else Inr \<lparr>lr_mode = mode, lr_offered = rate, lr_duration = seconds, lr_elapsed = round2 elapsed,
           lr_completed = round2 (real (length successful) / elapsed), lr_statuses = counter (map sm_status rows),
           lr_success = round2 (100 * real (length successful) / real (length rows)),
           lr_p50 = percentile round2 successful (1 / 2), lr_p95 = percentile round2 successful (95 / 100),
           lr_p99 = percentile round2 successful (99 / 100),
           lr_dispatch_p99 = percentile round2 (map sm_lag rows) (99 / 100), lr_samples = rows\<rparr>)"

definition delivery_counts :: "load_report \<Rightarrow> (nat \<times> nat \<times> nat \<times> int) result" where
  "delivery_counts row =
     (let total = lr_offered row * lr_duration row; statuses = lr_statuses row;
          get = (\<lambda>k. case map_of statuses k of None \<Rightarrow> 0 | Some n \<Rightarrow> n);
          success = get ''200''; dropped = get ''client_dropped''
      in if total = 0 \<or> sum_list (map snd statuses) \<noteq> total
         then Inl (ValueError ''Status counts must account for every scheduled request'')
         else Inr (total, success, dropped, int total - int success - int dropped))"

section \<open>Every scheduled request is accounted for\<close>

definition pending :: "load_task \<Rightarrow> bool" where
  \<comment> \<open>a task in \<open>active\<close> that has added no row\<close>
  "pending t \<longleftrightarrow> lt_end t \<noteq> Some (Inr ())"

definition counted :: "load \<Rightarrow> bool" where
  "counted l \<longleftrightarrow>
     length (ld_rows l) + length (filter pending (ld_active l)) + length (ld_unretrieved l) = ld_next l
     \<and> distinct (map lt_index (ld_active l)) \<and> (\<forall>t \<in> set (ld_active l). lt_index t < ld_next l)
     \<and> length (ld_active l) \<le> load_limit"

lemma fromkeys_counts: "sum_list (map (count_list xs) (fromkeys xs)) = length xs"
proof -
  have "sum_list (map (count_list xs) (fromkeys xs)) = sum (count_list xs) (set xs)"
    by (simp add: sum_list_distinct_conv_sum_set distinct_fromkeys set_fromkeys)
  also have "\<dots> = length xs" by (simp add: sum_count_set)
  finally show ?thesis .
qed

lemma counter_total: "sum_list (map snd (counter xs)) = length xs"
  using fromkeys_counts [of xs] by (simp add: counter_def o_def)

lemma counter_get: "(case map_of (counter xs) k of None \<Rightarrow> 0 | Some n \<Rightarrow> n) = count_list xs k"
proof -
  have "map_of (map (\<lambda>x. (x, count_list xs x)) ks) k = (if k \<in> set ks then Some (count_list xs k) else None)" for ks
    by (induction ks) auto
  then show ?thesis using count_list_0_iff [of xs k] by (simp add: counter_def set_fromkeys)
qed

lemma task_at_active: "task_at i l = Some t \<Longrightarrow> t \<in> set (ld_active l) \<and> lt_index t = i"
  by (auto simp: task_at_def find_Some_iff)

lemma set_task_indices: "map lt_index (ld_active (set_task t l)) = map lt_index (ld_active l)"
  by (simp add: set_task_def)

lemma split_task:
  assumes "distinct (map lt_index ts)" and "t \<in> set ts"
  obtains us vs where "ts = us @ t # vs" "\<forall>u \<in> set us \<union> set vs. lt_index u \<noteq> lt_index t"
proof -
  from assms(2) obtain us vs where ts: "ts = us @ t # vs" by (auto simp: in_set_conv_decomp)
  with assms(1) have "\<forall>u \<in> set us \<union> set vs. lt_index u \<noteq> lt_index t" by (auto simp: image_iff)
  with ts show thesis by (rule that)
qed

lemma set_task_counted:
  assumes "counted l" and "task_at i l = Some t" and "lt_index t' = lt_index t"
  shows "ld_next (set_task t' l) = ld_next l \<and> ld_unretrieved (set_task t' l) = ld_unretrieved l
    \<and> set (ld_active (set_task t' l)) \<subseteq> insert t' (set (ld_active l))
    \<and> length (ld_rows l) + (if pending t then 1 else 0) + length (filter pending (ld_active (set_task t' l)))
        + length (ld_unretrieved l) = ld_next l + (if pending t' then 1 else 0)
    \<and> distinct (map lt_index (ld_active (set_task t' l)))
    \<and> (\<forall>u \<in> set (ld_active (set_task t' l)). lt_index u < ld_next l) \<and> length (ld_active (set_task t' l)) \<le> load_limit"
proof -
  note t = task_at_active [OF assms(2)]
  note c = assms(1) [unfolded counted_def]
  obtain us vs where ts: "ld_active l = us @ t # vs" "\<forall>u \<in> set us \<union> set vs. lt_index u \<noteq> lt_index t"
    using split_task [of "ld_active l" t] c t by blast
  have active: "ld_active (set_task t' l) = us @ t' # vs"
    using ts assms(3) by (auto simp: set_task_def map_idI)
  show ?thesis using c ts(1) assms(3) unfolding active by (auto simp: set_task_def)
qed

lemma discard_active:
  assumes "counted l" and "task_at i l = Some t"
  shows "length (filter pending (ld_active (discard t l))) + (if pending t then 1 else 0)
      = length (filter pending (ld_active l))
    \<and> distinct (map lt_index (ld_active (discard t l))) \<and> set (ld_active (discard t l)) \<subseteq> set (ld_active l)
    \<and> length (ld_active (discard t l)) \<le> load_limit"
proof -
  note t = task_at_active [OF assms(2)]
  note c = assms(1) [unfolded counted_def]
  obtain us vs where ts: "ld_active l = us @ t # vs" "\<forall>u \<in> set us \<union> set vs. lt_index u \<noteq> lt_index t"
    using split_task [of "ld_active l" t] c t by blast
  have "ld_active (discard t l) = us @ vs"
    using ts by (simp add: discard_def filter_id_conv)
  with c ts(1) show ?thesis by auto
qed

definition load_ok :: "nat \<Rightarrow> nat \<Rightarrow> load \<Rightarrow> bool" where
  "load_ok rate seconds l \<longleftrightarrow> (\<exists>e. ld_gathering l = Some (Some e))
     \<or> counted l \<and> (ld_gathering l \<noteq> None \<longrightarrow>
          ld_next l = rate * seconds \<and> (\<forall>t \<in> set (ld_active l). task_failure t = None))"

lemma failed_gather_stays:
  "ld_gathering l = Some (Some e) \<Longrightarrow> load_step rate seconds t0 ev l = Some l' \<Longrightarrow> ld_gathering l' = Some (Some e)"
  by (cases ev) (auto simp: dispatch_def Let_def set_task_def send_end_def discard_def
      split: if_splits option.splits sum.splits)

lemma dispatch_counted: "counted l \<Longrightarrow> counted (dispatch rate t0 l)"
  by (auto simp: counted_def dispatch_def Let_def pending_def less_Suc_eq)

lemma begin_counted:
  assumes "counted l" and "task_at i l = Some t"
  shows "counted (set_task (t\<lparr>lt_started := x\<rparr>) l)"
  using set_task_counted [OF assms, of "t\<lparr>lt_started := x\<rparr>"]
  by (auto simp: counted_def pending_def set_task_def)

lemma end_counted:
  assumes "counted l" and "task_at i l = Some t" and "lt_end t = None"
  shows "counted (send_end t started now reply l)"
proof (cases "send_status reply")
  case (Inl e)
  with set_task_counted [OF assms(1,2), of "t\<lparr>lt_end := Some (Inl e)\<rparr>"] assms(3) show ?thesis
    by (simp add: send_end_def counted_def pending_def set_task_def)
next
  case (Inr status)
  with set_task_counted [OF assms(1,2), of "t\<lparr>lt_end := Some (Inr ())\<rparr>"] assms(3) show ?thesis
    by (simp add: send_end_def counted_def pending_def set_task_def)
qed

lemma discard_counted:
  assumes "counted l" and "task_at i l = Some t" and "lt_end t \<noteq> None"
    and "ld_gathering l = None \<or> task_failure t = None"
  shows "counted (discard t l)"
proof -
  have "length (ld_unretrieved (discard t l)) = length (ld_unretrieved l) + (if pending t then 1 else 0)"
    using assms(3,4) by (auto simp: discard_def pending_def task_failure_def split: option.splits sum.splits)
  moreover have "ld_rows (discard t l) = ld_rows l" "ld_next (discard t l) = ld_next l"
    by (simp_all add: discard_def)
  ultimately show ?thesis
    using discard_active [OF assms(1,2)] assms(1) unfolding counted_def by (auto simp: subset_iff)
qed

lemma first_failure_none: "first_failure ts = None \<longleftrightarrow> (\<forall>t \<in> set ts. task_failure t = None)"
  by (induction ts) (auto simp: first_failure_def List.map_filter_simps split: option.splits list.splits)

lemma load_step_ok:
  assumes "load_step rate seconds t0 ev l = Some l'" and "load_ok rate seconds l"
  shows "load_ok rate seconds l'"
proof (cases "\<exists>e. ld_gathering l = Some (Some e)")
  case True
  with failed_gather_stays [OF _ assms(1)] show ?thesis by (auto simp: load_ok_def)
next
  case False
  with assms(2) have c: "counted l"
    and g: "ld_gathering l \<noteq> None \<Longrightarrow> ld_next l = rate * seconds \<and> (\<forall>t \<in> set (ld_active l). task_failure t = None)"
    by (auto simp: load_ok_def)
  show ?thesis
  proof (cases ev)
    case Dispatch
    with assms(1) g dispatch_counted [OF c, of rate t0] show ?thesis
      by (auto simp: load_ok_def dispatch_def Let_def split: if_splits)
  next
    case (Begin i now)
    with assms(1) obtain t where t: "task_at i l = Some t" "lt_started t = None"
      and l': "l' = set_task (t\<lparr>lt_started := Some now\<rparr>) l"
      by (auto split: option.splits if_splits)
    have same: "task_failure (t\<lparr>lt_started := Some now\<rparr>) = task_failure t" by (simp add: task_failure_def)
    from set_task_counted [OF c t(1), of "t\<lparr>lt_started := Some now\<rparr>"] task_at_active [OF t(1)]
      g begin_counted [OF c t(1), of "Some now"] show ?thesis
      unfolding l' load_ok_def using same by (auto simp: set_task_def)
  next
    case (Answer i now reply)
    with assms(1) obtain t started where t: "task_at i l = Some t" "lt_end t = None"
      and l': "l' = send_end t started now reply l"
      by (auto split: option.splits)
    note c' = end_counted [OF c t, of started now reply]
    show ?thesis
    proof (cases "ld_gathering l")
      case None
      with c' show ?thesis unfolding l' by (auto simp: load_ok_def send_end_def set_task_def split: sum.split)
    next
      case (Some x)
      with False c' g show ?thesis unfolding l'
        by (cases x) (auto simp: load_ok_def send_end_def set_task_def task_failure_def split: sum.splits if_splits)
    qed
  next
    case (Discard i)
    with assms(1) obtain t where t: "task_at i l = Some t" "lt_end t \<noteq> None" and l': "l' = discard t l"
      by (auto split: option.splits if_splits)
    have "ld_gathering l = None \<or> task_failure t = None" 
      using g task_at_active [OF t(1)] by (cases "ld_gathering l") auto
    from discard_counted [OF c t this] g discard_active [OF c t(1)] show ?thesis
      unfolding l' load_ok_def by (auto simp: discard_def)
  next
    case Gather
    with assms(1) c show ?thesis
      by (cases "first_failure (ld_active l)")
        (auto simp: load_ok_def counted_def first_failure_none split: if_splits)
  qed
qed

lemma load_run_ok:
  "load_run rate seconds t0 es l = Some l' \<Longrightarrow> load_ok rate seconds l \<Longrightarrow> load_ok rate seconds l'"
  by (induction es arbitrary: l) (auto split: option.splits intro: load_step_ok)

lemma new_load_ok: "load_ok rate seconds new_load"
  by (simp add: load_ok_def counted_def new_load_def)

lemma gathered_rows:
  assumes "load_ok rate seconds l" and "gathered l = Some (Inr rows)"
  shows "rows = ld_rows l" and "length rows + length (ld_unretrieved l) = rate * seconds"
proof -
  have g: "ld_gathering l = Some None" "rows = ld_rows l" "\<forall>t \<in> set (ld_active l). lt_end t \<noteq> None"
    using assms(2) by (auto simp: gathered_def list_all_iff split: option.splits if_splits)
  with assms(1) have ok: "counted l" "ld_next l = rate * seconds" "\<forall>t \<in> set (ld_active l). task_failure t = None"
    by (auto simp: load_ok_def)
  have "\<not> pending t" if "t \<in> set (ld_active l)" for t
  proof -
    have "lt_end t \<noteq> None" using g(3) that by simp
    then obtain x where x: "lt_end t = Some x" by blast
    have "task_failure t = None" using ok(3) that by simp
    with x have "x \<noteq> Inl e" for e by (auto simp: task_failure_def)
    with x show ?thesis by (cases x) (auto simp: pending_def)
  qed
  then have none: "filter pending (ld_active l) = []" by (simp add: filter_empty_conv)
  show "rows = ld_rows l" by (rule g(2))
  show "length rows + length (ld_unretrieved l) = rate * seconds"
    using ok(1) unfolding counted_def none g(2) ok(2) by simp
qed

lemma other_statuses:
  "a \<noteq> b \<Longrightarrow> int (length xs) - int (count_list xs a) - int (count_list xs b)
    = int (length (filter (\<lambda>x. x \<noteq> a \<and> x \<noteq> b) xs))"
  by (induction xs) auto

lemma delivery_of_report:
  assumes "load_report_of round2 mode rate seconds elapsed rows = Inr report"
  shows "delivery_counts report =
    (if length rows = rate * seconds
     then Inr (rate * seconds, count_list (map sm_status rows) ''200'', count_list (map sm_status rows) ''client_dropped'',
       int (length (filter (\<lambda>s. s \<noteq> ''200'' \<and> s \<noteq> ''client_dropped'') (map sm_status rows))))
     else Inl (ValueError ''Status counts must account for every scheduled request''))"
proof -
  have r: "rows \<noteq> []" "lr_offered report = rate" "lr_duration report = seconds"
    "lr_statuses report = counter (map sm_status rows)"
    using assms by (auto simp: load_report_of_def Let_def split: if_splits)
  have "''200'' \<noteq> ''client_dropped''" by simp
  from other_statuses [OF this, of "map sm_status rows"] r(1) show ?thesis
    unfolding delivery_counts_def Let_def r counter_total counter_get by auto
qed

lemma load_is_bounded:
  assumes "load_run rate seconds t0 es new_load = Some l" and "ld_gathering l = None"
  shows "length (ld_active l) \<le> load_limit"
  using load_run_ok [OF assms(1) new_load_ok] assms(2) by (auto simp: load_ok_def counted_def)

section \<open>Properties\<close>

text \<open>
  The load driver accounts for every request it schedules. In every interleaving of its loop,
  its tasks and their callbacks, when the run ends with samples there is one for each scheduled request but those whose task died of an exception that is not an
  HTTP error before anything awaited it; and the report is accepted by \<open>delivery_counts\<close> exactly
  when no request was lost that way, with the successes, the drops and all other outcomes
  adding up to the offered load.
\<close>

theorem scheduled_requests_are_accounted:
  assumes "load_run rate seconds t0 es new_load = Some l" and "gathered l = Some (Inr rows)"
    and "load_report_of round2 mode rate seconds elapsed rows = Inr report"
  shows "length rows + length (ld_unretrieved l) = rate * seconds
    \<and> delivery_counts report =
      (if ld_unretrieved l = []
       then Inr (rate * seconds, count_list (map sm_status rows) ''200'', count_list (map sm_status rows) ''client_dropped'',
         int (length (filter (\<lambda>s. s \<noteq> ''200'' \<and> s \<noteq> ''client_dropped'') (map sm_status rows))))
       else Inl (ValueError ''Status counts must account for every scheduled request''))"
proof -
  note total = gathered_rows(2) [OF load_run_ok [OF assms(1) new_load_ok] assms(2)]
  then have "length rows = rate * seconds \<longleftrightarrow> ld_unretrieved l = []" by (cases "ld_unretrieved l") simp_all
  with total delivery_of_report [OF assms(3)] show ?thesis by simp
qed

definition demo_load :: "load_event list" where
  "demo_load = [Dispatch, Begin 0 0, Dispatch, Begin 1 1, Answer 1 2 (Inl TransportError), Discard 1,
     Dispatch, Begin 2 2, Answer 0 3 (Inr 200), Gather, Answer 2 4 (Inr 503)]"

definition demo_round :: "real \<Rightarrow> real" where
  "demo_round x = x"

corollary scheduled_requests_are_accounted_witness:
  "\<exists>l rows report. load_run 3 1 0 demo_load new_load = Some l \<and> gathered l = Some (Inr rows)
     \<and> load_report_of demo_round ''query'' 3 1 5 rows = Inr report
     \<and> delivery_counts report = Inr (3, 1, 0, 2)"
proof -
  obtain l where l: "load_run 3 1 0 demo_load new_load = Some l" "ld_unretrieved l = []"
    "map_option (map_sum id (map sm_status)) (gathered l) = Some (Inr [''transport_error'', ''200'', ''503''])"
    by (simp add: demo_load_def new_load_def dispatch_def load_limit_def Let_def task_at_def send_end_def
        send_status_def is_httpx_error_def str_nat.simps char_of_def bit_0 set_task_def discard_def task_failure_def
        first_failure_def gathered_def)
  then obtain rows where rows: "gathered l = Some (Inr rows)" "map sm_status rows = [''transport_error'', ''200'', ''503'']"
    by (cases "gathered l") (auto simp: map_sum_def split: sum.splits)
  then have "rows \<noteq> []" by auto
  then obtain report where report: "load_report_of demo_round ''query'' 3 1 5 rows = Inr report"
    by (auto simp: load_report_of_def Let_def)
  from scheduled_requests_are_accounted [OF l(1) rows(1) report] l rows report show ?thesis by auto
qed

end
