(* ===== verification/Evaluation.thy ===== *)
theory Evaluation
  imports Tools Lifecycle QueryService
begin

text \<open>
  The drivers of the offline measurements: \<open>main\<close> and \<open>answer_metrics\<close> of \<open>eval_query.py\<close> with the
  deletion of the evaluated tenant, \<open>report\<close> of \<open>eval_retrieval.py\<close>, \<open>benchmark\<close> of
  \<open>benchmark_chunker.py\<close> and the polling loop of \<open>acceptance.py\<close>. What reading and extracting a
  fixture gives, clock readings and number formats are parameters; printing is a list of lines.
\<close>

section \<open>Deleting a tenant\<close>

definition delete_documents :: "ustr \<Rightarrow> (session, unit) proc" where
  \<comment> \<open>\<open>DELETE FROM documents WHERE tenant_id = :tenant\<close> and the \<open>ON DELETE CASCADE\<close> of the migrations\<close>
  "delete_documents tenant s =
     (let d = se_db s;
          gone = (\<lambda>r. rls (se_tenant s) (sd_tenant r) \<and> sd_tenant r = tenant);
          keys = map (\<lambda>r. (sd_id r, sd_tenant r)) (filter gone (db_docs d))
      in (Inr (), s\<lparr>se_db :=
           \<lparr>db_docs = filter (\<lambda>r. \<not> gone r) (db_docs d),
            db_chunks = filter (\<lambda>r. (cd_document r, cd_tenant r) \<notin> set keys) (db_chunks d),
            db_entities = filter (\<lambda>r. (cd_document r, cd_tenant r) \<notin> set keys) (db_entities d),
            db_outbox = filter (\<lambda>r. (ob_aggregate r, ob_tenant r) \<notin> set keys) (db_outbox d)\<rparr>\<rparr>))"

definition delete_tenant :: "ustr \<Rightarrow> (db, unit) proc" where
  "delete_tenant tenant = engine_begin (thenE (set_tenant tenant) (delete_documents tenant))"

section \<open>The evaluation on PostgreSQL\<close>

definition evaluation_service :: "unicode \<Rightarrow> postgres \<Rightarrow> query_settings \<Rightarrow> embedder \<Rightarrow> 'e query_service" where
  \<comment> \<open>\<open>QueryService(repository, embedder, FallbackGenerator(), QuerySettings(openai_api_key=""))\<close>\<close>
  "evaluation_service un pg s em =
     \<lparr>qs_unicode = un, qs_postgres = pg, qs_embed = em_query em,
      qs_fallback = \<lparr>fb_primary = None, fb_model = [], fb_ledger = None, fb_max_output = 700\<rparr>, qs_settings = s\<rparr>"

fun answer_all :: "'e query_service \<Rightarrow> ustr \<Rightarrow> db \<Rightarrow> (ustr \<times> ustr) list \<Rightarrow> ('e, query_response list) proc" where
  "answer_all qs tenant d [] = returnE []"
| "answer_all qs tenant d ((question, expected) # cases) =
     bindE (liftE (new_request question None None)) (\<lambda>request.
     bindE (service_query qs tenant request d) (\<lambda>response.
     bindE (answer_all qs tenant d cases) (\<lambda>responses. returnE (response # responses))))"

definition answer_line :: "(ustr \<times> ustr) list \<Rightarrow> query_response list \<Rightarrow> ustr" where
  "answer_line cases results =
     ascii ''extractive: exact-answer=''
     @ str_nat (length (filter (\<lambda>((question, expected), r). contains (qr_answer r) expected) (zip cases results)))
     @ ascii ''/'' @ str_nat (length cases) @ ascii '' abstained=''
     @ str_nat (length (filter qr_abstained results)) @ ascii ''/'' @ str_nat (length cases)"

definition answer_metrics :: "'e query_service \<Rightarrow> ustr \<Rightarrow> db \<Rightarrow> (ustr \<times> ustr) list \<Rightarrow> ('e, ustr) proc" where
  "answer_metrics qs tenant d cases =
     bindE (answer_all qs tenant d cases) (\<lambda>results. returnE (answer_line cases results))"

definition metric_lines :: "(real \<Rightarrow> ustr) \<Rightarrow> (real \<times> real) \<times> (real \<times> real) \<times> (real \<times> real) \<Rightarrow> ustr list" where
  "metric_lines fixed3 = (\<lambda>(knn, lexical, both).
     map (\<lambda>(name, recall, mrr). ascii name @ ascii '': recall@5='' @ fixed3 recall @ ascii '' MRR='' @ fixed3 mrr)
       [(''knn'', knn), (''text'', lexical), (''fused'', both)])"

record evaluation =
  ev_repository :: repository
  ev_service :: "unit query_service" \<comment> \<open>no hosted provider, so nothing outside the tables to keep\<close>
  ev_embedder :: embedder
  ev_cases :: "(ustr \<times> ustr) list"
  ev_document :: document
  ev_fixed3 :: "real \<Rightarrow> ustr"

definition evaluation_body :: "evaluation \<Rightarrow> ustr \<Rightarrow> uuid \<Rightarrow> timestamp \<Rightarrow> timestamp \<Rightarrow> (db, ustr list) proc" where
  \<comment> \<open>the \<open>try\<close> block of \<open>main\<close>; \<open>new\<close>, \<open>now\<close> and \<open>clk\<close> are what \<open>uuid4()\<close> and the clocks give\<close>
  "evaluation_body ev tenant new now clk =
     (let rp = ev_repository ev; em = ev_embedder ev; cases = ev_cases ev; chunks = dc_chunks (ev_document ev)
      in thenE (upsert_document (rp_dimension rp) (rp_uuid5 rp) new now clk tenant (ascii ''text_long.pdf'') (ev_document ev))
          (bindE (readE id) (\<lambda>d.
           bindE (liftE (measure_search rp tenant em cases (int (length chunks)) d)) (\<lambda>metrics.
           bindE (liftE (fst (answer_metrics (ev_service ev) tenant d cases ()))) (\<lambda>line.
             thenE (guardE (\<not> fused_regressed metrics) (OtherException ''SystemExit''))
               (returnE
                 ((ascii ''model='' @ ascii (em_model em) @ ascii '' chunks='' @ str_nat (length chunks)
                   @ ascii '' questions='' @ str_nat (length cases) @ ascii '' windows=120/24'')
                  # metric_lines (ev_fixed3 ev) metrics @ [line])))))))"

definition evaluation_run :: "evaluation \<Rightarrow> ustr \<Rightarrow> uuid \<Rightarrow> timestamp \<Rightarrow> timestamp \<Rightarrow> (db, ustr list) proc" where
  "evaluation_run ev tenant new now clk = and_finally (evaluation_body ev tenant new now clk) (delete_tenant tenant)"

section \<open>The evaluation in memory\<close>

definition report_line ::
  "(real \<Rightarrow> ustr) \<Rightarrow> string \<Rightarrow> embedder \<Rightarrow> ('a) worker_settings_scheme \<Rightarrow> nat \<Rightarrow> bool \<Rightarrow> nat \<Rightarrow> real \<times> real \<Rightarrow> ustr" where
  "report_line fixed3 language em s chunks translated questions = (\<lambda>(recall, mrr).
     ascii ''language='' @ (if translated then ascii ''en->hr (report only)'' else ascii language @ ascii ''->'' @ ascii language)
     @ ascii '' | model='' @ ascii (em_model em) @ ascii '' | window='' @ str_int (chunk_tokens s) @ ascii ''/''
     @ str_int (chunk_overlap s) @ ascii '' | chunks='' @ str_nat chunks @ ascii '' | questions='' @ str_nat questions
     @ ascii '' | recall@5='' @ fixed3 recall @ ascii '' | MRR='' @ fixed3 mrr)"

fun report_all ::
  "(bool \<Rightarrow> ((ustr \<times> ustr) list) result) \<Rightarrow> (bool \<Rightarrow> nat \<Rightarrow> real \<times> real \<Rightarrow> ustr) \<Rightarrow> chunk list \<Rightarrow> embedder \<Rightarrow> bool list
   \<Rightarrow> (ustr list) result" where
  "report_all load line chunks em [] = Inr []"
| "report_all load line chunks em (t # ts) =
     (case load t of
        Inl e \<Rightarrow> Inl e
      | Inr cases \<Rightarrow>
          (case evaluate cases chunks em of
             Inl e \<Rightarrow> Inl e
           | Inr metrics \<Rightarrow>
               (case report_all load line chunks em ts of
                  Inl e \<Rightarrow> Inl e | Inr lines \<Rightarrow> Inr (line t (length cases) metrics # lines))))"

definition retrieval_report ::
  "(real \<Rightarrow> ustr) \<Rightarrow> string \<Rightarrow> bool \<Rightarrow> embedder \<Rightarrow> (ustr \<Rightarrow> (nat \<times> nat) list) \<Rightarrow> ('a) worker_settings_scheme
   \<Rightarrow> extracted_document result \<Rightarrow> (bool \<Rightarrow> ((ustr \<times> ustr) list) result) \<Rightarrow> (ustr list) result" where
  \<comment> \<open>\<open>report\<close>; \<open>fastembed\<close> is the choice of the provider, whose embedder and tokenizer are given;
      \<open>load\<close> is \<open>load_cases\<close> of the language, with the translated questions or not\<close>
  "retrieval_report fixed3 language fastembed em enc s extracted load =
     (case extracted of
        Inl e \<Rightarrow> Inl e
      | Inr d \<Rightarrow>
          (case chunk_pages (\<lambda>p n. chunk_page p enc s n) (xd_pages d) [] of
             Inl e \<Rightarrow> Inl e
           | Inr chunks \<Rightarrow>
               report_all load (report_line fixed3 language em s (length chunks)) chunks em
                 (if language = ''hr'' \<and> fastembed then [False, True] else [False])))"

section \<open>The chunker benchmark\<close>

definition median :: "real list \<Rightarrow> real result" where
  \<comment> \<open>\<open>statistics.median\<close>\<close>
  "median xs =
     (let ys = sort xs; n = length ys
      in if n = 0 then Inl (OtherException ''StatisticsError'')
         else if odd n then Inr (ys ! (n div 2)) else Inr ((ys ! (n div 2 - 1) + ys ! (n div 2)) / 2))"

datatype chunker = ReferenceChunker | GuardedChunker

definition run_chunker ::
  "(ustr \<Rightarrow> (nat \<times> nat) list) \<Rightarrow> ('a) worker_settings_scheme \<Rightarrow> page list \<Rightarrow> chunker \<Rightarrow> (chunk list) result" where
  "run_chunker enc s pages c =
     (case c of
        ReferenceChunker \<Rightarrow> chunk_pages (\<lambda>p n. reference_chunk_page p enc s n) pages []
      | GuardedChunker \<Rightarrow> chunk_pages (\<lambda>p n. chunk_page p enc s n) pages [])"

definition chunker_order :: "nat \<Rightarrow> chunker list" where
  \<comment> \<open>\<open>implementations[:: -1 if repeat % 2 else 1]\<close>\<close>
  "chunker_order r = (if r mod 2 \<noteq> 0 then rev [ReferenceChunker, GuardedChunker] else [ReferenceChunker, GuardedChunker])"

datatype timing = Extract | Encode | Chunked chunker

record bench =
  bn_ticks :: nat
  bn_samples :: "(timing \<times> real) list" \<comment> \<open>the samples of every key, in the order they are appended\<close>

definition timed :: "(nat \<Rightarrow> real) \<Rightarrow> timing \<Rightarrow> 'a result \<Rightarrow> (bench, 'a) proc" where
  \<comment> \<open>two readings of \<open>perf_counter\<close> around an operation; a failure leaves no sample\<close>
  "timed clock key r b =
     (case r of
        Inl e \<Rightarrow> (Inl e, b\<lparr>bn_ticks := bn_ticks b + 1\<rparr>)
      | Inr a \<Rightarrow> (Inr a, \<lparr>bn_ticks = bn_ticks b + 2,
          bn_samples = bn_samples b @ [(key, clock (bn_ticks b + 1) - clock (bn_ticks b))]\<rparr>))"

fun timed_chunkers ::
  "(nat \<Rightarrow> real) \<Rightarrow> (chunker \<Rightarrow> (chunk list) result) \<Rightarrow> chunker list \<Rightarrow> (bench, (chunker \<times> chunk list) list) proc" where
  "timed_chunkers clock chunks_of [] = returnE []"
| "timed_chunkers clock chunks_of (c # cs) =
     bindE (timed clock (Chunked c) (chunks_of c)) (\<lambda>out.
       bindE (timed_chunkers clock chunks_of cs) (\<lambda>outs. returnE ((c, out) # outs)))"

definition benchmark_repeat ::
  "(nat \<Rightarrow> real) \<Rightarrow> (ustr \<Rightarrow> (nat \<times> nat) list) \<Rightarrow> ('a) worker_settings_scheme \<Rightarrow> (nat \<Rightarrow> extracted_document result)
   \<Rightarrow> nat \<Rightarrow> (bench, extracted_document \<times> chunk list) proc" where
  \<comment> \<open>the body of the loop; \<open>extracted r\<close> is what \<open>extract(path)\<close> gives the \<open>r\<close>-th time\<close>
  "benchmark_repeat clock enc s extracted r =
     bindE (timed clock Extract (extracted r)) (\<lambda>d.
     thenE (timed clock Encode (Inr (map (\<lambda>p. enc (pg_text p)) (xd_pages d))))
       (bindE (timed_chunkers clock (run_chunker enc s (xd_pages d)) (chunker_order r)) (\<lambda>outs.
         (case (map_of outs ReferenceChunker, map_of outs GuardedChunker) of
            (Some a, Some b) \<Rightarrow> thenE (guardE (a = b) (OtherException ''AssertionError'')) (returnE (d, b))
          | _ \<Rightarrow> raiseE KeyError))))"

fun benchmark_repeats ::
  "(nat \<Rightarrow> (bench, 'a) proc) \<Rightarrow> nat list \<Rightarrow> 'a option \<Rightarrow> (bench, 'a option) proc" where
  \<comment> \<open>the loop keeps the values of its last round\<close>
  "benchmark_repeats body [] x = returnE x"
| "benchmark_repeats body (r # rs) x = bindE (body r) (\<lambda>y. benchmark_repeats body rs (Some y))"

record benchmark_report =
  br_pages :: nat
  br_chunks :: nat
  br_guarded :: nat
  br_ocr :: nat
  br_medians :: "(timing \<times> real result) list"
  br_samples :: "(timing \<times> real list) list"

definition samples_of :: "bench \<Rightarrow> timing \<Rightarrow> real list" where
  "samples_of b key = map snd (filter (\<lambda>(k, t). k = key) (bn_samples b))"

definition benchmark ::
  "(nat \<Rightarrow> real) \<Rightarrow> (ustr \<Rightarrow> (nat \<times> nat) list) \<Rightarrow> ('a) worker_settings_scheme \<Rightarrow> (nat \<Rightarrow> extracted_document result)
   \<Rightarrow> benchmark_report result" where
  "benchmark clock enc s extracted =
     (case benchmark_repeats (benchmark_repeat clock enc s extracted) [0 ..< 3] None \<lparr>bn_ticks = 0, bn_samples = []\<rparr> of
        (Inl e, b) \<Rightarrow> Inl e
      | (Inr None, b) \<Rightarrow> Inl (OtherException ''UnboundLocalError'')
      | (Inr (Some (d, chunks)), b) \<Rightarrow>
          (let samples = map (\<lambda>key. (key, samples_of b key)) [Extract, Encode, Chunked ReferenceChunker, Chunked GuardedChunker]
           in Inr \<lparr>br_pages = page_count d, br_chunks = length chunks,
                br_guarded = length (filter (\<lambda>p. requires_reference (pg_text p)) (xd_pages d)),
                br_ocr = length (filter (\<lambda>p. pg_source p = OCR) (xd_pages d)),
                br_medians = map (\<lambda>(key, ts). (key, median ts)) samples, br_samples = samples\<rparr>))"

section \<open>Waiting for a document\<close>

fun await_loop :: "(nat \<Rightarrow> real) \<Rightarrow> (nat \<Rightarrow> (nat \<times> string) result) \<Rightarrow> real \<Rightarrow> nat \<Rightarrow> nat \<Rightarrow> nat result option" where
  \<comment> \<open>\<open>n\<close> counts the requests made; \<open>get n\<close> is the answer to the next one, a status code and the status
      of the document; None when the fuel is spent\<close>
  "await_loop clock get deadline n 0 = None"
| "await_loop clock get deadline n (Suc fuel) =
     (if clock (Suc n) < deadline
      then
        (case get n of
           Inl e \<Rightarrow> Some (Inl e)
         | Inr (code, status) \<Rightarrow>
             if \<not> (200 \<le> code \<and> code < 300) then Some (Inl (HTTPStatusError code))
             else if status = ''processed'' then Some (Inr n)
             else if status = ''failed'' then Some (Inl (RuntimeError ''Fixture processing failed''))
             else await_loop clock get deadline (Suc n) fuel)
      else Some (Inl TimeoutError))"

definition await_processed :: "(nat \<Rightarrow> real) \<Rightarrow> (nat \<Rightarrow> (nat \<times> string) result) \<Rightarrow> nat \<Rightarrow> nat result option" where
  \<comment> \<open>the number of polls before the one that finds the document processed\<close>
  "await_processed clock get fuel = await_loop clock get (clock 0 + 600) 0 fuel"

section \<open>What the drivers leave behind\<close>

lemma delete_tenant_eq:
  assumes "db_ok dimension uuid5 d" and "tenant \<noteq> []"
  shows "delete_tenant tenant d = (Inr (),
    \<lparr>db_docs = filter (\<lambda>r. sd_tenant r \<noteq> tenant) (db_docs d), db_chunks = filter (\<lambda>r. cd_tenant r \<noteq> tenant) (db_chunks d),
     db_entities = filter (\<lambda>r. cd_tenant r \<noteq> tenant) (db_entities d),
     db_outbox = filter (\<lambda>r. ob_tenant r \<noteq> tenant) (db_outbox d)\<rparr>)"
proof -
  let ?keys = "(\<lambda>r. (sd_id r, sd_tenant r)) ` {r \<in> set (db_docs d). sd_tenant r = tenant}"
  have own: "(i, t) \<in> ?keys \<longleftrightarrow> t = tenant" if "(i, t) \<in> owners (db_docs d)" for i t
    using that by (auto simp: owners_def)
  have child: "filter (\<lambda>r. (cd_document r, cd_tenant r) \<notin> ?keys) rows = filter (\<lambda>r. cd_tenant r \<noteq> tenant) rows"
    if "children_ok uuid5 table (db_docs d) rows" for table and rows :: "'z child_row list"
    using that own by (intro filter_cong refl) (auto simp: children_ok_def)
  have event: "(ob_aggregate q, ob_tenant q) \<in> owners (db_docs d)" if "q \<in> set (db_outbox d)" for q
    using assms(1) that by (force simp: db_ok_def outbox_ok_def event_of_def owners_def)
  have out: "filter (\<lambda>r. (ob_aggregate r, ob_tenant r) \<notin> ?keys) (db_outbox d) = filter (\<lambda>r. ob_tenant r \<noteq> tenant) (db_outbox d)"
    using own event by (intro filter_cong refl) blast
  have chunks: "children_ok uuid5 ''chunks'' (db_docs d) (db_chunks d)"
    and entities: "children_ok uuid5 ''entities'' (db_docs d) (db_entities d)" using assms(1) by (simp_all add: db_ok_def)
  show ?thesis
    using assms(2) child [OF chunks] child [OF entities] out
    by (simp add: delete_tenant_def begin_tenant delete_documents_def Let_def)
qed

lemma owners_kept: "owners (filter (\<lambda>r. sd_tenant r \<noteq> tenant) docs) = {k \<in> owners docs. snd k \<noteq> tenant}"
  by (auto simp: owners_def)

lemma delete_tenant_keeps:
  assumes ok: "db_ok dimension uuid5 d" and "tenant \<noteq> []"
  shows "db_ok dimension uuid5 (snd (delete_tenant tenant d))"
proof -
  have docs: "docs_ok (filter (\<lambda>r. sd_tenant r \<noteq> tenant) (db_docs d))"
    using ok by (auto simp: db_ok_def docs_ok_def distinct_map_filter)
  have child: "children_ok uuid5 table (filter (\<lambda>r. sd_tenant r \<noteq> tenant) (db_docs d)) (filter (\<lambda>r. cd_tenant r \<noteq> tenant) rows)"
    if "children_ok uuid5 table (db_docs d) rows" for table and rows :: "'z child_row list"
    using that by (auto simp: children_ok_def owners_kept distinct_map_filter)
  have "outbox_ok (filter (\<lambda>r. sd_tenant r \<noteq> tenant) (db_docs d)) (filter (\<lambda>r. ob_tenant r \<noteq> tenant) (db_outbox d))"
  proof -
    have out: "outbox_ok (db_docs d) (db_outbox d)" using ok by (simp add: db_ok_def)
    then have "\<exists>r \<in> set (filter (\<lambda>r. sd_tenant r \<noteq> tenant) (db_docs d)). event_of r (ob_payload q)"
      if "q \<in> set (db_outbox d)" "ob_tenant q \<noteq> tenant" for q
      using that unfolding outbox_ok_def event_of_def by fastforce
    with out show ?thesis by (auto simp: outbox_ok_def distinct_map_filter)
  qed
  with docs ok child [of _ "db_chunks d"] child [of _ "db_entities d"] show ?thesis
    by (auto simp: delete_tenant_eq [OF assms] db_ok_def)
qed

lemma evaluation_body_shape:
  assumes "evaluation_body ev tenant new now clk d = (r, d')"
  shows "d' = snd (upsert_document (rp_dimension (ev_repository ev)) (rp_uuid5 (ev_repository ev)) new now clk tenant
    (ascii ''text_long.pdf'') (ev_document ev) d)"
  using assms
  by (auto simp: evaluation_body_def Let_def thenE_def bindE_def readE_def liftE_def guardE_def returnE_def
      split: prod.splits sum.splits if_splits)

theorem evaluation_leaves_no_trace:
  assumes "db_ok (rp_dimension (ev_repository ev)) (rp_uuid5 (ev_repository ev)) d" and "tenant \<noteq> []"
    and "evaluation_run ev tenant new now clk d = (r, d')"
  shows "db_ok (rp_dimension (ev_repository ev)) (rp_uuid5 (ev_repository ev)) d'
    \<and> tenant_view tenant d' = empty_db \<and> (\<forall>t. t \<noteq> tenant \<longrightarrow> tenant_view t d' = tenant_view t d)"
proof -
  let ?rp = "ev_repository ev"
  let ?call = "UpsertDocument new now clk (ascii ''text_long.pdf'') (ev_document ev)"
  obtain x d1 where body: "evaluation_body ev tenant new now clk d = (x, d1)" by fastforce
  have d1: "d1 = snd (repo_run ?rp tenant ?call d)" using evaluation_body_shape [OF body] by simp
  have ok1: "db_ok (rp_dimension ?rp) (rp_uuid5 ?rp) d1" unfolding d1 by (rule repo_run_keeps [OF assms(1)])
  have other: "tenant_view t d1 = tenant_view t d" if "t \<noteq> tenant" for t
    unfolding d1 using that by (rule repo_run_other [OF db_ok_docsD [OF assms(1)]])
  have d': "d' = snd (delete_tenant tenant d1)"
    using assms(3) body delete_tenant_eq [OF ok1 assms(2)] by (simp add: evaluation_run_def and_finally_def)
  have view: "tenant_view t d' = (if t = tenant then empty_db else tenant_view t d1)" for t
    unfolding d' delete_tenant_eq [OF ok1 assms(2)]
    by (auto simp: tenant_view_def empty_db_def filter_empty_conv intro!: filter_cong)
  from delete_tenant_keeps [OF ok1 assms(2)] view other show ?thesis unfolding d' [symmetric] by simp
qed

lemma timed_ok: "timed clock key (Inr a) b = (Inr a, \<lparr>bn_ticks = bn_ticks b + 2,
    bn_samples = bn_samples b @ [(key, clock (bn_ticks b + 1) - clock (bn_ticks b))]\<rparr>)"
  by (simp add: timed_def)

lemma benchmark_repeat_ok:
  assumes "word_tokenizer enc" and "extracted r = Inr d" and "run_chunker enc s (xd_pages d) GuardedChunker = Inr cs"
  shows "\<exists>b'. benchmark_repeat clock enc s extracted r b = (Inr (d, cs), b')
    \<and> (\<forall>key. length (samples_of b' key) = length (samples_of b key) + 1)"
proof -
  have both: "run_chunker enc s (xd_pages d) c = Inr cs" for c
    using assms(3) benchmark_outputs_equal [OF assms(1), of s "xd_pages d" "[]"]
    by (cases c) (simp_all add: run_chunker_def)
  have result: "\<exists>b' xs. benchmark_repeat clock enc s extracted r b = (Inr (d, cs), b') \<and> bn_samples b' = bn_samples b @ xs
    \<and> (map fst xs = [Extract, Encode, Chunked ReferenceChunker, Chunked GuardedChunker]
       \<or> map fst xs = [Extract, Encode, Chunked GuardedChunker, Chunked ReferenceChunker])"
    by (cases "r mod 2 = 0")
      (simp_all add: benchmark_repeat_def assms(2) bindE_def thenE_def timed_ok both chunker_order_def guardE_def returnE_def)
  then obtain b' xs where run: "benchmark_repeat clock enc s extracted r b = (Inr (d, cs), b')"
    and added: "bn_samples b' = bn_samples b @ xs"
    and keys: "map fst xs = [Extract, Encode, Chunked ReferenceChunker, Chunked GuardedChunker]
      \<or> map fst xs = [Extract, Encode, Chunked GuardedChunker, Chunked ReferenceChunker]"
    by metis
  have filtered: "length (filter (\<lambda>(k, t). k = key) ys) = count_list (map fst ys) key" for key and ys :: "(timing \<times> real) list"
    by (induction ys) auto
  have "count_list (map fst xs) key = 1" for key
  proof (cases key)
    case (Chunked c)
    with keys show ?thesis by (cases c) auto
  qed (use keys in auto)
  then have "length (samples_of b' key) = length (samples_of b key) + 1" for key
    by (simp add: samples_of_def added filtered)
  with run show ?thesis by blast
qed

lemma median_ok:
  assumes "xs \<noteq> []"
  shows "\<exists>m. median xs = Inr m"
proof -
  have "length (sort xs) \<noteq> 0" using assms by simp
  then show ?thesis unfolding median_def Let_def by (metis (full_types))
qed

theorem benchmark_reports:
  assumes "word_tokenizer enc" and "\<And>r. r < 3 \<Longrightarrow> extracted r = Inr d"
    and "run_chunker enc s (xd_pages d) GuardedChunker = Inr cs"
  shows "\<exists>report. benchmark clock enc s extracted = Inr report \<and> br_chunks report = length cs
    \<and> list_all (\<lambda>(key, m). \<exists>x. m = Inr x) (br_medians report) \<and> list_all (\<lambda>(key, ts). length ts = 3) (br_samples report)"
proof -
  have round: "\<exists>b'. benchmark_repeat clock enc s extracted r b = (Inr (d, cs), b')
      \<and> (\<forall>key. length (samples_of b' key) = length (samples_of b key) + 1)" if "r < 3" for r b
    using assms(1) assms(2) [OF that] assms(3) by (rule benchmark_repeat_ok)
  obtain b1 where b1: "benchmark_repeat clock enc s extracted 0 \<lparr>bn_ticks = 0, bn_samples = []\<rparr> = (Inr (d, cs), b1)"
    "\<And>key. length (samples_of b1 key) = 1"
    using round [of 0 "\<lparr>bn_ticks = 0, bn_samples = []\<rparr>"] by (auto simp: samples_of_def)
  obtain b2 where b2: "benchmark_repeat clock enc s extracted 1 b1 = (Inr (d, cs), b2)" "\<And>key. length (samples_of b2 key) = 2"
    using round [of 1 b1] b1(2) by auto
  obtain b3 where b3: "benchmark_repeat clock enc s extracted 2 b2 = (Inr (d, cs), b3)" "\<And>key. length (samples_of b3 key) = 3"
    using round [of 2 b2] b2(2) by auto
  have ne: "samples_of b3 key \<noteq> []" for key using b3(2) [of key] by auto
  have "[0 ..< 3] = [0, 1, 2 :: nat]" by (simp add: upt_rec)
  then show ?thesis
    using b1(1) b2(1) b3 median_ok [OF ne]
    by (simp add: benchmark_def bindE_def returnE_def Let_def)
qed

lemma await_loop_returns:
  assumes "\<And>m. clock (Suc m) + 2 \<le> clock (Suc (Suc m))" and "deadline \<le> clock (Suc n) + 2 * real fuel"
  shows "await_loop clock get deadline n (Suc fuel) \<noteq> None"
  using assms(2)
proof (induction fuel arbitrary: n)
  case (Suc fuel)
  have "deadline \<le> clock (Suc (Suc n)) + 2 * real fuel" using Suc.prems assms(1) [of n] by simp
  from Suc.IH [OF this] show ?case by (auto split: sum.split prod.split)
qed (auto split: sum.split prod.split)

theorem await_processed_returns:
  assumes "clock 0 \<le> clock 1" and "\<And>m. clock (Suc m) + 2 \<le> clock (Suc (Suc m))"
  shows "await_processed clock get 301 \<noteq> None"
proof -
  have "await_loop clock get (clock 0 + 600) 0 (Suc 300) \<noteq> None"
    using assms by (intro await_loop_returns) simp_all
  moreover have "(301 :: nat) = Suc 300" by simp
  ultimately show ?thesis unfolding await_processed_def by metis
qed

end
