(* ===== verification/DevIssuer.thy ===== *)
theory DevIssuer
  imports AuthLaws
begin

text \<open>
  The development issuer: key files (\<open>generate_keys\<close> of \<open>dev_identity.py\<close>), the container command
  \<open>dev_issuer.py\<close> and the script \<open>mint_token.py\<close>. A directory is a map from its files to their
  text; writing a file is creating or emptying it and then filling it, so that a process that
  dies in between leaves what reached the disk. Key generation, the JSON printer and parser
  and the JWT encoder are parameters.
\<close>

section \<open>Key files\<close>

datatype key_file = PrivateKey | PublicKey | KeySet
  \<comment> \<open>\<open>private.pem\<close>, \<open>public.pem\<close>, \<open>jwks.json\<close>\<close>

type_synonym key_directory = "(key_file \<rightharpoonup> ustr) option"

record fresh_keys =
  nk_private :: ustr
  nk_public :: ustr
  nk_jwk :: "(ustr \<times> json) list" \<comment> \<open>\<open>to_jwk\<close> of the public key, decoded\<close>
  nk_kid :: ustr \<comment> \<open>\<open>uuid4().hex\<close>\<close>

definition key_document :: "fresh_keys \<Rightarrow> json" where
  "key_document nk =
     jobj [(''keys'', JList [JObj (AList.update (ascii ''use'') (jstr ''sig'')
       (AList.update (ascii ''alg'') (jstr ''RS256'') (AList.update (ascii ''kid'') (JStr (nk_kid nk)) (nk_jwk nk))))])]"

datatype file_action = MakeDirectory | CreateExclusive key_file | OpenTruncated key_file | WriteText key_file ustr

fun do_action :: "file_action \<Rightarrow> (key_directory, unit) proc" where
  "do_action MakeDirectory d = (case d of None \<Rightarrow> (Inr (), Some Map.empty) | Some fs \<Rightarrow> (Inl OSError, d))"
| "do_action (CreateExclusive f) d =
     (case d of None \<Rightarrow> (Inl OSError, d)
      | Some fs \<Rightarrow> if fs f = None then (Inr (), Some (fs(f \<mapsto> []))) else (Inl OSError, d))"
| "do_action (OpenTruncated f) d =
     (case d of None \<Rightarrow> (Inl OSError, d) | Some fs \<Rightarrow> (Inr (), Some (fs(f \<mapsto> []))))"
| "do_action (WriteText f t) d =
     (case d of None \<Rightarrow> (Inl OSError, d) | Some fs \<Rightarrow> (Inr (), Some (fs(f \<mapsto> t))))"

definition generate_actions :: "(json \<Rightarrow> ustr) \<Rightarrow> fresh_keys \<Rightarrow> file_action list" where
  "generate_actions dumps nk =
     [MakeDirectory,
      CreateExclusive PrivateKey, WriteText PrivateKey (nk_private nk),
      OpenTruncated PublicKey, WriteText PublicKey (nk_public nk),
      OpenTruncated KeySet, WriteText KeySet (dumps (key_document nk))]"

definition generate_keys :: "(json \<Rightarrow> ustr) \<Rightarrow> fresh_keys \<Rightarrow> (key_directory, unit) proc" where
  "generate_keys dumps nk = forE do_action (generate_actions dumps nk)"

definition dev_keys :: "(json \<Rightarrow> ustr) \<Rightarrow> fresh_keys \<Rightarrow> key_directory \<Rightarrow> ustr result \<times> key_directory" where
  \<comment> \<open>\<open>dev_keys.py\<close>: the message it prints, or the parser's error as a \<open>SystemExit\<close>\<close>
  "dev_keys dumps nk d =
     (case generate_keys dumps nk d of
        (Inr _, d') \<Rightarrow> (Inr (ascii ''Development keys generated. Do not use this issuer in production.''), d')
      | (Inl e, d') \<Rightarrow> (Inl (if d \<noteq> None then OtherException ''SystemExit'' else e), d'))"

section \<open>The issuer of the container\<close>

record issuer =
  iv_keys :: key_directory
  iv_published :: "ustr option" \<comment> \<open>\<open>/jwks/jwks.json\<close>\<close>

definition key_text :: "key_file \<Rightarrow> key_directory \<Rightarrow> ustr option" where
  "key_text f d = (case d of None \<Rightarrow> None | Some fs \<Rightarrow> fs f)"

definition in_keys :: "(key_directory, 'a) proc \<Rightarrow> (issuer, 'a) proc" where
  "in_keys m v = (case m (iv_keys v) of (r, d) \<Rightarrow> (r, v\<lparr>iv_keys := d\<rparr>))"

definition publish_keys :: "(issuer, unit) proc" where
  \<comment> \<open>\<open>shutil.copyfile\<close>\<close>
  "publish_keys v =
     (case key_text KeySet (iv_keys v) of
        None \<Rightarrow> (Inl OSError, v) | Some t \<Rightarrow> (Inr (), v\<lparr>iv_published := Some t\<rparr>))"

definition ensure_keys :: "(json \<Rightarrow> ustr) \<Rightarrow> fresh_keys \<Rightarrow> bool \<Rightarrow> (issuer, unit) proc" where
  \<comment> \<open>\<open>ensure\<close>; \<open>removable\<close> says that \<open>rmtree\<close> can remove the directory, its errors are ignored\<close>
  "ensure_keys dumps nk removable =
     bindE (readE (\<lambda>v. key_text KeySet (iv_keys v))) (\<lambda>known.
       thenE (if known = None
              then thenE (writeE (\<lambda>v. if removable then v\<lparr>iv_keys := None\<rparr> else v))
                (in_keys (generate_keys dumps nk))
              else returnE ())
         publish_keys)"

definition directory_token ::
  "(ustr \<Rightarrow> json result) \<Rightarrow> (ustr \<Rightarrow> json \<Rightarrow> json \<Rightarrow> ustr result) \<Rightarrow> ('s) gateway_settings_scheme
   \<Rightarrow> real \<Rightarrow> key_directory \<Rightarrow> identity \<Rightarrow> int \<Rightarrow> ustr result" where
  \<comment> \<open>\<open>mint_token\<close> on the files of a directory; \<open>encode\<close> is \<open>jwt.encode\<close> with a private key\<close>
  "directory_token loads encode s now d i ttl =
     (if ttl \<le> 0 then Inl (ValueError ''ttl must be positive'')
      else
        (case key_text KeySet d of
           None \<Rightarrow> Inl OSError
         | Some t \<Rightarrow>
             bindR (loads t) (\<lambda>jwks.
               (case key_text PrivateKey d of
                  None \<Rightarrow> Inl OSError
                | Some key \<Rightarrow> mint_token (encode key) s jwks now i ttl))))"

datatype issuer_command = EnsureKeys | MintToken ustr ustr int

definition dev_issuer ::
  "(json \<Rightarrow> ustr) \<Rightarrow> (ustr \<Rightarrow> json result) \<Rightarrow> (ustr \<Rightarrow> json \<Rightarrow> json \<Rightarrow> ustr result) \<Rightarrow> ('s) gateway_settings_scheme result
   \<Rightarrow> real \<Rightarrow> fresh_keys \<Rightarrow> bool \<Rightarrow> issuer_command \<Rightarrow> (issuer, ustr) proc" where
  \<comment> \<open>\<open>main\<close> of \<open>dev_issuer.py\<close>: the line it prints; \<open>settings\<close> is the outcome of \<open>get_settings()\<close>\<close>
  "dev_issuer dumps loads encode settings now nk removable command =
     (case command of
        EnsureKeys \<Rightarrow> thenE (ensure_keys dumps nk removable)
          (returnE (ascii ''Development JWKS published; the private key stays in the issuer volume.''))
      | MintToken tenant user ttl \<Rightarrow>
          bindE (liftE (new_identity tenant user)) (\<lambda>i.
          bindE (liftE settings) (\<lambda>s.
          bindE (readE iv_keys) (\<lambda>d. liftE (directory_token loads encode s now d i ttl)))))"

definition mint_script ::
  "(ustr \<Rightarrow> json result) \<Rightarrow> (ustr \<Rightarrow> json \<Rightarrow> json \<Rightarrow> ustr result) \<Rightarrow> ('s) gateway_settings_scheme result
   \<Rightarrow> real \<Rightarrow> key_directory \<Rightarrow> ustr \<Rightarrow> ustr \<Rightarrow> int \<Rightarrow> ustr result" where
  \<comment> \<open>\<open>mint_token.py\<close>: the token it prints, or the parser's error as a \<open>SystemExit\<close>\<close>
  "mint_script loads encode settings now d tenant user ttl =
     (case bindR (new_identity tenant user) (\<lambda>i. bindR settings (\<lambda>s. directory_token loads encode s now d i ttl)) of
        Inr t \<Rightarrow> Inr t
      | Inl e \<Rightarrow> Inl (if is_value_error e \<or> is_os_error e then OtherException ''SystemExit'' else e))"

section \<open>Interrupted runs\<close>

definition interrupted :: "(json \<Rightarrow> ustr) \<Rightarrow> fresh_keys \<Rightarrow> nat \<Rightarrow> nat \<Rightarrow> key_directory" where
  \<comment> \<open>what a process leaves that dies after \<open>n\<close> actions and \<open>k\<close> characters of the next one\<close>
  "interrupted dumps nk n k =
     (let acts = generate_actions dumps nk
      in snd (forE do_action (take n acts
           @ (case drop n acts of WriteText f t # _ \<Rightarrow> [WriteText f (take k t)] | _ \<Rightarrow> [])) None))"

definition complete_keys :: "(json \<Rightarrow> ustr) \<Rightarrow> fresh_keys \<Rightarrow> key_directory" where
  "complete_keys dumps nk = Some [PrivateKey \<mapsto> nk_private nk, PublicKey \<mapsto> nk_public nk,
     KeySet \<mapsto> dumps (key_document nk)]"

lemma generate_completes: "generate_keys dumps nk None = (Inr (), complete_keys dumps nk)"
  by (simp add: generate_keys_def generate_actions_def complete_keys_def thenE_def bindE_def returnE_def fun_upd_twist)

lemma ensure_fresh:
  assumes "key_text KeySet d = None"
  shows "ensure_keys dumps nk True \<lparr>iv_keys = d, iv_published = p\<rparr>
    = (Inr (), \<lparr>iv_keys = complete_keys dumps nk, iv_published = Some (dumps (key_document nk))\<rparr>)"
  using assms by (simp add: ensure_keys_def bindE_def thenE_def readE_def writeE_def in_keys_def
      generate_completes publish_keys_def key_text_def complete_keys_def)

lemma ensure_known:
  assumes "key_text KeySet d = Some t"
  shows "ensure_keys dumps nk removable \<lparr>iv_keys = d, iv_published = p\<rparr> = (Inr (), \<lparr>iv_keys = d, iv_published = Some t\<rparr>)"
  using assms by (simp add: ensure_keys_def bindE_def thenE_def readE_def returnE_def publish_keys_def)

lemma interrupted_cases:
  "n \<le> 5 \<Longrightarrow> key_text KeySet (interrupted dumps nk n k) = None"
  "key_text KeySet (interrupted dumps nk 6 k) = Some (take k (dumps (key_document nk)))"
  "7 \<le> n \<Longrightarrow> interrupted dumps nk n k = complete_keys dumps nk"
proof -
  show "key_text KeySet (interrupted dumps nk n k) = None" if "n \<le> 5"
  proof -
    from that have "n = 0 \<or> n = 1 \<or> n = 2 \<or> n = 3 \<or> n = 4 \<or> n = 5" by arith
    then show ?thesis
      by (elim disjE) (simp_all add: interrupted_def generate_actions_def key_text_def thenE_def bindE_def returnE_def
          numeral_eq_Suc)
  qed
  show "key_text KeySet (interrupted dumps nk 6 k) = Some (take k (dumps (key_document nk)))"
    by (simp add: interrupted_def generate_actions_def key_text_def thenE_def bindE_def returnE_def numeral_eq_Suc)
  show "interrupted dumps nk n k = complete_keys dumps nk" if "7 \<le> n"
    using that generate_completes [of dumps nk]
    by (simp add: interrupted_def generate_actions_def generate_keys_def)
qed

theorem interrupted_issuer_recovers:
  "case ensure_keys dumps nk' True \<lparr>iv_keys = interrupted dumps nk n k, iv_published = p\<rparr> of (r, v) \<Rightarrow>
     r = Inr () \<and> iv_published v = key_text KeySet (iv_keys v)
     \<and> (if n = 6 then iv_published v = Some (take k (dumps (key_document nk)))
        else iv_keys v = (if n < 6 then complete_keys dumps nk' else complete_keys dumps nk))"
proof (cases "n \<le> 5")
  case True
  from ensure_fresh [OF interrupted_cases(1) [OF this]] True show ?thesis
    by (simp add: key_text_def complete_keys_def)
next
  case False
  then have "n = 6 \<or> 7 \<le> n" by arith
  then show ?thesis
  proof
    assume "n = 6"
    with ensure_known [OF interrupted_cases(2)] interrupted_cases(2) show ?thesis by simp
  next
    assume n: "7 \<le> n"
    have "key_text KeySet (complete_keys dumps nk) = Some (dumps (key_document nk))"
      by (simp add: key_text_def complete_keys_def)
    from ensure_known [OF this] n interrupted_cases(3) [OF n] this show ?thesis by simp
  qed
qed

text \<open>
  A run that dies while it writes \<open>jwks.json\<close> itself is not repaired: the truncated file exists, so
  every later \<open>ensure\<close> publishes it as it is.
\<close>

lemma truncated_key_set_stays:
  assumes "key_text KeySet (iv_keys v) = Some t"
  shows "((\<lambda>v. snd (ensure_keys dumps nk True v)) ^^ Suc m) v = v\<lparr>iv_published := Some t\<rparr>"
proof -
  have step: "snd (ensure_keys dumps nk True u) = u\<lparr>iv_published := Some t\<rparr>" if "key_text KeySet (iv_keys u) = Some t" for u
    using ensure_known [OF that, of dumps nk True "iv_published u"] by (cases u) simp
  show ?thesis by (induction m) (simp_all add: step assms)
qed

lemma key_document_kid:
  "bindR (jitem (key_document nk) ''keys'') (\<lambda>keys. bindR (first_item keys) (\<lambda>key. jitem key ''kid'')) = Inr (JStr (nk_kid nk))"
  by (simp add: key_document_def jobj_def jitem_def bindR_def first_item_def ascii_def update_conv')

theorem issued_token_names_published_key:
  assumes "loads (dumps (key_document nk)) = Inr (key_document nk)" and "0 < ttl"
  shows "directory_token loads encode s now (complete_keys dumps nk) i ttl
    = encode (nk_private nk) (mint_claims s i \<lfloor>now\<rfloor> ttl) (JStr (nk_kid nk))"
  using assms key_document_kid [of nk]
  by (auto simp: directory_token_def complete_keys_def key_text_def mint_token_def bindR_def split: sum.splits)

end
